(* ===== verification/Prelude.thy ===== *)
theory Prelude
  imports Main "HOL-Library.Word"
begin

text \<open>
  Shared vocabulary of the development: the C integer types of
  \<^verbatim>\<open>src/student-distrib/types.h\<close> as machine words, the flat byte memory, C pointers as
  views of a memory, little-endian loads and stores, and the generic facts on words, ranges of
  addresses and lists that the components share.

  Two collections carry the automation: \<open>word_norm\<close> moves a goal on words to naturals,
  \<open>mem_simps\<close> reads a memory after a store.
\<close>

unbundle bit_operations_syntax

named_theorems word_norm \<open>word arithmetic moved to natural numbers\<close>
named_theorems mem_simps \<open>reading a memory after a write\<close>

section \<open>Types\<close>

type_synonym byte = "8 word"
type_synonym u16 = "16 word"
type_synonym u32 = "32 word"

text \<open>A memory maps every 32-bit address to the byte stored there.\<close>

type_synonym mem = "u32 \<Rightarrow> byte"

text \<open>
  What a C pointer \<open>p\<close> to bytes shows: \<open>p[i]\<close> for every index \<open>i\<close>. A view does not say where
  the bytes are stored, so it is used for data that a function only reads.
\<close>

type_synonym cptr = "nat \<Rightarrow> byte"

definition view :: "mem \<Rightarrow> u32 \<Rightarrow> cptr" where
  "view m p = (\<lambda>i. m (p + of_nat i))"

text \<open>A view of the bytes of a list, zero beyond its end, and the first bytes of a view.\<close>

definition list_view :: "byte list \<Rightarrow> cptr" where
  "list_view bs = (\<lambda>i. if i < length bs then bs ! i else 0)"

definition view_take :: "cptr \<Rightarrow> nat \<Rightarrow> byte list" where
  "view_take p n = map p [0..<n]"

text \<open>ASCII text as bytes.\<close>

definition ascii :: "string \<Rightarrow> byte list" where
  "ascii cs = map (\<lambda>c. of_nat (of_char c)) cs"

text \<open>C's \<open>int32_t\<close> reading of a 32-bit value, and the value of an \<open>int32_t\<close> as \<open>uint32_t\<close>.\<close>

abbreviation s32 :: "u32 \<Rightarrow> int" where
  "s32 w \<equiv> sint w"

abbreviation w32 :: "int \<Rightarrow> u32" where
  "w32 i \<equiv> word_of_int i"

section \<open>Words\<close>

lemma unat_minus_if [word_norm]:
  fixes a b :: "'a::len word"
  shows "unat (a - b) =
    (if unat b \<le> unat a then unat a - unat b else unat a + 2 ^ LENGTH('a) - unat b)"
  by (simp add: unat_sub_if_size word_le_nat_alt word_size)

lemma unat_plus_if [word_norm]:
  fixes a b :: "'a::len word"
  shows "unat (a + b) =
    (if unat a + unat b < 2 ^ LENGTH('a) then unat a + unat b
     else unat a + unat b - 2 ^ LENGTH('a))"
  by (simp add: unat_plus_if_size word_size)

lemma unat_pred_less: "(c :: 'a::len word) \<noteq> 0 \<Longrightarrow> unat (c - 1) < unat c"
  by (metis diff_less less_numeral_extra(1) unat_gt_0 unat_minus_one)

lemma unat_pred: "(c :: 'a::len word) \<noteq> 0 \<Longrightarrow> unat (c - 1) = unat c - 1"
  by (rule unat_minus_one)

lemma u32_lt [simp]: "unat (a :: u32) < 4294967296"
  using unsigned_less [of a] by simp

lemma u32_le [simp]: "unat (a :: u32) \<le> 4294967296"
  by (rule less_imp_le) simp

lemma unat_w32: "0 \<le> i \<Longrightarrow> i < 4294967296 \<Longrightarrow> unat (w32 i) = nat i"
  by (simp add: unat_eq_nat_uint uint_word_of_int)

lemma w32_inj:
  "0 \<le> x \<Longrightarrow> x < 4294967296 \<Longrightarrow> 0 \<le> y \<Longrightarrow> y < 4294967296 \<Longrightarrow> w32 x = w32 y \<longleftrightarrow> x = y"
  by (metis unat_w32 eq_nat_nat_iff)

lemma w32_offset: "a = s + w32 (int (unat (a - s)))"
  by simp

lemma u32_uint_lt [simp]: "uint (a :: u32) < 4294967296"
  using unsigned_less [of a] by simp

lemma s32_w32: "- 2147483648 \<le> i \<Longrightarrow> i < 2147483648 \<Longrightarrow> s32 (w32 i) = i"
  by (simp add: signed_of_int signed_take_bit_int_eq_self)

lemma s32_of_nat: "n < 2147483648 \<Longrightarrow> s32 (of_nat n) = int n"
  using s32_w32 [of "int n"] by simp

lemma unat_neg_1: "unat (- 1 :: u32) = 4294967295"
  by (simp add: unsigned_minus_1_eq_mask mask_eq_exp_minus_1)

lemma bit_byte_high: "8 \<le> n \<Longrightarrow> \<not> bit (b :: byte) n"
  by (auto dest: bit_imp_le_length)

lemma bit_255 [simp]: "bit (255 :: int) n \<longleftrightarrow> n < 8"
proof -
  have "(255 :: int) = mask 8" by (simp add: mask_eq_exp_minus_1)
  then have "bit (255 :: int) n \<longleftrightarrow> bit (mask 8 :: int) n" by (rule arg_cong)
  also have "\<dots> \<longleftrightarrow> n < 8" by (simp only: bit_mask_iff possible_bit_int) auto
  finally show ?thesis .
qed

section \<open>Views and lists\<close>

lemma view_apply [simp]: "view m p i = m (p + of_nat i)"
  by (simp add: view_def)

lemma length_view_take [simp]: "length (view_take p n) = n"
  by (simp add: view_take_def)

lemma nth_view_take [simp]: "i < n \<Longrightarrow> view_take p n ! i = p i"
  by (simp add: view_take_def)

lemma view_take_Suc: "view_take p (Suc n) = view_take p n @ [p n]"
  by (simp add: view_take_def)

lemma view_take_0 [simp]: "view_take p 0 = []"
  by (simp add: view_take_def)

lemma view_take_list_view: "view_take (list_view bs) (length bs) = bs"
  by (rule nth_equalityI) (simp_all add: list_view_def)

lemma list_view_nth [simp]: "i < length bs \<Longrightarrow> list_view bs i = bs ! i"
  by (simp add: list_view_def)

lemma length_ascii [simp]: "length (ascii cs) = length cs"
  by (simp add: ascii_def)

lemma take_append_rest:
  "take n (drop off xs) @ drop (off + length (take n (drop off xs))) xs = drop off xs"
proof (cases "n \<le> length (drop off xs)")
  case True
  then have eq: "drop (off + length (take n (drop off xs))) xs = drop n (drop off xs)" by (simp add: add.commute)
  show ?thesis unfolding eq by (rule append_take_drop_id)
qed simp

section \<open>Ranges of addresses\<close>

text \<open>\<open>in_range p n a\<close>: the address \<open>a\<close> is one of the \<open>n\<close> bytes from \<open>p\<close> on (ranges may wrap).\<close>

definition in_range :: "u32 \<Rightarrow> nat \<Rightarrow> u32 \<Rightarrow> bool" where
  "in_range p n a \<longleftrightarrow> unat (a - p) < n"

lemma in_range_0 [simp]: "\<not> in_range p 0 a"
  by (simp add: in_range_def)

lemma in_range_Suc:
  assumes "Suc n \<le> 4294967296"
  shows "in_range p (Suc n) a \<longleftrightarrow> a = p \<or> in_range (p + 1) n a"
proof (cases "a = p")
  case True
  then show ?thesis by (simp add: in_range_def)
next
  case False
  then have nz: "a - p \<noteq> 0" by simp
  have eq: "a - (p + 1) = (a - p) - 1" by simp
  have "unat (a - (p + 1)) = unat (a - p) - 1"
    unfolding eq by (rule unat_pred [OF nz])
  moreover have "0 < unat (a - p)"
    using nz by (simp add: unat_gt_0)
  ultimately show ?thesis
    using False by (auto simp: in_range_def)
qed

lemma in_range_mono: "in_range p n a \<Longrightarrow> n \<le> k \<Longrightarrow> in_range p k a"
  by (simp add: in_range_def)

lemma in_range_offset: "i < n \<Longrightarrow> i < 4294967296 \<Longrightarrow> in_range p n (p + of_nat i)"
  by (simp add: in_range_def unat_of_nat)

text \<open>Two ranges of \<open>n\<close> bytes that share no address.\<close>

definition disjoint_ranges :: "u32 \<Rightarrow> nat \<Rightarrow> u32 \<Rightarrow> nat \<Rightarrow> bool" where
  "disjoint_ranges p n q k \<longleftrightarrow> (\<forall>a. \<not> (in_range p n a \<and> in_range q k a))"

text \<open>A memory with the bytes of a list written from \<open>p\<close> on.\<close>

definition written :: "mem \<Rightarrow> u32 \<Rightarrow> byte list \<Rightarrow> mem" where
  "written m p bs = (\<lambda>a. if in_range p (length bs) a then bs ! unat (a - p) else m a)"

lemma written_Nil [simp]: "written m p [] = m"
  by (simp add: written_def)

lemma in_range_pred: "a \<noteq> p \<Longrightarrow> unat (a - p) = Suc (unat (a - (p + 1)))"
  using unat_pred [of "a - p"] by (simp add: diff_diff_eq unat_gt_0)

lemma in_range_not_before: "n < 4294967296 \<Longrightarrow> \<not> in_range (p + 1) n p"
  by (simp add: in_range_def unat_neg_1)

lemma written_Cons:
  assumes "length bs < 4294967296"
  shows "written m p (b # bs) = written (m(p := b)) (p + 1) bs"
proof
  fix a
  show "written m p (b # bs) a = written (m(p := b)) (p + 1) bs a"
    using assms in_range_not_before [OF assms, of p]
    by (cases "a = p") (simp_all add: written_def in_range_def in_range_pred)
qed

lemma view_written:
  assumes "length bs \<le> 4294967296"
  shows "view_take (view (written m p bs) p) (length bs) = bs"
proof (rule nth_equalityI)
  fix i
  assume "i < length (view_take (view (written m p bs) p) (length bs))"
  then have "i < length bs" and "i < 4294967296" using assms by simp_all
  then show "view_take (view (written m p bs) p) (length bs) ! i = bs ! i"
    by (simp add: view_take_def view_def written_def in_range_def unat_of_nat)
qed (simp add: view_take_def)

section \<open>Little-endian words in memory\<close>

definition store_le32 :: "mem \<Rightarrow> u32 \<Rightarrow> u32 \<Rightarrow> mem" where
  "store_le32 m a w =
     m(a := ucast w, a + 1 := ucast (drop_bit 8 w),
       a + 2 := ucast (drop_bit 16 w), a + 3 := ucast (drop_bit 24 w))"

definition load_le32 :: "cptr \<Rightarrow> nat \<Rightarrow> u32" where
  "load_le32 p i =
     ucast (p i) OR push_bit 8 (ucast (p (i + 1))) OR
     push_bit 16 (ucast (p (i + 2))) OR push_bit 24 (ucast (p (i + 3)))"

lemma load_le32_bytes:
  "ucast (load_le32 p i) = p i"
  "ucast (drop_bit 8 (load_le32 p i)) = p (i + 1)"
  "ucast (drop_bit 16 (load_le32 p i)) = p (i + 2)"
  "ucast (drop_bit 24 (load_le32 p i)) = p (i + 3)"
  by (auto intro!: bit_word_eqI simp: load_le32_def bit_simps not_less bit_byte_high)


end
