(* ===== verification/LibMem.thy ===== *)
theory LibMem
  imports Prelude
begin

text \<open>
  The memory routines of \<^verbatim>\<open>src/student-distrib/lib.c\<close>: \<open>memset\<close>, \<open>memset_word\<close>,
  \<open>memset_dword\<close>, \<open>memcpy\<close> and \<open>memmove\<close>. They are inline assembly, so each block between
  two labels is one definition over the registers it uses (\<open>eax\<close>, \<open>ecx\<close>, \<open>edx\<close>, \<open>esi\<close>,
  \<open>edi\<close>) and the memory, and each \<^verbatim>\<open>rep\<close> instruction is a recursion on its count.

  The reference functions \<open>filled\<close> and \<open>copied\<close> say in one line what a fill and a copy do.
  The routines are proved equal to them: \<open>memset\<close> always, \<open>memcpy\<close> unless the destination
  starts inside the source, \<open>memmove\<close> for every overlap of ranges that do not wrap around
  the address space. The locale \<open>byte_copy\<close> states what a client relies on.
\<close>

section \<open>Definitions\<close>

subsection \<open>memset\<close>

definition memset_eax :: "u32 \<Rightarrow> u32" where
  "memset_eax c =
     (let c = c AND 0xFF in push_bit 24 c OR push_bit 16 c OR push_bit 8 c OR c)"

text \<open>
  \<^verbatim>\<open>.memset_top\<close>: bytes until the count is used up or \<open>edi\<close> is a multiple of 4. A result with
  \<open>ecx = 0\<close> is the jump to \<^verbatim>\<open>.memset_done\<close>, any other one the jump to \<^verbatim>\<open>.memset_aligned\<close>.
\<close>

function memset_top :: "mem \<Rightarrow> byte \<Rightarrow> u32 \<Rightarrow> u32 \<Rightarrow> mem \<times> u32 \<times> u32" where
  "memset_top m al edi ecx =
     (if ecx = 0 then (m, edi, ecx)
      else if edi AND 3 = 0 then (m, edi, ecx)
      else memset_top (m(edi := al)) al (edi + 1) (ecx - 1))"
  by pat_completeness auto
termination
  by (relation "measure (\<lambda>(m, al, edi, ecx). unat ecx)") (auto simp: unat_pred_less)

primrec rep_stosl :: "nat \<Rightarrow> mem \<Rightarrow> u32 \<Rightarrow> u32 \<Rightarrow> mem \<times> u32" where
  "rep_stosl 0 m eax edi = (m, edi)"
| "rep_stosl (Suc k) m eax edi = rep_stosl k (store_le32 m edi eax) eax (edi + 4)"

function memset_bottom :: "mem \<Rightarrow> byte \<Rightarrow> u32 \<Rightarrow> u32 \<Rightarrow> mem" where
  "memset_bottom m al edi edx =
     (if edx = 0 then m else memset_bottom (m(edi := al)) al (edi + 1) (edx - 1))"
  by pat_completeness auto
termination
  by (relation "measure (\<lambda>(m, al, edi, edx). unat edx)") (auto simp: unat_pred_less)

definition memset :: "mem \<Rightarrow> u32 \<Rightarrow> u32 \<Rightarrow> u32 \<Rightarrow> mem" where
  "memset m s c n =
     (let eax = memset_eax c;
          (m1, edi, ecx) = memset_top m (ucast eax) s n
      in if ecx = 0 then m1
         else let edx = ecx AND 3;
                  (m2, edi2) = rep_stosl (unat (drop_bit 2 ecx)) m1 eax edi
              in memset_bottom m2 (ucast eax) edi2 edx)"

subsection \<open>memset\_word, memset\_dword\<close>

definition store_le16 :: "mem \<Rightarrow> u32 \<Rightarrow> u32 \<Rightarrow> mem" where
  "store_le16 m a w = m(a := ucast w, a + 1 := ucast (drop_bit 8 w))"

primrec rep_stosw :: "nat \<Rightarrow> mem \<Rightarrow> u32 \<Rightarrow> u32 \<Rightarrow> mem" where
  "rep_stosw 0 m eax edi = m"
| "rep_stosw (Suc k) m eax edi = rep_stosw k (store_le16 m edi eax) eax (edi + 2)"

definition memset_word :: "mem \<Rightarrow> u32 \<Rightarrow> u32 \<Rightarrow> u32 \<Rightarrow> mem" where
  "memset_word m s c n = rep_stosw (unat n) m c s"

definition memset_dword :: "mem \<Rightarrow> u32 \<Rightarrow> u32 \<Rightarrow> u32 \<Rightarrow> mem" where
  "memset_dword m s c n = fst (rep_stosl (unat n) m c s)"

subsection \<open>memcpy\<close>

function memcpy_top :: "mem \<Rightarrow> u32 \<Rightarrow> u32 \<Rightarrow> u32 \<Rightarrow> mem \<times> u32 \<times> u32 \<times> u32" where
  "memcpy_top m edi esi ecx =
     (if ecx = 0 then (m, edi, esi, ecx)
      else if edi AND 3 = 0 then (m, edi, esi, ecx)
      else memcpy_top (m(edi := m esi)) (edi + 1) (esi + 1) (ecx - 1))"
  by pat_completeness auto
termination
  by (relation "measure (\<lambda>(m, edi, esi, ecx). unat ecx)") (auto simp: unat_pred_less)

primrec rep_movsl :: "nat \<Rightarrow> mem \<Rightarrow> u32 \<Rightarrow> u32 \<Rightarrow> mem \<times> u32 \<times> u32" where
  "rep_movsl 0 m edi esi = (m, edi, esi)"
| "rep_movsl (Suc k) m edi esi =
     rep_movsl k (store_le32 m edi (load_le32 (view m esi) 0)) (edi + 4) (esi + 4)"

function memcpy_bottom :: "mem \<Rightarrow> u32 \<Rightarrow> u32 \<Rightarrow> u32 \<Rightarrow> mem" where
  "memcpy_bottom m edi esi edx =
     (if edx = 0 then m
      else memcpy_bottom (m(edi := m esi)) (edi + 1) (esi + 1) (edx - 1))"
  by pat_completeness auto
termination
  by (relation "measure (\<lambda>(m, edi, esi, edx). unat edx)") (auto simp: unat_pred_less)

definition memcpy :: "mem \<Rightarrow> u32 \<Rightarrow> u32 \<Rightarrow> u32 \<Rightarrow> mem" where
  "memcpy m dest src n =
     (let (m1, edi, esi, ecx) = memcpy_top m dest src n
      in if ecx = 0 then m1
         else let edx = ecx AND 3;
                  (m2, edi2, esi2) = rep_movsl (unat (drop_bit 2 ecx)) m1 edi esi
              in memcpy_bottom m2 edi2 esi2 edx)"

subsection \<open>memmove\<close>

text \<open>\<^verbatim>\<open>rep movsb\<close> with the direction flag clear and set.\<close>

primrec rep_movsb_up :: "nat \<Rightarrow> mem \<Rightarrow> u32 \<Rightarrow> u32 \<Rightarrow> mem" where
  "rep_movsb_up 0 m edi esi = m"
| "rep_movsb_up (Suc k) m edi esi = rep_movsb_up k (m(edi := m esi)) (edi + 1) (esi + 1)"

primrec rep_movsb_down :: "nat \<Rightarrow> mem \<Rightarrow> u32 \<Rightarrow> u32 \<Rightarrow> mem" where
  "rep_movsb_down 0 m edi esi = m"
| "rep_movsb_down (Suc k) m edi esi = rep_movsb_down k (m(edi := m esi)) (edi - 1) (esi - 1)"

text \<open>The second component is the direction flag of the CPU when the routine returns.\<close>

definition memmove :: "mem \<Rightarrow> u32 \<Rightarrow> u32 \<Rightarrow> u32 \<Rightarrow> mem \<times> bool" where
  "memmove m dest src n =
     (if src \<ge> dest then (rep_movsb_up (unat n) m dest src, False)
      else (rep_movsb_down (unat n) m (dest + n - 1) (src + n - 1), True))"

subsection \<open>Reference functions\<close>

definition filled :: "mem \<Rightarrow> u32 \<Rightarrow> nat \<Rightarrow> byte \<Rightarrow> mem" where
  "filled m p n b = (\<lambda>a. if in_range p n a then b else m a)"

definition copied :: "mem \<Rightarrow> u32 \<Rightarrow> u32 \<Rightarrow> nat \<Rightarrow> mem" where
  "copied m d s n = (\<lambda>a. if in_range d n a then m (s + (a - d)) else m a)"

declare memset_top.simps [simp del] memset_bottom.simps [simp del]
declare memcpy_top.simps [simp del] memcpy_bottom.simps [simp del]

section \<open>Filling\<close>

lemma unat_split_4: "4 * unat (drop_bit 2 w) + unat (w AND 3) = unat (w :: u32)"
proof -
  have "w AND 3 = take_bit 2 w"
    by (simp add: take_bit_eq_mask mask_eq_exp_minus_1)
  then have "unat (w AND 3) = unat w mod 4"
    by (simp add: take_bit_eq_mod unat_mod_distrib)
  moreover have "unat (drop_bit 2 w) = unat w div 4"
    by (simp add: drop_bit_eq_div unat_div_distrib)
  ultimately show ?thesis by simp
qed

lemma filled_0 [simp]: "filled m p 0 b = m"
  by (simp add: filled_def)

text \<open>One byte stored is one byte less to fill.\<close>

lemma filled_step:
  "Suc k \<le> 4294967296 \<Longrightarrow> filled (m(p := b)) (p + 1) k b = filled m p (Suc k) b"
  by (auto simp: filled_def fun_eq_iff in_range_Suc)

lemma memset_top_filled:
  "memset_top m b edi ecx = (m', edi', ecx') \<Longrightarrow>
     filled m' edi' (unat ecx') b = filled m edi (unat ecx) b"
proof (induction m b edi ecx rule: memset_top.induct)
  case (1 m b edi ecx)
  show ?case
  proof (cases "ecx = 0 \<or> edi AND 3 = 0")
    case True
    with "1.prems" show ?thesis by (auto simp: memset_top.simps [of m b edi ecx] split: if_splits)
  next
    case False
    with 1 have "filled m' edi' (unat ecx') b = filled (m(edi := b)) (edi + 1) (unat (ecx - 1)) b"
      by (simp add: memset_top.simps [of m b edi ecx] fun_upd_def)
    also have "\<dots> = filled m edi (Suc (unat (ecx - 1))) b"
      using u32_lt [of "ecx - 1"] by (intro filled_step) linarith
    finally show ?thesis
      using False by (simp add: unat_pred unat_gt_0)
  qed
qed

lemma memset_bottom_filled: "memset_bottom m b edi edx = filled m edi (unat edx) b"
proof (induction m b edi edx rule: memset_bottom.induct)
  case (1 m b edi edx)
  show ?case
  proof (cases "edx = 0")
    case True
    then show ?thesis by (simp add: memset_bottom.simps)
  next
    case False
    with 1 have "memset_bottom m b edi edx = filled (m(edi := b)) (edi + 1) (unat (edx - 1)) b"
      by (simp add: memset_bottom.simps [of m b edi edx] fun_upd_def)
    also have "\<dots> = filled m edi (Suc (unat (edx - 1))) b"
      using u32_lt [of "edx - 1"] by (intro filled_step) linarith
    finally show ?thesis
      using False by (simp add: unat_pred unat_gt_0)
  qed
qed

lemma filled_store_le32:
  assumes "ucast w = b" "ucast (drop_bit 8 w) = b" "ucast (drop_bit 16 w) = b"
    "ucast (drop_bit 24 w) = b" and k: "k + 4 \<le> 4294967296"
  shows "filled (store_le32 m p w) (p + 4) k b = filled m p (k + 4) b"
proof -
  have n: "k + 4 = Suc (k + 3)" "k + 3 = Suc (k + 2)" "k + 2 = Suc (k + 1)" "k + 1 = Suc k"
    by simp_all
  have p: "p + 2 = p + 1 + 1" "p + 3 = p + 2 + 1" "p + 4 = p + 3 + 1"
    by simp_all
  have "filled m p (k + 4) b = filled (m(p := b)) (p + 1) (k + 3) b"
    using k unfolding n(1) by (rule filled_step [symmetric])
  also have "\<dots> = filled (m(p := b, p + 1 := b)) (p + 2) (k + 2) b"
    using k unfolding n(2) p(1) by (intro filled_step [symmetric]) simp
  also have "\<dots> = filled (m(p := b, p + 1 := b, p + 2 := b)) (p + 3) (k + 1) b"
    using k unfolding n(3) p(2) by (intro filled_step [symmetric]) simp
  also have "\<dots> = filled (m(p := b, p + 1 := b, p + 2 := b, p + 3 := b)) (p + 4) k b"
    using k unfolding n(4) p(3) by (intro filled_step [symmetric]) simp
  finally show ?thesis
    using assms by (simp add: store_le32_def)
qed

lemma rep_stosl_filled:
  assumes "ucast w = b" "ucast (drop_bit 8 w) = b" "ucast (drop_bit 16 w) = b"
    "ucast (drop_bit 24 w) = b" and "4 * k + r \<le> 4294967296"
  shows "rep_stosl k m w p = (m', p') \<Longrightarrow> filled m' p' r b = filled m p (4 * k + r) b"
  using assms(5)
proof (induction k arbitrary: m p)
  case 0
  then show ?case by simp
next
  case (Suc k)
  then have "filled m' p' r b = filled (store_le32 m p w) (p + 4) (4 * k + r) b"
    by simp
  also have "\<dots> = filled m p (4 * k + r + 4) b"
    using assms Suc.prems(2) by (intro filled_store_le32) simp_all
  finally show ?case by (simp add: algebra_simps)
qed

lemma memset_eax_bytes:
  "ucast (memset_eax c) = (ucast c :: byte)"
  "ucast (drop_bit 8 (memset_eax c)) = (ucast c :: byte)"
  "ucast (drop_bit 16 (memset_eax c)) = (ucast c :: byte)"
  "ucast (drop_bit 24 (memset_eax c)) = (ucast c :: byte)"
  by (auto intro!: bit_word_eqI simp: memset_eax_def Let_def bit_simps word_ao_dist)

text \<open>C39. memset stores the low byte of its second argument to exactly the \<open>n\<close> bytes from
  \<open>s\<close> on, for every alignment of \<open>s\<close> and every length.\<close>

theorem memset_filled: "memset m s c n = filled m s (unat n) (ucast c)"
proof -
  obtain m1 edi ecx where top: "memset_top m (ucast c) s n = (m1, edi, ecx)"
    by (cases "memset_top m (ucast c) s n") auto
  obtain m2 edi2 where mid: "rep_stosl (unat (drop_bit 2 ecx)) m1 (memset_eax c) edi = (m2, edi2)"
    by (cases "rep_stosl (unat (drop_bit 2 ecx)) m1 (memset_eax c) edi") auto
  have split: "4 * unat (drop_bit 2 ecx) + unat (ecx AND 3) = unat ecx"
    by (rule unat_split_4)
  have "memset m s c n =
      (if ecx = 0 then m1 else memset_bottom m2 (ucast c) edi2 (ecx AND 3))"
    by (simp add: memset_def memset_eax_bytes top mid Let_def)
  also have "\<dots> = filled m1 edi (unat ecx) (ucast c)"
    using rep_stosl_filled [OF memset_eax_bytes [of c] _ mid, of "unat (ecx AND 3)"] split
      u32_lt [of ecx]
    by (simp add: memset_bottom_filled)
  also have "\<dots> = filled m s (unat n) (ucast c)"
    by (rule memset_top_filled [OF top])
  finally show ?thesis .
qed

section \<open>Copying\<close>

lemma copied_0 [simp]: "copied m d s 0 = m"
  by (simp add: copied_def)

text \<open>
  A copy towards higher addresses reads no byte it has already overwritten when the destination
  does not start inside the source; a copy towards lower ones when the source does not start
  inside the destination.
\<close>

definition up_safe :: "u32 \<Rightarrow> u32 \<Rightarrow> nat \<Rightarrow> bool" where
  "up_safe d s n \<longleftrightarrow> d = s \<or> n \<le> unat (d - s)"

definition down_safe :: "u32 \<Rightarrow> u32 \<Rightarrow> nat \<Rightarrow> bool" where
  "down_safe d s n \<longleftrightarrow> d = s \<or> n \<le> unat (s - d)"

lemma up_safe_step: "up_safe d s (Suc k) \<Longrightarrow> up_safe (d + 1) (s + 1) k"
  by (auto simp: up_safe_def)

lemma up_safe_mono: "up_safe d s n \<Longrightarrow> k \<le> n \<Longrightarrow> up_safe d s k"
  by (auto simp: up_safe_def)

lemma copied_step_up:
  assumes safe: "up_safe d s (Suc k)" and k: "Suc k \<le> 4294967296"
  shows "copied (m(d := m s)) (d + 1) (s + 1) k = copied m d s (Suc k)"
proof
  fix a
  show "copied (m(d := m s)) (d + 1) (s + 1) k a = copied m d s (Suc k) a"
  proof (cases "a = d")
    case True
    then show ?thesis
      using k in_range_not_before [of k d] by (simp add: copied_def in_range_def)
  next
    case False
    have src: "s + 1 + (a - (d + 1)) = s + (a - d)" by simp
    have "s + (a - d) \<noteq> d" if "in_range d (Suc k) a"
    proof
      assume "s + (a - d) = d"
      then have "a - d = d - s" by (metis add_diff_cancel_left')
      with that safe False show False
        by (auto simp: up_safe_def in_range_def)
    qed
    with False k show ?thesis
      by (auto simp: copied_def in_range_Suc src)
  qed
qed

lemma rep_movsb_up_copied:
  "up_safe d s k \<Longrightarrow> k \<le> 4294967296 \<Longrightarrow> rep_movsb_up k m d s = copied m d s k"
  by (induction k arbitrary: m d s) (simp_all add: copied_step_up up_safe_step)

lemma memcpy_top_copied:
  "memcpy_top m d s n = (m', d', s', n') \<Longrightarrow> up_safe d s (unat n) \<Longrightarrow>
     up_safe d' s' (unat n') \<and> copied m' d' s' (unat n') = copied m d s (unat n)"
proof (induction m d s n rule: memcpy_top.induct)
  case (1 m d s n)
  show ?case
  proof (cases "n = 0 \<or> d AND 3 = 0")
    case True
    with "1.prems" show ?thesis by (auto simp: memcpy_top.simps [of m d s n] split: if_splits)
  next
    case False
    then have n: "unat n = Suc (unat (n - 1))"
      by (simp add: unat_pred unat_gt_0)
    have "copied (m(d := m s)) (d + 1) (s + 1) (unat (n - 1)) = copied m d s (Suc (unat (n - 1)))"
      using "1.prems"(2) u32_lt [of n] unfolding n by (intro copied_step_up) simp_all
    with 1 False n show ?thesis
      by (simp add: memcpy_top.simps [of m d s n] up_safe_step fun_upd_def)
  qed
qed

lemma memcpy_bottom_copied:
  "up_safe d s (unat n) \<Longrightarrow> memcpy_bottom m d s n = copied m d s (unat n)"
proof (induction m d s n rule: memcpy_bottom.induct)
  case (1 m d s n)
  show ?case
  proof (cases "n = 0")
    case True
    then show ?thesis by (simp add: memcpy_bottom.simps)
  next
    case False
    then have n: "unat n = Suc (unat (n - 1))"
      by (simp add: unat_pred unat_gt_0)
    have "copied (m(d := m s)) (d + 1) (s + 1) (unat (n - 1)) = copied m d s (Suc (unat (n - 1)))"
      using "1.prems" u32_lt [of n] unfolding n by (intro copied_step_up) simp_all
    with 1 False n show ?thesis
      by (simp add: memcpy_bottom.simps [of m d s n] up_safe_step fun_upd_def)
  qed
qed

lemma rep_movsb_up_add:
  "rep_movsb_up (j + k) m d s = rep_movsb_up k (rep_movsb_up j m d s) (d + of_nat j) (s + of_nat j)"
  by (induction j arbitrary: m d s) (simp_all add: algebra_simps)

lemma up_safe_shift: "up_safe d s n \<Longrightarrow> k \<le> n \<Longrightarrow> up_safe (d + w) (s + w) k"
  by (auto simp: up_safe_def)

text \<open>\<^verbatim>\<open>movsl\<close> moves four bytes as four byte moves would.\<close>

lemma movsl_movsb:
  assumes "up_safe d s 4"
  shows "store_le32 m d (load_le32 (view m s) 0) = rep_movsb_up 4 m d s"
proof -
  have ne: "s + 1 \<noteq> d" "s + 2 \<noteq> d" "s + 3 \<noteq> d" "s + 2 \<noteq> d + 1" "s + 3 \<noteq> d + 1" "s + 3 \<noteq> d + 2"
    using assms by (auto simp: up_safe_def)
  have "rep_movsb_up 4 m d s =
      m(d := m s, d + 1 := m (s + 1), d + 2 := m (s + 2), d + 3 := m (s + 3))"
    using ne by (simp add: numeral_eq_Suc ac_simps)
  then show ?thesis
    by (simp add: store_le32_def load_le32_bytes)
qed

lemma rep_movsl_copied:
  assumes "up_safe d s (4 * k + r)" and "4 * k + r \<le> 4294967296"
    and "rep_movsl k m d s = (m', d', s')"
  shows "up_safe d' s' r \<and> copied m' d' s' r = copied m d s (4 * k + r)"
  using assms
proof (induction k arbitrary: m d s)
  case 0
  then show ?case by simp
next
  case (Suc k)
  let ?m = "store_le32 m d (load_le32 (view m s) 0)"
  let ?n = "4 * k + r"
  have safe: "up_safe d s (4 + ?n)" and le: "4 + ?n \<le> 4294967296"
    using Suc.prems by (simp_all add: algebra_simps)
  have safe': "up_safe (d + 4) (s + 4) ?n"
    using safe by (rule up_safe_shift) simp
  have "copied ?m (d + 4) (s + 4) ?n = rep_movsb_up ?n (rep_movsb_up 4 m d s) (d + 4) (s + 4)"
    using safe' le up_safe_mono [OF safe, of 4] by (simp add: movsl_movsb rep_movsb_up_copied)
  also have "\<dots> = copied m d s (4 + ?n)"
    using safe le rep_movsb_up_add [of 4 ?n m d s] by (simp add: rep_movsb_up_copied)
  finally show ?case
    using Suc.IH [of "d + 4" "s + 4" ?m] safe' le Suc.prems(3) by (simp add: algebra_simps)
qed

lemma memcpy_eq_copied:
  assumes "up_safe d s (unat n)"
  shows "memcpy m d s n = copied m d s (unat n)"
proof -
  obtain m1 d1 s1 n1 where top: "memcpy_top m d s n = (m1, d1, s1, n1)"
    by (cases "memcpy_top m d s n") auto
  obtain m2 d2 s2 where mid: "rep_movsl (unat (drop_bit 2 n1)) m1 d1 s1 = (m2, d2, s2)"
    by (cases "rep_movsl (unat (drop_bit 2 n1)) m1 d1 s1") auto
  have split: "4 * unat (drop_bit 2 n1) + unat (n1 AND 3) = unat n1"
    by (rule unat_split_4)
  note t = memcpy_top_copied [OF top assms]
  have "up_safe d2 s2 (unat (n1 AND 3)) \<and>
      copied m2 d2 s2 (unat (n1 AND 3)) = copied m1 d1 s1 (unat n1)"
    using rep_movsl_copied [OF _ _ mid, of "unat (n1 AND 3)"] t split u32_lt [of n1] by simp
  then show ?thesis
    using t by (auto simp: memcpy_def top mid Let_def memcpy_bottom_copied)
qed

lemma copied_step_down:
  assumes safe: "down_safe d s (Suc k)" and k: "Suc k \<le> 4294967296"
  shows "copied (m(d + of_nat k := m (s + of_nat k))) d s k = copied m d s (Suc k)"
proof
  fix a
  have last: "unat (of_nat k :: u32) = k"
    using k by (simp add: unat_of_nat)
  show "copied (m(d + of_nat k := m (s + of_nat k))) d s k a = copied m d s (Suc k) a"
  proof (cases "a = d + of_nat k")
    case True
    then show ?thesis
      using last by (simp add: copied_def in_range_def)
  next
    case False
    have ne: "unat (a - d) \<noteq> k"
      using False last by (metis add_diff_cancel_left' diff_add_cancel word_unat_eq_iff)
    have "s + (a - d) \<noteq> d + of_nat k" if "unat (a - d) < k"
    proof
      assume "s + (a - d) = d + of_nat k"
      then have "s - d = of_nat k - (a - d)" by (simp add: algebra_simps)
      moreover have "unat (of_nat k - (a - d)) = k - unat (a - d)"
        using that last unat_sub [of "a - d" "of_nat k"] by (simp add: word_le_nat_alt)
      ultimately have "unat (s - d) = k - unat (a - d)" by (simp only:)
      with safe that show False by (auto simp: down_safe_def)
    qed
    with False ne show ?thesis
      by (auto simp: copied_def in_range_def less_Suc_eq)
  qed
qed

lemma rep_movsb_down_copied:
  "down_safe d s k \<Longrightarrow> k \<le> 4294967296 \<Longrightarrow>
     rep_movsb_down k m (d + of_nat k - 1) (s + of_nat k - 1) = copied m d s k"
proof (induction k arbitrary: m)
  case 0
  then show ?case by simp
next
  case (Suc k)
  then have "down_safe d s k" by (auto simp: down_safe_def)
  with Suc show ?case
    by (simp add: copied_step_down)
qed

lemma memmove_eq_copied:
  assumes "unat d + unat n \<le> 4294967296" and "unat s + unat n \<le> 4294967296"
  shows "fst (memmove m d s n) = copied m d s (unat n)"
proof (cases "s \<ge> d")
  case True
  have "up_safe d s (unat n)"
    using assms True by (auto simp: up_safe_def unat_minus_if word_le_nat_alt word_unat_eq_iff)
  then show ?thesis
    using True u32_lt [of n] by (simp add: memmove_def rep_movsb_up_copied)
next
  case False
  have "down_safe d s (unat n)"
    using assms False by (auto simp: down_safe_def unat_minus_if word_le_nat_alt)
  then show ?thesis
    using False u32_lt [of n] rep_movsb_down_copied [of d s "unat n" m]
    by (simp add: memmove_def)
qed

section \<open>What a client of a copy relies on\<close>

locale byte_copy =
  fixes cp :: "mem \<Rightarrow> u32 \<Rightarrow> u32 \<Rightarrow> u32 \<Rightarrow> mem"
    and ok :: "u32 \<Rightarrow> u32 \<Rightarrow> nat \<Rightarrow> bool"
  assumes cp_copied: "ok d s (unat n) \<Longrightarrow> cp m d s n = copied m d s (unat n)"
begin

lemma cp_byte:
  assumes "ok d s (unat n)" and "i < unat n"
  shows "cp m d s n (d + of_nat i) = m (s + of_nat i)"
proof -
  have "i < 4294967296" using assms(2) u32_lt [of n] by linarith
  then show ?thesis
    using assms in_range_offset [of i "unat n" d] by (simp add: cp_copied copied_def)
qed

lemma cp_frame: "ok d s (unat n) \<Longrightarrow> \<not> in_range d (unat n) a \<Longrightarrow> cp m d s n a = m a"
  by (simp add: cp_copied copied_def)

lemma cp_block:
  "ok d s (unat n) \<Longrightarrow> view_take (view (cp m d s n) d) (unat n) = view_take (view m s) (unat n)"
  by (rule nth_equalityI) (simp_all add: cp_byte)

end

text \<open>Ranges that do not wrap around the address space.\<close>

definition no_wrap :: "u32 \<Rightarrow> u32 \<Rightarrow> nat \<Rightarrow> bool" where
  "no_wrap d s n \<longleftrightarrow> unat d + n \<le> 4294967296 \<and> unat s + n \<le> 4294967296"

definition memmove_mem :: "mem \<Rightarrow> u32 \<Rightarrow> u32 \<Rightarrow> u32 \<Rightarrow> mem" where
  "memmove_mem m d s n = fst (memmove m d s n)"

interpretation cpy: byte_copy memcpy up_safe
  by unfold_locales (rule memcpy_eq_copied)

interpretation mov: byte_copy memmove_mem no_wrap
  by unfold_locales (simp add: memmove_mem_def no_wrap_def memmove_eq_copied)

text \<open>C38. memcpy leaves at \<open>dest\<close> the \<open>n\<close> bytes that were at \<open>src\<close> and
  changes no other byte, for every alignment of \<open>dest\<close>, as long as \<open>dest\<close> does not start
  strictly inside the source.\<close>

theorem memcpy_copies:
  assumes "up_safe d s (unat n)"
  shows "view_take (view (memcpy m d s n) d) (unat n) = view_take (view m s) (unat n) \<and>
    (\<forall>a. \<not> in_range d (unat n) a \<longrightarrow> memcpy m d s n a = m a)"
  using assms cpy.cp_block cpy.cp_frame by blast

theorem memcpy_copies_witness:
  "up_safe 0x1001 0x2000 (unat (7 :: u32)) \<and>
   view_take (view (memcpy (\<lambda>a. ucast a) 0x1001 0x2000 7) 0x1001) (unat (7 :: u32)) =
     view_take (view (\<lambda>a. ucast a) 0x2000) (unat (7 :: u32))"
proof -
  have ok: "up_safe 0x1001 0x2000 (unat (7 :: u32))"
    by (simp add: up_safe_def)
  show ?thesis
    using ok memcpy_copies [OF ok, of "\<lambda>a. ucast a"] by blast
qed

text \<open>C37. memmove moves the \<open>n\<close> bytes of \<open>src\<close> to \<open>dest\<close> for every
  overlap of the two ranges, in both directions, and changes no byte outside the destination.\<close>

theorem memmove_moves:
  assumes "unat d + unat n \<le> 4294967296" and "unat s + unat n \<le> 4294967296"
  shows "view_take (view (fst (memmove m d s n)) d) (unat n) = view_take (view m s) (unat n) \<and>
    (\<forall>a. \<not> in_range d (unat n) a \<longrightarrow> fst (memmove m d s n) a = m a)"
proof -
  have ok: "no_wrap d s (unat n)" using assms by (simp add: no_wrap_def)
  show ?thesis
    using mov.cp_block [OF ok, of m] mov.cp_frame [OF ok, of _ m] by (simp add: memmove_mem_def)
qed

theorem memmove_moves_witness:
  "view_take (view (fst (memmove (\<lambda>a. ucast a) 0x1002 0x1000 8)) 0x1002) (unat (8 :: u32)) =
     view_take (view (\<lambda>a. ucast a) 0x1000) (unat (8 :: u32))"
  by (rule memmove_moves [THEN conjunct1]) simp_all

text \<open>
  The direction flag is left set whenever the copy ran towards lower addresses: the routine
  never clears it, and only the routines above that start with \<^verbatim>\<open>cld\<close> are not affected.
\<close>

lemma memmove_direction_flag: "snd (memmove m d s n) = (s < d)"
  by (auto simp: memmove_def)

end
