(* ===== verification/LibStr.thy ===== *)
theory LibStr
  imports LibMem
begin

text \<open>
  The string routines of \<^verbatim>\<open>src/student-distrib/lib.c\<close>: \<open>strlen\<close>, \<open>strncmp\<close>, \<open>strcpy\<close>,
  \<open>strncpy\<close>, \<open>strrev\<close> and \<open>itoa\<close>.

  A routine that only reads takes the view of its pointer; one that writes takes the memory and
  the addresses, because its arguments may overlap. A loop that ends only at a NUL byte is a
  \<^theory_text>\<open>partial_function\<close> into \<open>option\<close>: \<open>None\<close> is a call that never returns or traps.
\<close>

section \<open>Definitions\<close>

text \<open>\<open>is_cstring p n\<close>: a NUL-terminated string of \<open>n\<close> characters starts at \<open>p\<close>.\<close>

definition is_cstring :: "cptr \<Rightarrow> nat \<Rightarrow> bool" where
  "is_cstring s n \<longleftrightarrow> s n = 0 \<and> (\<forall>k<n. s k \<noteq> 0)"

text \<open>The characters of the string at \<open>p\<close> among its first \<open>n\<close> bytes.\<close>

definition cstr_take :: "cptr \<Rightarrow> nat \<Rightarrow> byte list" where
  "cstr_take s n = takeWhile (\<lambda>b. b \<noteq> 0) (view_take s n)"

subsection \<open>strlen\<close>

partial_function (option) strlen_loop :: "cptr \<Rightarrow> nat \<Rightarrow> nat option" where
  "strlen_loop s len = (if s len \<noteq> 0 then strlen_loop s (Suc len) else Some len)"

definition strlen :: "cptr \<Rightarrow> nat option" where
  "strlen s = strlen_loop s 0"

subsection \<open>strncmp\<close>

text \<open>\<open>int8_t\<close> is the signed \<open>char\<close> of the compiler, so the difference is one of signed values.\<close>

function strncmp_loop :: "cptr \<Rightarrow> cptr \<Rightarrow> nat \<Rightarrow> nat \<Rightarrow> int" where
  "strncmp_loop s1 s2 n i =
     (if i < n then
        (if s1 i \<noteq> s2 i \<or> s1 i = 0 then sint (s1 i) - sint (s2 i)
         else strncmp_loop s1 s2 n (Suc i))
      else 0)"
  by pat_completeness auto
termination
  by (relation "measure (\<lambda>(s1, s2, n, i). n - i)") auto

definition strncmp :: "cptr \<Rightarrow> cptr \<Rightarrow> nat \<Rightarrow> int" where
  "strncmp s1 s2 n = strncmp_loop s1 s2 n 0"

subsection \<open>strcpy, strncpy\<close>

partial_function (option) strcpy_loop :: "mem \<Rightarrow> u32 \<Rightarrow> u32 \<Rightarrow> mem option" where
  "strcpy_loop m dest src =
     (if m src \<noteq> 0 then strcpy_loop (m(dest := m src)) (dest + 1) (src + 1)
      else Some (m(dest := 0)))"

definition strcpy :: "mem \<Rightarrow> u32 \<Rightarrow> u32 \<Rightarrow> mem option" where
  "strcpy m dest src = strcpy_loop m dest src"

primrec strncpy_pad :: "nat \<Rightarrow> mem \<Rightarrow> u32 \<Rightarrow> mem" where
  "strncpy_pad 0 m dest = m"
| "strncpy_pad (Suc k) m dest = strncpy_pad k (m(dest := 0)) (dest + 1)"

primrec strncpy_loop :: "nat \<Rightarrow> mem \<Rightarrow> u32 \<Rightarrow> u32 \<Rightarrow> mem" where
  "strncpy_loop 0 m dest src = m"
| "strncpy_loop (Suc k) m dest src =
     (if m src \<noteq> 0 then strncpy_loop k (m(dest := m src)) (dest + 1) (src + 1)
      else strncpy_pad (Suc k) m dest)"

definition strncpy :: "mem \<Rightarrow> u32 \<Rightarrow> u32 \<Rightarrow> u32 \<Rightarrow> mem" where
  "strncpy m dest src n = strncpy_loop (unat n) m dest src"

subsection \<open>strrev\<close>

function strrev_loop :: "mem \<Rightarrow> u32 \<Rightarrow> int \<Rightarrow> int \<Rightarrow> mem" where
  "strrev_loop m s beg ends =
     (if beg < ends then
        (let tmp = m (s + w32 ends);
             m1 = m(s + w32 ends := m (s + w32 beg));
             m2 = m1(s + w32 beg := tmp)
         in strrev_loop m2 s (beg + 1) (ends - 1))
      else m)"
  by pat_completeness auto
termination
  by (relation "measure (\<lambda>(m, s, beg, ends). nat (ends - beg))") auto

definition strrev :: "mem \<Rightarrow> u32 \<Rightarrow> mem option" where
  "strrev m s =
     (case strlen (view m s) of
        None \<Rightarrow> None
      | Some n \<Rightarrow> Some (strrev_loop m s 0 (s32 (of_nat n) - 1)))"

subsection \<open>itoa\<close>

definition itoa_lookup :: "byte list" where
  "itoa_lookup = ascii ''0123456789ABCDEFGHIJKLMNOPQRSTUVWXYZ'' @ [0]"

text \<open>
  A radix of 0 traps in the division; a digit beyond the 37 bytes of the table is a read out of
  its bounds; a radix of 1 never ends.
\<close>

partial_function (option) itoa_loop :: "mem \<Rightarrow> u32 \<Rightarrow> u32 \<Rightarrow> u32 \<Rightarrow> (mem \<times> u32) option" where
  "itoa_loop m newbuf newval radix =
     (if newval > 0 then
        (if radix = 0 then None
         else if unat (newval mod radix) \<ge> length itoa_lookup then None
         else itoa_loop (m(newbuf := itoa_lookup ! unat (newval mod radix)))
                (newbuf + 1) (newval div radix) radix)
      else Some (m, newbuf))"

definition itoa :: "mem \<Rightarrow> u32 \<Rightarrow> u32 \<Rightarrow> u32 \<Rightarrow> mem option" where
  "itoa m val buf radix =
     (if val = 0 then Some (m(buf := 0x30, buf + 1 := 0))
      else case itoa_loop m buf val radix of
             None \<Rightarrow> None
           | Some (m1, newbuf) \<Rightarrow> strrev (m1(newbuf := 0)) buf)"

declare strncmp_loop.simps [simp del] strrev_loop.simps [simp del]

section \<open>strlen\<close>

lemma strlen_loop_Some:
  "s n = 0 \<Longrightarrow> j \<le> n \<Longrightarrow> (\<And>k. j \<le> k \<Longrightarrow> k < n \<Longrightarrow> s k \<noteq> 0) \<Longrightarrow> strlen_loop s j = Some n"
proof (induction "n - j" arbitrary: j)
  case 0
  then show ?case by (subst strlen_loop.simps) simp
next
  case (Suc d)
  then have "s j \<noteq> 0" "strlen_loop s (Suc j) = Some n" by simp_all
  then show ?case by (subst strlen_loop.simps) simp
qed

lemma strlen_loop_sound:
  assumes "strlen_loop s j = Some n"
  shows "j \<le> n \<and> s n = 0 \<and> (\<forall>k. j \<le> k \<and> k < n \<longrightarrow> s k \<noteq> 0)"
proof (rule strlen_loop.raw_induct
    [where P = "\<lambda>s j n. j \<le> n \<and> s n = 0 \<and> (\<forall>k. j \<le> k \<and> k < n \<longrightarrow> s k \<noteq> 0)", OF _ assms])
  fix f :: "cptr \<Rightarrow> nat \<Rightarrow> nat option" and s :: cptr and j n :: nat
  assume IH: "\<And>s j n. f s j = Some n \<Longrightarrow> j \<le> n \<and> s n = 0 \<and> (\<forall>k. j \<le> k \<and> k < n \<longrightarrow> s k \<noteq> 0)"
    and eq: "(if s j \<noteq> 0 then f s (Suc j) else Some j) = Some n"
  show "j \<le> n \<and> s n = 0 \<and> (\<forall>k. j \<le> k \<and> k < n \<longrightarrow> s k \<noteq> 0)"
  proof (cases "s j = 0")
    case True
    with eq show ?thesis by auto
  next
    case False
    with eq have "Suc j \<le> n \<and> s n = 0 \<and> (\<forall>k. Suc j \<le> k \<and> k < n \<longrightarrow> s k \<noteq> 0)"
      by (auto dest: IH)
    with False show ?thesis by (metis Suc_leD Suc_leI le_neq_implies_less)
  qed
qed

lemma strlen_iff: "strlen s = Some n \<longleftrightarrow> is_cstring s n"
proof
  show "strlen s = Some n \<Longrightarrow> is_cstring s n"
    using strlen_loop_sound [of s 0 n] by (simp add: strlen_def is_cstring_def)
  show "is_cstring s n \<Longrightarrow> strlen s = Some n"
    unfolding strlen_def is_cstring_def by (rule strlen_loop_Some) simp_all
qed

lemma is_cstring_unique: "is_cstring s n \<Longrightarrow> is_cstring s k \<Longrightarrow> n = k"
  unfolding is_cstring_def by (metis linorder_neqE_nat)

lemma strlen_returns: "s i = 0 \<Longrightarrow> \<exists>n. strlen s = Some n"
  unfolding strlen_iff is_cstring_def
  by (rule exI [of _ "LEAST i. s i = 0"]) (auto intro: LeastI dest: not_less_Least)

text \<open>A NUL byte of a 32-bit address space is met within \<open>2 ^ 32\<close> steps.\<close>

lemma view_mod: "view m p (i mod 4294967296) = view m p i"
proof -
  have "(of_nat (i mod 4294967296) :: u32) = of_nat i"
    by (simp add: word_of_nat_eq_iff take_bit_eq_mod)
  then show ?thesis by simp
qed

lemma is_cstring_bound:
  assumes "is_cstring (view m p) n"
  shows "n < 4294967296"
proof (rule ccontr)
  assume "\<not> n < 4294967296"
  then have "n mod 4294967296 < n"
    by (metis linorder_not_less mod_less_divisor order_less_le_trans zero_less_numeral)
  moreover have "view m p (n mod 4294967296) = 0"
    using assms view_mod [of m p n] by (simp only: is_cstring_def)
  ultimately show False
    using assms by (auto simp only: is_cstring_def)
qed

section \<open>strncmp\<close>

lemma cstr_take_0 [simp]: "cstr_take s 0 = []"
  by (simp add: cstr_take_def)

lemma cstr_take_Suc:
  "cstr_take s (Suc n) = (if s 0 = 0 then [] else s 0 # cstr_take (\<lambda>i. s (Suc i)) n)"
  unfolding cstr_take_def view_take_def
  by (simp only: upt_conv_Cons map_Suc_upt [symmetric] list.map map_map comp_def zero_less_Suc) simp

lemma strncmp_loop_shift:
  "strncmp_loop s1 s2 (Suc n) (Suc i) = strncmp_loop (\<lambda>k. s1 (Suc k)) (\<lambda>k. s2 (Suc k)) n i"
proof (induction "n - i" arbitrary: i)
  case 0
  then show ?case by (simp add: strncmp_loop.simps)
next
  case (Suc d)
  then show ?case
    by (simp add: strncmp_loop.simps [of s1 s2 "Suc n" "Suc i"]
        strncmp_loop.simps [of "\<lambda>k. s1 (Suc k)" "\<lambda>k. s2 (Suc k)" n i])
qed

lemma strncmp_0 [simp]: "strncmp s1 s2 0 = 0"
  by (simp add: strncmp_def strncmp_loop.simps)

lemma strncmp_Suc:
  "strncmp s1 s2 (Suc n) =
     (if s1 0 \<noteq> s2 0 \<or> s1 0 = 0 then sint (s1 0) - sint (s2 0)
      else strncmp (\<lambda>i. s1 (Suc i)) (\<lambda>i. s2 (Suc i)) n)"
  unfolding strncmp_def by (simp add: strncmp_loop.simps [of s1 s2 "Suc n" 0] strncmp_loop_shift)

lemma strncmp_zero_iff: "strncmp s1 s2 n = 0 \<longleftrightarrow> cstr_take s1 n = cstr_take s2 n"
proof (induction n arbitrary: s1 s2)
  case 0
  then show ?case by simp
next
  case (Suc n)
  have "sint (s1 0) = sint (s2 0) \<longleftrightarrow> s1 0 = s2 0"
    by (auto dest: signed_word_eqI)
  with Suc show ?case
    by (auto simp: strncmp_Suc cstr_take_Suc)
qed

lemma strncmp_refl [simp]: "strncmp s s n = 0"
  by (simp add: strncmp_zero_iff)

lemma strncmp_first_difference:
  "strncmp s1 s2 n \<noteq> 0 \<Longrightarrow>
     \<exists>i<n. (\<forall>j<i. s1 j = s2 j \<and> s1 j \<noteq> 0) \<and> s1 i \<noteq> s2 i \<and>
           strncmp s1 s2 n = sint (s1 i) - sint (s2 i)"
proof (induction n arbitrary: s1 s2)
  case 0
  then show ?case by simp
next
  case (Suc n)
  show ?case
  proof (cases "s1 0 \<noteq> s2 0 \<or> s1 0 = 0")
    case True
    with Suc.prems show ?thesis by (intro exI [of _ 0]) (auto simp: strncmp_Suc)
  next
    case False
    with Suc.prems have "strncmp (\<lambda>i. s1 (Suc i)) (\<lambda>i. s2 (Suc i)) n \<noteq> 0"
      by (simp add: strncmp_Suc)
    from Suc.IH [OF this] obtain i where "i < n" and
      "\<forall>j<i. s1 (Suc j) = s2 (Suc j) \<and> s1 (Suc j) \<noteq> 0" and "s1 (Suc i) \<noteq> s2 (Suc i)" and
      "strncmp (\<lambda>i. s1 (Suc i)) (\<lambda>i. s2 (Suc i)) n = sint (s1 (Suc i)) - sint (s2 (Suc i))"
      by blast
    with False show ?thesis
      by (intro exI [of _ "Suc i"]) (auto simp: strncmp_Suc less_Suc_eq_0_disj)
  qed
qed

section \<open>strcpy and strncpy\<close>

lemma is_cstring_shift: "is_cstring s (Suc n) \<longleftrightarrow> s 0 \<noteq> 0 \<and> is_cstring (\<lambda>i. s (Suc i)) n"
  unfolding is_cstring_def by (auto simp: less_Suc_eq_0_disj)

lemma view_shift: "(\<lambda>i. view m p (Suc i)) = view m (p + 1)"
  by (simp add: view_def add.assoc)

lemma is_cstring_view_Suc:
  "is_cstring (view m p) (Suc n) \<longleftrightarrow> m p \<noteq> 0 \<and> is_cstring (view m (p + 1)) n"
  unfolding is_cstring_shift view_shift by simp

lemma is_cstring_view_0: "is_cstring (view m p) 0 \<longleftrightarrow> m p = 0"
  by (simp add: is_cstring_def)

text \<open>A store outside the string and its terminator leaves the string.\<close>

lemma is_cstring_store:
  assumes "is_cstring (view m p) n" and "\<not> in_range p (Suc n) a"
  shows "is_cstring (view (m(a := b)) p) n"
proof -
  have "p + of_nat k \<noteq> a" if "k \<le> n" for k
    using that assms(2) is_cstring_bound [OF assms(1)] in_range_offset [of k "Suc n" p] by auto
  with assms(1) show ?thesis by (simp add: is_cstring_def)
qed

lemma up_safe_not_in: "up_safe d s (Suc (Suc n)) \<Longrightarrow> Suc n < 4294967296 \<Longrightarrow> \<not> in_range (s + 1) (Suc n) d"
proof (cases "d = s")
  case True
  assume "Suc n < 4294967296"
  with True show ?thesis using in_range_not_before [of "Suc n" s] by simp
next
  case False
  assume "up_safe d s (Suc (Suc n))"
  with False have le: "Suc (Suc n) \<le> unat (d - s)" by (simp add: up_safe_def)
  have "unat (d - (s + 1)) = unat (d - s) - 1"
    using unat_pred [of "d - s"] False by (simp add: diff_diff_eq)
  with le show ?thesis by (simp add: in_range_def)
qed

lemma strcpy_copies:
  "is_cstring (view m s) n \<Longrightarrow> up_safe d s (Suc n) \<Longrightarrow> strcpy m d s = Some (copied m d s (Suc n))"
  unfolding strcpy_def
proof (induction n arbitrary: m d s)
  case 0
  then have z: "m s = 0" by (simp only: is_cstring_view_0)
  have "copied m d s (Suc 0) = m(d := 0)"
    using copied_step_up [OF 0(2), of m] z by simp
  with z show ?case by (subst strcpy_loop.simps) simp
next
  case (Suc n)
  have b: "Suc n < 4294967296" by (rule is_cstring_bound [OF Suc.prems(1)])
  from Suc.prems(1) have nz: "m s \<noteq> 0" and str: "is_cstring (view m (s + 1)) n"
    unfolding is_cstring_view_Suc by blast+
  have "is_cstring (view (m(d := m s)) (s + 1)) n"
    using str up_safe_not_in [OF Suc.prems(2) b] by (rule is_cstring_store)
  then have "strcpy_loop (m(d := m s)) (d + 1) (s + 1) =
      Some (copied (m(d := m s)) (d + 1) (s + 1) (Suc n))"
    using up_safe_step [OF Suc.prems(2)] by (rule Suc.IH)
  also have "\<dots> = Some (copied m d s (Suc (Suc n)))"
    using copied_step_up [OF Suc.prems(2), of m] b by simp
  finally show ?case using nz by (subst strcpy_loop.simps) simp
qed

lemma strncpy_pad_filled:
  "k \<le> 4294967296 \<Longrightarrow> strncpy_pad k m d = filled m d k 0"
  by (induction k arbitrary: m d) (simp_all add: filled_step)

text \<open>What \<open>strncpy\<close> leaves at its destination: the string, then NUL bytes up to \<open>n\<close>.\<close>

definition padded :: "mem \<Rightarrow> u32 \<Rightarrow> u32 \<Rightarrow> nat \<Rightarrow> mem" where
  "padded m d s n =
     (\<lambda>a. if in_range d n a
          then (if \<forall>j \<le> unat (a - d). m (s + of_nat j) \<noteq> 0 then m (s + (a - d)) else 0)
          else m a)"

lemma padded_NUL:
  assumes "m s = 0"
  shows "padded m d s n = filled m d n 0"
proof
  fix a
  have "\<not> (\<forall>j \<le> unat (a - d). m (s + of_nat j) \<noteq> 0)"
    using assms by (intro notI) (drule spec [of _ 0], simp)
  then show "padded m d s n a = filled m d n 0 a"
    by (auto simp: padded_def filled_def)
qed

lemma all_le_Suc: "(\<forall>j \<le> Suc i. P j) \<longleftrightarrow> P 0 \<and> (\<forall>j \<le> i. P (Suc j))"
  by (metis Suc_le_mono not0_implies_Suc zero_le)

lemma up_safe_neq:
  "up_safe d s n \<Longrightarrow> 0 < x \<Longrightarrow> x < n \<Longrightarrow> n \<le> 4294967296 \<Longrightarrow> s + of_nat x \<noteq> d"
  using nat_dvd_not_less [of x 4294967296]
  by (auto simp: up_safe_def unat_of_nat word_of_nat_eq_0_iff)

lemma padded_step:
  assumes safe: "up_safe d s (Suc k)" and k: "Suc k \<le> 4294967296" and nz: "m s \<noteq> 0"
  shows "padded (m(d := m s)) (d + 1) (s + 1) k = padded m d s (Suc k)"
proof
  fix a
  show "padded (m(d := m s)) (d + 1) (s + 1) k a = padded m d s (Suc k) a"
  proof (cases "a = d")
    case True
    then show ?thesis
      using k nz in_range_not_before [of k d] by (simp add: padded_def in_range_def)
  next
    case False
    obtain i where i: "unat (a - d) = Suc i"
      using False by (metis eq_iff_diff_eq_0 old.nat.exhaust unat_eq_0)
    then have i': "unat (a - (d + 1)) = i"
      using unat_pred [of "a - d"] False by (simp add: diff_diff_eq)
    have src: "s + 1 + (a - (d + 1)) = s + (a - d)" by simp
    have ne: "s + of_nat (Suc j) \<noteq> d" if "j < k" for j
      using that k by (intro up_safe_neq [OF safe]) simp_all
    have "(\<forall>j \<le> i. (m(d := m s)) (s + 1 + of_nat j) \<noteq> 0) \<longleftrightarrow>
        (\<forall>j \<le> Suc i. m (s + of_nat j) \<noteq> 0)" if "i < k"
      using that ne nz unfolding all_le_Suc by (auto simp: add.assoc)
    moreover have "s + (a - d) \<noteq> d" if "i < k"
      using ne [OF that] i [symmetric] by (simp del: of_nat_Suc)
    ultimately show ?thesis
      using False k i i' by (auto simp: padded_def in_range_def src)
  qed
qed

lemma strncpy_loop_padded:
  "up_safe d s k \<Longrightarrow> k \<le> 4294967296 \<Longrightarrow> strncpy_loop k m d s = padded m d s k"
proof (induction k arbitrary: m d s)
  case 0
  then show ?case by (simp add: padded_def)
next
  case (Suc k)
  then show ?case
    by (simp add: padded_step up_safe_step padded_NUL strncpy_pad_filled del: strncpy_pad.simps)
qed

lemma strncpy_padded: "up_safe d s (unat n) \<Longrightarrow> strncpy m d s n = padded m d s (unat n)"
  by (simp add: strncpy_def strncpy_loop_padded)

lemma cstr_take_padded:
  "(\<And>i. i < n \<Longrightarrow> t i = (if \<forall>j \<le> i. s j \<noteq> 0 then s i else 0)) \<Longrightarrow> cstr_take t n = cstr_take s n"
proof (induction n arbitrary: s t)
  case 0
  then show ?case by simp
next
  case (Suc n)
  have t0: "t 0 = s 0" using Suc.prems [of 0] by auto
  have "cstr_take (\<lambda>i. t (Suc i)) n = cstr_take (\<lambda>i. s (Suc i)) n" if "s 0 \<noteq> 0"
    using that Suc.prems by (intro Suc.IH) (simp add: all_le_Suc)
  with t0 show ?case by (simp add: cstr_take_Suc)
qed

lemma cstr_take_end:
  assumes "length (cstr_take s n) \<le> i" and "i < n"
  shows "\<exists>j \<le> i. s j = 0"
proof -
  let ?l = "length (cstr_take s n)"
  have "?l < length (view_take s n)" using assms by simp
  then have "view_take s n ! ?l = 0"
    unfolding cstr_take_def using nth_length_takeWhile by blast
  then show ?thesis using assms by (intro exI [of _ ?l]) simp
qed

section \<open>strrev\<close>

definition reversed :: "mem \<Rightarrow> u32 \<Rightarrow> int \<Rightarrow> int \<Rightarrow> mem" where
  "reversed m s b e =
     (\<lambda>a. let i = int (unat (a - s))
          in if b \<le> i \<and> i \<le> e then m (s + w32 (b + e - i)) else m a)"

lemma strrev_loop_reversed:
  "0 \<le> b \<Longrightarrow> e < 4294967296 \<Longrightarrow> strrev_loop m s b e = reversed m s b e"
proof (induction m s b e rule: strrev_loop.induct)
  case (1 m s b e)
  show ?case
  proof (cases "b < e")
    case True
    let ?m = "m(s + w32 e := m (s + w32 b), s + w32 b := m (s + w32 e))"
    have "strrev_loop m s b e = reversed ?m s (b + 1) (e - 1)"
      using 1 True by (simp add: strrev_loop.simps [of m s b e] fun_upd_def)
    also have "\<dots> = reversed m s b e"
    proof
      fix a
      define j where "j = int (unat (a - s))"
      have a: "a = s + w32 j" and j: "0 \<le> j" "j < 4294967296"
        by (simp_all add: j_def)
      have inj: "s + w32 x = s + w32 y \<longleftrightarrow> x = y" if "0 \<le> x" "x \<le> e \<or> x = j" "0 \<le> y" "y \<le> e" for x y
        using that w32_inj [of x y] j "1.prems" by auto
      show "reversed ?m s (b + 1) (e - 1) a = reversed m s b e a"
        using "1.prems" True j inj [of j b] inj [of j e] inj [of b e] inj [of "b + e - j" b] inj [of "b + e - j" e]
        unfolding reversed_def j_def [symmetric] Let_def
        by (auto simp: a)
    qed
    finally show ?thesis .
  next
    case False
    have "reversed m s b e a = m a" for a
    proof (cases "b \<le> uint (a - s) \<and> uint (a - s) \<le> e")
      case True
      with False have "b + e - uint (a - s) = uint (a - s)" by linarith
      with True show ?thesis by (simp add: reversed_def Let_def)
    qed (auto simp: reversed_def Let_def)
    with False show ?thesis
      by (simp add: strrev_loop.simps fun_eq_iff)
  qed
qed

lemma reversed_written:
  assumes "length bs < 4294967296" and "bs \<noteq> []"
  shows "reversed (written m p (bs @ cs)) p 0 (int (length bs) - 1) = written m p (rev bs @ cs)"
proof
  fix a
  define i where "i = unat (a - p)"
  have a: "a = p + of_nat i" by (simp add: i_def)
  show "reversed (written m p (bs @ cs)) p 0 (int (length bs) - 1) a = written m p (rev bs @ cs) a"
  proof (cases "i < length bs")
    case True
    let ?j = "length bs - 1 - i"
    have j: "int (length bs) - 1 - int i = int ?j" "?j < length bs" "?j < 4294967296"
      using True assms by simp_all
    have "reversed (written m p (bs @ cs)) p 0 (int (length bs) - 1) a =
        written m p (bs @ cs) (p + of_nat ?j)"
      unfolding reversed_def Let_def i_def [symmetric] using True j(1) by simp
    also have "\<dots> = bs ! ?j"
      using j(2,3) by (simp add: written_def in_range_def unat_of_nat nth_append)
    also have "\<dots> = written m p (rev bs @ cs) a"
      using True by (simp add: written_def in_range_def i_def [symmetric] nth_append rev_nth)
    finally show ?thesis .
  next
    case False
    then show ?thesis
      unfolding reversed_def written_def in_range_def Let_def i_def [symmetric]
      by (simp add: nth_append)
  qed
qed

lemma is_cstring_written:
  assumes "0 \<notin> set bs" and "length bs < 4294967296"
  shows "is_cstring (view (written m p (bs @ [0])) p) (length bs)"
  unfolding is_cstring_def
proof (intro conjI allI impI)
  show "view (written m p (bs @ [0])) p (length bs) = 0"
    using assms by (simp add: written_def in_range_def unat_of_nat)
  fix k
  assume "k < length bs"
  then show "view (written m p (bs @ [0])) p k \<noteq> 0"
    using assms by (auto simp: written_def in_range_def unat_of_nat nth_append) (metis nth_mem)
qed

lemma strrev_written:
  assumes "0 \<notin> set bs" and "length bs < 2147483648" and "bs \<noteq> []"
  shows "strrev (written m p (bs @ [0])) p = Some (written m p (rev bs @ [0]))"
proof -
  have len: "strlen (view (written m p (bs @ [0])) p) = Some (length bs)"
    unfolding strlen_iff using assms by (intro is_cstring_written) simp_all
  have "s32 (of_nat (length bs)) = int (length bs)"
    using assms(2) by (simp add: s32_of_nat)
  then show ?thesis
    using assms by (simp add: strrev_def len strrev_loop_reversed reversed_written)
qed

section \<open>itoa\<close>

text \<open>The digits of a number, most significant first, and the value they stand for.\<close>

fun digits :: "nat \<Rightarrow> nat \<Rightarrow> nat list" where
  "digits r n = (if n = 0 \<or> r < 2 then [] else digits r (n div r) @ [n mod r])"

definition number_digits :: "nat \<Rightarrow> nat \<Rightarrow> nat list" where
  "number_digits r n = (if n = 0 then [0] else digits r n)"

text \<open>The characters for digits in ASCII, and the digit that a character stands for.\<close>

definition digit_char :: "nat \<Rightarrow> byte" where
  "digit_char d = (if d < 10 then 0x30 + of_nat d else 0x41 + of_nat (d - 10))"

definition char_digit :: "byte \<Rightarrow> nat" where
  "char_digit c = (if 0x30 \<le> unat c \<and> unat c \<le> 0x39 then unat c - 0x30 else unat c - 0x41 + 10)"

definition digits_value :: "nat \<Rightarrow> nat list \<Rightarrow> nat" where
  "digits_value r ds = foldl (\<lambda>a d. r * a + d) 0 ds"

declare digits.simps [simp del]

lemma digits_bound: "2 \<le> r \<Longrightarrow> d \<in> set (digits r n) \<Longrightarrow> d < r"
proof (induction r n rule: digits.induct)
  case (1 r n)
  then show ?case by (subst (asm) (2) digits.simps) (auto split: if_splits)
qed

lemma digits_length: "n < 2 ^ k \<Longrightarrow> length (digits r n) \<le> k"
proof (induction k arbitrary: n)
  case 0
  then show ?case by (subst digits.simps) simp
next
  case (Suc k)
  show ?case
  proof (cases "n = 0 \<or> r < 2")
    case True
    then show ?thesis by (subst digits.simps) simp
  next
    case False
    have "n div r \<le> n div 2" using False by (intro div_le_mono2) simp_all
    also have "\<dots> < 2 ^ k" using Suc.prems by (simp add: less_mult_imp_div_less mult.commute)
    finally have "length (digits r (n div r)) \<le> k" by (rule Suc.IH)
    with False show ?thesis by (simp add: digits.simps [of r n])
  qed
qed

lemma digits_value_digits: "2 \<le> r \<Longrightarrow> digits_value r (digits r n) = n"
proof (induction r n rule: digits.induct)
  case (1 r n)
  then show ?case
    by (cases "n = 0") (simp_all add: digits.simps [of r n] digits.simps [of r 0] digits_value_def)
qed

lemma number_digits_value: "2 \<le> r \<Longrightarrow> digits_value r (number_digits r n) = n"
  by (simp add: number_digits_def digits_value_digits) (simp add: digits_value_def)

lemma length_itoa_lookup: "length itoa_lookup = 37"
  by (simp add: itoa_lookup_def)

lemma digit_unat: "d < 36 \<Longrightarrow> unat (digit_char d) = (if d < 10 then 0x30 + d else 0x37 + d)"
  by (simp add: digit_char_def unat_word_ariths unat_of_nat)

lemma digit_char_nonzero: "d < 36 \<Longrightarrow> digit_char d \<noteq> 0"
  using digit_unat [of d] by (cases "digit_char d = 0") (simp_all split: if_splits)

lemma char_digit_char: "d < 36 \<Longrightarrow> char_digit (digit_char d) = d"
  by (simp add: char_digit_def digit_unat)

text \<open>The table of \<open>itoa\<close> holds these characters.\<close>

lemma lookup_digit: "d < 36 \<Longrightarrow> itoa_lookup ! d = digit_char d"
proof -
  assume d: "d < 36"
  have "take 36 itoa_lookup = map digit_char [0..<36]" by code_simp
  from arg_cong [OF this, of "\<lambda>xs. xs ! d"] show ?thesis using d by (simp add: length_itoa_lookup del: upt_rec_numeral)
qed

lemma itoa_loop_written:
  assumes r: "2 \<le> unat radix" "unat radix \<le> 36"
  shows "itoa_loop m p v radix =
    Some (written m p (map digit_char (rev (digits (unat radix) (unat v)))),
          p + of_nat (length (digits (unat radix) (unat v))))"
proof (induction "unat v" arbitrary: m p v rule: less_induct)
  case less
  let ?r = "unat radix"
  show ?case
  proof (cases "v = 0")
    case True
    then show ?thesis by (simp add: itoa_loop.simps digits.simps)
  next
    case False
    let ?d = "unat (v mod radix)" and ?ds = "digits ?r (unat (v div radix))"
    have v: "unat v \<noteq> 0" "0 < v" using False by (simp_all add: unat_eq_0 word_neq_0_conv)
    have d: "?d = unat v mod ?r" "unat (v div radix) = unat v div ?r"
      by (simp_all add: unat_mod_distrib unat_div_distrib)
    have rad: "radix \<noteq> 0" using r by auto
    have "unat v mod ?r < ?r" using r by (intro mod_less_divisor) simp
    with r d(1) have lt: "?d < 36" by linarith
    have ds: "digits ?r (unat v) = ?ds @ [?d]"
      using v(1) r by (simp add: digits.simps [of ?r "unat v"] d)
    have "unat (v div radix) < unat v" unfolding d(2) using v(1) r by simp
    note IH = less.hyps [OF this, of "m(p := digit_char ?d)" "p + 1"]
    have len: "length ?ds \<le> 32" by (rule digits_length) simp
    have "itoa_loop m p v radix =
        itoa_loop (m(p := digit_char ?d)) (p + 1) (v div radix) radix"
      using v(2) lt rad by (simp add: itoa_loop.simps [of m p v radix] length_itoa_lookup lookup_digit)
    also have "\<dots> = Some (written m p (digit_char ?d # map digit_char (rev ?ds)), p + 1 + of_nat (length ?ds))"
      using IH len by (simp add: written_Cons)
    finally show ?thesis unfolding ds by (simp add: add.assoc)
  qed
qed

lemma written_snoc:
  assumes "length bs < 4294967295"
  shows "(written m p bs)(p + of_nat (length bs) := b) = written m p (bs @ [b])"
proof
  fix a
  have l: "unat (of_nat (length bs) :: u32) = length bs" using assms by (simp add: unat_of_nat)
  show "((written m p bs)(p + of_nat (length bs) := b)) a = written m p (bs @ [b]) a"
  proof (cases "a = p + of_nat (length bs)")
    case True
    then show ?thesis by (simp add: written_def in_range_def l)
  next
    case False
    then have "unat (a - p) \<noteq> length bs"
      by (metis add_diff_cancel_left' diff_add_cancel l word_unat_eq_iff)
    with False show ?thesis by (auto simp: written_def in_range_def nth_append)
  qed
qed

lemma itoa_written:
  assumes r: "2 \<le> unat radix" "unat radix \<le> 36"
  shows "itoa m v buf radix =
    Some (written m buf (map digit_char (number_digits (unat radix) (unat v)) @ [0]))"
proof (cases "v = 0")
  case True
  have "digit_char 0 = 0x30" by code_simp
  with True show ?thesis by (simp add: itoa_def number_digits_def written_Cons)
next
  case False
  let ?ds = "digits (unat radix) (unat v)" and ?cs = "map digit_char (rev (digits (unat radix) (unat v)))"
  have len: "length ?ds \<le> 32" by (rule digits_length) simp
  have ne: "?ds \<noteq> []" using False r by (simp add: digits.simps [of _ "unat v"] unat_eq_0)
  have nz: "0 \<notin> set ?cs"
    using digits_bound [OF r(1)] digit_char_nonzero r(2) by force
  have "strrev (written m buf (?cs @ [0])) buf = Some (written m buf (rev ?cs @ [0]))"
    using nz len ne by (intro strrev_written) simp_all
  then show ?thesis
    using False len written_snoc [of ?cs m buf 0]
    by (simp add: itoa_def itoa_loop_written [OF r] number_digits_def unat_eq_0 rev_map)
qed

section \<open>Properties\<close>

text \<open>strlen returns the length of the NUL-terminated string at its argument, and it fails to return
  only when no NUL byte follows at all.\<close>

theorem strlen_spec:
  "(strlen s = Some n \<longleftrightarrow> is_cstring s n) \<and> (strlen s = None \<longleftrightarrow> 0 \<notin> range s)"
proof
  show "strlen s = Some n \<longleftrightarrow> is_cstring s n" by (rule strlen_iff)
  show "strlen s = None \<longleftrightarrow> 0 \<notin> range s"
  proof
    show "strlen s = None \<Longrightarrow> 0 \<notin> range s" using strlen_returns [of s] by force
    show "0 \<notin> range s \<Longrightarrow> strlen s = None"
      by (metis not_Some_eq rangeI strlen_iff is_cstring_def)
  qed
qed

text \<open>strncmp is zero exactly when the two strings agree up to the first NUL or the first \<open>n\<close> characters,
  and otherwise is the signed difference of the first two characters that differ.\<close>

theorem strncmp_spec:
  "(strncmp s1 s2 n = 0 \<longleftrightarrow> cstr_take s1 n = cstr_take s2 n) \<and>
   (strncmp s1 s2 n \<noteq> 0 \<longleftrightarrow>
     (\<exists>i<n. (\<forall>j<i. s1 j = s2 j \<and> s1 j \<noteq> 0) \<and> s1 i \<noteq> s2 i \<and>
            strncmp s1 s2 n = sint (s1 i) - sint (s2 i)))"
proof
  show "strncmp s1 s2 n = 0 \<longleftrightarrow> cstr_take s1 n = cstr_take s2 n" by (rule strncmp_zero_iff)
  show "strncmp s1 s2 n \<noteq> 0 \<longleftrightarrow>
     (\<exists>i<n. (\<forall>j<i. s1 j = s2 j \<and> s1 j \<noteq> 0) \<and> s1 i \<noteq> s2 i \<and>
            strncmp s1 s2 n = sint (s1 i) - sint (s2 i))"
    using strncmp_first_difference [of s1 s2 n] by (auto dest: signed_word_eqI)
qed

theorem strncmp_spec_witness:
  "strncmp (list_view [0x61, 0x62, 0]) (list_view [0x61, 0x63, 0]) 3 \<noteq> 0"
proof -
  have "cstr_take (list_view [0x61, 0x62, 0]) 3 \<noteq> cstr_take (list_view [0x61, 0x63, 0]) 3"
    by (simp add: cstr_take_def view_take_def list_view_def upt_conv_Cons)
  then show ?thesis using strncmp_spec [of "list_view [0x61, 0x62, 0]" "list_view [0x61, 0x63, 0]" 3] by simp
qed

text \<open>strcpy copies the string and its terminator, and nothing else, whenever the destination does not
  start inside the source string.\<close>

theorem strcpy_spec:
  assumes "is_cstring (view m s) n" and "up_safe d s (Suc n)"
  shows "\<exists>m'. strcpy m d s = Some m' \<and> is_cstring (view m' d) n \<and>
    view_take (view m' d) n = view_take (view m s) n \<and>
    (\<forall>a. \<not> in_range d (Suc n) a \<longrightarrow> m' a = m a)"
proof -
  let ?m = "copied m d s (Suc n)"
  have n: "n < 4294967296" by (rule is_cstring_bound [OF assms(1)])
  have v: "view ?m d i = view m s i" if "i \<le> n" for i
    using that n in_range_offset [of i "Suc n" d] by (simp add: copied_def)
  have "is_cstring (view ?m d) n"
    using assms(1) v unfolding is_cstring_def by (metis less_imp_le order_refl)
  moreover have "view_take (view ?m d) n = view_take (view m s) n"
    using v unfolding view_take_def by (intro map_cong) auto
  ultimately show ?thesis
    using strcpy_copies [OF assms] by (auto simp: copied_def)
qed

theorem strcpy_spec_witness:
  "is_cstring (view (written (\<lambda>a. 7) 0x100 [0x6c, 0x73, 0]) 0x100) (Suc (Suc 0)) \<and> up_safe 0x200 0x100 (Suc (Suc (Suc 0))) \<and>
   (\<exists>m'. strcpy (written (\<lambda>a. 7) 0x100 [0x6c, 0x73, 0]) 0x200 0x100 = Some m')"
proof -
  have str: "is_cstring (view (written (\<lambda>a. 7) 0x100 [0x6c, 0x73, 0]) 0x100) (Suc (Suc 0))"
    using is_cstring_written [of "[0x6c, 0x73]" "\<lambda>a. 7" "0x100"] by simp
  have ok: "up_safe 0x200 0x100 (Suc (Suc (Suc 0)))" by (simp add: up_safe_def)
  show ?thesis using str ok strcpy_spec [OF str ok] by blast
qed

text \<open>strncpy fills exactly \<open>n\<close> bytes: the characters of the source string and then NUL bytes.\<close>

theorem strncpy_spec:
  assumes "up_safe d s (unat n)"
  shows "cstr_take (view (strncpy m d s n) d) (unat n) = cstr_take (view m s) (unat n) \<and>
    (\<forall>a. \<not> in_range d (unat n) a \<longrightarrow> strncpy m d s n a = m a) \<and>
    (\<forall>i < unat n. length (cstr_take (view m s) (unat n)) \<le> i \<longrightarrow> strncpy m d s n (d + of_nat i) = 0)"
proof (intro conjI allI impI)
  let ?m = "padded m d s (unat n)"
  note eq = strncpy_padded [OF assms, of m]
  have at: "?m (d + of_nat i) =
      (if \<forall>j \<le> i. view m s j \<noteq> 0 then view m s i else 0)" if "i < unat n" for i
  proof -
    have "i < 4294967296" using that u32_lt [of n] by linarith
    then have "unat (d + of_nat i - d) = i" by (simp add: unat_of_nat)
    with that show ?thesis by (simp add: padded_def in_range_def)
  qed
  show "cstr_take (view (strncpy m d s n) d) (unat n) = cstr_take (view m s) (unat n)"
    unfolding eq by (rule cstr_take_padded) (simp only: view_apply [of ?m] at)
  show "strncpy m d s n a = m a" if "\<not> in_range d (unat n) a" for a
    using that by (simp add: eq padded_def)
  show "strncpy m d s n (d + of_nat i) = 0"
    if "i < unat n" and "length (cstr_take (view m s) (unat n)) \<le> i" for i
    using cstr_take_end [OF that(2,1)] at [OF that(1)] by (auto simp: eq)
qed

theorem strncpy_spec_witness:
  "up_safe 0x200 0x100 (unat (4 :: u32)) \<and>
   cstr_take (view (strncpy (written (\<lambda>a. 7) 0x100 [0x6c, 0x73, 0]) 0x200 0x100 4) 0x200) (unat (4 :: u32)) =
   cstr_take (view (written (\<lambda>a. 7) 0x100 [0x6c, 0x73, 0]) 0x100) (unat (4 :: u32))"
proof -
  have ok: "up_safe 0x200 0x100 (unat (4 :: u32))" by (simp add: up_safe_def)
  show ?thesis using ok strncpy_spec [OF ok] by blast
qed

text \<open>C34. itoa terminates for every radix from 2 to 36, writes a NUL-terminated numeral of at most 32 digits and
  nothing else, and the numeral reads back as the number: its characters are the ASCII digits and capital letters of
  values below the radix, most significant first.\<close>

theorem itoa_roundtrip:
  assumes "2 \<le> unat radix" and "unat radix \<le> 36"
  shows "\<exists>m' n. itoa m v buf radix = Some m' \<and> strlen (view m' buf) = Some n \<and> 0 < n \<and> n \<le> 32 \<and>
    digits_value (unat radix) (map char_digit (view_take (view m' buf) n)) = unat v \<and>
    (\<forall>c \<in> set (view_take (view m' buf) n). char_digit c < unat radix \<and> c = digit_char (char_digit c)) \<and>
    (\<forall>a. \<not> in_range buf (Suc n) a \<longrightarrow> m' a = m a)"
proof -
  let ?ds = "number_digits (unat radix) (unat v)"
  let ?m = "written m buf (map digit_char ?ds @ [0])"
  have len: "length ?ds \<le> 32"
    using digits_length [of "unat v" 32 "unat radix"] by (simp add: number_digits_def)
  have pos: "0 < length ?ds" using assms(1) by (simp add: number_digits_def digits.simps)
  have d: "d < unat radix" if "d \<in> set ?ds" for d
    using that digits_bound [OF assms(1), of d "unat v"] assms(1) by (auto simp: number_digits_def split: if_splits)
  then have c: "char_digit (digit_char d) = d" if "d \<in> set ?ds" for d using that assms(2) char_digit_char [of d] by fastforce
  have nz: "0 \<notin> set (map digit_char ?ds)" using d digit_char_nonzero assms(2) by fastforce
  have "strlen (view ?m buf) = Some (length ?ds)"
    unfolding strlen_iff using is_cstring_written [OF nz] len by simp
  moreover have v: "view_take (view ?m buf) (length ?ds) = map digit_char ?ds"
    using view_written [of "map digit_char ?ds @ [0]" m buf] len by (simp add: view_take_Suc)
  moreover have "map char_digit (map digit_char ?ds) = ?ds" using c by (simp add: map_idI)
  moreover have "?m a = m a" if "\<not> in_range buf (Suc (length ?ds)) a" for a
    using that by (simp add: written_def)
  ultimately show ?thesis
    using itoa_written [OF assms] number_digits_value [OF assms(1)] len pos c d by (intro exI [of _ ?m] exI [of _ "length ?ds"]) auto
qed

theorem itoa_roundtrip_witness:
  "\<exists>m' n. itoa (\<lambda>a. 0) 0xBEEF 0x100 16 = Some m' \<and>
     digits_value (unat (16 :: u32)) (map char_digit (view_take (view m' 0x100) n)) = unat (0xBEEF :: u32)"
  using itoa_roundtrip [of 16 "\<lambda>a. 0" "0xBEEF" "0x100"] by auto

end
