(* ===== verification/Machine.thy ===== *)
theory Machine
  imports Prelude
begin

text \<open>
  The machine below the kernel, as the port and interrupt-flag primitives of
  \<^verbatim>\<open>src/student-distrib/lib.h\<close> show it: the log of port reads and writes, the interrupt flag
  of the CPU and the memory. Every component record of the kernel extends this record, so an
  operation of a lower component applies to the state of a higher one as it is.

  The devices behind the ports are not code of the kernel. What a port read returns is a
  parameter, \<open>device\<close>: a function of everything that was read and written before.
\<close>

datatype io_event = Out u16 byte | In u16 byte

type_synonym device = "io_event list \<Rightarrow> u16 \<Rightarrow> byte"

record machine =
  io_log :: "io_event list"  \<comment> \<open>port accesses, oldest first\<close>
  iflag :: bool              \<comment> \<open>EFLAGS.IF\<close>
  ram :: mem

section \<open>Port and flag primitives\<close>

definition inb :: "device \<Rightarrow> u16 \<Rightarrow> 'a machine_scheme \<Rightarrow> byte \<times> 'a machine_scheme" where
  "inb dev port s =
     (let v = dev (io_log s) port in (v, s\<lparr>io_log := io_log s @ [In port v]\<rparr>))"

definition outb :: "byte \<Rightarrow> u16 \<Rightarrow> 'a machine_scheme \<Rightarrow> 'a machine_scheme" where
  "outb data port s = s\<lparr>io_log := io_log s @ [Out port data]\<rparr>"

definition cli :: "'a machine_scheme \<Rightarrow> 'a machine_scheme" where
  "cli s = s\<lparr>iflag := False\<rparr>"

definition sti :: "'a machine_scheme \<Rightarrow> 'a machine_scheme" where
  "sti s = s\<lparr>iflag := True\<rparr>"

section \<open>Reading the log\<close>

text \<open>The bytes written to one port, oldest first, and the last of them.\<close>

fun outs_to :: "u16 \<Rightarrow> io_event list \<Rightarrow> byte list" where
  "outs_to p [] = []"
| "outs_to p (Out q b # es) = (if q = p then b # outs_to p es else outs_to p es)"
| "outs_to p (In q b # es) = outs_to p es"

definition last_out :: "u16 \<Rightarrow> io_event list \<Rightarrow> byte option" where
  "last_out p es = (if outs_to p es = [] then None else Some (last (outs_to p es)))"

lemma outs_to_append [simp]: "outs_to p (es @ fs) = outs_to p es @ outs_to p fs"
  by (induction p es rule: outs_to.induct) auto

lemma last_out_Out [simp]:
  "last_out p (es @ [Out q b]) = (if q = p then Some b else last_out p es)"
  by (simp add: last_out_def)

lemma last_out_In [simp]: "last_out p (es @ [In q b]) = last_out p es"
  by (simp add: last_out_def)

section \<open>Frame facts of the primitives\<close>

lemma inb_frame [simp]:
  "iflag (snd (inb dev p s)) = iflag s"
  "ram (snd (inb dev p s)) = ram s"
  "machine.more (snd (inb dev p s)) = machine.more s"
  by (simp_all add: inb_def Let_def)

lemma outb_frame [simp]:
  "iflag (outb d p s) = iflag s"
  "ram (outb d p s) = ram s"
  "io_log (outb d p s) = io_log s @ [Out p d]"
  "machine.more (outb d p s) = machine.more s"
  by (simp_all add: outb_def)

lemma cli_frame [simp]:
  "iflag (cli s) = False" "ram (cli s) = ram s" "io_log (cli s) = io_log s"
  "machine.more (cli s) = machine.more s"
  by (simp_all add: cli_def)

lemma sti_frame [simp]:
  "iflag (sti s) = True" "ram (sti s) = ram s" "io_log (sti s) = io_log s"
  "machine.more (sti s) = machine.more s"
  by (simp_all add: sti_def)

section \<open>Busy waiting\<close>

text \<open>
  A busy-waiting loop \<^verbatim>\<open>while (!flag);\<close> ends when an interrupt handler changes the flag. The
  interrupts that arrive are an argument, \<open>evs\<close>: each one that arrives while the interrupt flag
  is set runs its handler \<open>isr e\<close>. The result is the rest of the interrupts and the state after
  the loop, or None as long as the loop has not ended.
\<close>

fun spin ::
  "('a machine_scheme \<Rightarrow> bool) \<Rightarrow> ('e \<Rightarrow> 'a machine_scheme \<Rightarrow> 'a machine_scheme) \<Rightarrow> 'e list \<Rightarrow>
     'a machine_scheme \<Rightarrow> ('e list \<times> 'a machine_scheme) option" where
  "spin flag isr [] s = (if flag s then Some ([], s) else None)"
| "spin flag isr (e # evs) s =
     (if flag s then Some (e # evs, s)
      else if iflag s then spin flag isr evs (isr e s) else None)"

lemma spin_now: "flag s \<Longrightarrow> spin flag isr evs s = Some (evs, s)"
  by (cases evs) simp_all

lemma spin_wait: "\<not> flag s \<Longrightarrow> iflag s \<Longrightarrow> spin flag isr (e # evs) s = spin flag isr evs (isr e s)"
  by simp

lemma spin_done: "spin flag isr evs s = Some (rest, t) \<Longrightarrow> flag t \<and> (\<exists>used. evs = used @ rest)"
proof (induction flag isr evs s rule: spin.induct)
  case (2 flag isr e evs s)
  then show ?case by (fastforce split: if_splits intro: exI [of _ "e # _"])
qed (auto split: if_splits)

end
