(* ===== verification/Console.thy ===== *)
theory Console
  imports Machine LibStr "HOL-Library.Signed_Division"
begin

text \<open>
  The text console of \<^verbatim>\<open>src/student-distrib/lib.c\<close>: the cursor \<open>screen_x\<close>, \<open>screen_y\<close> and
  the text-mode video memory at \<^verbatim>\<open>VIDEO\<close>, which is a part of \<open>ram\<close>. Modelled: \<open>clear\<close>,
  \<open>putc\<close>, \<open>puts\<close>, \<open>printf\<close>, \<open>test_interrupts\<close>, \<open>scroll_term\<close>, \<open>move_cursor\<close>,
  \<open>clear_term\<close>, \<open>backspace_pressed\<close>, \<open>putc_term\<close>, \<open>puts_term\<close>, \<open>term_init\<close>.

  The cursor is a pair of C \<open>int\<close>s, modelled as \<open>int\<close>: under the invariant \<open>on_screen\<close> they are
  far from the bounds of the type. The abstract console \<open>aterm\<close> is a grid of 25 rows of 80
  characters and a cursor; \<open>putc_term\<close> is proved to implement its \<open>aterm_put\<close>.
\<close>

record console_state = machine +
  screen_x :: int
  screen_y :: int

section \<open>Definitions\<close>

definition VIDEO :: u32 where "VIDEO = 0xB8000"
definition NUM_COLS :: int where "NUM_COLS = 80"
definition NUM_ROWS :: int where "NUM_ROWS = 25"
definition ATTRIB :: byte where "ATTRIB = 0x7"

text \<open>The address \<^verbatim>\<open>video_mem + off\<close>.\<close>

definition vaddr :: "int \<Rightarrow> u32" where
  "vaddr off = VIDEO + w32 off"

text \<open>Storing a character and its attribute in the cell with index \<open>k\<close>.\<close>

definition put_cell :: "byte \<Rightarrow> int \<Rightarrow> mem \<Rightarrow> mem" where
  "put_cell c k m = m(vaddr (push_bit 1 k) := c, vaddr (push_bit 1 k + 1) := ATTRIB)"

definition clear :: "'a console_state_scheme \<Rightarrow> 'a console_state_scheme" where
  "clear s =
     s\<lparr>ram := fold (\<lambda>i. put_cell 0x20 (int i)) [0..<nat (NUM_ROWS * NUM_COLS)] (ram s)\<rparr>"

definition putc :: "byte \<Rightarrow> 'a console_state_scheme \<Rightarrow> 'a console_state_scheme" where
  "putc c s =
     (if c = 0x0A \<or> c = 0x0D then s\<lparr>screen_y := screen_y s + 1, screen_x := 0\<rparr>
      else let m = put_cell c (NUM_COLS * screen_y s + screen_x s) (ram s);
               x = (screen_x s + 1) smod NUM_COLS;
               y = (screen_y s + (x sdiv NUM_COLS)) smod NUM_ROWS
           in s\<lparr>ram := m, screen_x := x, screen_y := y\<rparr>)"

partial_function (option) puts_loop ::
  "cptr \<Rightarrow> nat \<Rightarrow> 'a console_state_scheme \<Rightarrow> (nat \<times> 'a console_state_scheme) option" where
  "puts_loop str index s =
     (if str index \<noteq> 0 then puts_loop str (Suc index) (putc (str index) s)
      else Some (index, s))"

definition puts :: "cptr \<Rightarrow> 'a console_state_scheme \<Rightarrow> (nat \<times> 'a console_state_scheme) option" where
  "puts str s = puts_loop str 0 s"

text \<open>
  The numbers of \<open>printf\<close> are converted in a local buffer, which starts at address 0 of a
  memory of its own; \<open>junk\<close> is what the stack held there before. The arguments of the call are
  the words \<open>stk 0\<close>, \<open>stk 1\<close>, \<open>\<dots>\<close> above the format pointer.
\<close>

definition print_num ::
  "mem \<Rightarrow> u32 \<Rightarrow> u32 \<Rightarrow> 'a console_state_scheme \<Rightarrow> 'a console_state_scheme option" where
  "print_num junk v radix s =
     (case itoa junk v 0 radix of
        None \<Rightarrow> None
      | Some conv_buf \<Rightarrow> map_option snd (puts (view conv_buf 0) s))"

definition print_hex8 :: "mem \<Rightarrow> u32 \<Rightarrow> 'a console_state_scheme \<Rightarrow> 'a console_state_scheme option" where
  "print_hex8 junk v s =
     (case itoa junk v 8 16 of
        None \<Rightarrow> None
      | Some conv_buf \<Rightarrow>
          (case strlen (view conv_buf 8) of
             None \<Rightarrow> None
           | Some starting_index \<Rightarrow>
               (let conv_buf = fold (\<lambda>i m. m(of_nat i := 0x30)) [starting_index..<8] conv_buf
                in map_option snd (puts (view conv_buf (of_nat starting_index)) s))))"

definition print_dec :: "mem \<Rightarrow> u32 \<Rightarrow> 'a console_state_scheme \<Rightarrow> 'a console_state_scheme option" where
  "print_dec junk v s =
     (if s32 v < 0 then
        (case itoa (junk(0 := 0x2D)) (- v) 1 10 of
           None \<Rightarrow> None
         | Some conv_buf \<Rightarrow> map_option snd (puts (view conv_buf 0) s))
      else print_num junk v 10 s)"

partial_function (option) printf_conv ::
  "mem \<Rightarrow> cptr \<Rightarrow> (nat \<Rightarrow> u32) \<Rightarrow> bool \<Rightarrow> nat \<Rightarrow> nat \<Rightarrow> 'a console_state_scheme \<Rightarrow>
     (nat \<times> nat \<times> 'a console_state_scheme) option" where
  "printf_conv junk fmt stk alternate buf esp s =
     (if fmt buf = 0x25 then Some (buf, esp, putc 0x25 s)
      else if fmt buf = 0x23 then printf_conv junk fmt stk True (Suc buf) esp s
      else if fmt buf = 0x78 then
        map_option (\<lambda>t. (buf, Suc esp, t))
          (if \<not> alternate then print_num junk (stk esp) 16 s else print_hex8 junk (stk esp) s)
      else if fmt buf = 0x75 then map_option (\<lambda>t. (buf, Suc esp, t)) (print_num junk (stk esp) 10 s)
      else if fmt buf = 0x64 then map_option (\<lambda>t. (buf, Suc esp, t)) (print_dec junk (stk esp) s)
      else if fmt buf = 0x63 then Some (buf, Suc esp, putc (ucast (stk esp)) s)
      else if fmt buf = 0x73 then
        map_option (\<lambda>(n, t). (buf, Suc esp, t)) (puts (view (ram s) (stk esp)) s)
      else Some (buf, esp, s))"

partial_function (option) printf_loop ::
  "mem \<Rightarrow> cptr \<Rightarrow> (nat \<Rightarrow> u32) \<Rightarrow> nat \<Rightarrow> nat \<Rightarrow> 'a console_state_scheme \<Rightarrow>
     (nat \<times> 'a console_state_scheme) option" where
  "printf_loop junk fmt stk buf esp s =
     (if fmt buf = 0 then Some (buf, s)
      else if fmt buf = 0x25 then
        Option.bind (printf_conv junk fmt stk False (Suc buf) esp s)
          (\<lambda>(buf', esp', t). printf_loop junk fmt stk (Suc buf') esp' t)
      else printf_loop junk fmt stk (Suc buf) esp (putc (fmt buf) s))"

definition printf ::
  "mem \<Rightarrow> cptr \<Rightarrow> (nat \<Rightarrow> u32) \<Rightarrow> 'a console_state_scheme \<Rightarrow> (nat \<times> 'a console_state_scheme) option" where
  "printf junk fmt stk s = printf_loop junk fmt stk 0 0 s"

text \<open>
  \<open>test_interrupts\<close> adds one to the character of every cell.
\<close>

definition test_interrupts :: "'a console_state_scheme \<Rightarrow> 'a console_state_scheme" where
  "test_interrupts s =
     s\<lparr>ram := fold (\<lambda>i m. m(vaddr (push_bit 1 (int i)) := m (vaddr (push_bit 1 (int i))) + 1))
                [0..<nat (NUM_ROWS * NUM_COLS)] (ram s)\<rparr>"

definition scroll_up :: "nat \<Rightarrow> mem \<Rightarrow> mem" where
  "scroll_up i m =
     m(vaddr (push_bit 1 (int i)) := m (vaddr (push_bit 1 (int i + NUM_COLS))))"

definition scroll_blank :: "nat \<Rightarrow> mem \<Rightarrow> mem" where
  "scroll_blank i m = m(vaddr (push_bit 1 (int i)) := 0x20)"

definition scroll_term :: "'a console_state_scheme \<Rightarrow> 'a console_state_scheme" where
  "scroll_term s =
     (let m1 = fold scroll_up [0..<nat ((NUM_ROWS - 1) * NUM_COLS)] (ram s);
          m2 = fold scroll_blank
                 [nat ((NUM_ROWS - 1) * NUM_COLS)..<nat (NUM_ROWS * NUM_COLS)] m1
      in s\<lparr>ram := m2\<rparr>)"

definition move_cursor :: "'a console_state_scheme \<Rightarrow> 'a console_state_scheme" where
  "move_cursor s =
     (let pos = screen_y s * NUM_COLS + screen_x s;
          s = outb 0x0E 0x3D4 s;
          s = outb (word_of_int (drop_bit 8 pos)) 0x3D5 s;
          s = outb 0x0F 0x3D4 s
      in outb (word_of_int pos) 0x3D5 s)"

definition clear_term :: "'a console_state_scheme \<Rightarrow> 'a console_state_scheme" where
  "clear_term s = (let s = clear s in move_cursor (s\<lparr>screen_x := 0, screen_y := 0\<rparr>))"

definition backspace_pressed :: "'a console_state_scheme \<Rightarrow> 'a console_state_scheme" where
  "backspace_pressed s =
     (let s = (if screen_x s = 0 then
                 (if screen_y s \<noteq> 0
                  then s\<lparr>screen_x := NUM_COLS - 1, screen_y := screen_y s - 1\<rparr> else s)
               else s\<lparr>screen_x := screen_x s - 1\<rparr>)
      in s\<lparr>ram := put_cell 0x20 (NUM_COLS * screen_y s + screen_x s) (ram s)\<rparr>)"

text \<open>The branch of \<open>putc_term\<close> for characters from the space on.\<close>

definition putc_term_print :: "byte \<Rightarrow> 'a console_state_scheme \<Rightarrow> 'a console_state_scheme" where
  "putc_term_print c s =
     (let s = s\<lparr>ram := put_cell c (NUM_COLS * screen_y s + screen_x s) (ram s)\<rparr>;
          s = s\<lparr>screen_x := screen_x s + 1\<rparr>;
          s = (if screen_x s \<ge> NUM_COLS then
                 (if screen_y s = 24 then scroll_term s else s\<lparr>screen_y := screen_y s + 1\<rparr>)
               else s)
      in s\<lparr>screen_x := screen_x s smod NUM_COLS\<rparr>)"

definition putc_term :: "byte \<Rightarrow> 'a console_state_scheme \<Rightarrow> 'a console_state_scheme" where
  "putc_term c s =
     (let s = (if c = 0x08 then backspace_pressed s
               else if c = 0x09 then s\<lparr>screen_x := screen_x s + 4\<rparr>
               else if c = 0x0D then s\<lparr>screen_x := 0\<rparr>
               else if c = 0x0A then s\<lparr>screen_y := screen_y s + 1, screen_x := 0\<rparr>
               else if c \<ge> 0x20 then putc_term_print c s
               else s);
          s = (if screen_y s \<ge> NUM_ROWS then (scroll_term s)\<lparr>screen_y := NUM_ROWS - 1\<rparr> else s)
      in move_cursor s)"

partial_function (option) puts_term ::
  "cptr \<Rightarrow> nat \<Rightarrow> 'a console_state_scheme \<Rightarrow> 'a console_state_scheme option" where
  "puts_term str i s =
     (if str i \<noteq> 0 then puts_term str (Suc i) (putc_term (str i) s) else Some s)"

definition term_init :: "'a console_state_scheme \<Rightarrow> 'a console_state_scheme" where
  "term_init s = clear_term s"

section \<open>Video memory\<close>

lemmas screen_consts = NUM_COLS_def NUM_ROWS_def

lemma vaddr_inj:
  "0 \<le> x \<Longrightarrow> x < 4294967296 \<Longrightarrow> 0 \<le> y \<Longrightarrow> y < 4294967296 \<Longrightarrow> vaddr x = vaddr y \<longleftrightarrow> x = y"
  by (simp add: vaddr_def w32_inj)

text \<open>Every address is the video memory plus an offset, so a memory is known by its offsets.\<close>

lemma vaddr_surj: "a = vaddr (uint (a - VIDEO))"
  by (simp add: vaddr_def)

lemma put_cell_at:
  assumes "0 \<le> k" "k < 1000000" "0 \<le> x" "x < 4294967296"
  shows "put_cell c k m (vaddr x) = (if x = 2 * k then c else if x = 2 * k + 1 then ATTRIB else m (vaddr x))"
  using assms vaddr_inj [of x "2 * k"] vaddr_inj [of x "2 * k + 1"] by (simp add: put_cell_def mult.commute [of k])

lemma scroll_up_fold:
  assumes "0 \<le> x" "x < 4294967296" "n \<le> 1920"
  shows "fold scroll_up [0..<n] m (vaddr x) =
    (if even x \<and> x < 2 * int n then m (vaddr (x + 160)) else m (vaddr x))"
  using assms
proof (induction n arbitrary: x)
  case 0
  then show ?case by simp
next
  case (Suc n)
  let ?m = "fold scroll_up [0..<n] m"
  have "fold scroll_up [0..<Suc n] m (vaddr x) =
      (if x = 2 * int n then ?m (vaddr (2 * int n + 160)) else ?m (vaddr x))"
    using Suc.prems vaddr_inj [of x "2 * int n"]
    by (simp add: scroll_up_def NUM_COLS_def algebra_simps)
  also have "?m (vaddr (2 * int n + 160)) = m (vaddr (2 * int n + 160))"
    using Suc.prems by (subst Suc.IH) simp_all
  finally show ?case
    using Suc.prems Suc.IH [of x] by (auto elim!: evenE)
qed

lemma scroll_blank_fold:
  assumes "0 \<le> x" "x < 4294967296" "k \<le> n" "n \<le> 2000"
  shows "fold scroll_blank [k..<n] m (vaddr x) =
    (if even x \<and> 2 * int k \<le> x \<and> x < 2 * int n then 0x20 else m (vaddr x))"
  using assms
proof (induction n)
  case 0
  then show ?case by simp
next
  case (Suc n)
  show ?case
  proof (cases "k = Suc n")
    case True
    then show ?thesis by auto
  next
    case False
    then have k: "k \<le> n" using Suc.prems by simp
    have "fold scroll_blank [k..<Suc n] m (vaddr x) =
        (if x = 2 * int n then 0x20 else fold scroll_blank [k..<n] m (vaddr x))"
      using Suc.prems k vaddr_inj [of x "2 * int n"]
      by (simp add: scroll_blank_def mult.commute [of "int n"])
    then show ?thesis
      using Suc.prems k Suc.IH by (auto elim!: evenE)
  qed
qed

lemma clear_fold:
  assumes "0 \<le> x" "x < 4294967296" "n \<le> 2000"
  shows "fold (\<lambda>i. put_cell 0x20 (int i)) [0..<n] m (vaddr x) =
    (if x < 2 * int n then (if even x then 0x20 else ATTRIB) else m (vaddr x))"
  using assms
proof (induction n)
  case 0
  then show ?case by simp
next
  case (Suc n)
  then show ?case
    by (auto simp: put_cell_at elim!: evenE oddE)
qed

section \<open>The abstract console\<close>

text \<open>
  A grid of 25 rows of 80 characters with a cursor. What a cell beyond the grid holds is
  fixed to 0, so that equal consoles show the same screen.
\<close>

record aterm =
  grid :: "nat \<Rightarrow> nat \<Rightarrow> byte"
  col :: nat
  row :: nat

definition cut :: "(nat \<Rightarrow> nat \<Rightarrow> byte) \<Rightarrow> nat \<Rightarrow> nat \<Rightarrow> byte" where
  "cut g r c = (if r < 25 \<and> c < 80 then g r c else 0)"

definition aterm_newline :: "aterm \<Rightarrow> aterm" where
  "aterm_newline t =
     (if row t = 24
      then t\<lparr>grid := cut (\<lambda>r c. if r < 24 then grid t (Suc r) c else 0x20), col := 0\<rparr>
      else t\<lparr>row := Suc (row t), col := 0\<rparr>)"

definition aterm_store :: "byte \<Rightarrow> aterm \<Rightarrow> aterm" where
  "aterm_store b t = t\<lparr>grid := (\<lambda>r c. if r = row t \<and> c = col t then b else grid t r c)\<rparr>"

definition aterm_back :: "aterm \<Rightarrow> aterm" where
  "aterm_back t =
     aterm_store 0x20
       (if col t \<noteq> 0 then t\<lparr>col := col t - 1\<rparr>
        else if row t \<noteq> 0 then t\<lparr>col := 79, row := row t - 1\<rparr>
        else t)"

definition aterm_put :: "byte \<Rightarrow> aterm \<Rightarrow> aterm" where
  "aterm_put c t =
     (if c = 0x08 then aterm_back t
      else if c = 0x0D then t\<lparr>col := 0\<rparr>
      else if c = 0x0A then aterm_newline t
      else if c \<ge> 0x20
      then (if col t = 79 then aterm_newline (aterm_store c t)
            else (aterm_store c t)\<lparr>col := Suc (col t)\<rparr>)
      else t)"

text \<open>What is on the screen, and the states whose cursor is on it.\<close>

definition char_at :: "mem \<Rightarrow> nat \<Rightarrow> nat \<Rightarrow> byte" where
  "char_at m r c = m (vaddr (2 * (80 * int r + int c)))"

definition abs_term :: "'a console_state_scheme \<Rightarrow> aterm" where
  "abs_term s =
     \<lparr>grid = cut (char_at (ram s)), col = nat (screen_x s), row = nat (screen_y s)\<rparr>"

definition on_screen :: "'a console_state_scheme \<Rightarrow> bool" where
  "on_screen s \<longleftrightarrow> 0 \<le> screen_x s \<and> screen_x s < 80 \<and> 0 \<le> screen_y s \<and> screen_y s < 25"

text \<open>The bytes of the 80 by 25 screen.\<close>

definition screen_bytes :: "u32 set" where
  "screen_bytes = vaddr ` {0..<4000}"

lemma screen_bytes_iff:
  assumes "0 \<le> x" "x < 4294967296"
  shows "vaddr x \<in> screen_bytes \<longleftrightarrow> x < 4000"
proof
  assume "vaddr x \<in> screen_bytes"
  then obtain y where y: "0 \<le> y" "y < 4000" "vaddr x = vaddr y"
    by (auto simp: screen_bytes_def)
  with vaddr_inj [of x y] assms show "x < 4000" by simp
qed (use assms in \<open>auto simp: screen_bytes_def\<close>)

lemma not_screen: "a \<notin> screen_bytes \<Longrightarrow> \<exists>x. a = vaddr x \<and> 4000 \<le> x \<and> x < 4294967296"
  using vaddr_surj [of a] screen_bytes_iff [of "uint (a - VIDEO)"]
  by (intro exI [of _ "uint (a - VIDEO)"]) auto

section \<open>Effects of the operations\<close>

lemma move_cursor_frame [simp]:
  "ram (move_cursor s) = ram s" "screen_x (move_cursor s) = screen_x s"
  "screen_y (move_cursor s) = screen_y s" "iflag (move_cursor s) = iflag s"
  "console_state.more (move_cursor s) = console_state.more s"
  by (simp_all add: move_cursor_def Let_def outb_def)

lemma abs_move_cursor [simp]: "abs_term (move_cursor s) = abs_term s"
  by (simp add: abs_term_def)

lemma scroll_term_frame [simp]:
  "screen_x (scroll_term s) = screen_x s" "screen_y (scroll_term s) = screen_y s"
  "iflag (scroll_term s) = iflag s" "io_log (scroll_term s) = io_log s"
  "console_state.more (scroll_term s) = console_state.more s"
  by (simp_all add: scroll_term_def Let_def)

lemma scroll_term_at:
  assumes "0 \<le> x" "x < 4294967296"
  shows "ram (scroll_term s) (vaddr x) =
    (if even x \<and> x < 3840 then ram s (vaddr (x + 160))
     else if even x \<and> x < 4000 then 0x20 else ram s (vaddr x))"
proof -
  have n: "nat ((NUM_ROWS - 1) * NUM_COLS) = 1920" "nat (NUM_ROWS * NUM_COLS) = 2000"
    by (simp_all add: screen_consts)
  show ?thesis
    using assms scroll_up_fold [of x 1920 "ram s"]
      scroll_blank_fold [of x 1920 2000 "fold scroll_up [0..<1920] (ram s)"]
    by (simp add: scroll_term_def n Let_def)
qed

lemma clear_at:
  assumes "0 \<le> x" "x < 4294967296"
  shows "ram (clear s) (vaddr x) =
    (if x < 4000 then (if even x then 0x20 else ATTRIB) else ram s (vaddr x))"
proof -
  have n: "nat (NUM_ROWS * NUM_COLS) = 2000" by (simp add: screen_consts)
  show ?thesis using assms clear_fold [of x 2000 "ram s"] by (simp add: clear_def n)
qed

lemma even_neq_odd: "2 * (u :: int) \<noteq> 2 * v + 1"
  by presburger

lemma char_at_put_cell:
  assumes "0 \<le> x" "x < 80" "0 \<le> y" "y < 25" "r < 25" "c < 80"
  shows "char_at (put_cell b (NUM_COLS * y + x) m) r c =
    (if int r = y \<and> int c = x then b else char_at m r c)"
proof -
  have d: "(80 * int r + int c) div 80 = int r" "(80 * y + x) div 80 = y"
    using assms by simp_all
  have eq: "2 * (80 * int r + int c) = 2 * (80 * y + x) \<longleftrightarrow> int r = y \<and> int c = x"
  proof
    assume "2 * (80 * int r + int c) = 2 * (80 * y + x)"
    then have e: "80 * int r + int c = 80 * y + x" by simp
    with d have "int r = y" by metis
    with e show "int r = y \<and> int c = x" by simp
  qed simp
  have odd: "2 * (80 * int r + int c) \<noteq> 2 * (80 * y + x) + 1"
    by (rule even_neq_odd)
  show ?thesis
    using assms odd eq by (simp add: char_at_def put_cell_at NUM_COLS_def)
qed

lemma char_at_scroll:
  "r < 25 \<Longrightarrow> c < 80 \<Longrightarrow>
     char_at (ram (scroll_term s)) r c = (if r < 24 then char_at (ram s) (Suc r) c else 0x20)"
  by (simp add: char_at_def scroll_term_at algebra_simps)

lemma abs_store:
  assumes "on_screen s"
  shows "abs_term (s\<lparr>ram := put_cell b (NUM_COLS * screen_y s + screen_x s) (ram s)\<rparr>) =
    aterm_store b (abs_term s)"
  using assms
  by (auto simp: abs_term_def aterm_store_def cut_def on_screen_def char_at_put_cell fun_eq_iff)

lemma abs_scroll:
  assumes "on_screen s" "screen_y s = 24"
  shows "abs_term ((scroll_term s)\<lparr>screen_x := 0\<rparr>) = aterm_newline (abs_term s)"
  using assms
  by (auto simp: abs_term_def aterm_newline_def cut_def char_at_scroll fun_eq_iff)

lemma abs_backspace: "on_screen s \<Longrightarrow> abs_term (backspace_pressed s) = aterm_back (abs_term s)"
proof -
  assume s: "on_screen s"
  let ?s = "if screen_x s = 0 then
       (if screen_y s \<noteq> 0 then s\<lparr>screen_x := NUM_COLS - 1, screen_y := screen_y s - 1\<rparr> else s)
     else s\<lparr>screen_x := screen_x s - 1\<rparr>"
  have "on_screen ?s" using s by (auto simp: on_screen_def NUM_COLS_def)
  then have "abs_term (backspace_pressed s) = aterm_store 0x20 (abs_term ?s)"
    unfolding backspace_pressed_def Let_def by (rule abs_store)
  also have "abs_term ?s = (if col (abs_term s) \<noteq> 0 then (abs_term s)\<lparr>col := col (abs_term s) - 1\<rparr>
        else if row (abs_term s) \<noteq> 0 then (abs_term s)\<lparr>col := 79, row := row (abs_term s) - 1\<rparr>
        else abs_term s)"
    using s by (auto simp: abs_term_def on_screen_def NUM_COLS_def nat_diff_distrib)
  finally show ?thesis by (simp add: aterm_back_def)
qed

lemma abs_print:
  assumes s: "on_screen s"
  shows "abs_term (putc_term_print c s) =
    (if col (abs_term s) = 79 then aterm_newline (aterm_store c (abs_term s))
     else (aterm_store c (abs_term s))\<lparr>col := Suc (col (abs_term s))\<rparr>)"
proof -
  let ?s = "s\<lparr>ram := put_cell c (NUM_COLS * screen_y s + screen_x s) (ram s)\<rparr>"
  have st: "abs_term ?s = aterm_store c (abs_term s)" by (rule abs_store [OF s])
  have on: "on_screen ?s" using s by (simp add: on_screen_def)
  consider (wrap) "screen_x s = 79" "screen_y s = 24" | (down) "screen_x s = 79" "screen_y s < 24"
    | (mid) "screen_x s < 79"
    using s by (force simp: on_screen_def)
  then show ?thesis
  proof cases
    case wrap
    then have "putc_term_print c s = (scroll_term (?s\<lparr>screen_x := 80\<rparr>))\<lparr>screen_x := 0\<rparr>"
      by (simp add: putc_term_print_def NUM_COLS_def Let_def signed_modulo_int_def)
    also have "abs_term \<dots> = abs_term ((scroll_term ?s)\<lparr>screen_x := 0\<rparr>)"
      by (simp add: abs_term_def scroll_term_def Let_def)
    finally show ?thesis
      using abs_scroll [OF on] wrap st by (simp add: abs_term_def)
  next
    case down
    then have "putc_term_print c s = ?s\<lparr>screen_x := 0, screen_y := screen_y s + 1\<rparr>"
      by (simp add: putc_term_print_def NUM_COLS_def Let_def signed_modulo_int_def)
    then show ?thesis
      using down st s by (auto simp: aterm_newline_def abs_term_def on_screen_def nat_add_distrib aterm_store_def)
  next
    case mid
    then have "putc_term_print c s = ?s\<lparr>screen_x := screen_x s + 1\<rparr>"
      using s by (simp add: putc_term_print_def NUM_COLS_def Let_def signed_modulo_int_def on_screen_def)
    then show ?thesis
      using mid st s by (auto simp: abs_term_def on_screen_def nat_add_distrib aterm_store_def)
  qed
qed

lemma abs_newline:
  assumes s: "on_screen s"
  shows "abs_term (let t = s\<lparr>screen_y := screen_y s + 1, screen_x := 0\<rparr>
      in if screen_y t \<ge> NUM_ROWS then (scroll_term t)\<lparr>screen_y := NUM_ROWS - 1\<rparr> else t) =
    aterm_newline (abs_term s)"
proof (cases "screen_y s = 24")
  case True
  have "abs_term ((scroll_term (s\<lparr>screen_y := screen_y s + 1, screen_x := 0\<rparr>))\<lparr>screen_y := NUM_ROWS - 1\<rparr>) =
      abs_term ((scroll_term s)\<lparr>screen_x := 0\<rparr>)"
    using True by (simp add: abs_term_def scroll_term_def Let_def NUM_ROWS_def)
  with True abs_scroll [OF s] show ?thesis by (simp add: NUM_ROWS_def)
next
  case False
  with s show ?thesis
    by (auto simp: abs_term_def aterm_newline_def on_screen_def NUM_ROWS_def nat_add_distrib)
qed

lemma print_row: "on_screen s \<Longrightarrow> screen_y (putc_term_print c s) < 25"
  by (auto simp: putc_term_print_def Let_def on_screen_def)

lemma backspace_row: "on_screen s \<Longrightarrow> screen_y (backspace_pressed s) < 25"
  by (auto simp: backspace_pressed_def Let_def on_screen_def)

lemma abs_putc_term:
  assumes s: "on_screen s" and c: "c \<noteq> 0x09"
  shows "abs_term (putc_term c s) = aterm_put c (abs_term s)"
proof -
  have row: "screen_y s < 25" using s by (simp add: on_screen_def)
  show ?thesis
    using c row print_row [OF s, of c] backspace_row [OF s] abs_newline [OF s] s
    by (auto simp: putc_term_def aterm_put_def Let_def NUM_ROWS_def abs_backspace abs_print not_le
        abs_term_def [of "s\<lparr>screen_x := 0\<rparr>"] abs_term_def [of s])
qed

section \<open>The cursor stays on the screen\<close>

lemma on_screen_move_cursor [simp]: "on_screen (move_cursor s) = on_screen s"
  by (simp add: on_screen_def)

lemma on_screen_backspace: "on_screen s \<Longrightarrow> on_screen (backspace_pressed s)"
  by (auto simp: backspace_pressed_def Let_def on_screen_def NUM_COLS_def)

lemma on_screen_print:
  assumes "on_screen s"
  shows "on_screen (putc_term_print c s)"
  using assms
  by (auto simp: putc_term_print_def Let_def on_screen_def NUM_COLS_def signed_modulo_int_def)

lemma on_screen_putc_term: "on_screen s \<Longrightarrow> c \<noteq> 0x09 \<Longrightarrow> on_screen (putc_term c s)"
  using on_screen_print [of s c] on_screen_backspace [of s]
  by (auto simp: putc_term_def Let_def on_screen_def NUM_ROWS_def)

section \<open>Writes stay on the screen\<close>

lemma put_cell_frame:
  assumes "a \<notin> screen_bytes" "0 \<le> k" "k < 2000"
  shows "put_cell c k m a = m a"
  using not_screen [OF assms(1)] assms(2,3) by (auto simp: put_cell_at)

lemma scroll_term_mem: "a \<notin> screen_bytes \<Longrightarrow> ram (scroll_term s) a = ram s a"
  by (drule not_screen) (auto simp: scroll_term_at)

lemma clear_mem: "a \<notin> screen_bytes \<Longrightarrow> ram (clear s) a = ram s a"
  by (drule not_screen) (auto simp: clear_at)

lemma backspace_mem:
  assumes s: "on_screen s" and a: "a \<notin> screen_bytes"
  shows "ram (backspace_pressed s) a = ram s a"
proof -
  let ?t = "backspace_pressed s"
  have on: "on_screen ?t" by (rule on_screen_backspace [OF s])
  have "ram ?t = put_cell 0x20 (80 * screen_y ?t + screen_x ?t) (ram s)"
    by (simp add: backspace_pressed_def Let_def NUM_COLS_def)
  then show ?thesis
    using on by (simp add: put_cell_frame [OF a] on_screen_def)
qed

lemma print_mem:
  assumes s: "on_screen s" and a: "a \<notin> screen_bytes"
  shows "ram (putc_term_print c s) a = ram s a"
  using s
  by (simp add: putc_term_print_def Let_def scroll_term_mem [OF a] NUM_COLS_def on_screen_def
      put_cell_frame [OF a])

lemma putc_term_mem:
  assumes s: "on_screen s" and a: "a \<notin> screen_bytes"
  shows "ram (putc_term c s) a = ram s a"
  using print_mem [OF s a, of c] backspace_mem [OF s a]
  by (simp add: putc_term_def Let_def scroll_term_mem [OF a])

lemma putc_term_more [simp]:
  "console_state.more (putc_term c s) = console_state.more s" "iflag (putc_term c s) = iflag s"
  by (simp_all add: putc_term_def putc_term_print_def backspace_pressed_def Let_def)

lemma puts_term_fold:
  "is_cstring str n \<Longrightarrow> puts_term str 0 s = Some (fold putc_term (view_take str n) s)"
proof -
  assume str: "is_cstring str n"
  have "puts_term str (n - k) s = Some (fold (\<lambda>i. putc_term (str i)) [n - k..<n] s)" if "k \<le> n" for k s
    using that
  proof (induction k arbitrary: s)
    case 0
    then show ?case using str by (subst puts_term.simps) (simp add: is_cstring_def)
  next
    case (Suc k)
    then have "str (n - Suc k) \<noteq> 0" "Suc (n - Suc k) = n - k" "n - Suc k < n"
      using str by (simp_all add: is_cstring_def)
    with Suc show ?case by (subst puts_term.simps) (simp add: upt_conv_Cons)
  qed
  from this [of n] show ?thesis by (simp add: view_take_def fold_map comp_def)
qed

section \<open>puts and printf\<close>

lemma puts_fold:
  "is_cstring str n \<Longrightarrow> puts str s = Some (n, fold putc (view_take str n) s)"
proof -
  assume str: "is_cstring str n"
  have "puts_loop str (n - k) s = Some (n, fold (\<lambda>i. putc (str i)) [n - k..<n] s)" if "k \<le> n" for k s
    using that
  proof (induction k arbitrary: s)
    case 0
    then show ?case using str by (subst puts_loop.simps) (simp add: is_cstring_def)
  next
    case (Suc k)
    then have "str (n - Suc k) \<noteq> 0" "Suc (n - Suc k) = n - k" "n - Suc k < n"
      using str by (simp_all add: is_cstring_def)
    with Suc show ?case by (subst puts_loop.simps) (simp add: upt_conv_Cons)
  qed
  from this [of n] show ?thesis by (simp add: puts_def view_take_def fold_map comp_def)
qed

lemma puts_written:
  assumes "0 \<notin> set bs" "length bs < 4294967296"
  shows "puts (view (written m p (bs @ [0])) p) s = Some (length bs, fold putc bs s)"
proof -
  have "view_take (view (written m p (bs @ [0])) p) (length bs) = bs"
    using view_written [of "bs @ [0]" m p] assms(2) by (simp add: view_take_Suc)
  then show ?thesis
    using puts_fold [OF is_cstring_written [OF assms, of m p], of s] by (simp only:)
qed

lemma number_chars:
  assumes "2 \<le> r" "r \<le> 36"
  shows "0 \<notin> set (map digit_char (number_digits r n))"
  using digits_bound [OF assms(1), of _ n] digit_char_nonzero assms(2)
  by (force simp: number_digits_def split: if_splits)

lemma number_digits_length: "n < 4294967296 \<Longrightarrow> length (number_digits r n) \<le> 32"
  using digits_length [of n 32 r] by (simp add: number_digits_def)

lemma print_num_digits:
  assumes "2 \<le> unat radix" "unat radix \<le> 36"
  shows "print_num junk v radix s =
    Some (fold putc (map digit_char (number_digits (unat radix) (unat v))) s)"
  using number_digits_length [of "unat v" "unat radix"]
  by (simp add: print_num_def itoa_written [OF assms] puts_written number_chars [OF assms] del: set_map)

lemma print_dec_digits:
  "print_dec junk v s =
     Some (fold putc ((if s32 v < 0 then [0x2D] else []) @
             map digit_char (number_digits 10 (unat (if s32 v < 0 then - v else v)))) s)"
proof (cases "s32 v < 0")
  case True
  let ?ds = "map digit_char (number_digits 10 (unat (- v)))"
  have len: "length ?ds \<le> 32" by (simp add: number_digits_length)
  have nz: "0 \<notin> set (0x2D # ?ds)" using number_chars [of 10 "unat (- v)"] by simp
  have "written (junk(0 := 0x2D)) 1 (?ds @ [0]) = written junk 0 ((0x2D # ?ds) @ [0])"
    using len written_Cons [of "?ds @ [0]" junk 0 "0x2D"] by simp
  then show ?thesis
    using True nz len puts_written [OF nz, of junk 0 s]
    by (simp add: print_dec_def itoa_written)
next
  case False
  then show ?thesis by (simp add: print_dec_def print_num_digits)
qed

lemma fold_fill:
  "n \<le> 4294967296 \<Longrightarrow> a \<le> n \<Longrightarrow>
     fold (\<lambda>i m. m((of_nat i :: u32) := b)) [a..<n] m x =
     (if a \<le> unat x \<and> unat x < n then b else m x)"
proof (induction n)
  case 0
  then show ?case by simp
next
  case (Suc n)
  show ?case
  proof (cases "a = Suc n")
    case True
    then show ?thesis by auto
  next
    case False
    have "of_nat n = x \<longleftrightarrow> unat x = n"
      using Suc.prems by (auto simp: unat_of_nat)
    with False Suc show ?thesis by (auto simp: less_Suc_eq)
  qed
qed

lemma digits_length_16: "n < 16 ^ k \<Longrightarrow> length (digits 16 n) \<le> k"
proof (induction k arbitrary: n)
  case 0
  then show ?case by (subst digits.simps) simp
next
  case (Suc k)
  then have "length (digits 16 (n div 16)) \<le> k"
    by (simp add: less_mult_imp_div_less mult.commute)
  then show ?case by (subst digits.simps) simp
qed

lemma print_hex8_digits:
  fixes v :: u32
  defines "ds \<equiv> number_digits 16 (unat v)"
  shows "length ds \<le> 8 \<and>
    print_hex8 junk v s = Some (fold putc (replicate (8 - length ds) 0x30 @ map digit_char ds) s)"
proof
  have "unat v < 16 ^ 8" using u32_lt [of v] by simp
  then show len: "length ds \<le> 8"
    using digits_length_16 [of "unat v" 8] by (simp add: ds_def number_digits_def)
  let ?n = "length ds" and ?cs = "map digit_char ds"
  let ?m = "written junk 8 (?cs @ [0])"
  let ?m2 = "fold (\<lambda>i m. m((of_nat i :: u32) := 0x30)) [?n..<8] ?m"
  let ?out = "replicate (8 - ?n) 0x30 @ ?cs"
  have nz: "0 \<notin> set ?cs" unfolding ds_def by (rule number_chars) simp_all
  have "strlen (view ?m 8) = Some ?n"
    unfolding strlen_iff using is_cstring_written [OF nz, of junk 8] len by simp
  then have eq: "print_hex8 junk v s = map_option snd (puts (view ?m2 (of_nat ?n)) s)"
    by (simp add: print_hex8_def itoa_written ds_def [symmetric])
  have at: "view ?m2 (of_nat ?n) i = (?out @ [0]) ! i" if "i \<le> 8" for i
  proof -
    note of_nat_add [simp del]
    have u: "unat (of_nat (?n + i) :: u32) = ?n + i" using that len by (simp add: unat_of_nat)
    have "view ?m2 (of_nat ?n) i = ?m2 (of_nat (?n + i))" by (simp add: of_nat_add)
    also have "\<dots> = (if ?n + i < 8 then 0x30 else ?m (of_nat (?n + i)))"
      using len by (simp only: fold_fill u) simp
    also have "\<dots> = (?out @ [0]) ! i"
    proof (cases "?n + i < 8")
      case True
      then have "i < 8 - ?n" by simp
      with True show ?thesis by (simp add: nth_append)
    next
      case False
      have "unat (of_nat (?n + i) - 8 :: u32) = ?n + i - 8"
        using False u len that unat_sub [of 8 "of_nat (?n + i) :: u32"] by (simp add: word_le_nat_alt)
      with False that len show ?thesis
        by (auto simp: written_def in_range_def nth_append add.commute [of i])
    qed
    finally show ?thesis .
  qed
  define V out where "V = view ?m2 (of_nat ?n)" and "out = ?out"
  have V: "V i = (out @ [0]) ! i" if "i \<le> 8" for i
    using at [OF that] by (simp only: V_def out_def)
  have l: "length out = 8" and z: "0 \<notin> set out"
    using len nz by (auto simp: out_def)
  have out_nth: "V i = out ! i" if "i < 8" for i
    using V [of i] that l by (simp add: nth_append)
  have "V 8 = 0" using V [of 8] l by (simp add: nth_append)
  then have "is_cstring V 8"
    using out_nth z l unfolding is_cstring_def by (metis nth_mem)
  then have "puts V s = Some (8, fold putc (view_take V 8) s)"
    by (rule puts_fold)
  moreover have "view_take V 8 = out"
    using l out_nth by (intro nth_equalityI) simp_all
  ultimately show "print_hex8 junk v s = Some (fold putc ?out s)"
    by (simp add: eq V_def [symmetric] out_def [symmetric])
qed

section \<open>Properties\<close>

lemma fold_putc_term:
  "on_screen s \<Longrightarrow> 0x09 \<notin> set cs \<Longrightarrow>
     on_screen (fold putc_term cs s) \<and> abs_term (fold putc_term cs s) = fold aterm_put cs (abs_term s) \<and>
     (\<forall>a. a \<notin> screen_bytes \<longrightarrow> ram (fold putc_term cs s) a = ram s a)"
proof (induction cs arbitrary: s)
  case Nil
  then show ?case by simp
next
  case (Cons c cs)
  then have "on_screen (putc_term c s)" by (simp add: on_screen_putc_term)
  with Cons show ?case by (simp add: abs_putc_term putc_term_mem)
qed

text \<open>C28. Writing a NUL-terminated string without tabs with puts_term does to the video memory and the cursor
  exactly what the 80 by 25 character grid with its scrolling specifies, keeps the cursor on the
  screen, and stores to no byte outside the screen.\<close>

theorem puts_term_refines:
  assumes "on_screen s" and "is_cstring str n" and "0x09 \<notin> set (view_take str n)"
  shows "\<exists>s'. puts_term str 0 s = Some s' \<and> on_screen s' \<and>
    abs_term s' = fold aterm_put (view_take str n) (abs_term s) \<and>
    (\<forall>a. a \<notin> screen_bytes \<longrightarrow> ram s' a = ram s a)"
  using puts_term_fold [OF assms(2)] fold_putc_term [OF assms(1,3)] by blast

definition blank_console :: console_state where
  "blank_console = \<lparr>io_log = [], iflag = False, ram = (\<lambda>a. 0), screen_x = 0, screen_y = 0\<rparr>"

theorem puts_term_refines_witness:
  "on_screen blank_console \<and> is_cstring (list_view [0x48, 0x69]) (Suc (Suc 0)) \<and>
   (\<exists>s'. puts_term (list_view [0x48, 0x69]) 0 blank_console = Some s' \<and> on_screen s')"
proof -
  have on: "on_screen blank_console" by (simp add: on_screen_def blank_console_def)
  have str: "is_cstring (list_view [0x48, 0x69]) (Suc (Suc 0))" by (auto simp: is_cstring_def list_view_def less_Suc_eq)
  have tab: "0x09 \<notin> set (view_take (list_view [0x48, 0x69]) (Suc (Suc 0)))"
    using view_take_list_view [of "[0x48, 0x69]"] by simp
  show ?thesis using on str puts_term_refines [OF on str tab] by blast
qed

lemma split_u16:
  assumes "0 \<le> k" "k < (2000 :: int)"
  shows "256 * uint (word_of_int (drop_bit 8 k) :: byte) + uint (word_of_int k :: byte) = k"
  using assms by (simp add: uint_word_of_int drop_bit_eq_div)

text \<open>After any character other than a tab the VGA cursor registers hold the position of the cursor: the
  last two bytes sent to the data port of the CRT controller are its high and low byte.\<close>

theorem putc_term_cursor:
  assumes "on_screen s" and "c \<noteq> 0x09"
  shows "\<exists>log hi lo. io_log (putc_term c s) =
      log @ [Out 0x3D4 0x0E, Out 0x3D5 hi, Out 0x3D4 0x0F, Out 0x3D5 lo] \<and>
    256 * uint hi + uint lo = 80 * screen_y (putc_term c s) + screen_x (putc_term c s)"
proof -
  obtain t where t: "putc_term c s = move_cursor t"
    by (simp add: putc_term_def Let_def)
  let ?pos = "screen_y t * 80 + screen_x t"
  have "on_screen t" using on_screen_putc_term [OF assms] t by simp
  then have pos: "0 \<le> ?pos" "?pos < 2000" by (auto simp: on_screen_def)
  have log: "io_log (putc_term c s) = io_log t @ [Out 0x3D4 0x0E, Out 0x3D5 (word_of_int (drop_bit 8 ?pos)),
      Out 0x3D4 0x0F, Out 0x3D5 (word_of_int ?pos)]"
    by (simp add: t move_cursor_def Let_def NUM_COLS_def outb_def)
  have "256 * uint (word_of_int (drop_bit 8 ?pos) :: byte) + uint (word_of_int ?pos :: byte) = ?pos"
    using pos by (rule split_u16)
  then have "256 * uint (word_of_int (drop_bit 8 ?pos) :: byte) + uint (word_of_int ?pos :: byte) =
      80 * screen_y (putc_term c s) + screen_x (putc_term c s)"
    by (simp add: t)
  with log show ?thesis by blast
qed

theorem putc_term_cursor_witness:
  "on_screen blank_console \<and>
   (\<exists>log hi lo. io_log (putc_term 0x41 blank_console) =
      log @ [Out 0x3D4 0x0E, Out 0x3D5 hi, Out 0x3D4 0x0F, Out 0x3D5 lo])"
proof -
  have on: "on_screen blank_console" by (simp add: on_screen_def blank_console_def)
  show ?thesis using on putc_term_cursor [OF on, of "0x41"] by auto
qed

lemma clear_term_blank:
  "on_screen (clear_term s)" "abs_term (clear_term s) = \<lparr>grid = cut (\<lambda>r c. 0x20), col = 0, row = 0\<rparr>"
  "a \<notin> screen_bytes \<Longrightarrow> ram (clear_term s) a = ram s a"
  by (auto simp: clear_term_def Let_def on_screen_def abs_term_def cut_def char_at_def clear_at
      fun_eq_iff clear_mem)

section \<open>Where the console leaves the screen\<close>

text \<open>
  A tab adds four columns and wraps nowhere, so a tab in one of the last four columns moves the
  cursor off the row; on the last row the next character is then stored beyond the screen.
\<close>

lemma tab_off_screen:
  assumes "on_screen s" "76 \<le> screen_x s" "screen_y s = 24" "c \<ge> 0x20"
  shows "\<exists>a. a \<notin> screen_bytes \<and> ram (putc_term c (putc_term 0x09 s)) a = c"
proof -
  let ?k = "80 * 24 + screen_x s + 4"
  let ?t = "putc_term 0x09 s"
  have t: "screen_x ?t = screen_x s + 4" "screen_y ?t = 24" "ram ?t = ram s"
    using assms(1,3) by (simp_all add: putc_term_def Let_def NUM_ROWS_def)
  have c: "c \<noteq> 8" "c \<noteq> 9" "c \<noteq> 13" "c \<noteq> 10"
    using assms(4) by (auto simp: word_le_nat_alt)
  have "ram (putc_term c ?t) (vaddr (2 * ?k)) = put_cell c ?k (ram s) (vaddr (2 * ?k))"
    using assms c t
    by (simp add: putc_term_def putc_term_print_def Let_def NUM_COLS_def NUM_ROWS_def scroll_term_at on_screen_def)
  also have "\<dots> = c" using assms by (simp add: put_cell_at on_screen_def)
  finally show ?thesis
    using assms by (intro exI [of _ "vaddr (2 * ?k)"]) (simp add: screen_bytes_iff on_screen_def)
qed

text \<open>
  \<open>putc\<close>, which \<open>printf\<close> uses, tests for the end of the row after it has reduced the column
  modulo 80, so a full row is followed by the same row again.
\<close>

lemma putc_overwrites_row:
  assumes "on_screen s" "screen_x s = 79" "c \<noteq> 0x0A" "c \<noteq> 0x0D"
  shows "screen_x (putc c s) = 0 \<and> screen_y (putc c s) = screen_y s"
  using assms
  by (cases "screen_y s = 0")
    (simp_all add: putc_def Let_def NUM_COLS_def NUM_ROWS_def signed_modulo_int_def signed_divide_int_def
      on_screen_def sgn_if)

text \<open>\<open>putc\<close> counts rows without a bound on newlines: the 25th one leaves the screen.\<close>

lemma putc_newlines: "screen_y (fold putc (replicate n 0x0A) s) = screen_y s + int n"
  by (induction n arbitrary: s) (simp_all add: putc_def)

end
