(* ===== verification/Printf.thy ===== *)
theory Printf
  imports Console
begin

text \<open>
  What \<open>printf\<close> of \<^verbatim>\<open>src/student-distrib/lib.c\<close> prints: the reference function \<open>fmt_text\<close> expands a
  format directly into the characters to print, and \<open>printf\<close>, with its conversions in a local buffer
  and its walk over the stack, is proved to print exactly these. Formats with \<^verbatim>\<open>%s\<close>, with an unknown
  conversion or with a \<^verbatim>\<open>%\<close> at the end are not expanded.
\<close>

section \<open>The text of a format\<close>

definition num_text :: "nat \<Rightarrow> u32 \<Rightarrow> byte list" where
  "num_text radix v = map digit_char (number_digits radix (unat v))"

definition hex8_text :: "u32 \<Rightarrow> byte list" where
  "hex8_text v = replicate (8 - length (num_text 16 v)) 0x30 @ num_text 16 v"

definition dec_text :: "u32 \<Rightarrow> byte list" where
  "dec_text v = (if s32 v < 0 then 0x2D # num_text 10 (- v) else num_text 10 v)"

fun fmt_text :: "(nat \<Rightarrow> u32) \<Rightarrow> nat \<Rightarrow> byte list \<Rightarrow> byte list option"
  and fmt_conv :: "(nat \<Rightarrow> u32) \<Rightarrow> bool \<Rightarrow> nat \<Rightarrow> byte list \<Rightarrow> byte list option" where
  "fmt_text stk k [] = Some []"
| "fmt_text stk k (c # cs) =
     (if c = 0 then None
      else if c = 0x25 then fmt_conv stk False k cs
      else map_option ((#) c) (fmt_text stk k cs))"
| "fmt_conv stk alternate k [] = None"
| "fmt_conv stk alternate k (c # cs) =
     (if c = 0x23 then fmt_conv stk True k cs
      else if c = 0x25 then map_option ((#) 0x25) (fmt_text stk k cs)
      else if c = 0x78 then
        map_option ((@) (if alternate then hex8_text (stk k) else num_text 16 (stk k))) (fmt_text stk (Suc k) cs)
      else if c = 0x75 then map_option ((@) (num_text 10 (stk k))) (fmt_text stk (Suc k) cs)
      else if c = 0x64 then map_option ((@) (dec_text (stk k))) (fmt_text stk (Suc k) cs)
      else if c = 0x63 then map_option ((#) (ucast (stk k))) (fmt_text stk (Suc k) cs)
      else None)"

section \<open>printf prints it\<close>

lemma print_texts:
  "print_num junk v 16 s = Some (fold putc (num_text 16 v) s)" "print_num junk v 10 s = Some (fold putc (num_text 10 v) s)"
  "print_hex8 junk v s = Some (fold putc (hex8_text v) s)" "print_dec junk v s = Some (fold putc (dec_text v) s)"
  using print_hex8_digits [of v junk s]
  by (simp_all add: print_num_digits print_dec_digits num_text_def hex8_text_def dec_text_def)

lemma list_view_at: "list_view (pre @ c # cs) (length pre) = c" "list_view pre (length pre) = 0"
  by (simp_all add: list_view_def)

text \<open>The loop at the end of a prefix of the format, and a conversion after its percent sign.\<close>

lemma printf_loop_text:
  "fmt_text stk k cs = Some out \<Longrightarrow>
     printf_loop junk (list_view (pre @ cs)) stk (length pre) k s = Some (length pre + length cs, fold putc out s)"
  "fmt_conv stk alternate k cs = Some out \<Longrightarrow>
     Option.bind (printf_conv junk (list_view (pre @ cs)) stk alternate (length pre) k s)
       (\<lambda>(buf', esp', t). printf_loop junk (list_view (pre @ cs)) stk (Suc buf') esp' t) =
     Some (length pre + length cs, fold putc out s)"
proof (induction stk k cs and stk alternate k cs arbitrary: out pre s and out pre s rule: fmt_text_fmt_conv.induct)
  case (1 stk k)
  then show ?case by (subst printf_loop.simps) (simp add: list_view_at)
next
  case (2 stk k c cs)
  show ?case
  proof (cases "c = 0x25")
    case True
    then show ?thesis using "2.IH"(1) [of out "pre @ [c]" s] "2.prems"
      by (subst printf_loop.simps) (simp add: list_view_at)
  next
    case False
    then show ?thesis using "2.IH"(2) [of _ "pre @ [c]" "putc c s"] "2.prems"
      by (subst printf_loop.simps) (auto simp: list_view_at)
  qed
next
  case (4 stk alternate k c cs)
  show ?case
  proof (cases "c = 0x23")
    case True
    then show ?thesis using "4.IH"(1) [of out "pre @ [c]" s] "4.prems"
      by (subst printf_conv.simps) (simp add: list_view_at)
  next
    case False
    then show ?thesis using "4.IH"(2-) [of _ "pre @ [c]"] "4.prems"
      by (subst printf_conv.simps) (auto simp: list_view_at print_texts)
  qed
qed simp

lemma printf_text:
  "fmt_text stk 0 fmt = Some out \<Longrightarrow> printf junk (list_view fmt) stk s = Some (length fmt, fold putc out s)"
  using printf_loop_text(1) [of stk 0 fmt out junk "[]" s] by (simp add: printf_def)

text \<open>A format without a percent sign is printed as it is.\<close>

lemma fmt_text_append:
  "0 \<notin> set cs \<Longrightarrow> 0x25 \<notin> set cs \<Longrightarrow> fmt_text stk k (cs @ ds) = map_option ((@) cs) (fmt_text stk k ds)"
  by (induction cs) (cases "fmt_text stk k ds"; simp)+

lemma fmt_text_plain: "0 \<notin> set cs \<Longrightarrow> 0x25 \<notin> set cs \<Longrightarrow> fmt_text stk k cs = Some cs"
  using fmt_text_append [of cs stk k "[]"] by simp

lemma length_hex8_text: "length (hex8_text v) = 8"
  using conjunct1 [OF print_hex8_digits [of v "\<lambda>_. 0" blank_console]] by (simp add: hex8_text_def num_text_def)

section \<open>Properties\<close>

text \<open>C35. \<open>printf\<close> prints exactly the expansion of its format, in which every conversion takes the next argument:
  \<^verbatim>\<open>%u\<close> and \<^verbatim>\<open>%x\<close> give numerals that read back as the argument, \<^verbatim>\<open>%d\<close> a sign and the absolute value, and \<^verbatim>\<open>%#x\<close>
  exactly eight hexadecimal digits.\<close>

theorem printf_spec:
  assumes "fmt_text stk 0 fmt = Some out"
  shows "printf junk (list_view fmt) stk s = Some (length fmt, fold putc out s) \<and>
    length (hex8_text v) = 8 \<and> digits_value 16 (number_digits 16 (unat v)) = unat v \<and>
    digits_value 10 (number_digits 10 (unat v)) = unat v"
  using printf_text [OF assms] length_hex8_text by (simp add: number_digits_value)

theorem printf_spec_witness:
  "printf (\<lambda>_. 0) (list_view [0x61, 0x25, 0x64]) (\<lambda>_. 7) blank_console = Some (3, fold putc [0x61, 0x37] blank_console)"
proof -
  have "dec_text 7 = [0x37]"
    by (simp add: dec_text_def num_text_def number_digits_def digits.simps digit_char_def ascii_def)
  then have "fmt_text (\<lambda>_. 7) 0 [0x61, 0x25, 0x64] = Some [0x61, 0x37]" by simp
  then show ?thesis using printf_spec [of "\<lambda>_. 7" "[0x61, 0x25, 0x64]" "[0x61, 0x37]" "\<lambda>_. 0" blank_console 0] by simp
qed

end
