(* ===== verification/Pic.thy ===== *)
theory Pic
  imports Console
begin

text \<open>
  The driver of the two cascaded 8259 interrupt controllers, \<^verbatim>\<open>src/student-distrib/i8259.c\<close>.

  The controllers are hardware. What their ports do is written down from their data sheet as
  \<open>chip_state\<close>, a function of the accesses so far: an initialisation word on the command port is
  followed by three more on the data port, after which a write to the data port sets the interrupt
  mask. The driver relies on one more thing, \<open>masks_readable\<close>: an initialised controller returns
  its mask when the data port is read. The locale \<open>irq_controller\<close> states what the driver promises
  to the devices: a set of enabled lines out of 16, with the operations that add and remove one.
\<close>

record pic_state = console_state +
  master_mask :: byte
  slave_mask :: byte

section \<open>Definitions\<close>

definition MASTER_8259_PORT :: u16 where "MASTER_8259_PORT = 0x20"
definition SLAVE_8259_PORT :: u16 where "SLAVE_8259_PORT = 0xA0"
definition ICW1 :: byte where "ICW1 = 0x11"
definition ICW2_MASTER :: byte where "ICW2_MASTER = 0x20"
definition ICW2_SLAVE :: byte where "ICW2_SLAVE = 0x28"
definition ICW3_MASTER :: byte where "ICW3_MASTER = 0x04"
definition ICW3_SLAVE :: byte where "ICW3_SLAVE = 0x02"
definition ICW4 :: byte where "ICW4 = 0x01"
definition EOI :: u32 where "EOI = 0x60"

lemmas pic_consts = MASTER_8259_PORT_def SLAVE_8259_PORT_def ICW1_def ICW2_MASTER_def ICW2_SLAVE_def
  ICW3_MASTER_def ICW3_SLAVE_def ICW4_def EOI_def

definition enable_irq :: "device \<Rightarrow> u32 \<Rightarrow> 'a machine_scheme \<Rightarrow> 'a machine_scheme" where
  "enable_irq dev irq_num s =
     (if irq_num < 0 \<or> irq_num > 15 then s
      else let (port, irq_num) =
                 (if irq_num < 8 then (MASTER_8259_PORT + 1, irq_num)
                  else (SLAVE_8259_PORT + 1, irq_num - 8));
               (v, s) = inb dev port s
           in outb (ucast (ucast v AND NOT (push_bit (unat irq_num) (1 :: u32)))) port s)"

definition disable_irq :: "device \<Rightarrow> u32 \<Rightarrow> 'a machine_scheme \<Rightarrow> 'a machine_scheme" where
  "disable_irq dev irq_num s =
     (if irq_num < 0 \<or> irq_num > 15 then s
      else let (port, irq_num) =
                 (if irq_num < 8 then (MASTER_8259_PORT + 1, irq_num)
                  else (SLAVE_8259_PORT + 1, irq_num - 8));
               (v, s) = inb dev port s
           in outb (ucast (ucast v OR push_bit (unat irq_num) (1 :: u32))) port s)"

definition send_eoi :: "u32 \<Rightarrow> 'a machine_scheme \<Rightarrow> 'a machine_scheme" where
  "send_eoi irq_num s =
     (if irq_num < 0 \<or> irq_num > 15 then s
      else if irq_num \<le> 7 then outb (ucast (EOI OR irq_num)) MASTER_8259_PORT s
      else outb (ucast (EOI OR (irq_num - 8))) SLAVE_8259_PORT
             (outb (ucast (EOI OR 2)) MASTER_8259_PORT s))"

definition i8259_init :: "device \<Rightarrow> 'a pic_state_scheme \<Rightarrow> 'a pic_state_scheme" where
  "i8259_init dev s =
     (let s = s\<lparr>master_mask := 0xFF, slave_mask := 0xFF\<rparr>;
          s = outb ICW1 MASTER_8259_PORT s;
          s = outb ICW1 SLAVE_8259_PORT s;
          s = outb ICW2_MASTER (MASTER_8259_PORT + 1) s;
          s = outb ICW2_SLAVE (SLAVE_8259_PORT + 1) s;
          s = outb ICW3_MASTER (MASTER_8259_PORT + 1) s;
          s = outb ICW3_SLAVE (SLAVE_8259_PORT + 1) s;
          s = outb ICW4 (MASTER_8259_PORT + 1) s;
          s = outb ICW4 (SLAVE_8259_PORT + 1) s;
          s = outb (master_mask s) (MASTER_8259_PORT + 1) s;
          s = outb (slave_mask s) (SLAVE_8259_PORT + 1) s
      in enable_irq dev 2 s)"

section \<open>The controllers\<close>

text \<open>
  State of one controller, whose command port is \<open>cmd\<close>: the number of initialisation words that
  it still expects and its interrupt mask. A byte with bit 4 set on the command port starts the
  initialisation; in cascade mode with a fourth word three more words follow.
\<close>

fun chip_step :: "u16 \<Rightarrow> io_event \<Rightarrow> nat \<times> byte \<Rightarrow> nat \<times> byte" where
  "chip_step cmd (Out p b) (pending, msk) =
     (if p = cmd then (if bit b 4 then (3, 0) else (pending, msk))
      else if p = cmd + 1 then (if pending = 0 then (0, b) else (pending - 1, msk))
      else (pending, msk))"
| "chip_step cmd (In p b) c = c"

definition chip_state :: "u16 \<Rightarrow> io_event list \<Rightarrow> nat \<times> byte" where
  "chip_state cmd log = fold (chip_step cmd) log (4, 0)"

text \<open>An initialised controller shows its mask on the data port.\<close>

definition masks_readable :: "device \<Rightarrow> bool" where
  "masks_readable dev \<longleftrightarrow>
     (\<forall>log. \<forall>cmd \<in> {0x20, 0xA0}. fst (chip_state cmd log) = 0 \<longrightarrow>
        dev log (cmd + 1) = snd (chip_state cmd log))"

text \<open>Both controllers are initialised; the lines, 0 to 15, that they let through.\<close>

definition pics_ready :: "'a machine_scheme \<Rightarrow> bool" where
  "pics_ready s \<longleftrightarrow> fst (chip_state 0x20 (io_log s)) = 0 \<and> fst (chip_state 0xA0 (io_log s)) = 0"

definition irqs_enabled :: "'a machine_scheme \<Rightarrow> nat set" where
  "irqs_enabled s =
     {i. i < 8 \<and> \<not> bit (snd (chip_state 0x20 (io_log s))) i} \<union>
     {i. 8 \<le> i \<and> i < 16 \<and> \<not> bit (snd (chip_state 0xA0 (io_log s))) (i - 8)}"

text \<open>
  The lines whose service a byte on a command port ends: a specific end-of-interrupt command has
  the pattern 011 in its high bits and the line in its low ones.
\<close>

fun eoi_lines :: "io_event list \<Rightarrow> nat list" where
  "eoi_lines [] = []"
| "eoi_lines (Out p b # es) =
     (if b AND 0xE0 = 0x60 \<and> p = 0x20 then unat (b AND 0x07) # eoi_lines es
      else if b AND 0xE0 = 0x60 \<and> p = 0xA0 then (8 + unat (b AND 0x07)) # eoi_lines es
      else eoi_lines es)"
| "eoi_lines (In p b # es) = eoi_lines es"

text \<open>A concrete device for which the assumption holds: the controllers, and zero elsewhere.\<close>

definition pic_device :: device where
  "pic_device log p =
     (if p = 0x21 then snd (chip_state 0x20 log)
      else if p = 0xA1 then snd (chip_state 0xA0 log) else 0)"

section \<open>The interface of the driver\<close>

locale irq_controller =
  fixes wired :: "'s \<Rightarrow> bool" and ready :: "'s \<Rightarrow> bool"
    and init :: "'s \<Rightarrow> 's" and enable disable :: "u32 \<Rightarrow> 's \<Rightarrow> 's"
    and enabled :: "'s \<Rightarrow> nat set"
  assumes init_ready: "wired s \<Longrightarrow> ready (init s)"
    and init_enabled: "wired s \<Longrightarrow> enabled (init s) = {2}"
    and enable_ready: "ready s \<Longrightarrow> ready (enable irq s)"
    and disable_ready: "ready s \<Longrightarrow> ready (disable irq s)"
    and enable_enabled: "ready s \<Longrightarrow> enabled (enable irq s) = enabled s \<union> ({unat irq} \<inter> {..<16})"
    and disable_enabled: "ready s \<Longrightarrow> enabled (disable irq s) = enabled s - {unat irq}"
begin

lemma enable_list: "ready s \<Longrightarrow> ready (fold enable irqs s)"
  by (induction irqs arbitrary: s) (simp_all add: enable_ready)

lemma enabled_list:
  "ready s \<Longrightarrow> enabled (fold enable irqs s) = enabled s \<union> (unat ` set irqs \<inter> {..<16})"
  by (induction irqs arbitrary: s) (auto simp: enable_ready enable_enabled)

text \<open>Initialising the controllers and then the devices leaves the lines of the devices and the cascade.\<close>

lemma boot_enabled:
  "wired s \<Longrightarrow> enabled (fold enable irqs (init s)) = {2} \<union> (unat ` set irqs \<inter> {..<16})"
  by (simp add: init_ready init_enabled enabled_list)

text \<open>Masking a line that was enabled, and enabling it again, restores the set of lines.\<close>

lemma disable_enable:
  assumes "ready s" "unat irq \<in> enabled s" "enabled s \<subseteq> {..<16}"
  shows "enabled (enable irq (disable irq s)) = enabled s"
  using assms by (auto simp: disable_ready enable_enabled disable_enabled)

end

section \<open>The driver keeps the interface\<close>

lemma chip_state_snoc [simp]: "chip_state cmd (log @ [e]) = chip_step cmd e (chip_state cmd log)"
  by (simp add: chip_state_def)

lemma chip_step_Out:
  "chip_step cmd (Out p b) c =
     (if p = cmd then (if bit b 4 then (3, 0) else c)
      else if p = cmd + 1 then (if fst c = 0 then (0, b) else (fst c - 1, snd c)) else c)"
  by (cases c) simp

lemma mask_read:
  assumes "masks_readable dev" "pics_ready s"
  shows "dev (io_log s) 0x21 = snd (chip_state 0x20 (io_log s))"
    "dev (io_log s) 0xA1 = snd (chip_state 0xA0 (io_log s))"
proof -
  from assms(1) have *: "fst (chip_state c (io_log s)) = 0 \<Longrightarrow> c = 0x20 \<or> c = 0xA0 \<Longrightarrow>
      dev (io_log s) (c + 1) = snd (chip_state c (io_log s))" for c
    unfolding masks_readable_def by blast
  show "dev (io_log s) 0x21 = snd (chip_state 0x20 (io_log s))"
    "dev (io_log s) 0xA1 = snd (chip_state 0xA0 (io_log s))"
    using assms(2) * [of "0x20"] * [of "0xA0"] by (simp_all add: pics_ready_def)
qed

lemma irq_index:
  "irq < 8 \<Longrightarrow> unat (irq :: u32) < 8"
  "8 \<le> irq \<Longrightarrow> irq \<le> 15 \<Longrightarrow> unat (irq - 8) = unat irq - 8"
  "8 \<le> irq \<Longrightarrow> 8 \<le> unat irq" "irq \<le> 15 \<Longrightarrow> unat irq < 16" "15 < irq \<Longrightarrow> 16 \<le> unat irq"
  "irq < 8 \<Longrightarrow> \<not> 15 < irq"
  by (auto simp: word_less_nat_alt word_le_nat_alt unat_minus_if)

lemma bit_mask_ops:
  fixes v :: byte
  shows "bit (ucast (ucast v AND NOT (2 ^ k :: u32)) :: byte) i \<longleftrightarrow> bit v i \<and> i \<noteq> k"
    "k < 8 \<Longrightarrow> bit (ucast (ucast v OR (2 ^ k :: u32)) :: byte) i \<longleftrightarrow> bit v i \<or> i = k"
  using bit_imp_le_length [of v i] by (auto simp: bit_simps)

text \<open>What the two mask operations log, per controller.\<close>

lemma enable_irq_log:
  "irq < 8 \<Longrightarrow> io_log (enable_irq dev irq s) = io_log s @ [In 0x21 (dev (io_log s) 0x21),
     Out 0x21 (ucast (ucast (dev (io_log s) 0x21) AND NOT (2 ^ unat irq :: u32)))]"
  "8 \<le> irq \<Longrightarrow> irq \<le> 15 \<Longrightarrow> io_log (enable_irq dev irq s) = io_log s @ [In 0xA1 (dev (io_log s) 0xA1),
     Out 0xA1 (ucast (ucast (dev (io_log s) 0xA1) AND NOT (2 ^ (unat irq - 8) :: u32)))]"
  "15 < irq \<Longrightarrow> enable_irq dev irq s = s"
  by (auto simp: enable_irq_def inb_def Let_def pic_consts irq_index)

lemma disable_irq_log:
  "irq < 8 \<Longrightarrow> io_log (disable_irq dev irq s) = io_log s @ [In 0x21 (dev (io_log s) 0x21),
     Out 0x21 (ucast (ucast (dev (io_log s) 0x21) OR (2 ^ unat irq :: u32)))]"
  "8 \<le> irq \<Longrightarrow> irq \<le> 15 \<Longrightarrow> io_log (disable_irq dev irq s) = io_log s @ [In 0xA1 (dev (io_log s) 0xA1),
     Out 0xA1 (ucast (ucast (dev (io_log s) 0xA1) OR (2 ^ (unat irq - 8) :: u32)))]"
  "15 < irq \<Longrightarrow> disable_irq dev irq s = s"
  by (auto simp: disable_irq_def inb_def Let_def pic_consts irq_index)

lemma irq_cases:
  obtains "(irq :: u32) < 8" | "8 \<le> irq" "irq \<le> 15" | "15 < irq"
  by (meson leI)

lemma chip_state_access [simp]:
  "chip_state cmd (log @ [In p v, Out q b]) = chip_step cmd (Out q b) (chip_state cmd log)"
  by (simp add: chip_state_def)

lemma enable_irq_laws:
  assumes "masks_readable dev" "pics_ready s"
  shows "pics_ready (enable_irq dev irq s)"
    and "irqs_enabled (enable_irq dev irq s) = irqs_enabled s \<union> ({unat irq} \<inter> {..<16})"
proof -
  show "pics_ready (enable_irq dev irq s)" using assms(2)
    by (cases irq rule: irq_cases) (simp_all add: pics_ready_def enable_irq_log chip_step_Out)
  show "irqs_enabled (enable_irq dev irq s) = irqs_enabled s \<union> ({unat irq} \<inter> {..<16})"
  proof (cases irq rule: irq_cases)
    case 1
    with assms(2) irq_index(1) [OF 1] show ?thesis
      by (auto simp: irqs_enabled_def pics_ready_def enable_irq_log chip_step_Out bit_mask_ops mask_read [OF assms])
  next
    case 2
    with assms(2) irq_index(3) [OF 2(1)] irq_index(4) [OF 2(2)] show ?thesis
      by (auto simp: irqs_enabled_def pics_ready_def enable_irq_log chip_step_Out bit_mask_ops mask_read [OF assms])
  next
    case 3
    then show ?thesis using irq_index(5) [OF 3] by (simp add: enable_irq_log)
  qed
qed

lemma disable_irq_laws:
  assumes "masks_readable dev" "pics_ready s"
  shows "pics_ready (disable_irq dev irq s)"
    and "irqs_enabled (disable_irq dev irq s) = irqs_enabled s - {unat irq}"
proof -
  show "pics_ready (disable_irq dev irq s)" using assms(2)
    by (cases irq rule: irq_cases) (simp_all add: pics_ready_def disable_irq_log chip_step_Out)
  show "irqs_enabled (disable_irq dev irq s) = irqs_enabled s - {unat irq}"
  proof (cases irq rule: irq_cases)
    case 1
    with assms(2) irq_index(1) [OF 1] show ?thesis
      by (auto simp: irqs_enabled_def pics_ready_def disable_irq_log chip_step_Out bit_mask_ops mask_read [OF assms])
  next
    case 2
    with assms(2) irq_index(3) [OF 2(1)] irq_index(4) [OF 2(2)] show ?thesis
      by (auto simp: irqs_enabled_def pics_ready_def disable_irq_log chip_step_Out bit_mask_ops mask_read [OF assms])
  next
    case 3
    then show ?thesis using irq_index(5) [OF 3] by (auto simp: disable_irq_log irqs_enabled_def)
  qed
qed

lemma pic_frame [simp]:
  "master_mask (outb d p s) = master_mask s" "slave_mask (outb d p s) = slave_mask s"
  by (simp_all add: outb_def)

text \<open>The words that the initialisation sends leave both controllers ready and fully masked.\<close>

lemma i8259_init_words:
  "\<exists>t. i8259_init dev s = enable_irq dev 2 t \<and> chip_state 0x20 (io_log t) = (0, 0xFF) \<and>
       chip_state 0xA0 (io_log t) = (0, 0xFF)"
  by (rule exI, rule conjI, unfold i8259_init_def Let_def, rule refl)
    (simp add: pic_consts chip_state_def chip_step_Out bit_numeral_simps)

lemma i8259_init_laws:
  assumes "masks_readable dev"
  shows "pics_ready (i8259_init dev s)" "irqs_enabled (i8259_init dev s) = {2}"
proof -
  obtain t where t: "i8259_init dev s = enable_irq dev 2 t" "chip_state 0x20 (io_log t) = (0, 0xFF)"
      "chip_state 0xA0 (io_log t) = (0, 0xFF)"
    using i8259_init_words [of dev s] by blast
  have r: "pics_ready t" using t by (simp add: pics_ready_def)
  have "bit (0xFF :: byte) i" if "i < 8" for i :: nat
    using that bit_minus_1_iff [of i, where 'a = byte] by simp
  then have "irqs_enabled t = {}" using t by (auto simp: irqs_enabled_def)
  with enable_irq_laws [OF assms r, of 2] t
  show "pics_ready (i8259_init dev s)" "irqs_enabled (i8259_init dev s) = {2}" by auto
qed

interpretation pic: irq_controller "\<lambda>s :: 'a pic_state_scheme. masks_readable dev"
  "\<lambda>s. masks_readable dev \<and> pics_ready s" "i8259_init dev" "enable_irq dev" "disable_irq dev" irqs_enabled
  for dev
  by unfold_locales (simp_all add: i8259_init_laws enable_irq_laws disable_irq_laws)

section \<open>Properties\<close>

text \<open>C33. After the initialisation of the controllers and any sequence of \<open>enable_irq\<close> calls of the
  device drivers, exactly the cascade line 2 and the requested lines below 16 are let through, on
  any hardware whose masks can be read back.\<close>

theorem boot_irqs:
  assumes "masks_readable dev"
  shows "irqs_enabled (fold (enable_irq dev) irqs (i8259_init dev s)) = {2} \<union> (unat ` set irqs \<inter> {..<16})"
  by (rule pic.boot_enabled) (rule assms)

lemma pic_device_readable: "masks_readable pic_device"
  by (auto simp: masks_readable_def pic_device_def)

definition empty_pics :: pic_state where
  "empty_pics = \<lparr>io_log = [], iflag = False, ram = (\<lambda>_. 0), screen_x = 0, screen_y = 0,
     master_mask = 0, slave_mask = 0\<rparr>"

theorem boot_irqs_witness:
  "irqs_enabled (fold (enable_irq pic_device) [1, 8] (i8259_init pic_device empty_pics)) = {1, 2, 8}"
  unfolding boot_irqs [OF pic_device_readable] by auto

lemma irqs_enabled_lines: "irqs_enabled s \<subseteq> {..<16}"
  by (auto simp: irqs_enabled_def)

text \<open>\<open>disable_irq\<close> masks its own line and no other, and \<open>enable_irq\<close> undoes it.\<close>

theorem disable_irq_exact:
  fixes s :: "'a pic_state_scheme"
  assumes "masks_readable dev" "pics_ready s" "unat irq \<in> irqs_enabled s"
  shows "irqs_enabled (disable_irq dev irq s) = irqs_enabled s - {unat irq} \<and>
    irqs_enabled (enable_irq dev irq (disable_irq dev irq s)) = irqs_enabled s"
proof
  show "irqs_enabled (disable_irq dev irq s) = irqs_enabled s - {unat irq}"
    using assms by (simp add: disable_irq_laws)
  show "irqs_enabled (enable_irq dev irq (disable_irq dev irq s)) = irqs_enabled s"
    using assms by (intro pic.disable_enable irqs_enabled_lines conjI)
qed

theorem disable_irq_exact_witness:
  "irqs_enabled (disable_irq pic_device 2 (i8259_init pic_device empty_pics)) = {}"
proof -
  have e: "irqs_enabled (i8259_init pic_device empty_pics) = {2}"
    by (rule i8259_init_laws) (rule pic_device_readable)
  then show ?thesis
    using disable_irq_exact [OF pic_device_readable i8259_init_laws(1) [OF pic_device_readable], of 2 empty_pics]
    by simp
qed

text \<open>The end-of-interrupt commands of \<open>send_eoi\<close> name exactly the line that is done, and for a
  line of the slave first the cascade line of the master; other numbers send nothing.\<close>

theorem send_eoi_lines:
  "eoi_lines (io_log (send_eoi irq s)) = eoi_lines (io_log s) @
     (if unat irq < 8 then [unat irq] else if unat irq < 16 then [2, unat irq] else [])"
proof -
  have app: "eoi_lines (es @ fs) = eoi_lines es @ eoi_lines fs" for es fs
    by (induction es rule: eoi_lines.induct) auto
  have lo: "(ucast ((0x60 :: u32) OR k) :: byte) AND 0xE0 = 0x60 \<and>
      unat ((ucast ((0x60 :: u32) OR k) :: byte) AND 7) = unat k" if "k < 8" for k :: u32
  proof -
    have "k \<in> of_nat ` {0, 1, 2, 3, 4, 5, 6, 7}"
      using irq_index(1) [OF that] by (intro image_eqI [of _ _ "unat k"]) auto
    then show ?thesis by auto
  qed
  show ?thesis
  proof (cases irq rule: irq_cases)
    case 1
    then have "irq \<le> 7" by (auto simp: word_less_nat_alt word_le_nat_alt)
    with 1 show ?thesis using irq_index(1) [OF 1]
      by (simp add: send_eoi_def pic_consts app lo irq_index)
  next
    case 2
    then have "\<not> irq \<le> 7" "irq - 8 < 8" by (auto simp: word_less_nat_alt word_le_nat_alt irq_index)
    with 2 show ?thesis using irq_index(3,4) [of irq] lo [of "irq - 8"]
      by (simp add: send_eoi_def pic_consts app irq_index(2) leD)
  next
    case 3
    then show ?thesis using irq_index(5) [OF 3] by (simp add: send_eoi_def)
  qed
qed

end
