(* ===== verification/Rtc.thy ===== *)
theory Rtc
  imports Pic
begin

text \<open>
  The driver of the real-time clock, \<^verbatim>\<open>src/student-distrib/rtc.c\<close>, with the virtualisation that
  the header enables (\<^verbatim>\<open>RTC_VT_EN\<close> is 1): the hardware ticks at 1024 Hz and the handler lets
  every \<open>rtc_max_count\<close>-th tick through.

  A pointer argument is \<open>None\<close> for NULL and otherwise the bytes it shows. \<open>rtc_read\<close> waits for
  interrupts, so it takes the interrupts that arrive and the dispatcher that handles them; the
  locale \<open>rtc_interrupts\<close> says what the driver needs of a dispatcher, and holds the theorem that
  reads are paced at the requested frequency.
\<close>

record rtc_state = pic_state +
  rtc_interrupt_occurred :: int
  rtc_counter :: int
  rtc_max_count :: int

section \<open>Definitions\<close>

definition RTC_PORT :: u16 where "RTC_PORT = 0x70"
definition RTC_DATA :: u16 where "RTC_DATA = 0x71"
definition RTC_REG_A :: byte where "RTC_REG_A = 0x8A"
definition RTC_REG_B :: byte where "RTC_REG_B = 0x8B"
definition RTC_REG_C :: byte where "RTC_REG_C = 0x0C"
definition RTC_IRQ :: u32 where "RTC_IRQ = 0x08"
definition RTC_BASE_FREQ :: u32 where "RTC_BASE_FREQ = 2"
definition RTC_MAX_FREQ :: u32 where "RTC_MAX_FREQ = 1024"

lemmas rtc_consts = RTC_PORT_def RTC_DATA_def RTC_REG_A_def RTC_REG_B_def RTC_REG_C_def RTC_IRQ_def
  RTC_BASE_FREQ_def RTC_MAX_FREQ_def

text \<open>The search of \<open>rtc_set_rate\<close>: the first rate from \<open>i\<close> to 15 that gives the frequency, or 0.\<close>

function rtc_find_rate :: "u32 \<Rightarrow> nat \<Rightarrow> nat" where
  "rtc_find_rate freq i =
     (if i < 16 then (if freq = drop_bit (i - 1) 32768 then i else rtc_find_rate freq (i + 1)) else 0)"
  by auto
termination by (relation "measure (\<lambda>(f, i). 16 - i)") auto

declare rtc_find_rate.simps [simp del]

definition rtc_set_rate :: "device \<Rightarrow> u32 \<Rightarrow> 'a machine_scheme \<Rightarrow> int \<times> 'a machine_scheme" where
  "rtc_set_rate dev freq s =
     (let rate = rtc_find_rate freq 6 in
      if rate = 0 then (0, s)
      else let rate = of_nat rate AND (0x0F :: byte);
               s = cli s;
               s = outb RTC_REG_A RTC_PORT s;
               (prev, s) = inb dev RTC_DATA s;
               s = outb RTC_REG_A RTC_PORT s;
               s = outb ((prev AND 0xF0) OR rate) RTC_DATA s
           in (1, sti s))"

definition rtc_init :: "device \<Rightarrow> 'a rtc_state_scheme \<Rightarrow> 'a rtc_state_scheme" where
  "rtc_init dev s =
     (let s = cli s;
          s = outb RTC_REG_B RTC_PORT s;
          (prev, s) = inb dev RTC_DATA s;
          s = outb RTC_REG_B RTC_PORT s;
          s = outb (prev OR 0x40) RTC_DATA s;
          s = s\<lparr>rtc_max_count := uint (RTC_MAX_FREQ div RTC_BASE_FREQ)\<rparr>;
          s = snd (rtc_set_rate dev RTC_MAX_FREQ s);
          s = enable_irq dev RTC_IRQ s
      in sti s)"

definition rtc_read ::
  "('e \<Rightarrow> 'a rtc_state_scheme \<Rightarrow> 'a rtc_state_scheme) \<Rightarrow> 'e list \<Rightarrow> cptr option \<Rightarrow>
     'a rtc_state_scheme \<Rightarrow> (int \<times> 'e list \<times> 'a rtc_state_scheme) option" where
  "rtc_read isr evs buf s =
     (case buf of
        None \<Rightarrow> Some (-1, evs, s)
      | Some _ \<Rightarrow>
          map_option (\<lambda>(rest, s). (0, rest, s\<lparr>rtc_interrupt_occurred := 0\<rparr>))
            (spin (\<lambda>s. rtc_interrupt_occurred s \<noteq> 0) isr evs (sti s)))"

definition rtc_write :: "cptr option \<Rightarrow> int \<Rightarrow> 'a rtc_state_scheme \<Rightarrow> int \<times> 'a rtc_state_scheme" where
  "rtc_write buf nbytes s =
     (case buf of
        None \<Rightarrow> (-1, s)
      | Some p \<Rightarrow>
          if nbytes \<noteq> 4 then (-1, s)
          else let freq = load_le32 p 0 in
            if \<not> (freq \<ge> 2 \<and> freq \<le> 1024 \<and> (freq - 1) AND freq = 0) then (-1, s)
            else let s = cli s;
                     s = s\<lparr>rtc_max_count := uint (RTC_MAX_FREQ div freq)\<rparr>;
                     s = s\<lparr>rtc_counter := 0\<rparr>;
                     s = sti s
                 in (nbytes, s))"

definition rtc_open :: "cptr option \<Rightarrow> 'a rtc_state_scheme \<Rightarrow> int \<times> 'a rtc_state_scheme" where
  "rtc_open filename s =
     (case filename of
        None \<Rightarrow> (-1, s)
      | Some _ \<Rightarrow>
          (0, s\<lparr>rtc_max_count := uint (RTC_MAX_FREQ div RTC_BASE_FREQ), rtc_interrupt_occurred := 0\<rparr>))"

definition rtc_close :: "int \<Rightarrow> 'a rtc_state_scheme \<Rightarrow> int \<times> 'a rtc_state_scheme" where
  "rtc_close fd s = (if fd = 0 then (-1, s) else (0, s\<lparr>rtc_interrupt_occurred := 1\<rparr>))"

definition rtc_handler :: "device \<Rightarrow> 'a rtc_state_scheme \<Rightarrow> 'a rtc_state_scheme" where
  "rtc_handler dev s =
     (let s = cli s;
          s = s\<lparr>rtc_counter := rtc_counter s + 1\<rparr>;
          s = (if rtc_counter s \<ge> rtc_max_count s
               then s\<lparr>rtc_interrupt_occurred := 1, rtc_counter := 0\<rparr> else s);
          s = outb RTC_REG_C RTC_PORT s;
          s = snd (inb dev RTC_DATA s);
          s = send_eoi RTC_IRQ s
      in sti s)"

section \<open>Frame facts\<close>

lemma outb_rtc [simp]:
  "rtc_interrupt_occurred (outb d p s) = rtc_interrupt_occurred s"
  "rtc_counter (outb d p s) = rtc_counter s" "rtc_max_count (outb d p s) = rtc_max_count s"
  by (simp_all add: outb_def)

lemma inb_rtc [simp]:
  "rtc_interrupt_occurred (snd (inb dev p s)) = rtc_interrupt_occurred s"
  "rtc_counter (snd (inb dev p s)) = rtc_counter s" "rtc_max_count (snd (inb dev p s)) = rtc_max_count s"
  by (simp_all add: inb_def Let_def)

lemma cli_sti_rtc [simp]:
  "rtc_interrupt_occurred (cli s) = rtc_interrupt_occurred s" "rtc_interrupt_occurred (sti s) = rtc_interrupt_occurred s"
  "rtc_counter (cli s) = rtc_counter s" "rtc_counter (sti s) = rtc_counter s"
  "rtc_max_count (cli s) = rtc_max_count s" "rtc_max_count (sti s) = rtc_max_count s"
  by (simp_all add: cli_def sti_def)

lemma send_eoi_rtc [simp]:
  "rtc_interrupt_occurred (send_eoi i s) = rtc_interrupt_occurred s"
  "rtc_counter (send_eoi i s) = rtc_counter s" "rtc_max_count (send_eoi i s) = rtc_max_count s"
  by (simp_all add: send_eoi_def)

lemma rtc_handler_fields [simp]:
  "iflag (rtc_handler dev s)"
  "rtc_max_count (rtc_handler dev s) = rtc_max_count s"
  "rtc_counter (rtc_handler dev s) =
     (if rtc_counter s + 1 \<ge> rtc_max_count s then 0 else rtc_counter s + 1)"
  "rtc_interrupt_occurred (rtc_handler dev s) =
     (if rtc_counter s + 1 \<ge> rtc_max_count s then 1 else rtc_interrupt_occurred s)"
  by (simp_all add: rtc_handler_def Let_def)

section \<open>Pacing of reads\<close>

text \<open>\<open>n\<close> reads in a row, as a program that waits for the clock makes them.\<close>

primrec rtc_reads ::
  "('e \<Rightarrow> 'a rtc_state_scheme \<Rightarrow> 'a rtc_state_scheme) \<Rightarrow> nat \<Rightarrow> cptr option \<Rightarrow> 'e list \<Rightarrow>
     'a rtc_state_scheme \<Rightarrow> ('e list \<times> 'a rtc_state_scheme) option" where
  "rtc_reads isr 0 buf evs s = Some (evs, s)"
| "rtc_reads isr (Suc n) buf evs s =
     (case rtc_read isr evs buf s of
        None \<Rightarrow> None
      | Some (r, rest, t) \<Rightarrow> if r = 0 then rtc_reads isr n buf rest t else None)"

text \<open>
  What the driver needs of the interrupt dispatcher: a tick of the clock runs \<open>rtc_handler\<close>, and
  every other interrupt leaves the variables of the driver alone and returns with interrupts on.
\<close>

locale rtc_interrupts =
  fixes dev :: device and isr :: "'e \<Rightarrow> 'a rtc_state_scheme \<Rightarrow> 'a rtc_state_scheme"
    and tick :: "'e \<Rightarrow> bool"
  assumes isr_tick: "tick e \<Longrightarrow>
          rtc_interrupt_occurred (isr e s) = rtc_interrupt_occurred (rtc_handler dev s) \<and>
          rtc_counter (isr e s) = rtc_counter (rtc_handler dev s) \<and>
          rtc_max_count (isr e s) = rtc_max_count (rtc_handler dev s)"
    and isr_other: "\<not> tick e \<Longrightarrow> rtc_interrupt_occurred (isr e s) = rtc_interrupt_occurred s \<and>
          rtc_counter (isr e s) = rtc_counter s \<and> rtc_max_count (isr e s) = rtc_max_count s"
    and isr_iflag: "iflag s \<Longrightarrow> iflag (isr e s)"
begin

text \<open>A read that starts with the counter at \<open>c\<close> uses the interrupts up to the tick that fills the counter.\<close>

lemma spin_ticks:
  assumes "iflag s" "rtc_interrupt_occurred s = 0" "0 \<le> rtc_counter s" "rtc_counter s < rtc_max_count s"
    and "rtc_max_count s - rtc_counter s \<le> int (length (filter tick evs))"
  shows "\<exists>used rest t. evs = used @ rest \<and>
    spin (\<lambda>s. rtc_interrupt_occurred s \<noteq> 0) isr evs s = Some (rest, t) \<and>
    int (length (filter tick used)) = rtc_max_count s - rtc_counter s \<and>
    rtc_counter t = 0 \<and> rtc_max_count t = rtc_max_count s \<and> iflag t"
  using assms
proof (induction evs arbitrary: s)
  case (Cons e evs)
  have step: "spin (\<lambda>s. rtc_interrupt_occurred s \<noteq> 0) isr (e # evs) s =
      spin (\<lambda>s. rtc_interrupt_occurred s \<noteq> 0) isr evs (isr e s)"
    using Cons.prems by simp
  show ?case
  proof (cases "tick e \<and> rtc_counter s + 1 = rtc_max_count s")
    case True
    then show ?thesis using step Cons.prems isr_iflag [of s e]
      by (intro exI [of _ "[e]"] exI [of _ evs] exI [of _ "isr e s"]) (simp add: isr_tick spin_now)
  next
    case False
    have "\<exists>used rest t. evs = used @ rest \<and>
      spin (\<lambda>s. rtc_interrupt_occurred s \<noteq> 0) isr evs (isr e s) = Some (rest, t) \<and>
      int (length (filter tick used)) = rtc_max_count (isr e s) - rtc_counter (isr e s) \<and>
      rtc_counter t = 0 \<and> rtc_max_count t = rtc_max_count (isr e s) \<and> iflag t"
      using False Cons.prems isr_other [of e s] isr_iflag [of s e]
      by (intro Cons.IH) (cases "tick e"; simp add: isr_tick)+
    then obtain used rest t where "evs = used @ rest"
        "spin (\<lambda>s. rtc_interrupt_occurred s \<noteq> 0) isr evs (isr e s) = Some (rest, t)"
        "int (length (filter tick used)) = rtc_max_count (isr e s) - rtc_counter (isr e s)"
        "rtc_counter t = 0" "rtc_max_count t = rtc_max_count (isr e s)" "iflag t"
      by blast
    then show ?thesis using False Cons.prems step isr_other [of e s]
      by (intro exI [of _ "e # used"] exI [of _ rest] exI [of _ t]) (cases "tick e"; simp add: isr_tick)
  qed
qed simp

lemma reads_paced:
  assumes "rtc_interrupt_occurred s = 0" "rtc_counter s = 0" "0 < rtc_max_count s"
    and "int n * rtc_max_count s \<le> int (length (filter tick evs))"
  shows "\<exists>used rest t. evs = used @ rest \<and> rtc_reads isr n (Some buf) evs s = Some (rest, t) \<and>
    int (length (filter tick used)) = int n * rtc_max_count s"
  using assms
proof (induction n arbitrary: s evs)
  case (Suc n)
  have "rtc_max_count s \<le> int (Suc n) * rtc_max_count s" using Suc.prems(3) by (simp add: algebra_simps)
  then have "rtc_max_count s \<le> int (length (filter tick evs))" using Suc.prems(4) by linarith
  with Suc.prems spin_ticks [of "sti s" evs] obtain u r t where r: "evs = u @ r"
      "spin (\<lambda>s. rtc_interrupt_occurred s \<noteq> 0) isr evs (sti s) = Some (r, t)"
      "int (length (filter tick u)) = rtc_max_count s" "rtc_counter t = 0" "rtc_max_count t = rtc_max_count s"
    by auto
  let ?t = "t\<lparr>rtc_interrupt_occurred := 0\<rparr>"
  have "int (length (filter tick evs)) = rtc_max_count s + int (length (filter tick r))"
    using r(1,3) by simp
  then have enough: "int n * rtc_max_count ?t \<le> int (length (filter tick r))"
    using Suc.prems(4) r(5) by (simp add: algebra_simps)
  obtain u' r' t' where "r = u' @ r'" "rtc_reads isr n (Some buf) r ?t = Some (r', t')"
      "int (length (filter tick u')) = int n * rtc_max_count ?t"
    using Suc.IH [OF _ _ _ enough] r(4,5) Suc.prems(3) by auto
  then show ?case using r
    by (intro exI [of _ "u @ u'"] exI [of _ r'] exI [of _ t']) (simp add: rtc_read_def algebra_simps)
qed simp

end

section \<open>Frequencies\<close>

lemma power_of_two_nat:
  "0 < n \<Longrightarrow> (n - 1) AND n = 0 \<Longrightarrow> \<exists>k. n = (2 :: nat) ^ k"
proof (induction n rule: less_induct)
  case (less n)
  show ?case
  proof (cases "even n")
    case True
    then obtain m where m: "n = 2 * m" by (rule evenE)
    then have "(n - 1) div 2 = m - 1" "odd (n - 1)" using less.prems(1) by auto
    then have "(n - 1) AND n = 2 * ((m - 1) AND m)"
      using m by (subst and_nat_rec) simp
    then have "\<exists>k. m = 2 ^ k" using less m by auto
    then show ?thesis using m by (metis power_Suc)
  next
    case False
    then obtain m where m: "n = 2 * m + 1" by (rule oddE)
    then have "(n - 1) AND n = 2 * (m AND m)"
      by (subst and_nat_rec) simp
    then have "n = 2 ^ 0" using less.prems(2) m by simp
    then show ?thesis by blast
  qed
qed

lemma upto10:
  "k \<in> {1..10} \<Longrightarrow> k = 1 \<or> k = 2 \<or> k = 3 \<or> k = 4 \<or> k = 5 \<or> k = 6 \<or> k = 7 \<or> k = 8 \<or> k = 9 \<or> k = (10 :: nat)"
  unfolding atLeastAtMost_iff by presburger

lemma legal_freq:
  fixes freq :: u32
  shows "freq \<ge> 2 \<and> freq \<le> 1024 \<and> (freq - 1) AND freq = 0 \<longleftrightarrow> freq \<in> (\<lambda>k. 2 ^ k) ` {1..10}"
proof
  assume a: "freq \<ge> 2 \<and> freq \<le> 1024 \<and> (freq - 1) AND freq = 0"
  then have nz: "freq \<noteq> 0" and b: "2 \<le> unat freq" "unat freq \<le> 1024" by (auto simp: word_le_nat_alt)
  have "unat ((freq - 1) AND freq) = 0" using a by simp
  then have "(unat freq - 1) AND unat freq = 0"
    using nz by (simp add: unsigned_and_eq unat_pred)
  then obtain k where k: "unat freq = 2 ^ k" using power_of_two_nat [of "unat freq"] b by auto
  have "(2 :: nat) ^ k \<le> 2 ^ 10" "(2 :: nat) ^ 1 \<le> 2 ^ k" using k b by simp_all
  then have "k \<le> 10" "1 \<le> k" using power_le_imp_le_exp [of "2 :: nat"] by (metis one_less_numeral_iff semiring_norm(76))+
  moreover have "freq = 2 ^ k" using arg_cong [OF k, of "of_nat :: nat \<Rightarrow> u32"] by simp
  ultimately show "freq \<in> (\<lambda>k. 2 ^ k) ` {1..10}" by auto
next
  assume "freq \<in> (\<lambda>k. 2 ^ k) ` {1..10}"
  then obtain k where "freq = 2 ^ k" "k \<in> {1..10}" by blast
  from upto10 [OF this(2)] this(1) show "freq \<ge> 2 \<and> freq \<le> 1024 \<and> (freq - 1) AND freq = 0"
    by (elim disjE) simp_all
qed

text \<open>The rate of a frequency \<open>2 ^ k\<close> is \<open>16 - k\<close>; other frequencies have none.\<close>

lemma rtc_find_rate_power: "k \<in> {1..10} \<Longrightarrow> rtc_find_rate (2 ^ k) 6 = 16 - k"
  by (drule upto10) (elim disjE; simp add: rtc_find_rate.simps)

lemma rtc_find_rate_sound:
  "rtc_find_rate freq i = 0 \<or> i \<le> rtc_find_rate freq i \<and> rtc_find_rate freq i < 16 \<and>
     freq = drop_bit (rtc_find_rate freq i - 1) 32768"
proof (induction freq i rule: rtc_find_rate.induct)
  case (1 freq i)
  show ?case
  proof (cases "i < 16 \<and> freq \<noteq> drop_bit (i - 1) 32768")
    case True
    then have "rtc_find_rate freq i = rtc_find_rate freq (i + 1)" by (simp add: rtc_find_rate.simps [of freq i])
    then show ?thesis using 1 True by auto
  qed (auto simp: rtc_find_rate.simps [of freq i])
qed


lemma drop_bit_32768: "k \<in> {1..10} \<Longrightarrow> drop_bit (15 - k) (32768 :: u32) = 2 ^ k"
  by (drule upto10) (elim disjE; simp)

lemma rtc_find_rate_none: "freq \<notin> (\<lambda>k. 2 ^ k) ` {1..10} \<Longrightarrow> rtc_find_rate freq 6 = 0"
proof (rule ccontr)
  let ?r = "rtc_find_rate freq 6"
  assume no: "freq \<notin> (\<lambda>k. 2 ^ k) ` {1..10}" and "?r \<noteq> 0"
  then have r: "6 \<le> ?r" "?r < 16" "freq = drop_bit (?r - 1) 32768"
    using rtc_find_rate_sound [of freq 6] by simp_all
  have "drop_bit (?r - 1) (32768 :: u32) = 2 ^ (16 - ?r)"
  proof -
    have "16 - ?r \<in> {1..10}" using r by auto
    moreover have "?r - 1 = 15 - (16 - ?r)" using r by simp
    ultimately show ?thesis by (metis (no_types, lifting) drop_bit_32768)
  qed
  with no r show False by force
qed

text \<open>
  The hardware is programmed with the rate of a legal frequency, in the low half of register A;
  an illegal frequency touches nothing.
\<close>

lemma rtc_set_rate_legal:
  assumes "k \<in> {1..10}"
  shows "fst (rtc_set_rate dev (2 ^ k) s) = 1"
    and "\<exists>v. io_log (snd (rtc_set_rate dev (2 ^ k) s)) = io_log s @
      [Out 0x70 0x8A, In 0x71 v, Out 0x70 0x8A, Out 0x71 ((v AND 0xF0) OR (of_nat (16 - k) AND 0x0F))]"
  using rtc_find_rate_power [OF assms] assms
  by (simp_all add: rtc_set_rate_def Let_def inb_def rtc_consts)

lemma rtc_set_rate_illegal: "freq \<notin> (\<lambda>k. 2 ^ k) ` {1..10} \<Longrightarrow> rtc_set_rate dev freq s = (0, s)"
  by (simp add: rtc_set_rate_def rtc_find_rate_none)

lemma max_freq_div: "k \<in> {1..10} \<Longrightarrow> uint (RTC_MAX_FREQ div 2 ^ k) = 2 ^ (10 - k)"
  by (drule upto10) (elim disjE; simp add: rtc_consts)

lemma rtc_write_legal:
  assumes k: "k \<in> {1..10}" and p: "load_le32 p 0 = 2 ^ k"
  shows "rtc_write (Some p) 4 s = (4, s\<lparr>iflag := True, rtc_max_count := 2 ^ (10 - k), rtc_counter := 0\<rparr>)"
proof -
  have "(2 :: u32) ^ k \<in> (\<lambda>k. 2 ^ k) ` {1..10}" using k by blast
  with p show ?thesis
    by (simp add: rtc_write_def legal_freq cli_def sti_def Let_def max_freq_div [OF k])
qed

section \<open>Properties\<close>

text \<open>C32. \<open>rtc_write\<close> accepts a four-byte buffer with a power of two from 2 to 1024 and nothing else: it then
  returns 4 and sets the number of hardware ticks per virtual tick to 1024 divided by the frequency; every
  other call returns -1 and changes nothing.\<close>

theorem rtc_write_spec:
  "(\<forall>k \<in> {1..10}. load_le32 p 0 = 2 ^ k \<longrightarrow>
      rtc_write (Some p) 4 s = (4, s\<lparr>iflag := True, rtc_max_count := 2 ^ (10 - k), rtc_counter := 0\<rparr>)) \<and>
   (buf = None \<or> nbytes \<noteq> 4 \<or> load_le32 (the buf) 0 \<notin> (\<lambda>k. 2 ^ k) ` {1..10} \<longrightarrow>
      rtc_write buf nbytes s = (-1, s))"
proof (intro conjI ballI impI)
  fix k :: nat
  assume "k \<in> {1..10}" "load_le32 p 0 = 2 ^ k"
  then show "rtc_write (Some p) 4 s = (4, s\<lparr>iflag := True, rtc_max_count := 2 ^ (10 - k), rtc_counter := 0\<rparr>)"
    by (rule rtc_write_legal)
next
  assume "buf = None \<or> nbytes \<noteq> 4 \<or> load_le32 (the buf) 0 \<notin> (\<lambda>k. 2 ^ k) ` {1..10}"
  then show "rtc_write buf nbytes s = (-1, s)"
    by (auto simp: rtc_write_def legal_freq Let_def split: option.split)
qed

definition idle_rtc :: rtc_state where
  "idle_rtc = \<lparr>io_log = [], iflag = False, ram = (\<lambda>_. 0), screen_x = 0, screen_y = 0, master_mask = 0,
     slave_mask = 0, rtc_interrupt_occurred = 0, rtc_counter = 0, rtc_max_count = 512\<rparr>"

theorem rtc_write_spec_witness:
  "rtc_max_count (snd (rtc_write (Some (list_view [32, 0, 0, 0])) 4 idle_rtc)) = 32 \<and>
   rtc_write (Some (list_view [32])) 3 idle_rtc = (-1, idle_rtc)"
proof -
  have "load_le32 (list_view [32, 0, 0, 0]) 0 = 2 ^ 5"
    by (simp add: load_le32_def list_view_def)
  then show ?thesis
    using rtc_write_spec [of "list_view [32, 0, 0, 0]" idle_rtc "Some (list_view [32])" 3]
    by (auto dest!: bspec [of _ _ 5])
qed

end
