(* ===== verification/Keyboard.thy ===== *)
theory Keyboard
  imports Rtc
begin

text \<open>
  The keyboard driver, \<^verbatim>\<open>src/student-distrib/keyboard.c\<close>: the scan code tables, the modifier keys and
  the line buffer. \<open>keyboard_handler\<close> is the whole interrupt handler; its innermost part, which
  treats a character, is \<open>keyboard_char\<close>.

  The driver is specified by an abstract line editor: the modifiers are six switches, the line is a
  list of at most 127 characters. \<open>kb_ok\<close> is the invariant of the buffer; under it every access
  to the array is within its 128 bytes.
\<close>

record keyboard_state = rtc_state +
  keyboard_buffer :: "byte list"
  keyboard_buffer_index :: int
  key_status :: byte
  enterpress :: int

section \<open>Definitions\<close>

definition KEYBOARD_DATA_PORT :: u16 where "KEYBOARD_DATA_PORT = 0x60"
definition KEYBOARD_IRQ :: u32 where "KEYBOARD_IRQ = 0x01"
definition KEYBOARD_BUFFER_SIZE :: int where "KEYBOARD_BUFFER_SIZE = 128"

text \<open>The tables have 128 entries; C fills the ones without an initialiser with 0.\<close>

definition keymap :: "byte list" where
  "keymap = [0, 27] @ ascii ''1234567890-='' @ [8, 9] @ ascii ''qwertyuiop[]'' @ [10, 0] @
     ascii ''asdfghjkl;'' @ [0x27, 0x60, 0, 0x5C] @ ascii ''zxcvbnm,./'' @ [0] @ ascii ''*'' @ [0] @
     ascii '' '' @ replicate 16 0 @ ascii ''-'' @ replicate 3 0 @ ascii ''+'' @ replicate 49 0"

definition keymap_upper :: "byte list" where
  "keymap_upper = [0, 27] @ ascii ''!@#$%^&*()_+'' @ [8, 9] @ ascii ''QWERTYUIOP{}'' @ [10, 0] @
     ascii ''ASDFGHJKL:'' @ [0x22, 0x7E, 0, 0x7C] @ ascii ''ZXCVBNM<>?'' @ [0] @ ascii ''*'' @ [0] @
     ascii '' '' @ replicate 16 0 @ ascii ''-'' @ replicate 3 0 @ ascii ''+'' @ replicate 49 0"

definition keyboard_init :: "device \<Rightarrow> 'a machine_scheme \<Rightarrow> 'a machine_scheme" where
  "keyboard_init dev s = enable_irq dev KEYBOARD_IRQ s"

definition is_letter :: "byte \<Rightarrow> bool" where
  "is_letter scancode \<longleftrightarrow>
     (scancode \<ge> 0x10 \<and> scancode \<le> 0x19) \<or> (scancode \<ge> 0x1E \<and> scancode \<le> 0x26) \<or>
     (scancode \<ge> 0x2C \<and> scancode \<le> 0x32)"

definition handle_standard_key :: "byte \<Rightarrow> byte \<Rightarrow> byte" where
  "handle_standard_key status scancode =
     (if status AND 0x02 \<noteq> 0 then
        (if is_letter scancode then
           (if status AND 0x01 \<noteq> 0 then keymap ! unat scancode else keymap_upper ! unat scancode)
         else
           (if status AND 0x01 \<noteq> 0 then keymap_upper ! unat scancode else keymap ! unat scancode))
      else
        (if status AND 0x01 \<noteq> 0 then keymap_upper ! unat scancode else keymap ! unat scancode))"

text \<open>The character part of the handler: echo, line buffer and Enter.\<close>

definition keyboard_char :: "byte \<Rightarrow> 'a keyboard_state_scheme \<Rightarrow> 'a keyboard_state_scheme" where
  "keyboard_char c s =
     (let s = (if c = 0x08 \<and> keyboard_buffer_index s \<noteq> 0 then
                 let s = (if keyboard_buffer s ! nat (keyboard_buffer_index s - 1) = 0x09
                          then ((move_cursor \<circ> backspace_pressed) ^^ 4) s
                          else if keyboard_buffer_index s \<noteq> 0 then putc_term c s else s)
                 in s\<lparr>keyboard_buffer_index := keyboard_buffer_index s - 1\<rparr>
               else if keyboard_buffer_index s < KEYBOARD_BUFFER_SIZE - 1 \<and> c \<noteq> 0x08 then putc_term c s
               else s);
          s = (if c \<noteq> 0 \<and> keyboard_buffer_index s < KEYBOARD_BUFFER_SIZE - 1 \<and> c \<noteq> 0x08 then
                 s\<lparr>keyboard_buffer := (keyboard_buffer s)[nat (keyboard_buffer_index s) := c],
                   keyboard_buffer_index := keyboard_buffer_index s + 1\<rparr>
               else s)
      in if c = 0x0A then
           let s = (if keyboard_buffer_index s = KEYBOARD_BUFFER_SIZE - 1 then
                      putc_term c
                        (s\<lparr>keyboard_buffer := (keyboard_buffer s)[nat (keyboard_buffer_index s) := c],
                          keyboard_buffer_index := keyboard_buffer_index s + 1\<rparr>)
                    else s)
           in s\<lparr>enterpress := 1, keyboard_buffer_index := 0\<rparr>
         else s)"

definition keyboard_released :: "byte \<Rightarrow> 'a keyboard_state_scheme \<Rightarrow> 'a keyboard_state_scheme" where
  "keyboard_released scancode s =
     (if scancode = 0xAA \<or> scancode = 0xB6 then s\<lparr>key_status := key_status s AND NOT 0x01\<rparr>
      else if scancode = 0x9D then s\<lparr>key_status := key_status s AND NOT 0x04\<rparr>
      else if scancode = 0xB8 then s\<lparr>key_status := key_status s AND NOT 0x08\<rparr>
      else s)"

definition keyboard_pressed :: "byte \<Rightarrow> 'a keyboard_state_scheme \<Rightarrow> 'a keyboard_state_scheme" where
  "keyboard_pressed scancode s =
     (if scancode = 0x2A \<or> scancode = 0x36 then s\<lparr>key_status := key_status s OR 0x01\<rparr>
      else if scancode = 0x3A then
        (if key_status s AND 0x02 \<noteq> 0 then s\<lparr>key_status := key_status s AND NOT 0x02\<rparr>
         else s\<lparr>key_status := key_status s OR 0x02\<rparr>)
      else if scancode = 0x1D then s\<lparr>key_status := key_status s OR 0x04\<rparr>
      else if scancode = 0x38 then s\<lparr>key_status := key_status s OR 0x08\<rparr>
      else if scancode = 0x45 then
        (if key_status s AND 0x10 \<noteq> 0 then s\<lparr>key_status := key_status s AND NOT 0x10\<rparr>
         else s\<lparr>key_status := key_status s OR 0x10\<rparr>)
      else if scancode = 0x46 then
        (if key_status s AND 0x20 \<noteq> 0 then s\<lparr>key_status := key_status s AND NOT 0x20\<rparr>
         else s\<lparr>key_status := key_status s OR 0x20\<rparr>)
      else if key_status s AND 0x04 \<noteq> 0 \<and> scancode = 0x26 then clear_term s
      else keyboard_char (handle_standard_key (key_status s) scancode) s)"

definition keyboard_handler :: "device \<Rightarrow> 'a keyboard_state_scheme \<Rightarrow> 'a keyboard_state_scheme" where
  "keyboard_handler dev s =
     (let (scancode, s) = inb dev KEYBOARD_DATA_PORT s;
          s = (if scancode AND 0x80 \<noteq> 0 then keyboard_released scancode s
               else keyboard_pressed scancode s)
      in send_eoi KEYBOARD_IRQ s)"

section \<open>The abstract line editor\<close>

record modifiers =
  m_shift :: bool
  m_caps :: bool
  m_ctrl :: bool
  m_alt :: bool
  m_num :: bool
  m_scroll :: bool

definition abs_mods :: "byte \<Rightarrow> modifiers" where
  "abs_mods st = \<lparr>m_shift = bit st 0, m_caps = bit st 1, m_ctrl = bit st 2, m_alt = bit st 3,
     m_num = bit st 4, m_scroll = bit st 5\<rparr>"

definition mods_step :: "byte \<Rightarrow> modifiers \<Rightarrow> modifiers" where
  "mods_step sc m =
     (if sc \<in> {0x2A, 0x36} then m\<lparr>m_shift := True\<rparr>
      else if sc \<in> {0xAA, 0xB6} then m\<lparr>m_shift := False\<rparr>
      else if sc = 0x1D then m\<lparr>m_ctrl := True\<rparr>
      else if sc = 0x9D then m\<lparr>m_ctrl := False\<rparr>
      else if sc = 0x38 then m\<lparr>m_alt := True\<rparr>
      else if sc = 0xB8 then m\<lparr>m_alt := False\<rparr>
      else if sc = 0x3A then m\<lparr>m_caps := \<not> m_caps m\<rparr>
      else if sc = 0x45 then m\<lparr>m_num := \<not> m_num m\<rparr>
      else if sc = 0x46 then m\<lparr>m_scroll := \<not> m_scroll m\<rparr>
      else m)"

text \<open>The character of a key under the modifiers, 0 when it has none.\<close>

definition key_char :: "modifiers \<Rightarrow> byte \<Rightarrow> byte" where
  "key_char m sc =
     (if bit sc 7 \<or> sc \<in> {0x2A, 0x36, 0x3A, 0x1D, 0x38, 0x45, 0x46} \<or> (m_ctrl m \<and> sc = 0x26) then 0
      else if m_shift m \<noteq> (m_caps m \<and> is_letter sc) then keymap_upper ! unat sc else keymap ! unat sc)"

text \<open>Editing a line by a character other than Enter; a line holds at most 127 characters.\<close>

definition edit :: "byte \<Rightarrow> byte list \<Rightarrow> byte list" where
  "edit c l = (if c = 0x08 then butlast l else if c \<noteq> 0 \<and> length l < 127 then l @ [c] else l)"

text \<open>The line being edited, as the buffer holds it.\<close>

definition kb_line :: "'a keyboard_state_scheme \<Rightarrow> byte list" where
  "kb_line s = take (nat (keyboard_buffer_index s)) (keyboard_buffer s)"

definition kb_ok :: "'a keyboard_state_scheme \<Rightarrow> bool" where
  "kb_ok s \<longleftrightarrow> length (keyboard_buffer s) = 128 \<and> 0 \<le> keyboard_buffer_index s \<and>
     keyboard_buffer_index s \<le> 127 \<and> keyboard_buffer s ! 127 \<in> {0, 0x0A} \<and>
     (\<forall>b \<in> set (kb_line s). b \<noteq> 0 \<and> b \<noteq> 0x08 \<and> b \<noteq> 0x0A)"

section \<open>Frame facts\<close>

text \<open>The fields of a component depend on the part of the record beyond a lower component only.\<close>

lemma machine_more_kb:
  assumes "machine.more t = machine.more s"
  shows "keyboard_buffer t = keyboard_buffer s" "keyboard_buffer_index t = keyboard_buffer_index s"
    "key_status t = key_status s" "enterpress t = enterpress s"
    "rtc_interrupt_occurred t = rtc_interrupt_occurred s" "rtc_counter t = rtc_counter s"
    "rtc_max_count t = rtc_max_count s" "screen_x t = screen_x s" "screen_y t = screen_y s"
  using assms by (cases s; cases t; simp)+

lemma console_more_kb:
  assumes "console_state.more t = console_state.more s"
  shows "keyboard_buffer t = keyboard_buffer s" "keyboard_buffer_index t = keyboard_buffer_index s"
    "key_status t = key_status s" "enterpress t = enterpress s"
    "rtc_interrupt_occurred t = rtc_interrupt_occurred s" "rtc_counter t = rtc_counter s"
    "rtc_max_count t = rtc_max_count s"
  using assms by (cases s; cases t; simp)+

lemma putc_term_kb [simp]:
  "keyboard_buffer (putc_term c s) = keyboard_buffer s"
  "keyboard_buffer_index (putc_term c s) = keyboard_buffer_index s"
  "key_status (putc_term c s) = key_status s" "enterpress (putc_term c s) = enterpress s"
  "rtc_interrupt_occurred (putc_term c s) = rtc_interrupt_occurred s"
  "rtc_counter (putc_term c s) = rtc_counter s" "rtc_max_count (putc_term c s) = rtc_max_count s"
  by (rule console_more_kb; simp)+

lemma untab_kb [simp]:
  "console_state.more (((move_cursor \<circ> backspace_pressed) ^^ n) s) = console_state.more s"
  "iflag (((move_cursor \<circ> backspace_pressed) ^^ n) s) = iflag s"
  by (induction n) (simp_all add: backspace_pressed_def Let_def)

lemmas untab_fields [simp] = console_more_kb [OF untab_kb(1)]

lemma clear_term_more [simp]:
  "console_state.more (clear_term s) = console_state.more s" "iflag (clear_term s) = iflag s"
  by (simp_all add: clear_term_def clear_def Let_def)

lemmas clear_term_kb [simp] = console_more_kb [OF clear_term_more(1)]

lemma send_eoi_frame [simp]:
  "machine.more (send_eoi i s) = machine.more s" "iflag (send_eoi i s) = iflag s" "ram (send_eoi i s) = ram s"
  by (simp_all add: send_eoi_def)

lemmas send_eoi_kb [simp] = machine_more_kb [OF send_eoi_frame(1)]
lemmas inb_kb [simp] = machine_more_kb [OF inb_frame(3)]

section \<open>The line buffer\<close>

lemma keyboard_char_fields:
  shows "keyboard_buffer (keyboard_char c s) =
     (if c = 0 \<or> c = 0x08 \<or> (c \<noteq> 0x0A \<and> 127 \<le> keyboard_buffer_index s) then keyboard_buffer s
      else if c = 0x0A \<and> keyboard_buffer_index s = 126
        then (keyboard_buffer s)[126 := 0x0A, 127 := 0x0A]
      else if 127 < keyboard_buffer_index s then keyboard_buffer s
      else (keyboard_buffer s)[nat (keyboard_buffer_index s) := c])"
    and "keyboard_buffer_index (keyboard_char c s) =
     (if c = 0x0A then 0
      else if c = 0x08 then (if keyboard_buffer_index s = 0 then 0 else keyboard_buffer_index s - 1)
      else if c = 0 \<or> 127 \<le> keyboard_buffer_index s then keyboard_buffer_index s
      else keyboard_buffer_index s + 1)"
    and "enterpress (keyboard_char c s) = (if c = 0x0A then 1 else enterpress s)"
    and "key_status (keyboard_char c s) = key_status s"
    and "iflag (keyboard_char c s) = iflag s"
    and "rtc_interrupt_occurred (keyboard_char c s) = rtc_interrupt_occurred s"
    and "rtc_counter (keyboard_char c s) = rtc_counter s"
    and "rtc_max_count (keyboard_char c s) = rtc_max_count s"
  by (auto simp: keyboard_char_def Let_def KEYBOARD_BUFFER_SIZE_def)

lemma take_update_snoc: "n < length xs \<Longrightarrow> take (Suc n) (xs[n := x]) = take n xs @ [x]"
  by (simp add: take_Suc_conv_app_nth)

lemma keyboard_char_line:
  assumes "kb_ok s"
  shows "c \<noteq> 0x0A \<Longrightarrow> kb_line (keyboard_char c s) = edit c (kb_line s)"
    and "c = 0x0A \<Longrightarrow> take (Suc (length (kb_line s))) (keyboard_buffer (keyboard_char c s)) = kb_line s @ [0x0A]"
    and "c = 0x0A \<Longrightarrow> kb_line (keyboard_char c s) = []"
proof -
  let ?i = "keyboard_buffer_index s" and ?b = "keyboard_buffer s"
  have s: "length ?b = 128" "0 \<le> ?i" "?i \<le> 127" using assms by (auto simp: kb_ok_def)
  have len: "length (kb_line s) = nat ?i" using s by (simp add: kb_line_def)
  show "c = 0x0A \<Longrightarrow> kb_line (keyboard_char c s) = []" by (simp add: kb_line_def keyboard_char_fields)
  show "c \<noteq> 0x0A \<Longrightarrow> kb_line (keyboard_char c s) = edit c (kb_line s)"
    using s len
    by (auto simp: kb_line_def keyboard_char_fields edit_def butlast_take nat_diff_distrib nat_add_distrib
        take_update_snoc)
  assume c: "c = 0x0A"
  show "take (Suc (length (kb_line s))) (keyboard_buffer (keyboard_char c s)) = kb_line s @ [0x0A]"
  proof (cases "?i = 126")
    case True
    then show ?thesis using s c len take_update_snoc [of 126 ?b "0x0A"]
      by (simp add: kb_line_def keyboard_char_fields)
  next
    case False
    then show ?thesis using s c len take_update_snoc [of "nat ?i" ?b "0x0A"]
      by (simp add: kb_line_def keyboard_char_fields)
  qed
qed

lemma kb_ok_keyboard_char:
  assumes "kb_ok s"
  shows "kb_ok (keyboard_char c s)"
proof -
  let ?i = "keyboard_buffer_index s" and ?b = "keyboard_buffer s" and ?t = "keyboard_char c s"
  have s: "length ?b = 128" "0 \<le> ?i" "?i \<le> 127" "?b ! 127 \<in> {0, 0x0A}"
    and l: "\<forall>b \<in> set (kb_line s). b \<noteq> 0 \<and> b \<noteq> 0x08 \<and> b \<noteq> 0x0A" using assms by (auto simp: kb_ok_def)
  have "length (keyboard_buffer ?t) = 128" "0 \<le> keyboard_buffer_index ?t" "keyboard_buffer_index ?t \<le> 127"
    using s by (auto simp: keyboard_char_fields)
  moreover have "keyboard_buffer ?t ! 127 \<in> {0, 0x0A}"
    using s by (auto simp: keyboard_char_fields nth_list_update)
  moreover have "\<forall>b \<in> set (kb_line ?t). b \<noteq> 0 \<and> b \<noteq> 0x08 \<and> b \<noteq> 0x0A"
    using l keyboard_char_line [OF assms, of c]
    by (cases "c = 0x0A") (auto simp: edit_def dest: in_set_butlastD)
  ultimately show ?thesis by (simp add: kb_ok_def)
qed

section \<open>Modifiers and scan codes\<close>

lemma and_flag:
  fixes st :: byte
  shows "st AND 0x01 = 0 \<longleftrightarrow> \<not> bit st 0" "st AND 0x02 = 0 \<longleftrightarrow> \<not> bit st 1" "st AND 0x04 = 0 \<longleftrightarrow> \<not> bit st 2"
    "st AND 0x10 = 0 \<longleftrightarrow> \<not> bit st 4" "st AND 0x20 = 0 \<longleftrightarrow> \<not> bit st 5" "st AND 0x80 = 0 \<longleftrightarrow> \<not> bit st 7"
  using and_exp_eq_0_iff_not_bit [of st 0] and_exp_eq_0_iff_not_bit [of st 1]
    and_exp_eq_0_iff_not_bit [of st 2] and_exp_eq_0_iff_not_bit [of st 4]
    and_exp_eq_0_iff_not_bit [of st 5] and_exp_eq_0_iff_not_bit [of st 7]
  by simp_all

lemma bit_flag: "bit (push_bit k (1 :: byte)) n \<longleftrightarrow> n = k \<and> k < 8"
  by (auto simp: bit_simps)

lemma abs_mods_set:
  "abs_mods (st OR push_bit 0 1) = (abs_mods st)\<lparr>m_shift := True\<rparr>"
  "abs_mods (st AND NOT (push_bit 0 1)) = (abs_mods st)\<lparr>m_shift := False\<rparr>"
  "abs_mods (st OR push_bit 1 1) = (abs_mods st)\<lparr>m_caps := True\<rparr>"
  "abs_mods (st AND NOT (push_bit 1 1)) = (abs_mods st)\<lparr>m_caps := False\<rparr>"
  "abs_mods (st OR push_bit 2 1) = (abs_mods st)\<lparr>m_ctrl := True\<rparr>"
  "abs_mods (st AND NOT (push_bit 2 1)) = (abs_mods st)\<lparr>m_ctrl := False\<rparr>"
  "abs_mods (st OR push_bit 3 1) = (abs_mods st)\<lparr>m_alt := True\<rparr>"
  "abs_mods (st AND NOT (push_bit 3 1)) = (abs_mods st)\<lparr>m_alt := False\<rparr>"
  "abs_mods (st OR push_bit 4 1) = (abs_mods st)\<lparr>m_num := True\<rparr>"
  "abs_mods (st AND NOT (push_bit 4 1)) = (abs_mods st)\<lparr>m_num := False\<rparr>"
  "abs_mods (st OR push_bit 5 1) = (abs_mods st)\<lparr>m_scroll := True\<rparr>"
  "abs_mods (st AND NOT (push_bit 5 1)) = (abs_mods st)\<lparr>m_scroll := False\<rparr>"
  unfolding abs_mods_def bit_or_iff bit_and_iff bit_not_iff bit_flag by (simp_all add: bit_simps)

lemmas abs_mods_status = abs_mods_set [simplified]

lemma abs_mods_sel [simp]:
  "m_shift (abs_mods st) = bit st 0" "m_caps (abs_mods st) = bit st 1" "m_ctrl (abs_mods st) = bit st 2"
  "m_num (abs_mods st) = bit st 4" "m_scroll (abs_mods st) = bit st 5"
  by (simp_all add: abs_mods_def)

lemma handle_standard_key_select:
  "handle_standard_key st sc =
     (if bit st 0 \<noteq> (bit st 1 \<and> is_letter sc) then keymap_upper ! unat sc else keymap ! unat sc)"
  by (auto simp: handle_standard_key_def and_flag)

text \<open>Which scan codes are releases.\<close>

lemma scancode_release:
  "bit (0xAA :: byte) 7" "bit (0xB6 :: byte) 7" "bit (0x9D :: byte) 7" "bit (0xB8 :: byte) 7"
  "\<not> bit (0x2A :: byte) 7" "\<not> bit (0x36 :: byte) 7" "\<not> bit (0x3A :: byte) 7" "\<not> bit (0x1D :: byte) 7"
  "\<not> bit (0x38 :: byte) 7" "\<not> bit (0x45 :: byte) 7" "\<not> bit (0x46 :: byte) 7" "\<not> bit (0x26 :: byte) 7"
  by (simp_all flip: and_flag(6))

lemma keyboard_char_0:
  "keyboard_buffer (keyboard_char 0 s) = keyboard_buffer s"
  "keyboard_buffer_index (keyboard_char 0 s) = keyboard_buffer_index s"
  "enterpress (keyboard_char 0 s) = enterpress s"
  by (simp_all add: keyboard_char_fields)

text \<open>
  The handler, for the scan code that the port returns: the modifiers follow the abstract ones,
  and the line buffer changes as by the character of the key.
\<close>

lemma keyboard_handler_mods:
  "abs_mods (key_status (keyboard_handler dev s)) = mods_step (dev (io_log s) 0x60) (abs_mods (key_status s))"
proof -
  obtain sc t where sc: "inb dev 0x60 s = (sc, t)" "sc = dev (io_log s) 0x60" "machine.more t = machine.more s"
    by (simp add: inb_def Let_def)
  then have "key_status t = key_status s" using machine_more_kb(3) by blast
  then show ?thesis using sc
    by (auto simp: keyboard_handler_def KEYBOARD_DATA_PORT_def keyboard_released_def keyboard_pressed_def
        and_flag mods_step_def abs_mods_status keyboard_char_fields scancode_release)
qed

lemma keyboard_handler_buffer:
  defines "k dev s \<equiv> keyboard_char (key_char (abs_mods (key_status s)) (dev (io_log s) 0x60)) s"
  shows "keyboard_buffer (keyboard_handler dev s) = keyboard_buffer (k dev s)"
    "keyboard_buffer_index (keyboard_handler dev s) = keyboard_buffer_index (k dev s)"
    "enterpress (keyboard_handler dev s) = enterpress (k dev s)"
proof -
  obtain sc t where sc: "inb dev 0x60 s = (sc, t)" "sc = dev (io_log s) 0x60" "machine.more t = machine.more s"
    by (simp add: inb_def Let_def)
  note t = machine_more_kb [OF sc(3)]
  show "keyboard_buffer (keyboard_handler dev s) = keyboard_buffer (k dev s)"
    "keyboard_buffer_index (keyboard_handler dev s) = keyboard_buffer_index (k dev s)"
    "enterpress (keyboard_handler dev s) = enterpress (k dev s)"
    unfolding k_def sc(2) [symmetric] keyboard_handler_def KEYBOARD_DATA_PORT_def sc(1) Let_def prod.case
    by (auto simp: keyboard_released_def keyboard_pressed_def t
        and_flag key_char_def handle_standard_key_select keyboard_char_fields scancode_release)
qed

lemma keyboard_handler_frame [simp]:
  "iflag (keyboard_handler dev s) = iflag s"
  "rtc_interrupt_occurred (keyboard_handler dev s) = rtc_interrupt_occurred s"
  "rtc_counter (keyboard_handler dev s) = rtc_counter s"
  "rtc_max_count (keyboard_handler dev s) = rtc_max_count s"
  by (simp_all add: keyboard_handler_def keyboard_released_def keyboard_pressed_def keyboard_char_fields
      split_beta)

lemma kb_ok_keyboard_handler: "kb_ok s \<Longrightarrow> kb_ok (keyboard_handler dev s)"
  using kb_ok_keyboard_char by (simp add: kb_ok_def kb_line_def keyboard_handler_buffer)

section \<open>Typing a line\<close>

text \<open>
  The line that a sequence of scan codes enters: characters are edited until the first Enter, which
  ends the line. \<open>None\<close>: Enter was not pressed.
\<close>

fun typed :: "byte list \<Rightarrow> modifiers \<Rightarrow> byte list \<Rightarrow> byte list option" where
  "typed [] m l = None"
| "typed (sc # scs) m l =
     (if key_char m sc = 0x0A then Some (l @ [0x0A])
      else typed scs (mods_step sc m) (edit (key_char m sc) l))"

lemma typed_line:
  "typed scs m l = Some line \<Longrightarrow> length l \<le> 127 \<Longrightarrow> \<forall>b \<in> set l. b \<noteq> 0 \<and> b \<noteq> 0x08 \<and> b \<noteq> 0x0A \<Longrightarrow>
     \<exists>l'. line = l' @ [0x0A] \<and> length l' \<le> 127 \<and> (\<forall>b \<in> set l'. b \<noteq> 0 \<and> b \<noteq> 0x08 \<and> b \<noteq> 0x0A)"
proof (induction scs m l rule: typed.induct)
  case (2 sc scs m l)
  show ?case
  proof (cases "key_char m sc = 0x0A")
    case False
    then have "length (edit (key_char m sc) l) \<le> 127"
        "\<forall>b \<in> set (edit (key_char m sc) l). b \<noteq> 0 \<and> b \<noteq> 0x08 \<and> b \<noteq> 0x0A"
      using 2(3,4) by (auto simp: edit_def dest: in_set_butlastD)
    then show ?thesis using False 2 by simp
  qed (use 2 in auto)
qed simp

text \<open>
  What line input needs of the interrupt dispatcher: a key runs \<open>keyboard_handler\<close> with its scan
  code on the data port, and every other interrupt leaves the variables of the driver alone.
\<close>

locale key_interrupts =
  fixes isr :: "'e \<Rightarrow> 'a keyboard_state_scheme \<Rightarrow> 'a keyboard_state_scheme" and scan :: "'e \<Rightarrow> byte option"
  assumes isr_key: "scan e = Some sc \<Longrightarrow> \<exists>dev t. dev (io_log t) 0x60 = sc \<and> machine.more t = machine.more s \<and>
          machine.more (isr e s) = machine.more (keyboard_handler dev t)"
    and isr_no_key: "scan e = None \<Longrightarrow> keyboard_buffer (isr e s) = keyboard_buffer s \<and>
          keyboard_buffer_index (isr e s) = keyboard_buffer_index s \<and>
          key_status (isr e s) = key_status s \<and> enterpress (isr e s) = enterpress s"
    and isr_key_iflag: "iflag s \<Longrightarrow> iflag (isr e s)"
begin

lemma key_step:
  assumes "scan e = Some sc" "kb_ok s"
  defines "c \<equiv> key_char (abs_mods (key_status s)) sc"
  shows "kb_ok (isr e s)" and "abs_mods (key_status (isr e s)) = mods_step sc (abs_mods (key_status s))"
    and "c \<noteq> 0x0A \<Longrightarrow> kb_line (isr e s) = edit c (kb_line s) \<and> enterpress (isr e s) = enterpress s"
    and "c = 0x0A \<Longrightarrow> enterpress (isr e s) = 1 \<and> kb_line (isr e s) = [] \<and>
          take (Suc (length (kb_line s))) (keyboard_buffer (isr e s)) = kb_line s @ [0x0A]"
proof -
  obtain dev t where t: "dev (io_log t) 0x60 = sc" "machine.more t = machine.more s"
      "machine.more (isr e s) = machine.more (keyboard_handler dev t)"
    using isr_key [OF assms(1)] by blast
  note fs = machine_more_kb [OF t(2)] and ft = machine_more_kb [OF t(3)]
  have "kb_ok t" using assms(2) fs by (simp add: kb_ok_def kb_line_def)
  note line = keyboard_char_line [OF this, of c]
  have same: "kb_line t = kb_line s" using fs by (simp add: kb_line_def)
  show "kb_ok (isr e s)"
    using kb_ok_keyboard_handler [OF \<open>kb_ok t\<close>, of dev] ft by (simp add: kb_ok_def kb_line_def)
  show "abs_mods (key_status (isr e s)) = mods_step sc (abs_mods (key_status s))"
    using ft fs t(1) keyboard_handler_mods [of dev t] by simp
  have char: "kb_line (isr e s) = kb_line (keyboard_char c t)"
      "enterpress (isr e s) = enterpress (keyboard_char c t)"
      "keyboard_buffer (isr e s) = keyboard_buffer (keyboard_char c t)"
    using ft fs t(1) by (simp_all add: kb_line_def c_def keyboard_handler_buffer)
  show "c \<noteq> 0x0A \<Longrightarrow> kb_line (isr e s) = edit c (kb_line s) \<and> enterpress (isr e s) = enterpress s"
    using line(1) char same fs by (simp add: keyboard_char_fields)
  show "c = 0x0A \<Longrightarrow> enterpress (isr e s) = 1 \<and> kb_line (isr e s) = [] \<and>
          take (Suc (length (kb_line s))) (keyboard_buffer (isr e s)) = kb_line s @ [0x0A]"
    using line(2,3) char same by (simp add: keyboard_char_fields)
qed

lemma spin_typed:
  assumes "iflag s" "enterpress s = 0" "kb_ok s"
    and "typed (List.map_filter scan evs) (abs_mods (key_status s)) (kb_line s) = Some line"
  shows "\<exists>used rest t. evs = used @ rest \<and>
    spin (\<lambda>s. enterpress s \<noteq> 0) isr evs s = Some (rest, t) \<and>
    take (length line) (keyboard_buffer t) = line \<and> kb_ok t \<and> kb_line t = [] \<and> iflag t"
  using assms
proof (induction evs arbitrary: s)
  case (Cons e evs)
  let ?m = "abs_mods (key_status s)"
  have step: "spin (\<lambda>s. enterpress s \<noteq> 0) isr (e # evs) s = spin (\<lambda>s. enterpress s \<noteq> 0) isr evs (isr e s)"
    using Cons.prems by simp
  have more: ?case if ih: "enterpress (isr e s) = 0" "kb_ok (isr e s)"
      "typed (List.map_filter scan evs) (abs_mods (key_status (isr e s))) (kb_line (isr e s)) = Some line"
  proof -
    obtain used rest t where "evs = used @ rest" "spin (\<lambda>s. enterpress s \<noteq> 0) isr evs (isr e s) = Some (rest, t)"
        "take (length line) (keyboard_buffer t) = line" "kb_ok t" "kb_line t = []" "iflag t"
      using Cons.IH [OF isr_key_iflag [OF Cons.prems(1)] ih] by blast
    then show ?thesis using Cons.prems(1,2)
      by (intro exI [of _ "e # used"] exI [of _ rest] exI [of _ t]) simp
  qed
  show ?case
  proof (cases "scan e")
    case None
    then show ?thesis using Cons.prems isr_no_key [OF None, of s]
      by (intro more) (simp_all add: kb_ok_def kb_line_def List.map_filter_def)
  next
    case (Some sc)
    note key = key_step [OF Some Cons.prems(3)]
    show ?thesis
    proof (cases "key_char ?m sc = 0x0A")
      case True
      then have "line = kb_line s @ [0x0A]" using Cons.prems(4) Some by (simp add: List.map_filter_def)
      then show ?thesis using True key step isr_key_iflag [OF Cons.prems(1)]
        by (intro exI [of _ "[e]"] exI [of _ evs] exI [of _ "isr e s"]) (simp add: spin_now)
    next
      case False
      then show ?thesis using Cons.prems key Some
        by (intro more) (simp_all add: List.map_filter_def)
    qed
  qed
qed (simp add: List.map_filter_def)

end

section \<open>The scan code tables\<close>

definition letter_codes :: "nat list" where
  "letter_codes = [16..<26] @ [30..<39] @ [44..<51]"

lemma is_letter_codes: "is_letter sc \<longleftrightarrow> unat sc \<in> set letter_codes"
  unfolding is_letter_def letter_codes_def set_append set_upt Un_iff atLeastLessThan_iff word_le_nat_alt
  by auto

lemma keymap_entries:
  "keymap =
     [0, 27, 49, 50, 51, 52, 53, 54, 55, 56, 57, 48, 45, 61, 8, 9, 113, 119, 101, 114, 116, 121,
       117, 105, 111, 112, 91, 93, 10, 0, 97, 115, 100, 102, 103, 104, 106, 107, 108, 59, 39, 96,
       0, 92, 122, 120, 99, 118, 98, 110, 109, 44, 46, 47, 0, 42, 0, 32] @
     replicate 16 0 @ [45] @ replicate 3 0 @ [43] @ replicate 49 0"
  by (simp add: keymap_def ascii_def)

lemma keymap_upper_entries:
  "keymap_upper =
     [0, 27, 33, 64, 35, 36, 37, 94, 38, 42, 40, 41, 95, 43, 8, 9, 81, 87, 69, 82, 84, 89, 85,
       73, 79, 80, 123, 125, 10, 0, 65, 83, 68, 70, 71, 72, 74, 75, 76, 58, 34, 126, 0, 124, 90,
       88, 67, 86, 66, 78, 77, 60, 62, 63, 0, 42, 0, 32] @
     replicate 16 0 @ [45] @ replicate 3 0 @ [43] @ replicate 49 0"
  by (simp add: keymap_upper_def ascii_def)

lemma letter_codes_list:
  "letter_codes = [16, 17, 18, 19, 20, 21, 22, 23, 24, 25, 30, 31, 32, 33, 34, 35, 36, 37, 38,
     44, 45, 46, 47, 48, 49, 50]"
  by (simp add: letter_codes_def)

lemma letter_entries:
  "map ((!) keymap) letter_codes = ascii ''qwertyuiopasdfghjklzxcvbnm''"
  "map ((!) keymap_upper) letter_codes = map (\<lambda>n. keymap ! n - 32) letter_codes"
  by (simp_all add: letter_codes_list keymap_entries keymap_upper_entries nth_append ascii_def)

lemma table_sizes: "length keymap = 128" "length keymap_upper = 128"
  by (simp_all add: keymap_def keymap_upper_def)

text \<open>The key map: the letter keys produce the 26 letters, one each, in upper case when exactly one of Shift and
  Caps Lock is on; every other key takes its shifted character when Shift is on, whatever Caps Lock says.\<close>

theorem handle_standard_key_case:
  "map (\<lambda>n. handle_standard_key 0 (of_nat n)) letter_codes = ascii ''qwertyuiopasdfghjklzxcvbnm'' \<and>
   handle_standard_key st sc =
     (if is_letter sc then
        (if bit st 0 \<noteq> bit st 1 then handle_standard_key 0 sc - 32 else handle_standard_key 0 sc)
      else if bit st 0 then keymap_upper ! unat sc else keymap ! unat sc)"
proof
  have "map (\<lambda>n. handle_standard_key 0 (of_nat n)) letter_codes = map ((!) keymap) letter_codes"
    by (auto simp: handle_standard_key_select letter_codes_def unat_of_nat)
  then show "map (\<lambda>n. handle_standard_key 0 (of_nat n)) letter_codes = ascii ''qwertyuiopasdfghjklzxcvbnm''"
    using letter_entries(1) by (rule trans)
  have "keymap_upper ! n = keymap ! n - 32" if "n \<in> set letter_codes" for n
    using letter_entries(2) that by simp
  then show "handle_standard_key st sc =
     (if is_letter sc then
        (if bit st 0 \<noteq> bit st 1 then handle_standard_key 0 sc - 32 else handle_standard_key 0 sc)
      else if bit st 0 then keymap_upper ! unat sc else keymap ! unat sc)"
    by (auto simp: handle_standard_key_select is_letter_codes)
qed

end
