(* ===== verification/Interrupts.thy ===== *)
theory Interrupts
  imports Keyboard
begin

text \<open>
  The dispatch of the two device interrupts, from \<^verbatim>\<open>src/student-distrib/handler_wrapper.S\<close> and the
  gates of \<^verbatim>\<open>src/student-distrib/idt.c\<close>: vector 0x21 runs \<open>keyboard_handler\<close> and 0x28
  \<open>rtc_handler\<close>, both through an interrupt gate, which clears the interrupt flag, and a wrapper
  that saves the registers and ends in \<^verbatim>\<open>iret\<close>, which restores it.
\<close>

section \<open>Definitions\<close>

datatype irq = Rtc_irq | Key_irq byte

definition handler_wrapper ::
  "('a machine_scheme \<Rightarrow> 'a machine_scheme) \<Rightarrow> 'a machine_scheme \<Rightarrow> 'a machine_scheme" where
  "handler_wrapper handler s = (handler (s\<lparr>iflag := False\<rparr>))\<lparr>iflag := iflag s\<rparr>"

text \<open>A key interrupt carries the scan code that the keyboard shows on its data port.\<close>

definition isr :: "device \<Rightarrow> irq \<Rightarrow> 'a keyboard_state_scheme \<Rightarrow> 'a keyboard_state_scheme" where
  "isr dev e =
     (case e of
        Rtc_irq \<Rightarrow> handler_wrapper (rtc_handler dev)
      | Key_irq sc \<Rightarrow>
          handler_wrapper (keyboard_handler (\<lambda>log p. if p = KEYBOARD_DATA_PORT then sc else dev log p)))"

fun scan_code :: "irq \<Rightarrow> byte option" where
  "scan_code Rtc_irq = None"
| "scan_code (Key_irq sc) = Some sc"

section \<open>The dispatcher serves both drivers\<close>

lemma isr_iflag [simp]: "iflag (isr dev e s) = iflag s"
  by (cases e) (simp_all add: isr_def handler_wrapper_def)

lemma rtc_handler_more_kb:
  "keyboard_buffer (rtc_handler dev s) = keyboard_buffer s"
  "keyboard_buffer_index (rtc_handler dev s) = keyboard_buffer_index s"
  "key_status (rtc_handler dev s) = key_status s" "enterpress (rtc_handler dev s) = enterpress s"
  by (simp_all add: rtc_handler_def Let_def cli_def sti_def outb_def inb_def send_eoi_def)

interpretation clock: rtc_interrupts dev "isr dev" "\<lambda>e. e = Rtc_irq" for dev
proof unfold_locales
  fix e and s :: "'a keyboard_state_scheme"
  show "e = Rtc_irq \<Longrightarrow> rtc_interrupt_occurred (isr dev e s) = rtc_interrupt_occurred (rtc_handler dev s) \<and>
      rtc_counter (isr dev e s) = rtc_counter (rtc_handler dev s) \<and>
      rtc_max_count (isr dev e s) = rtc_max_count (rtc_handler dev s)"
    by (simp add: isr_def handler_wrapper_def)
  show "e \<noteq> Rtc_irq \<Longrightarrow> rtc_interrupt_occurred (isr dev e s) = rtc_interrupt_occurred s \<and>
      rtc_counter (isr dev e s) = rtc_counter s \<and> rtc_max_count (isr dev e s) = rtc_max_count s"
    by (cases e) (simp_all add: isr_def handler_wrapper_def)
qed simp

interpretation keys: key_interrupts "isr dev" scan_code for dev
proof unfold_locales
  fix e sc and s :: "'a keyboard_state_scheme"
  show "scan_code e = Some sc \<Longrightarrow> \<exists>d t. d (io_log t) 0x60 = sc \<and> machine.more t = machine.more s \<and>
      machine.more (isr dev e s) = machine.more (keyboard_handler d t)"
    by (cases e, simp, rule exI [of _ "\<lambda>log p. if p = KEYBOARD_DATA_PORT then sc else dev log p"],
        rule exI [of _ "s\<lparr>iflag := False\<rparr>"])
      (simp add: isr_def handler_wrapper_def KEYBOARD_DATA_PORT_def)
  show "scan_code e = None \<Longrightarrow> keyboard_buffer (isr dev e s) = keyboard_buffer s \<and>
      keyboard_buffer_index (isr dev e s) = keyboard_buffer_index s \<and>
      key_status (isr dev e s) = key_status s \<and> enterpress (isr dev e s) = enterpress s"
    by (cases e) (simp_all add: isr_def handler_wrapper_def rtc_handler_more_kb)
qed simp

lemma isr_mods:
  "abs_mods (key_status (isr dev e s)) =
     (case e of Rtc_irq \<Rightarrow> abs_mods (key_status s) | Key_irq sc \<Rightarrow> mods_step sc (abs_mods (key_status s)))"
  by (cases e) (simp_all add: isr_def handler_wrapper_def rtc_handler_more_kb keyboard_handler_mods
      KEYBOARD_DATA_PORT_def)

lemma caps_step: "bit (key_status (isr dev e s)) 1 = (bit (key_status s) 1 \<noteq> (e = Key_irq 0x3A))"
proof -
  have "m_caps (abs_mods (key_status (isr dev e s))) = (bit (key_status s) 1 \<noteq> (e = Key_irq 0x3A))"
    unfolding isr_mods by (cases e) (simp_all add: mods_step_def)
  then show ?thesis by simp
qed

lemma caps_track:
  "bit (key_status (fold (isr dev) evs s)) 1 = (bit (key_status s) 1 \<noteq> odd (count_list evs (Key_irq 0x3A)))"
  by (induction evs arbitrary: s) (auto simp: caps_step simp del: One_nat_def)

lemma shift_step:
  "bit (key_status (isr dev e s)) 0 =
     (if e \<in> Key_irq ` {0x2A, 0x36, 0xAA, 0xB6} then e \<in> Key_irq ` {0x2A, 0x36} else bit (key_status s) 0)"
proof -
  have "m_shift (abs_mods (key_status (isr dev e s))) =
     (if e \<in> Key_irq ` {0x2A, 0x36, 0xAA, 0xB6} then e \<in> Key_irq ` {0x2A, 0x36} else bit (key_status s) 0)"
    unfolding isr_mods by (cases e) (auto simp: mods_step_def)
  then show ?thesis by simp
qed

lemma shift_track:
  "bit (key_status (fold (isr dev) evs s)) 0 =
     (case filter (\<lambda>e. e \<in> Key_irq ` {0x2A, 0x36, 0xAA, 0xB6}) evs of
        [] \<Rightarrow> bit (key_status s) 0
      | shifts \<Rightarrow> last shifts \<in> Key_irq ` {0x2A, 0x36})"
proof (induction evs arbitrary: s)
  case (Cons e evs)
  then show ?case
    unfolding fold_simps o_apply Cons.IH shift_step filter.simps
    by (cases "filter (\<lambda>e. e \<in> Key_irq ` {0x2A, 0x36, 0xAA, 0xB6}) evs")
      (simp_all only: list.case last.simps split: if_split, simp_all)
qed simp

section \<open>Properties\<close>

definition idle_keyboard :: keyboard_state where
  "idle_keyboard = \<lparr>io_log = [], iflag = True, ram = (\<lambda>_. 0), screen_x = 0, screen_y = 0, master_mask = 0,
     slave_mask = 0, rtc_interrupt_occurred = 0, rtc_counter = 0, rtc_max_count = 512,
     keyboard_buffer = replicate 128 0, keyboard_buffer_index = 0, key_status = 0, enterpress = 0\<rparr>"

lemma rtc_reads_pending:
  assumes "rtc_interrupt_occurred s \<noteq> 0"
  shows "rtc_reads (isr dev) (Suc n) (Some buf) evs s =
    rtc_reads (isr dev) n (Some buf) evs (s\<lparr>iflag := True, rtc_interrupt_occurred := 0\<rparr>)"
proof -
  have "spin (\<lambda>s. rtc_interrupt_occurred s \<noteq> 0) (isr dev) evs (sti s) = Some (evs, sti s)"
    using assms by (intro spin_now) simp
  then show ?thesis by (simp add: rtc_read_def) (simp add: sti_def)
qed

lemma rtc_reads_paced:
  assumes "rtc_interrupt_occurred s = 0" "rtc_counter s = 0" "rtc_max_count s = 2 ^ j"
    and "n * 2 ^ j \<le> length (filter (\<lambda>e. e = Rtc_irq) evs)"
  shows "\<exists>used rest t. evs = used @ rest \<and> rtc_reads (isr dev) n (Some buf) evs s = Some (rest, t) \<and>
    length (filter (\<lambda>e. e = Rtc_irq) used) = n * 2 ^ j"
proof -
  have "int (n * 2 ^ j) \<le> int (length (filter (\<lambda>e. e = Rtc_irq) evs))"
    using assms(4) by (rule zle_int [THEN iffD2])
  then have "int n * rtc_max_count s \<le> int (length (filter (\<lambda>e. e = Rtc_irq) evs))" using assms(3) by simp
  moreover have "0 < rtc_max_count s" using assms(3) by simp
  ultimately obtain used rest t where r: "evs = used @ rest" "rtc_reads (isr dev) n (Some buf) evs s = Some (rest, t)"
      "int (length (filter (\<lambda>e. e = Rtc_irq) used)) = int n * rtc_max_count s"
    using clock.reads_paced [OF assms(1,2), of n evs dev buf] by blast
  have "int (length (filter (\<lambda>e. e = Rtc_irq) used)) = int (n * 2 ^ j)" using r(3) assms(3) by simp
  with r show ?thesis unfolding of_nat_eq_iff by blast
qed

text \<open>C23. The virtual clock: after \<open>rtc_write\<close> of a legal frequency \<open>f = 2 ^ k\<close>,
  \<open>n\<close> reads in a row return after exactly \<open>n * 1024 / f\<close> ticks of the hardware clock,
  however many keys are hit in between, when no virtual tick was pending before the write. \<open>rtc_write\<close>
  does not clear a pending one: then the first read returns at once and the \<open>n\<close> reads take the ticks of
  \<open>n - 1\<close>. In both cases the reads do return when that many ticks arrive.\<close>

theorem rtc_paced:
  assumes "k \<in> {1..10}" "load_le32 p 0 = 2 ^ k"
    and "waits = (if rtc_interrupt_occurred s = 0 then n else n - 1)"
    and "waits * 2 ^ (10 - k) \<le> length (filter (\<lambda>e. e = Rtc_irq) evs)"
  shows "\<exists>used rest t. evs = used @ rest \<and>
    rtc_reads (isr dev) n (Some buf) evs (snd (rtc_write (Some p) 4 s)) = Some (rest, t) \<and>
    length (filter (\<lambda>e. e = Rtc_irq) used) = waits * 2 ^ (10 - k)"
proof (cases "rtc_interrupt_occurred s = 0 \<or> n = 0")
  case True
  let ?s = "snd (rtc_write (Some p) 4 s)"
  have "rtc_counter ?s = 0" "rtc_max_count ?s = 2 ^ (10 - k)" "rtc_interrupt_occurred ?s = rtc_interrupt_occurred s"
    using rtc_write_legal [OF assms(1,2), of s] by simp_all
  then show ?thesis using True rtc_reads_paced [of ?s "10 - k" n evs dev buf] assms(3,4) by (cases "n = 0") simp_all
next
  case False
  then obtain m where n: "n = Suc m" and m: "waits = m" using assms(3) by (cases n) simp_all
  let ?s = "(snd (rtc_write (Some p) 4 s))\<lparr>iflag := True, rtc_interrupt_occurred := 0\<rparr>"
  have "rtc_counter ?s = 0" "rtc_max_count ?s = 2 ^ (10 - k)" "rtc_interrupt_occurred ?s = 0"
    and "rtc_interrupt_occurred (snd (rtc_write (Some p) 4 s)) \<noteq> 0"
    using rtc_write_legal [OF assms(1,2), of s] False by simp_all
  then show ?thesis unfolding n m using rtc_reads_paced [of ?s "10 - k" m evs dev buf] assms(4) m
    by (simp add: rtc_reads_pending del: rtc_reads.simps)
qed

text \<open>Two reads at 1024 Hz from an idle driver, and from one with a tick pending.\<close>

theorem rtc_paced_witness:
  "(\<exists>t. rtc_reads (isr (\<lambda>_ _. 0)) 2 (Some (\<lambda>_. 0)) [Rtc_irq, Key_irq 0x1E, Rtc_irq]
     (snd (rtc_write (Some (list_view [0, 4, 0, 0])) 4 idle_keyboard)) = Some ([], t)) \<and>
   (\<exists>t. rtc_reads (isr (\<lambda>_ _. 0)) 2 (Some (\<lambda>_. 0)) [Key_irq 0x1E, Rtc_irq]
     (snd (rtc_write (Some (list_view [0, 4, 0, 0])) 4 (idle_keyboard\<lparr>rtc_interrupt_occurred := 1\<rparr>))) = Some ([], t))"
proof
  let ?p = "list_view [0, 4, 0, 0]"
  have p: "load_le32 ?p 0 = 2 ^ 10" by (simp add: load_le32_def list_view_def)
  obtain used rest t where r: "[Rtc_irq, Key_irq 0x1E, Rtc_irq] = used @ rest"
      "rtc_reads (isr (\<lambda>_ _. 0)) 2 (Some (\<lambda>_. 0)) [Rtc_irq, Key_irq 0x1E, Rtc_irq]
         (snd (rtc_write (Some ?p) 4 idle_keyboard)) = Some (rest, t)"
      "length (filter (\<lambda>e. e = Rtc_irq) used) = 2"
    using rtc_paced [OF _ p, of 2 idle_keyboard 2 "[Rtc_irq, Key_irq 0x1E, Rtc_irq]" "\<lambda>_ _. 0" "\<lambda>_. 0"]
    by (auto simp: idle_keyboard_def)
  have "rest = []" using r(1,3) by (auto simp: Cons_eq_append_conv)
  with r show "\<exists>t. rtc_reads (isr (\<lambda>_ _. 0)) 2 (Some (\<lambda>_. 0)) [Rtc_irq, Key_irq 0x1E, Rtc_irq]
     (snd (rtc_write (Some ?p) 4 idle_keyboard)) = Some ([], t)" by blast
  let ?s = "idle_keyboard\<lparr>rtc_interrupt_occurred := 1\<rparr>"
  obtain used rest t where r: "[Key_irq 0x1E, Rtc_irq] = used @ rest"
      "rtc_reads (isr (\<lambda>_ _. 0)) 2 (Some (\<lambda>_. 0)) [Key_irq 0x1E, Rtc_irq]
         (snd (rtc_write (Some ?p) 4 ?s)) = Some (rest, t)"
      "length (filter (\<lambda>e. e = Rtc_irq) used) = 1"
    using rtc_paced [OF _ p, of 1 ?s 2 "[Key_irq 0x1E, Rtc_irq]" "\<lambda>_ _. 0" "\<lambda>_. 0"]
    by (auto simp: idle_keyboard_def)
  have "rest = []" using r(1,3) by (auto simp: Cons_eq_append_conv)
  with r show "\<exists>t. rtc_reads (isr (\<lambda>_ _. 0)) 2 (Some (\<lambda>_. 0)) [Key_irq 0x1E, Rtc_irq]
     (snd (rtc_write (Some ?p) 4 ?s)) = Some ([], t)" by blast
qed

text \<open>C22. Whatever keys are hit and clock ticks arrive, the keyboard driver stays within its buffer: the index is
  between 0 and 127, so every array access of the handler is in range, and the line holds no NUL, newline or
  backspace.\<close>

theorem keyboard_buffer_safe:
  assumes "kb_ok s"
  shows "kb_ok (fold (isr dev) evs s)"
  using assms
proof (induction evs arbitrary: s)
  case (Cons e evs)
  have "kb_ok (isr dev e s)"
  proof (cases e)
    case Rtc_irq
    then show ?thesis using Cons.prems keys.isr_no_key [of e dev s] by (simp add: kb_ok_def kb_line_def)
  next
    case (Key_irq sc)
    then show ?thesis using keys.key_step(1) [of e sc s dev] Cons.prems by simp
  qed
  then show ?case using Cons.IH by simp
qed simp

theorem keyboard_buffer_safe_witness:
  "kb_ok (fold (isr (\<lambda>_ _. 0)) [Key_irq 0x1E, Rtc_irq, Key_irq 0x0E, Key_irq 0x1C] idle_keyboard)"
  by (rule keyboard_buffer_safe) (simp add: kb_ok_def kb_line_def idle_keyboard_def)

text \<open>The modifier keys: Caps Lock is on when it was hit an odd number of times since it was off, and Shift is on
  when the last event of a Shift key was a press.\<close>

theorem modifiers_track:
  "bit (key_status (fold (isr dev) evs s)) 1 = (bit (key_status s) 1 \<noteq> odd (count_list evs (Key_irq 0x3A))) \<and>
   bit (key_status (fold (isr dev) evs s)) 0 =
     (case filter (\<lambda>e. e \<in> Key_irq ` {0x2A, 0x36, 0xAA, 0xB6}) evs of
        [] \<Rightarrow> bit (key_status s) 0
      | shifts \<Rightarrow> last shifts \<in> Key_irq ` {0x2A, 0x36})"
  using caps_track shift_track by blast

end
