(* ===== verification/Terminal.thy ===== *)
theory Terminal
  imports Interrupts
begin

text \<open>
  The terminal driver, \<^verbatim>\<open>src/student-distrib/terminal.c\<close>. \<open>terminal_read\<close> waits for the Enter key,
  so it takes the interrupts that arrive; besides its return value it yields the bytes that it
  stores from \<^verbatim>\<open>buf\<close> on.
\<close>

section \<open>Definitions\<close>

text \<open>The search loop for the newline: its index, or 128.\<close>

function terminal_newline :: "byte list \<Rightarrow> nat \<Rightarrow> nat" where
  "terminal_newline kb i =
     (if i < 128 then (if kb ! i = 0x0A then i else terminal_newline kb (i + 1)) else i)"
  by auto
termination by (relation "measure (\<lambda>(kb, i). 128 - i)") auto

declare terminal_newline.simps [simp del]

text \<open>The bytes that \<^verbatim>\<open>strncpy\<close> stores from a source: the string, then NULs.\<close>

definition strncpy_bytes :: "cptr \<Rightarrow> nat \<Rightarrow> byte list" where
  "strncpy_bytes src n = cstr_take src n @ replicate (n - length (cstr_take src n)) 0"

definition terminal_read ::
  "device \<Rightarrow> irq list \<Rightarrow> cptr option \<Rightarrow> int \<Rightarrow> 'a keyboard_state_scheme \<Rightarrow>
     (int \<times> byte list \<times> irq list \<times> 'a keyboard_state_scheme) option" where
  "terminal_read dev evs buf nbytes s =
     (case buf of
        None \<Rightarrow> Some (-1, [], evs, s)
      | Some _ \<Rightarrow>
          let nbytes = (if nbytes > 128 then 128 else nbytes);
              s = sti s
          in case spin (\<lambda>s. enterpress s \<noteq> 0) (isr dev) evs s of
               None \<Rightarrow> None
             | Some (rest, s) \<Rightarrow>
                 let i = terminal_newline (keyboard_buffer s) 0;
                     bytes = strncpy_bytes (list_view (keyboard_buffer s)) (i + 1);
                     s = s\<lparr>keyboard_buffer := replicate 128 0\<rparr>;
                     s = s\<lparr>enterpress := 0\<rparr>;
                     s = cli s
                 in Some (int i + 1, bytes, rest, s))"

definition terminal_write :: "cptr option \<Rightarrow> int \<Rightarrow> 'a console_state_scheme \<Rightarrow> int \<times> 'a console_state_scheme" where
  "terminal_write buf nbytes s =
     (let s = cli s in
      case buf of
        None \<Rightarrow> (-1, sti s)
      | Some p \<Rightarrow>
          if nbytes \<le> 0 then (-1, sti s)
          else (nbytes, sti (fold (\<lambda>i. putc_term (p i)) [0..<nat nbytes] s)))"

definition terminal_open :: "cptr option \<Rightarrow> 'a console_state_scheme \<Rightarrow> int \<times> 'a console_state_scheme" where
  "terminal_open filename s = (0, clear_term s)"

definition terminal_close :: "int \<Rightarrow> 'a console_state_scheme \<Rightarrow> int \<times> 'a console_state_scheme" where
  "terminal_close fd s = (0, s)"

definition terminal_open_fail :: "cptr option \<Rightarrow> 'a console_state_scheme \<Rightarrow> int \<times> 'a console_state_scheme" where
  "terminal_open_fail filename s = (-1, s)"

definition terminal_close_fail :: "int \<Rightarrow> 'a console_state_scheme \<Rightarrow> int \<times> 'a console_state_scheme" where
  "terminal_close_fail fd s = (-1, s)"

section \<open>Reading a line\<close>

lemma terminal_newline_first:
  "n < 128 \<Longrightarrow> kb ! n = 0x0A \<Longrightarrow> \<forall>j. i \<le> j \<and> j < n \<longrightarrow> kb ! j \<noteq> 0x0A \<Longrightarrow> i \<le> n \<Longrightarrow> terminal_newline kb i = n"
proof (induction kb i rule: terminal_newline.induct)
  case (1 kb i)
  show ?case
  proof (cases "i = n")
    case True
    then show ?thesis using 1(2,3) by (simp add: terminal_newline.simps)
  next
    case False
    then have "kb ! i \<noteq> 0x0A" "i + 1 \<le> n" using 1(4,5) by auto
    then have "terminal_newline kb (i + 1) = n" using 1 by auto
    then show ?thesis using \<open>kb ! i \<noteq> 0x0A\<close> 1(2) \<open>i + 1 \<le> n\<close> by (subst terminal_newline.simps) simp
  qed
qed

lemma strncpy_bytes_list:
  "\<forall>b \<in> set l. b \<noteq> 0 \<Longrightarrow> take (length l) kb = l \<Longrightarrow> length l \<le> length kb \<Longrightarrow>
     strncpy_bytes (list_view kb) (length l) = l"
proof -
  assume l: "\<forall>b \<in> set l. b \<noteq> 0" "take (length l) kb = l" "length l \<le> length kb"
  have "view_take (list_view kb) (length l) = l"
  proof (rule nth_equalityI)
    fix i assume "i < length (view_take (list_view kb) (length l))"
    then have "i < length l" "i < length kb" using l(3) by simp_all
    moreover have "take (length l) kb ! i = l ! i" by (simp only: l(2))
    ultimately show "view_take (list_view kb) (length l) ! i = l ! i" by simp
  qed simp
  then have "cstr_take (list_view kb) (length l) = l"
    using l(1) by (simp add: cstr_take_def takeWhile_eq_all_conv)
  then show ?thesis by (simp add: strncpy_bytes_def)
qed

text \<open>The bytes are those that \<open>strncpy\<close> of the library stores.\<close>

lemma strncpy_bytes_nth:
  assumes "i < n"
  shows "strncpy_bytes src n ! i = (if \<forall>j \<le> i. src j \<noteq> 0 then src i else 0)"
proof -
  let ?c = "cstr_take src n"
  have len: "length ?c \<le> n" using length_takeWhile_le [of _ "view_take src n"] by (simp add: cstr_take_def)
  have c: "?c ! j = src j" "src j \<noteq> 0" if j: "j < length ?c" for j
  proof -
    have "?c ! j = view_take src n ! j" using j unfolding cstr_take_def by (rule takeWhile_nth)
    then show *: "?c ! j = src j" using j len by simp
    have "?c ! j \<noteq> 0" using nth_mem [OF j] unfolding cstr_take_def by (rule set_takeWhileD [THEN conjunct2])
    with * show "src j \<noteq> 0" by simp
  qed
  show ?thesis
  proof (cases "i < length ?c")
    case True
    then show ?thesis using c by (simp add: strncpy_bytes_def nth_append)
  next
    case False
    then show ?thesis using cstr_take_end [of src n i] assms by (auto simp: strncpy_bytes_def nth_append)
  qed
qed

lemma length_strncpy_bytes [simp]: "length (strncpy_bytes src n) = n"
  using length_takeWhile_le [of "\<lambda>b. b \<noteq> 0" "view_take src n"] by (simp add: strncpy_bytes_def cstr_take_def)

lemma strncpy_bytes_written:
  assumes "up_safe d p (unat n)"
  shows "strncpy m d p n = written m d (strncpy_bytes (view m p) (unat n))"
proof
  fix a
  show "strncpy m d p n a = written m d (strncpy_bytes (view m p) (unat n)) a"
    using strncpy_bytes_nth [of "unat (a - d)" "unat n" "view m p"]
    by (auto simp: strncpy_padded [OF assms] padded_def written_def in_range_def)
qed

lemma kb_reset:
  assumes "kb_ok t" "kb_line t = []"
  shows "kb_ok (cli (t\<lparr>keyboard_buffer := replicate 128 0, enterpress := 0\<rparr>))"
    "kb_line (cli (t\<lparr>keyboard_buffer := replicate 128 0, enterpress := 0\<rparr>)) = []"
    "enterpress (cli (t\<lparr>keyboard_buffer := replicate 128 0, enterpress := 0\<rparr>)) = 0"
proof -
  have "keyboard_buffer t \<noteq> []" "0 \<le> keyboard_buffer_index t" using assms(1) by (auto simp: kb_ok_def)
  then have "keyboard_buffer_index t = 0" using assms(2) by (simp add: kb_line_def)
  then show "kb_ok (cli (t\<lparr>keyboard_buffer := replicate 128 0, enterpress := 0\<rparr>))"
    "kb_line (cli (t\<lparr>keyboard_buffer := replicate 128 0, enterpress := 0\<rparr>)) = []"
    "enterpress (cli (t\<lparr>keyboard_buffer := replicate 128 0, enterpress := 0\<rparr>)) = 0"
    by (simp_all add: kb_ok_def kb_line_def cli_def)
qed

lemma terminal_read_typed:
  assumes "enterpress s = 0" "kb_ok s"
    and "typed (List.map_filter scan_code evs) (abs_mods (key_status s)) (kb_line s) = Some line"
  shows "\<exists>used rest t. evs = used @ rest \<and>
    terminal_read dev evs (Some buf) nbytes s = Some (int (length line), line, rest, t) \<and>
    kb_ok t \<and> kb_line t = [] \<and> enterpress t = 0"
proof -
  have st: "iflag (sti s)" "enterpress (sti s) = 0" "kb_ok (sti s)"
      "typed (List.map_filter scan_code evs) (abs_mods (key_status (sti s))) (kb_line (sti s)) = Some line"
    using assms by (simp_all add: sti_def kb_ok_def kb_line_def)
  obtain used rest t where r: "evs = used @ rest"
      "spin (\<lambda>s. enterpress s \<noteq> 0) (isr dev) evs (sti s) = Some (rest, t)"
      "take (length line) (keyboard_buffer t) = line" "kb_ok t" "kb_line t = []"
    using keys.spin_typed [OF st] by blast
  have "length (kb_line s) \<le> 127" "\<forall>b \<in> set (kb_line s). b \<noteq> 0 \<and> b \<noteq> 0x08 \<and> b \<noteq> 0x0A"
    using assms(2) by (auto simp: kb_ok_def kb_line_def nat_le_iff)
  then obtain l where l: "line = l @ [0x0A]" "length l \<le> 127" "\<forall>b \<in> set l. b \<noteq> 0 \<and> b \<noteq> 0x08 \<and> b \<noteq> 0x0A"
    using typed_line [OF assms(3)] by blast
  have kb: "length (keyboard_buffer t) = 128" using r(4) by (simp add: kb_ok_def)
  have nth: "keyboard_buffer t ! j = line ! j" if "j < length line" for j
    using that arg_cong [OF r(3), of "\<lambda>x. x ! j"] by simp
  have newline: "terminal_newline (keyboard_buffer t) 0 = length l"
  proof (rule terminal_newline_first)
    show "length l < 128" using l(2) by simp
    show "keyboard_buffer t ! length l = 0x0A" using nth [of "length l"] l(1) by simp
    show "\<forall>j. 0 \<le> j \<and> j < length l \<longrightarrow> keyboard_buffer t ! j \<noteq> 0x0A"
      using nth l(1,3) by (simp add: nth_append)
  qed simp
  have bytes: "strncpy_bytes (list_view (keyboard_buffer t)) (length l + 1) = line"
  proof -
    have "\<forall>b \<in> set line. b \<noteq> 0" "length line \<le> length (keyboard_buffer t)" "length line = length l + 1"
      unfolding kb using l by auto
    then show ?thesis using strncpy_bytes_list [OF _ r(3)] by metis
  qed
  let ?u = "cli (t\<lparr>keyboard_buffer := replicate 128 0, enterpress := 0\<rparr>)"
  have u: "kb_ok ?u" "kb_line ?u = []" "enterpress ?u = 0"
    using kb_reset [OF r(4,5)] by simp_all
  have "terminal_read dev evs (Some buf) nbytes s = Some (int (length line), line, rest, ?u)"
    unfolding terminal_read_def option.case Let_def r(2) prod.case newline bytes using l(1) by simp
  with r(1) u show ?thesis by blast
qed

section \<open>Properties\<close>

text \<open>C21. Reading a line: when the interrupts that arrive while \<open>terminal_read\<close> waits contain a typed line, that is
  keys edited by the abstract line editor up to the first Enter, and the line with its newline is shorter than
  the caller's buffer, the call returns, its value is the length of the line with its newline, at most 128, it
  stores exactly the line, and the driver is ready for the next line. (A line that does not fit is stored
  whole all the same, as \<open>terminal_read_typed\<close> shows, although the comment in the code says otherwise.)\<close>

theorem terminal_read_line:
  assumes "enterpress s = 0" "kb_ok s" "kb_line s = []" "int (length line) < nbytes"
    and "typed (List.map_filter scan_code evs) (abs_mods (key_status s)) [] = Some line"
  shows "length line \<le> 128 \<and> (\<exists>used rest t. evs = used @ rest \<and>
    terminal_read dev evs (Some buf) nbytes s = Some (int (length line), line, rest, t) \<and>
    kb_ok t \<and> kb_line t = [] \<and> enterpress t = 0)"
proof
  show "length line \<le> 128" using typed_line [OF assms(5)] by auto
  show "\<exists>used rest t. evs = used @ rest \<and>
    terminal_read dev evs (Some buf) nbytes s = Some (int (length line), line, rest, t) \<and>
    kb_ok t \<and> kb_line t = [] \<and> enterpress t = 0"
    using terminal_read_typed [of s evs line dev buf nbytes] assms by simp
qed

text \<open>Shift and H, then i, x, backspace and Enter, with a tick of the clock in between.\<close>

theorem terminal_read_line_witness:
  "\<exists>rest t. terminal_read (\<lambda>_ _. 0)
     [Key_irq 0x2A, Key_irq 0x23, Key_irq 0xAA, Rtc_irq, Key_irq 0x17, Key_irq 0x2D, Key_irq 0x0E, Key_irq 0x1C]
     (Some (\<lambda>_. 0)) 128 idle_keyboard = Some (3, ascii ''Hi'' @ [0x0A], rest, t)"
proof -
  let ?evs = "[Key_irq 0x2A, Key_irq 0x23, Key_irq 0xAA, Rtc_irq, Key_irq 0x17, Key_irq 0x2D, Key_irq 0x0E, Key_irq 0x1C]"
  have "abs_mods 0 = \<lparr>m_shift = False, m_caps = False, m_ctrl = False, m_alt = False, m_num = False, m_scroll = False\<rparr>"
    by (simp add: abs_mods_def)
  then have "typed (List.map_filter scan_code ?evs) (abs_mods (key_status idle_keyboard)) [] = Some (ascii ''Hi'' @ [0x0A])"
    by (simp add: List.map_filter_def idle_keyboard_def key_char_def mods_step_def edit_def is_letter_def
        keymap_entries keymap_upper_entries nth_append ascii_def flip: and_flag(6))
  moreover have "enterpress idle_keyboard = 0" "kb_ok idle_keyboard" "kb_line idle_keyboard = []"
    by (simp_all add: idle_keyboard_def kb_ok_def kb_line_def)
  ultimately show ?thesis
    using terminal_read_line [of idle_keyboard "ascii ''Hi'' @ [0x0A]" 128 ?evs "\<lambda>_ _. 0" "\<lambda>_. 0"]
    by (auto simp: ascii_def)
qed

lemma terminal_write_shows:
  assumes "on_screen s" "nbytes > 0" "\<forall>i < nat nbytes. p i \<noteq> 0x09"
  shows "fst (terminal_write (Some p) nbytes s) = nbytes" "iflag (snd (terminal_write (Some p) nbytes s))"
    "abs_term (snd (terminal_write (Some p) nbytes s)) = fold aterm_put (view_take p (nat nbytes)) (abs_term s)"
proof -
  show "fst (terminal_write (Some p) nbytes s) = nbytes" "iflag (snd (terminal_write (Some p) nbytes s))"
    using assms(2) by (simp_all add: terminal_write_def Let_def)
  have on: "on_screen (cli s)" using assms(1) by (simp add: on_screen_def cli_def)
  have "0x09 \<notin> set (view_take p (nat nbytes))" using assms(3) by (force simp: view_take_def)
  then have "abs_term (fold putc_term (view_take p (nat nbytes)) (cli s)) =
      fold aterm_put (view_take p (nat nbytes)) (abs_term (cli s))"
    using fold_putc_term [OF on] by blast
  then show "abs_term (snd (terminal_write (Some p) nbytes s)) = fold aterm_put (view_take p (nat nbytes)) (abs_term s)"
    using assms(2) by (simp add: terminal_write_def Let_def abs_term_def cli_def sti_def view_take_def fold_map comp_def)
qed

text \<open>C29. \<open>terminal_write\<close> of 1 to 128 bytes without a tab, with the cursor on the screen, returns their number,
  leaves interrupts on, and puts on the screen what the abstract console shows after these characters; a NULL
  buffer or a count that is not positive is refused without output. (More than 128 bytes are written in the
  same way, as \<open>terminal_write_shows\<close> states, although a test of the repository expects their refusal.)\<close>

theorem terminal_write_spec:
  assumes "on_screen s"
  shows "(0 < nbytes \<and> nbytes \<le> 128 \<and> (\<forall>i < nat nbytes. p i \<noteq> 0x09) \<longrightarrow>
      fst (terminal_write (Some p) nbytes s) = nbytes \<and> iflag (snd (terminal_write (Some p) nbytes s)) \<and>
      abs_term (snd (terminal_write (Some p) nbytes s)) = fold aterm_put (view_take p (nat nbytes)) (abs_term s)) \<and>
    (buf = None \<or> nbytes \<le> 0 \<longrightarrow> terminal_write buf nbytes s = (-1, sti s))"
proof (intro conjI impI)
  assume "buf = None \<or> nbytes \<le> 0"
  then show "terminal_write buf nbytes s = (-1, sti s)"
    by (auto simp: terminal_write_def Let_def cli_def sti_def split: option.split)
qed (simp_all add: terminal_write_shows [OF assms])

theorem terminal_write_spec_witness:
  "fst (terminal_write (Some (list_view [0x48, 0x69])) 2 blank_console) = 2 \<and>
   fst (terminal_write None 2 blank_console) = -1"
proof -
  have on: "on_screen blank_console" by (simp add: on_screen_def blank_console_def)
  have "\<forall>i < nat 2. list_view [0x48, 0x69] i \<noteq> (0x09 :: byte)" by (auto simp: list_view_def nth_Cons')
  then show ?thesis using terminal_write_spec [OF on, of 2 "list_view [0x48, 0x69]" None] by auto
qed

section \<open>Where a line is lost\<close>

text \<open>
  Enter resets the buffer index while the line still waits to be read. Keys that are hit before
  the read overwrite it; when they reach the newline, the read finds none, returns 129 and stores
  129 bytes, one more than the buffer of a line has.
\<close>

lemma terminal_newline_none: "\<forall>j < 128. kb ! j \<noteq> 0x0A \<Longrightarrow> i \<le> 128 \<Longrightarrow> terminal_newline kb i = 128"
proof (induction kb i rule: terminal_newline.induct)
  case (1 kb i)
  show ?case
  proof (cases "i < 128")
    case True
    then have "terminal_newline kb (i + 1) = 128" using 1 by simp
    then show ?thesis using True 1(2) by (subst terminal_newline.simps) simp
  qed (use 1 in \<open>simp add: terminal_newline.simps\<close>)
qed

lemma terminal_read_overrun:
  assumes "enterpress s \<noteq> 0" "length (keyboard_buffer s) = 128" "0x0A \<notin> set (keyboard_buffer s)"
  shows "\<exists>bytes t. terminal_read dev evs (Some buf) nbytes s = Some (129, bytes, evs, t) \<and> length bytes = 129"
proof -
  have "terminal_newline (keyboard_buffer s) 0 = 128"
    using assms(2,3) by (intro terminal_newline_none) (auto simp: in_set_conv_nth)
  moreover have "enterpress (sti s) \<noteq> 0" "keyboard_buffer (sti s) = keyboard_buffer s"
    using assms(1) by (simp_all add: sti_def)
  ultimately show ?thesis by (simp add: terminal_read_def spin_now)
qed

lemma typeahead_overrun:
  "\<exists>bytes t. terminal_read dev evs (Some buf) 128 (fold keyboard_char [0x61, 0x0A, 0x62, 0x63] idle_keyboard) =
     Some (129, bytes, evs, t) \<and> length bytes = 129"
proof (rule terminal_read_overrun)
  let ?s = "fold keyboard_char [0x61, 0x0A, 0x62, 0x63] idle_keyboard"
  have "keyboard_buffer ?s = (replicate 128 0)[1 := 0x0A, 0 := 0x62, 1 := 0x63]"
    by (simp add: keyboard_char_fields idle_keyboard_def list_update_swap)
  also have "\<dots> = (replicate 128 0)[0 := 0x62, 1 := 0x63]"
    by (subst list_update_swap) simp_all
  finally have "keyboard_buffer ?s = (replicate 128 0)[0 := 0x62, 1 := 0x63]" .
  then show "length (keyboard_buffer ?s) = 128" "0x0A \<notin> set (keyboard_buffer ?s)"
    by (auto dest!: set_update_subset_insert [THEN subsetD])
  show "enterpress ?s \<noteq> 0" by (simp add: keyboard_char_fields)
qed

end
