(* ===== verification/Paging.thy ===== *)
theory Paging
  imports Terminal
begin

text \<open>
  Paging, \<^verbatim>\<open>src/student-distrib/paging.c\<close> and \<^verbatim>\<open>paging.h\<close>: the page directory and the one page
  table, as the words that the unions hold, and the control registers that \<open>pageEnable\<close> sets. The
  bit-field structs are lists of field names and widths; the compiler allocates the fields from
  the lowest bit up, so the place of a field follows from the list.

  Where the linker puts the two arrays is a part of the state that no operation changes; they are
  aligned to 4096 bytes. \<open>page_walk\<close> is the translation of the processor, written down from its
  manual: user accesses need the user bit at both levels, and user writes the write bit. The
  processor may keep an old translation until \<open>flushTLB\<close>; \<open>tlb_clean\<close> says that it has none.
  While it may have one, \<open>page_walk\<close> is None for every address: what an access then reaches is
  not determined by the tables, so nothing that is proved may rest on it.
\<close>

record paging_state = keyboard_state +
  pageDir :: "u32 list"
  table :: "u32 list"
  cr0 :: u32
  cr3 :: u32
  cr4 :: u32
  pageDir_addr :: u32
  table_addr :: u32
  tlb_clean :: bool

section \<open>Bit-field structs\<close>

type_synonym bitfields = "(string \<times> nat) list"

text \<open>The lowest bit and the width of a field.\<close>

fun bf_place :: "bitfields \<Rightarrow> string \<Rightarrow> nat \<times> nat" where
  "bf_place [] f = (0, 0)"
| "bf_place ((g, n) # fs) f =
     (if f = g then (0, n) else case bf_place fs f of (lo, k) \<Rightarrow> (n + lo, k))"

text \<open>Storing to a field replaces its bits of the word.\<close>

definition bits_set :: "nat \<times> nat \<Rightarrow> u32 \<Rightarrow> u32 \<Rightarrow> u32" where
  "bits_set pl v w =
     (case pl of (lo, n) \<Rightarrow> (w AND NOT (push_bit lo (mask n))) OR push_bit lo (v AND mask n))"

definition bf_set :: "bitfields \<Rightarrow> string \<Rightarrow> u32 \<Rightarrow> u32 \<Rightarrow> u32" where
  "bf_set fs f v w = bits_set (bf_place fs f) v w"

definition struct_page :: bitfields where
  "struct_page = [(''p'', 1), (''rw'', 1), (''us'', 1), (''pwt'', 1), (''pcd'', 1), (''a'', 1), (''d'', 1),
     (''ps'', 1), (''g'', 1), (''avl'', 3), (''pat'', 1), (''add_32_39'', 8), (''rsvd'', 1), (''add_22_31'', 10)]"

definition struct_tableptr :: bitfields where
  "struct_tableptr = [(''p'', 1), (''rw'', 1), (''us'', 1), (''pwt'', 1), (''pcd'', 1), (''a'', 1), (''avl0'', 1),
     (''ps'', 1), (''avl1_4'', 4), (''add'', 20)]"

definition struct_pgTblEntry :: bitfields where
  "struct_pgTblEntry = [(''p'', 1), (''rw'', 1), (''us'', 1), (''pwt'', 1), (''pcd'', 1), (''a'', 1), (''d'', 1),
     (''pat'', 1), (''g'', 1), (''avl'', 3), (''add'', 20)]"

section \<open>Operations\<close>

definition pageEnable :: "'a paging_state_scheme \<Rightarrow> 'a paging_state_scheme" where
  "pageEnable s =
     (let s = s\<lparr>cr3 := pageDir_addr s, tlb_clean := True\<rparr>;
          s = s\<lparr>cr4 := cr4 s OR 0x10\<rparr>
      in s\<lparr>cr0 := cr0 s OR 0x80000000\<rparr>)"

definition spawnDir :: "'a paging_state_scheme \<Rightarrow> 'a paging_state_scheme" where
  "spawnDir s = s\<lparr>pageDir := fold (\<lambda>i d. d[i := 0]) [0..<1024] (pageDir s), tlb_clean := False\<rparr>"

definition spawnTbl :: "u32 list \<Rightarrow> u32 list" where
  "spawnTbl tab = fold (\<lambda>i t. t[i := 0]) [0..<1024] tab"

definition page_init :: "'a paging_state_scheme \<Rightarrow> 'a paging_state_scheme" where
  "page_init s =
     (let vidTable = table_addr s OR 3;
          kernel = 0;
          kernel = bf_set struct_page ''p'' 1 kernel;
          kernel = bf_set struct_page ''rw'' 1 kernel;
          kernel = bf_set struct_page ''ps'' 1 kernel;
          kernel = bf_set struct_page ''g'' 1 kernel;
          kernel = bf_set struct_page ''add_22_31'' 0x1 kernel;
          s = s\<lparr>table := spawnTbl (table s)\<rparr>;
          s = s\<lparr>table := fold (\<lambda>i t. t[i := bf_set struct_pgTblEntry ''add'' (of_nat i) 0x7]) [0xB8..<0xC0] (table s)\<rparr>;
          s = spawnDir s;
          s = s\<lparr>pageDir := (pageDir s)[0 := vidTable]\<rparr>;
          s = s\<lparr>pageDir := (pageDir s)[1 := kernel]\<rparr>;
          vidTable = bf_set struct_tableptr ''us'' 1 vidTable;
          s = s\<lparr>pageDir := (pageDir s)[33 := vidTable]\<rparr>
      in pageEnable s)"

text \<open>An index beyond the 1024 entries would be a store out of the array; the callers pass 32.\<close>

definition chgDir :: "nat \<Rightarrow> u32 \<Rightarrow> 'a paging_state_scheme \<Rightarrow> 'a paging_state_scheme" where
  "chgDir idx e s = s\<lparr>pageDir := (pageDir s)[idx := e], tlb_clean := False\<rparr>"

definition flushTLB :: "'a paging_state_scheme \<Rightarrow> 'a paging_state_scheme" where
  "flushTLB s = s\<lparr>cr3 := cr3 s, tlb_clean := True\<rparr>"

section \<open>The translation of the processor\<close>

definition pte_walk :: "u32 \<Rightarrow> bool \<Rightarrow> bool \<Rightarrow> u32 \<Rightarrow> u32 option" where
  "pte_walk pte user write va =
     (if \<not> bit pte 0 \<or> (user \<and> \<not> bit pte 2) \<or> (user \<and> write \<and> \<not> bit pte 1) then None
      else Some (of_nat (unat pte div 4096 * 4096 + unat va mod 4096)))"

definition pde_walk :: "'a paging_state_scheme \<Rightarrow> u32 \<Rightarrow> bool \<Rightarrow> bool \<Rightarrow> u32 \<Rightarrow> u32 option" where
  "pde_walk s pde user write va =
     (if \<not> bit pde 0 \<or> (user \<and> \<not> bit pde 2) \<or> (user \<and> write \<and> \<not> bit pde 1) then None
      else if bit pde 7 \<and> bit (cr4 s) 4 then
        Some (of_nat (unat pde div 4194304 * 4194304 + unat va mod 4194304))
      else if unat pde div 4096 * 4096 \<noteq> unat (table_addr s) then None
      else pte_walk (table s ! (unat va div 4096 mod 1024)) user write va)"

definition page_walk :: "'a paging_state_scheme \<Rightarrow> bool \<Rightarrow> bool \<Rightarrow> u32 \<Rightarrow> u32 option" where
  "page_walk s user write va =
     (if \<not> bit (cr0 s) 31 then Some va
      else if \<not> tlb_clean s then None
      else if cr3 s \<noteq> pageDir_addr s then None
      else pde_walk s (pageDir s ! (unat va div 4194304)) user write va)"

definition paging_ok :: "'a paging_state_scheme \<Rightarrow> bool" where
  "paging_ok s \<longleftrightarrow> length (pageDir s) = 1024 \<and> length (table s) = 1024 \<and> take_bit 12 (table_addr s) = 0"

section \<open>Values of the entries\<close>

lemma struct_widths:
  "sum_list (map snd struct_page) = 32" "sum_list (map snd struct_tableptr) = 32"
  "sum_list (map snd struct_pgTblEntry) = 32"
  by (simp_all add: struct_page_def struct_tableptr_def struct_pgTblEntry_def)

lemma field_places:
  "bf_place struct_page ''p'' = (0, 1)" "bf_place struct_page ''rw'' = (1, 1)" "bf_place struct_page ''us'' = (2, 1)"
  "bf_place struct_page ''ps'' = (7, 1)" "bf_place struct_page ''g'' = (8, 1)"
  "bf_place struct_page ''add_22_31'' = (22, 10)"
  "bf_place struct_tableptr ''us'' = (2, 1)" "bf_place struct_pgTblEntry ''add'' = (12, 20)"
  by (simp_all add: struct_page_def struct_tableptr_def struct_pgTblEntry_def)

lemma bit_bits_set:
  "bit (bits_set (lo, n) v w) i \<longleftrightarrow> i < 32 \<and> (if lo \<le> i \<and> i < lo + n then bit v (i - lo) else bit w i)"
  by (auto simp: bits_set_def bit_simps)

lemma kernel_entry:
  "bf_set struct_page ''add_22_31'' 1 (bf_set struct_page ''g'' 1 (bf_set struct_page ''ps'' 1
     (bf_set struct_page ''rw'' 1 (bf_set struct_page ''p'' 1 0)))) = 0x400183"
  by (simp add: bf_set_def field_places bits_set_def mask_eq_exp_minus_1)

lemma spawnTbl_zero: "length tab = 1024 \<Longrightarrow> spawnTbl tab = replicate 1024 0"
proof -
  have "fold (\<lambda>i t. t[i := 0]) [0..<n] xs = replicate n 0 @ drop n xs" if "n \<le> length xs" for n and xs :: "u32 list"
    using that
  proof (induction n)
    case (Suc n)
    then have "fold (\<lambda>i t. t[i := 0]) [0..<Suc n] xs = (replicate n 0 @ drop n xs)[n := 0]" by simp
    also have "\<dots> = replicate n 0 @ (0 # drop (Suc n) xs)"
      using Suc.prems by (simp add: list_update_append Cons_nth_drop_Suc [symmetric])
    also have "\<dots> = replicate (Suc n) 0 @ drop (Suc n) xs" by (simp add: replicate_append_same [symmetric])
    finally show ?case .
  qed simp
  then show "length tab = 1024 \<Longrightarrow> spawnTbl tab = replicate 1024 0"
    unfolding spawnTbl_def by (metis append.right_neutral drop_all order_refl)
qed

lemma spawnDir_zero: "length (pageDir s) = 1024 \<Longrightarrow> spawnDir s = s\<lparr>pageDir := replicate 1024 0, tlb_clean := False\<rparr>"
  using spawnTbl_zero [of "pageDir s"] by (simp add: spawnDir_def spawnTbl_def)

lemma fold_update_nth:
  "j < length t \<Longrightarrow> fold (\<lambda>i t. t[i := f i]) [a..<b] t ! j = (if a \<le> j \<and> j < b then f j else t ! j)"
proof (induction b)
  case (Suc b)
  have "length (fold (\<lambda>i t. t[i := f i]) is t) = length t" for "is"
    by (induction "is" arbitrary: t) simp_all
  with Suc show ?case by (auto simp: nth_list_update less_Suc_eq)
qed simp

lemma unat_drop_bit: "unat (drop_bit n (w :: u32)) = unat w div 2 ^ n"
  unfolding unsigned_drop_bit_eq by (simp add: drop_bit_eq_div take_bit_eq_mod)

lemma frame_of:
  assumes "lo + n = 32" "unat v < 2 ^ n"
  shows "unat (bits_set (lo, n) v w) div 2 ^ lo = unat v"
proof -
  have "drop_bit lo (bits_set (lo, n) v w) = take_bit n v"
    using assms(1) by (intro bit_word_eqI) (auto simp: bit_drop_bit_eq bit_bits_set bit_take_bit_iff)
  then have "unat (bits_set (lo, n) v w) div 2 ^ lo = unat (take_bit n v)"
    by (simp flip: unat_drop_bit)
  also have "\<dots> = take_bit n (unat v)" by (simp add: unsigned_take_bit_eq)
  also have "\<dots> = unat v" using assms(2) by (simp add: take_bit_nat_eq_self)
  finally show ?thesis .
qed

text \<open>The entries of the video table and the directory entries that point to it.\<close>

lemma video_entry:
  assumes "i < 1024"
  defines "e \<equiv> bf_set struct_pgTblEntry ''add'' (of_nat i) 7"
  shows "bit e 0" "bit e 1" "bit e 2" "unat e div 4096 = i"
proof -
  have "(7 :: u32) = mask 3" by (simp add: mask_eq_exp_minus_1)
  then show "bit e 0" "bit e 1" "bit e 2"
    by (simp_all add: e_def bf_set_def field_places bit_bits_set bit_mask_iff)
  show "unat e div 4096 = i"
    using frame_of [of 12 20 "of_nat i" 7] assms(1) by (simp add: e_def bf_set_def field_places unat_of_nat)
qed

lemma bit_three: "bit (3 :: u32) i \<longleftrightarrow> i < 2"
proof -
  have "(3 :: u32) = mask 2" by (simp add: mask_eq_exp_minus_1)
  then show ?thesis by (simp only: bit_mask_iff) auto
qed

lemma bit_table_entry:
  "bit (t OR 3) i \<longleftrightarrow> bit t i \<or> i < 2"
  "bit (bf_set struct_tableptr ''us'' 1 (t OR 3)) i \<longleftrightarrow> (if i = 2 then True else bit t i \<or> i < 2)"
proof -
  show e: "bit (t OR 3) i \<longleftrightarrow> bit t i \<or> i < 2" by (simp only: bit_or_iff bit_three)
  show "bit (bf_set struct_tableptr ''us'' 1 (t OR 3)) i \<longleftrightarrow> (if i = 2 then True else bit t i \<or> i < 2)"
  proof (cases "i = 2")
    case True
    then show ?thesis by (simp add: bf_set_def field_places bit_bits_set)
  next
    case False
    then have "\<not> (2 \<le> i \<and> i < 2 + 1)" by simp
    then show ?thesis using False bit_imp_le_length [of t i] e
      by (simp only: bf_set_def field_places bit_bits_set if_False) auto
  qed
qed

lemma same_frame:
  assumes "take_bit 12 t = (0 :: u32)" "\<And>i. 12 \<le> i \<Longrightarrow> bit (e :: u32) i = bit t i"
  shows "unat e div 4096 * 4096 = unat t"
proof -
  have "drop_bit 12 e = drop_bit 12 t"
    using assms(2) by (intro bit_word_eqI) (simp add: bit_drop_bit_eq)
  then have "unat e div 2 ^ 12 = unat t div 2 ^ 12" by (simp only: flip: unat_drop_bit)
  moreover have "unat (take_bit 12 t) = 0" using assms(1) by simp
  then have "unat t mod 2 ^ 12 = 0" unfolding unsigned_take_bit_eq by (simp add: take_bit_eq_mod)
  ultimately show ?thesis by (simp add: mod_eq_0_iff_dvd)
qed

lemma table_entry:
  assumes "take_bit 12 t = (0 :: u32)"
  shows "\<not> bit t 2" "\<not> bit t 7"
    "unat (t OR 3) div 4096 * 4096 = unat t"
    "unat (bf_set struct_tableptr ''us'' 1 (t OR 3)) div 4096 * 4096 = unat t"
proof -
  have "\<not> bit t i" if "i < 12" for i
    using arg_cong [OF assms(1), of "\<lambda>w. bit w i"] that by (simp add: bit_take_bit_iff)
  then show "\<not> bit t 2" "\<not> bit t 7" by simp_all
  show "unat (t OR 3) div 4096 * 4096 = unat t"
    using assms by (rule same_frame) (simp add: bit_table_entry del: bit_or_iff)
  show "unat (bf_set struct_tableptr ''us'' 1 (t OR 3)) div 4096 * 4096 = unat t"
    using assms by (rule same_frame) (simp add: bit_table_entry)
qed

section \<open>The address space that page_init sets up\<close>

text \<open>The video pages, by the index of a page.\<close>

lemma page_init_fields:
  assumes "paging_ok s"
  shows "length (pageDir (page_init s)) = 1024" "length (table (page_init s)) = 1024"
    "table_addr (page_init s) = table_addr s" "pageDir_addr (page_init s) = pageDir_addr s"
    "cr3 (page_init s) = pageDir_addr s" "bit (cr0 (page_init s)) 31" "bit (cr4 (page_init s)) 4"
    "tlb_clean (page_init s)"
    "\<And>d. d < 1024 \<Longrightarrow> pageDir (page_init s) ! d =
       (if d = 0 then table_addr s OR 3 else if d = 1 then 0x400183
        else if d = 33 then bf_set struct_tableptr ''us'' 1 (table_addr s OR 3) else 0)"
    "\<And>i. i < 1024 \<Longrightarrow> table (page_init s) ! i =
       (if 0xB8 \<le> i \<and> i < 0xC0 then bf_set struct_pgTblEntry ''add'' (of_nat i) 7 else 0)"
proof -
  have len: "length (pageDir s) = 1024" "length (table s) = 1024" using assms by (auto simp: paging_ok_def)
  have lenf: "length (fold (\<lambda>i t. t[i := f i]) is t) = length t" for f "is" and t :: "u32 list"
    by (induction "is" arbitrary: t) simp_all
  have cr0: "bit (w OR 0x80000000) 31" "bit (w OR 0x10) 4" for w :: u32
    by (simp_all add: bit_or_iff)
  note defs = page_init_def pageEnable_def Let_def spawnDir_zero spawnTbl_zero kernel_entry len lenf cr0
  show "length (pageDir (page_init s)) = 1024" "length (table (page_init s)) = 1024"
    "table_addr (page_init s) = table_addr s" "pageDir_addr (page_init s) = pageDir_addr s"
    "cr3 (page_init s) = pageDir_addr s" "bit (cr0 (page_init s)) 31" "bit (cr4 (page_init s)) 4"
    "tlb_clean (page_init s)"
    by (simp_all add: defs del: upt_rec_numeral)
  show "pageDir (page_init s) ! d =
       (if d = 0 then table_addr s OR 3 else if d = 1 then 0x400183
        else if d = 33 then bf_set struct_tableptr ''us'' 1 (table_addr s OR 3) else 0)" if "d < 1024" for d
    using that by (auto simp: defs nth_list_update simp del: upt_rec_numeral)
  show "table (page_init s) ! i =
       (if 0xB8 \<le> i \<and> i < 0xC0 then bf_set struct_pgTblEntry ''add'' (of_nat i) 7 else 0)" if "i < 1024" for i
    using that by (simp add: defs fold_update_nth del: upt_rec_numeral)
qed

lemma page_split:
  fixes a :: nat
  shows "a div 4096 mod 1024 * 4096 + a mod 4096 = a mod 4194304"
    "0xB8 \<le> a div 4096 mod 1024 \<and> a div 4096 mod 1024 < 0xC0 \<longleftrightarrow>
       0xB8000 \<le> a mod 4194304 \<and> a mod 4194304 < 0xC0000"
proof -
  have m: "a mod 4194304 = 4096 * (a div 4096 mod 1024) + a mod 4096"
    using mod_mult2_eq [of a 4096 1024] by simp
  then show "a div 4096 mod 1024 * 4096 + a mod 4096 = a mod 4194304" by simp
  have "a mod 4194304 div 4096 = a div 4096 mod 1024" unfolding m by simp
  then show "0xB8 \<le> a div 4096 mod 1024 \<and> a div 4096 mod 1024 < 0xC0 \<longleftrightarrow>
       0xB8000 \<le> a mod 4194304 \<and> a mod 4194304 < 0xC0000" by linarith
qed

lemma page_offset:
  fixes va :: u32
  shows "of_nat (unat va mod 4194304) = va - of_nat (unat va div 4194304 * 4194304)"
proof -
  have "unat va mod 4194304 = unat va - unat va div 4194304 * 4194304" by (rule minus_div_mult_eq_mod [symmetric])
  then have "(of_nat (unat va mod 4194304) :: u32) = of_nat (unat va) - of_nat (unat va div 4194304 * 4194304)"
    by (simp only: of_nat_diff [OF div_times_less_eq_dividend])
  then show ?thesis by simp
qed

text \<open>The translation through the video table, whichever directory entry leads to it.\<close>

definition video_walk :: "u32 \<Rightarrow> u32 option" where
  "video_walk va =
     (if 0xB8000 \<le> unat va mod 4194304 \<and> unat va mod 4194304 < 0xC0000
      then Some (of_nat (unat va mod 4194304)) else None)"

lemma pte_walk_video:
  assumes "\<And>i. i < 1024 \<Longrightarrow> tbl ! i = (if 0xB8 \<le> i \<and> i < 0xC0 then bf_set struct_pgTblEntry ''add'' (of_nat i) 7 else 0)"
  shows "pte_walk (tbl ! (unat va div 4096 mod 1024)) user write va = video_walk va"
proof -
  let ?i = "unat va div 4096 mod 1024"
  have i: "?i < 1024" by simp
  show ?thesis
  proof (cases "0xB8 \<le> ?i \<and> ?i < 0xC0")
    case True
    then have e: "tbl ! ?i = bf_set struct_pgTblEntry ''add'' (of_nat ?i) 7" using assms [OF i] by (simp only: if_True simp_thms)
    show ?thesis
      unfolding e pte_walk_def video_walk_def using video_entry [OF i] page_split [of "unat va"] True by (simp only:) simp
  next
    case False
    then have e: "tbl ! ?i = 0" using assms [OF i] by (simp only: if_False)
    show ?thesis unfolding e pte_walk_def video_walk_def using page_split(2) [of "unat va"] False by simp
  qed
qed

lemma pde_walk_entries:
  assumes "take_bit 12 (table_addr s) = 0" "bit (cr4 s) 4"
    and "\<And>va. pte_walk (table s ! (unat va div 4096 mod 1024)) user write va = video_walk va"
  shows "pde_walk s 0 user write va = None"
    "pde_walk s 0x400183 user write va =
       (if user then None else Some (of_nat (4194304 + unat va mod 4194304)))"
    "pde_walk s (table_addr s OR 3) user write va = (if user then None else video_walk va)"
    "pde_walk s (bf_set struct_tableptr ''us'' 1 (table_addr s OR 3)) user write va = video_walk va"
proof -
  note t = table_entry [OF assms(1)]
  show "pde_walk s 0 user write va = None" by (simp add: pde_walk_def)
  show "pde_walk s 0x400183 user write va =
       (if user then None else Some (of_nat (4194304 + unat va mod 4194304)))"
    using assms(2) by (simp add: pde_walk_def)
  show "pde_walk s (table_addr s OR 3) user write va = (if user then None else video_walk va)"
    unfolding pde_walk_def bit_table_entry t(3) assms(3) using t(1,2) by simp
  show "pde_walk s (bf_set struct_tableptr ''us'' 1 (table_addr s OR 3)) user write va = video_walk va"
    unfolding pde_walk_def bit_table_entry t(4) assms(3) using t(1,2) by simp
qed

text \<open>
  The whole address space: the video pages and the kernel at their own addresses for the kernel,
  and the video pages again from 132 MiB on for everyone.
\<close>

definition boot_space :: "bool \<Rightarrow> u32 \<Rightarrow> u32 option" where
  "boot_space user va =
     (let d = unat va div 4194304 in
      if d = 0 then (if user then None else video_walk va)
      else if d = 1 then (if user then None else Some va)
      else if d = 33 then video_walk va else None)"

lemma page_init_walk:
  assumes "paging_ok s"
  shows "page_walk (page_init s) user write va = boot_space user va"
proof -
  note f = page_init_fields [OF assms]
  have al: "take_bit 12 (table_addr (page_init s)) = 0" using assms by (simp add: paging_ok_def f(3))
  note e = pde_walk_entries [OF al f(7) pte_walk_video [OF f(10)], unfolded f(3)]
  have d: "unat va div 4194304 < 1024" using u32_lt [of va] by (simp add: div_less_iff_less_mult)
  have one: "unat va div 4194304 = 1 \<Longrightarrow> (of_nat (4194304 + unat va mod 4194304) :: u32) = va"
    using page_offset [of va] by simp
  show ?thesis
    unfolding page_walk_def f(9) [OF d] f(5) f(4) boot_space_def Let_def using f(6,8) e one
    by (simp split del: if_split) (simp split: if_split)
qed

section \<open>Pages of programs\<close>

text \<open>
  The kernel keeps this set-up and changes entry 32, the 4 MiB page at 128 MiB, with \<open>chgDir\<close>.
\<close>

definition kernel_space :: "'a paging_state_scheme \<Rightarrow> bool" where
  "kernel_space s \<longleftrightarrow> paging_ok s \<and> tlb_clean s \<and> cr3 s = pageDir_addr s \<and> bit (cr0 s) 31 \<and>
     bit (cr4 s) 4 \<and>
     (\<forall>d < 1024. d \<noteq> 32 \<longrightarrow> pageDir s ! d =
        (if d = 0 then table_addr s OR 3 else if d = 1 then 0x400183
         else if d = 33 then bf_set struct_tableptr ''us'' 1 (table_addr s OR 3) else 0)) \<and>
     (\<forall>i < 1024. table s ! i =
        (if 0xB8 \<le> i \<and> i < 0xC0 then bf_set struct_pgTblEntry ''add'' (of_nat i) 7 else 0))"

lemma kernel_space_page_init: "paging_ok s \<Longrightarrow> kernel_space (page_init s)"
  using page_init_fields [of s] by (simp add: kernel_space_def paging_ok_def)

lemma kernel_space_chgDir: "kernel_space s \<Longrightarrow> kernel_space (flushTLB (chgDir 32 e s))"
  by (simp add: kernel_space_def paging_ok_def chgDir_def flushTLB_def)

text \<open>Without the flush the new entry is of no use.\<close>

lemma stale_walk: "bit (cr0 s) 31 \<Longrightarrow> page_walk (chgDir idx e s) user write va = None"
  by (simp add: page_walk_def chgDir_def)

lemma kernel_space_cong:
  assumes "pageDir t = pageDir s" "table t = table s" "cr0 t = cr0 s" "cr3 t = cr3 s" "cr4 t = cr4 s"
    "pageDir_addr t = pageDir_addr s" "table_addr t = table_addr s" "tlb_clean t = tlb_clean s"
  shows "kernel_space t = kernel_space s" "page_walk t = page_walk s"
  using assms by (simp_all add: kernel_space_def paging_ok_def page_walk_def pde_walk_def fun_eq_iff)

lemma kernel_space_walk:
  assumes "kernel_space s" "unat va div 4194304 \<noteq> 32"
  shows "page_walk s user write va = boot_space user va"
proof -
  have al: "take_bit 12 (table_addr s) = 0" and cr: "cr3 s = pageDir_addr s" "bit (cr0 s) 31" "bit (cr4 s) 4" "tlb_clean s"
    and t: "\<And>i. i < 1024 \<Longrightarrow> table s ! i =
        (if 0xB8 \<le> i \<and> i < 0xC0 then bf_set struct_pgTblEntry ''add'' (of_nat i) 7 else 0)"
    using assms(1) by (auto simp: kernel_space_def paging_ok_def)
  have d: "unat va div 4194304 < 1024" using u32_lt [of va] by (simp add: div_less_iff_less_mult)
  with assms have e: "pageDir s ! (unat va div 4194304) =
      (if unat va div 4194304 = 0 then table_addr s OR 3 else if unat va div 4194304 = 1 then 0x400183
       else if unat va div 4194304 = 33 then bf_set struct_tableptr ''us'' 1 (table_addr s OR 3) else 0)"
    unfolding kernel_space_def by blast
  note w = pde_walk_entries [OF al cr(3) pte_walk_video [OF t]]
  have one: "unat va div 4194304 = 1 \<Longrightarrow> (of_nat (4194304 + unat va mod 4194304) :: u32) = va"
    using page_offset [of va] by simp
  show ?thesis
    unfolding page_walk_def e boot_space_def Let_def using cr w one
    by (simp split del: if_split) (simp split: if_split)
qed

text \<open>The entry of a user page at the 4 MiB frame \<open>f\<close>, built as the system calls build it.\<close>

definition program_entry :: "u32 \<Rightarrow> u32" where
  "program_entry frame = bf_set struct_page ''add_22_31'' (drop_bit 22 frame) (bf_set struct_page ''ps'' 1 7)"

lemma program_entry_bits:
  "bit (program_entry f) 0" "bit (program_entry f) 1" "bit (program_entry f) 2" "bit (program_entry f) 7"
  "unat (program_entry f) div 4194304 = unat f div 4194304"
proof -
  have "bf_set struct_page ''ps'' 1 7 = 0x87"
    by (simp add: bf_set_def field_places bits_set_def mask_eq_exp_minus_1)
  moreover have "bit (0x87 :: u32) 0" "bit (0x87 :: u32) 1" "bit (0x87 :: u32) 2" "bit (0x87 :: u32) 7" by simp_all
  ultimately show "bit (program_entry f) 0" "bit (program_entry f) 1" "bit (program_entry f) 2" "bit (program_entry f) 7"
    unfolding program_entry_def by (simp_all only: bf_set_def [of _ "''add_22_31''"] field_places bit_bits_set) simp_all
  have "unat (drop_bit 22 f) = unat f div 4194304" using unat_drop_bit [of 22 f] by simp
  moreover have "unat f div 4194304 < 1024" using u32_lt [of f] by (simp add: div_less_iff_less_mult)
  ultimately show "unat (program_entry f) div 4194304 = unat f div 4194304"
    using frame_of [of 22 10 "drop_bit 22 f"] by (simp add: program_entry_def bf_set_def field_places)
qed

lemma program_walk:
  assumes "kernel_space s" "unat va div 4194304 = 32" "pageDir s ! 32 = program_entry f"
  shows "page_walk s user write va = Some (of_nat (unat f div 4194304 * 4194304 + unat va mod 4194304))"
  using assms program_entry_bits [of f] by (simp add: page_walk_def pde_walk_def kernel_space_def)

lemma dir_range: "a div 4194304 = d \<longleftrightarrow> d * 4194304 \<le> a \<and> a < d * 4194304 + (4194304 :: nat)"
proof
  have "a = a div 4194304 * 4194304 + a mod 4194304" "a mod 4194304 < 4194304" by simp_all
  then show "a div 4194304 = d \<Longrightarrow> d * 4194304 \<le> a \<and> a < d * 4194304 + 4194304" by linarith
  show "d * 4194304 \<le> a \<and> a < d * 4194304 + 4194304 \<Longrightarrow> a div 4194304 = d"
    by (rule div_nat_eqI) simp_all
qed

lemma dir_offset: "a div 4194304 = d \<Longrightarrow> a mod 4194304 = a - d * (4194304 :: nat)"
  using minus_div_mult_eq_mod [of a 4194304] by simp

lemma boot_space_ranges:
  "boot_space user va =
    (if \<not> user \<and> (0xB8000 \<le> unat va \<and> unat va < 0xC0000 \<or> 0x400000 \<le> unat va \<and> unat va < 0x800000) then Some va
     else if 0x84B8000 \<le> unat va \<and> unat va < 0x84C0000 then Some (va - 0x8400000) else None)"
proof -
  let ?a = "unat va"
  have off: "(of_nat (?a mod 4194304) :: u32) = va - of_nat (?a div 4194304 * 4194304)" by (rule page_offset)
  consider "?a div 4194304 = 0" | "?a div 4194304 = 1" | "?a div 4194304 = 33"
    | "?a div 4194304 \<noteq> 0" "?a div 4194304 \<noteq> 1" "?a div 4194304 \<noteq> 33" by blast
  then show ?thesis
  proof cases
    case 1
    then have "?a < 4194304" "?a mod 4194304 = ?a" using dir_range [of ?a 0] by simp_all
    then show ?thesis unfolding boot_space_def video_walk_def 1 Let_def using off by simp
  next
    case 2
    then have "4194304 \<le> ?a" "?a < 8388608" using dir_range [of ?a 1] by simp_all
    then show ?thesis unfolding boot_space_def 2 Let_def by simp
  next
    case 3
    then have "138412032 \<le> ?a" "?a < 142606336" "?a mod 4194304 = ?a - 138412032"
      using dir_range [of ?a 33] dir_offset [of ?a 33] by simp_all
    moreover have "(of_nat (?a mod 4194304) :: u32) = va - 0x8400000" unfolding off 3 by simp
    ultimately show ?thesis unfolding boot_space_def video_walk_def 3 Let_def by auto
  next
    case 4
    then have "4194304 \<le> ?a" "\<not> ?a < 8388608" "\<not> (0x84B8000 \<le> ?a \<and> ?a < 0x84C0000)"
      using dir_range [of ?a 0] dir_range [of ?a 1] dir_range [of ?a 33] by linarith+
    then show ?thesis using 4 unfolding boot_space_def Let_def by simp
  qed
qed

section \<open>Properties\<close>


definition blank_paging :: paging_state where
  "blank_paging = keyboard_state.extend idle_keyboard
     \<lparr>pageDir = replicate 1024 0, table = replicate 1024 0, cr0 = 1, cr3 = 0, cr4 = 0,
      pageDir_addr = 0x500000, table_addr = 0x501000, tlb_clean = False\<rparr>"

lemma blank_paging_ok: "paging_ok blank_paging"
  by (simp add: paging_ok_def blank_paging_def keyboard_state.defs)


text \<open>C27. User pages: with entry 32 set for the 4 MiB frame \<open>f\<close> by \<open>chgDir\<close> and the
  old translation flushed by \<open>flushTLB\<close>, a program reaches from 128 to 132 MiB exactly the addresses of
  its frame, reads and writes alike, and nothing else of its address space changes.\<close>

theorem program_page:
  assumes "kernel_space s" "take_bit 22 f = 0"
  shows "page_walk (flushTLB (chgDir 32 (program_entry f) s)) user write va =
    (if 0x8000000 \<le> unat va \<and> unat va < 0x8400000 then Some (f + (va - 0x8000000)) else page_walk s user write va)"
proof -
  let ?s = "flushTLB (chgDir 32 (program_entry f) s)"
  have k: "kernel_space ?s" using assms(1) by (simp add: kernel_space_chgDir)
  have len: "length (pageDir s) = 1024" using assms(1) by (simp add: kernel_space_def paging_ok_def)
  have e: "pageDir ?s ! 32 = program_entry f" using len by (simp add: flushTLB_def chgDir_def)
  show ?thesis
  proof (cases "unat va div 4194304 = 32")
    case True
    have off: "of_nat (unat va mod 4194304) = va - 0x8000000" using page_offset [of va] True by simp
    have "unat (take_bit 22 f) = 0" using assms(2) by simp
    then have "unat f mod 4194304 = 0" unfolding unsigned_take_bit_eq by (simp add: take_bit_eq_mod)
    then have f: "unat f div 4194304 * 4194304 = unat f" using div_mult_mod_eq [of "unat f" 4194304] by simp
    have "0x8000000 \<le> unat va" "unat va < 0x8400000" using dir_range [of "unat va" 32] True by simp_all
    then show ?thesis using program_walk [OF k True e] f off by simp
  next
    case False
    then have "\<not> (0x8000000 \<le> unat va \<and> unat va < 0x8400000)" using dir_range [of "unat va" 32] by simp
    then show ?thesis unfolding kernel_space_walk [OF k False] kernel_space_walk [OF assms(1) False] by (rule if_not_P [symmetric])
  qed
qed

theorem program_page_witness:
  "page_walk (flushTLB (chgDir 32 (program_entry 0xC00000) (page_init blank_paging))) True True 0x8048000 =
     Some 0xC48000"
  using program_page [OF kernel_space_page_init [OF blank_paging_ok], of "0xC00000" True True "0x8048000"] by simp

end
