(* ===== verification/Filesystem.thy ===== *)
theory Filesystem
  imports Paging
begin

text \<open>
  The read-only file system, \<^verbatim>\<open>src/student-distrib/filesystem.c\<close> and \<^verbatim>\<open>filesystem.h\<close>: the layout
  of the image in 4096-byte blocks (boot block, inodes, data blocks) and the routines that read it.

  The image is what the pointer \<^verbatim>\<open>boot\<close> shows, a view \<open>img\<close>: the routines only read it. A struct
  that the code copies out is a record, its fields read from their offsets in the packed struct.
  \<open>file_contents\<close> is the abstract value of a file; the locale \<open>byte_file\<close> states what a file
  promises to its readers, and \<open>read_data\<close> is proved to keep it.
\<close>

section \<open>Layout\<close>

definition BLKSIZE :: nat where "BLKSIZE = 4096"

record dentry =
  name :: "byte list"
  ft :: u32
  ind :: u32
  res :: "byte list"

text \<open>The fields of \<^verbatim>\<open>struct bootblock\<close>, of its directory entries, of an inode and of a data block.\<close>

definition boot_nent :: "cptr \<Rightarrow> u32" where "boot_nent img = load_le32 img 0"
definition boot_nnod :: "cptr \<Rightarrow> u32" where "boot_nnod img = load_le32 img 4"
definition boot_nblck :: "cptr \<Rightarrow> u32" where "boot_nblck img = load_le32 img 8"

definition boot_dirs :: "cptr \<Rightarrow> nat \<Rightarrow> dentry" where
  "boot_dirs img i =
     (let p = 64 + 64 * i in
      \<lparr>name = map img [p..<p + 32], ft = load_le32 img (p + 32), ind = load_le32 img (p + 36),
       res = map img [p + 40..<p + 64]\<rparr>)"

definition inode_len :: "cptr \<Rightarrow> nat \<Rightarrow> u32" where
  "inode_len img nod = load_le32 img nod"

definition inode_data :: "cptr \<Rightarrow> nat \<Rightarrow> nat \<Rightarrow> u32" where
  "inode_data img nod k = load_le32 img (nod + 4 + 4 * k)"

definition block_data :: "cptr \<Rightarrow> nat \<Rightarrow> nat \<Rightarrow> byte" where
  "block_data img blk k = img (blk + k)"

section \<open>Operations\<close>

text \<open>The search of \<open>read_dentry_by_name\<close> from index \<open>i\<close> on.\<close>

function dentry_search :: "cptr \<Rightarrow> cptr \<Rightarrow> nat \<Rightarrow> dentry option" where
  "dentry_search img fname i =
     (if i < unat (boot_nent img) then
        (if strncmp fname (list_view (name (boot_dirs img i))) 32 = 0 then Some (boot_dirs img i)
         else dentry_search img fname (i + 1))
      else None)"
  by auto
termination by (relation "measure (\<lambda>(img, fname, i). unat (boot_nent img) - i)") auto

declare dentry_search.simps [simp del]

definition read_dentry_by_name :: "cptr \<Rightarrow> cptr \<Rightarrow> int \<times> dentry option" where
  "read_dentry_by_name img fname =
     (case dentry_search img fname 0 of None \<Rightarrow> (-1, None) | Some d \<Rightarrow> (0, Some d))"

definition read_dentry_by_index :: "cptr \<Rightarrow> u32 \<Rightarrow> int \<times> dentry option" where
  "read_dentry_by_index img i =
     (if boot_nent img < i then (-1, None) else (0, Some (boot_dirs img (unat i))))"

text \<open>The offset of an inode and of the data block that holds the byte at \<open>off\<close> of its file.\<close>

definition inode_at :: "u32 \<Rightarrow> nat" where
  "inode_at nd = (unat nd + 1) * BLKSIZE"

definition block_at :: "cptr \<Rightarrow> nat \<Rightarrow> u32 \<Rightarrow> nat" where
  "block_at img nod off =
     (unat (boot_nnod img) + 1 + unat (inode_data img nod (unat off div BLKSIZE))) * BLKSIZE"

text \<open>
  The copy loop of \<open>read_data\<close>: \<open>k\<close> bytes are left, \<open>blk\<close> is the current block. Its result is
  what is stored from \<^verbatim>\<open>buf\<close> on.
\<close>

primrec read_data_loop :: "nat \<Rightarrow> cptr \<Rightarrow> nat \<Rightarrow> nat \<Rightarrow> u32 \<Rightarrow> byte list" where
  "read_data_loop 0 img nod blk off = []"
| "read_data_loop (Suc k) img nod blk off =
     (let b = block_data img blk (unat off mod BLKSIZE);
          off = off + 1;
          blk = (if unat off mod BLKSIZE = 0 then block_at img nod off else blk)
      in b # read_data_loop k img nod blk off)"

definition read_data :: "cptr \<Rightarrow> u32 \<Rightarrow> u32 \<Rightarrow> u32 \<Rightarrow> int \<times> byte list" where
  "read_data img nd off len =
     (if nd \<ge> boot_nnod img then (-1, [])
      else let nod = inode_at nd;
               len = (if inode_len img nod < len + off then inode_len img nod - off else len);
               blk = block_at img nod off
           in (s32 len, read_data_loop (unat len) img nod blk off))"

section \<open>The contents of a file\<close>

definition file_byte :: "cptr \<Rightarrow> u32 \<Rightarrow> nat \<Rightarrow> byte" where
  "file_byte img nd k = block_data img (block_at img (inode_at nd) (of_nat k)) (k mod BLKSIZE)"

definition file_contents :: "cptr \<Rightarrow> u32 \<Rightarrow> byte list" where
  "file_contents img nd =
     (if nd < boot_nnod img then map (file_byte img nd) [0..<unat (inode_len img (inode_at nd))] else [])"

lemma length_file_contents: "length (file_contents img nd) < 4294967296"
  by (simp add: file_contents_def)

lemma u32_not_over: "\<not> 4294967295 < unat (w :: u32)"
  using u32_lt [of w] by linarith

lemma block_step:
  assumes "unat (off + 1) mod BLKSIZE \<noteq> 0"
  shows "block_at img nod (off + 1) = block_at img nod off"
proof -
  have "unat (off + 1) \<noteq> 0" using assms by (auto simp: BLKSIZE_def)
  then have "unat (off + 1) = unat off + 1"
    using u32_not_over [of off] by (auto simp: unat_plus_if split: if_splits)
  then have "unat (off + 1) div BLKSIZE = unat off div BLKSIZE"
    using assms by (simp add: div_Suc)
  then show ?thesis by (simp add: block_at_def)
qed

lemma read_data_loop_bytes:
  "blk = block_at img nod off \<Longrightarrow>
     read_data_loop k img nod blk off =
     map (\<lambda>i. block_data img (block_at img nod (off + of_nat i)) (unat (off + of_nat i) mod BLKSIZE)) [0..<k]"
proof (induction k arbitrary: blk off)
  case (Suc k)
  let ?f = "\<lambda>i. block_data img (block_at img nod (off + of_nat i)) (unat (off + of_nat i) mod BLKSIZE)"
  have blk: "(if unat (off + 1) mod BLKSIZE = 0 then block_at img nod (off + 1) else blk) = block_at img nod (off + 1)"
    using block_step [of off img nod] Suc.prems by auto
  have "read_data_loop (Suc k) img nod blk off = ?f 0 # map (\<lambda>i. ?f (Suc i)) [0..<k]"
    unfolding read_data_loop.simps Let_def blk Suc.IH [OF refl] using Suc.prems by (simp add: ac_simps)
  also have "\<dots> = map ?f [0..<Suc k]" by (simp only: upt_conv_Cons zero_less_Suc map_Suc_upt [symmetric] list.map map_map comp_def)
  finally show ?case .
qed simp

lemma file_slice:
  assumes "nd < boot_nnod img" "off \<le> length (file_contents img nd)"
    and "n = min len (length (file_contents img nd) - off)"
  shows "map (\<lambda>i. file_byte img nd (off + i)) [0..<n] = take len (drop off (file_contents img nd))"
proof (rule nth_equalityI)
  show "length (map (\<lambda>i. file_byte img nd (off + i)) [0..<n]) = length (take len (drop off (file_contents img nd)))"
    using assms(3) by simp
  fix i
  assume "i < length (map (\<lambda>i. file_byte img nd (off + i)) [0..<n])"
  then have "i < n" "i < len" "off + i < length (file_contents img nd)" using assms(3) by auto
  then show "map (\<lambda>i. file_byte img nd (off + i)) [0..<n] ! i = take len (drop off (file_contents img nd)) ! i"
    using assms(1) by (simp add: file_contents_def)
qed

lemma read_data_bytes:
  assumes "nd < boot_nnod img" "unat off \<le> length (file_contents img nd)" "unat len + unat off < 4294967296"
  shows "snd (read_data img nd off len) = take (unat len) (drop (unat off) (file_contents img nd))"
    and "fst (read_data img nd off len) = s32 (of_nat (min (unat len) (length (file_contents img nd) - unat off)))"
proof -
  let ?nod = "inode_at nd" and ?L = "inode_len img (inode_at nd)"
  define n where "n = (if ?L < len + off then ?L - off else len)"
  have L: "length (file_contents img nd) = unat ?L" using assms(1) by (simp add: file_contents_def)
  have sum: "unat (len + off) = unat len + unat off" using assms(3) by (simp add: unat_plus_if)
  have n: "unat n = min (unat len) (length (file_contents img nd) - unat off)"
    using assms(2) sum unfolding L n_def by (auto simp: word_less_nat_alt unat_minus_if)
  have r: "read_data img nd off len = (s32 n, read_data_loop (unat n) img ?nod (block_at img ?nod off) off)"
    using linorder_not_le [THEN iffD2, OF assms(1)] by (simp add: read_data_def Let_def n_def)
  have "s32 n = s32 (of_nat (unat n))" by simp
  then show "fst (read_data img nd off len) = s32 (of_nat (min (unat len) (length (file_contents img nd) - unat off)))"
    unfolding r fst_conv n .
  have "block_data img (block_at img ?nod (off + of_nat i)) (unat (off + of_nat i) mod BLKSIZE) =
      file_byte img nd (unat off + i)" if "i < unat n" for i
  proof -
    have eq: "off + of_nat i = of_nat (unat off + i)" by simp
    have "unat off + i < 4294967296" using that n L u32_lt [of ?L] by linarith
    then show ?thesis unfolding file_byte_def eq unat_of_nat by simp
  qed
  then have "read_data_loop (unat n) img ?nod (block_at img ?nod off) off =
      map (\<lambda>i. file_byte img nd (unat off + i)) [0..<unat n]"
    unfolding read_data_loop_bytes [OF refl] by (intro map_cong refl) simp
  then show "snd (read_data img nd off len) = take (unat len) (drop (unat off) (file_contents img nd))"
    unfolding r snd_conv using file_slice [OF assms(1,2) n] by simp
qed

section \<open>The interface of a file\<close>

text \<open>
  What a file promises to its readers: a read at an offset within the file returns the bytes
  there, as many as were asked for or are left. The readers call it in chunks, as the program
  \<^verbatim>\<open>cat\<close> does, until a read returns nothing; \<open>fuel\<close> bounds the number of reads.
\<close>

primrec read_chunks :: "(nat \<Rightarrow> nat \<Rightarrow> byte list) \<Rightarrow> nat \<Rightarrow> nat \<Rightarrow> nat \<Rightarrow> byte list" where
  "read_chunks fread 0 n off = []"
| "read_chunks fread (Suc fuel) n off =
     (let bs = fread off n in if bs = [] then [] else bs @ read_chunks fread fuel n (off + length bs))"

locale byte_file =
  fixes fread :: "nat \<Rightarrow> nat \<Rightarrow> byte list" and contents :: "byte list"
  assumes fread: "off \<le> length contents \<Longrightarrow> n < 2147483648 \<Longrightarrow> length contents < 2147483648 \<Longrightarrow>
    fread off n = take n (drop off contents)"
begin

lemma read_chunks_rest:
  assumes "0 < n" "n < 2147483648" "length contents < 2147483648"
  shows "off \<le> length contents \<Longrightarrow> length contents - off < fuel \<Longrightarrow> read_chunks fread fuel n off = drop off contents"
proof (induction fuel arbitrary: off)
  case (Suc fuel)
  let ?bs = "take n (drop off contents)"
  have bs: "fread off n = ?bs" using Suc.prems assms by (simp add: fread)
  show ?case
  proof (cases "off = length contents")
    case True
    then show ?thesis using bs by (simp add: Let_def)
  next
    case False
    then have "?bs \<noteq> []" "0 < length ?bs" using Suc.prems assms by auto
    moreover have "read_chunks fread fuel n (off + length ?bs) = drop (off + length ?bs) contents"
      using Suc.prems \<open>0 < length ?bs\<close> by (intro Suc.IH) auto
    moreover have "?bs @ drop (off + length ?bs) contents = drop off contents"
      by (rule take_append_rest)
    ultimately show ?thesis by (simp add: bs Let_def)
  qed
qed simp

lemma read_chunks_all:
  "0 < n \<Longrightarrow> n < 2147483648 \<Longrightarrow> length contents < 2147483648 \<Longrightarrow> length contents < fuel \<Longrightarrow>
     read_chunks fread fuel n 0 = contents"
  using read_chunks_rest [of n 0 fuel] by simp

end

interpretation fs_file: byte_file "\<lambda>off n. snd (read_data img nd (of_nat off) (of_nat n))" "file_contents img nd"
  for img nd
proof
  fix off n :: nat
  assume a: "off \<le> length (file_contents img nd)" "n < 2147483648" "length (file_contents img nd) < 2147483648"
  then have u: "unat (of_nat off :: u32) = off" "unat (of_nat n :: u32) = n" by (simp_all add: unat_of_nat)
  show "snd (read_data img nd (of_nat off) (of_nat n)) = take n (drop off (file_contents img nd))"
  proof (cases "nd < boot_nnod img")
    case True
    then show ?thesis using read_data_bytes(1) [OF True, of "of_nat off" "of_nat n"] a u by simp
  next
    case False
    then show ?thesis by (simp add: read_data_def file_contents_def linorder_not_less)
  qed
qed

section \<open>Directory search\<close>

lemma dentry_search_find:
  "dentry_search img fname i = map_option (boot_dirs img)
     (find (\<lambda>j. strncmp fname (list_view (name (boot_dirs img j))) 32 = 0) [i..<unat (boot_nent img)])"
proof (induction img fname i rule: dentry_search.induct)
  case (1 img fname i)
  then show ?case by (subst dentry_search.simps) (simp add: upt_conv_Cons)
qed

lemma find_upt:
  "find P [0..<n] = Some j \<longleftrightarrow> j < n \<and> P j \<and> (\<forall>k < j. \<not> P k)"
proof
  assume "find P [0..<n] = Some j"
  then obtain i where "i < length [0..<n]" "P ([0..<n] ! i)" "j = [0..<n] ! i" "\<forall>k<i. \<not> P ([0..<n] ! k)"
    unfolding find_Some_iff by blast
  then show "j < n \<and> P j \<and> (\<forall>k < j. \<not> P k)" by auto
next
  assume "j < n \<and> P j \<and> (\<forall>k < j. \<not> P k)"
  then show "find P [0..<n] = Some j" unfolding find_Some_iff by (intro exI [of _ j]) auto
qed

section \<open>Properties\<close>

text \<open>C25. Reading a file: for an offset within the file and a count that does not overflow,
  \<open>read_data\<close> stores exactly the bytes of the file from the offset on, as many as asked for or left,
  across the scattered data blocks, and returns their number.\<close>

theorem read_data_slice:
  assumes "nd < boot_nnod img" "unat off \<le> length (file_contents img nd)"
    and "unat len + unat off < 4294967296" "length (file_contents img nd) < 2147483648"
  shows "snd (read_data img nd off len) = take (unat len) (drop (unat off) (file_contents img nd)) \<and>
    fst (read_data img nd off len) = int (length (snd (read_data img nd off len)))"
proof -
  have "min (unat len) (length (file_contents img nd) - unat off) < 2147483648" using assms(4) by auto
  then show ?thesis using read_data_bytes [OF assms(1,2,3)] by (simp add: s32_of_nat min.commute)
qed

text \<open>An image with one directory entry, the file \<^verbatim>\<open>a\<close> with the two bytes \<^verbatim>\<open>hi\<close>.\<close>

definition tiny_fs :: cptr where
  "tiny_fs i = (if i = 0 then 1 else if i = 4 then 1 else if i = 64 then 0x61 else if i = 96 then 2
     else if i = 4096 then 2 else if i = 8192 then 0x68 else if i = 8193 then 0x69 else 0)"

lemma tiny_fs_file: "boot_nnod tiny_fs = 1" "file_contents tiny_fs 0 = [0x68, 0x69]"
proof -
  show nnod: "boot_nnod tiny_fs = 1" by (simp add: boot_nnod_def load_le32_def tiny_fs_def)
  have "inode_len tiny_fs (inode_at 0) = 2" by (simp add: inode_len_def inode_at_def load_le32_def tiny_fs_def BLKSIZE_def)
  moreover have "[0..<2] = [0, 1 :: nat]" by (simp add: numeral_2_eq_2)
  ultimately show "file_contents tiny_fs 0 = [0x68, 0x69]"
    by (simp add: file_contents_def nnod file_byte_def block_data_def block_at_def inode_data_def inode_at_def
        load_le32_def tiny_fs_def BLKSIZE_def)
qed

theorem read_data_slice_witness:
  "read_data tiny_fs 0 1 10 = (1, [0x69])"
  using read_data_slice [of 0 tiny_fs 1 10] by (simp add: tiny_fs_file prod_eq_iff)

text \<open>C30. Looking up a name: \<open>read_dentry_by_name\<close> returns the first directory entry whose name agrees with the
  given one, both taken up to a NUL or 32 characters, and -1 exactly when there is none.\<close>

theorem read_dentry_by_name_first:
  "read_dentry_by_name img fname =
     (case find (\<lambda>j. cstr_take fname 32 = cstr_take (list_view (name (boot_dirs img j))) 32) [0..<unat (boot_nent img)] of
        None \<Rightarrow> (-1, None)
      | Some j \<Rightarrow> (0, Some (boot_dirs img j)))"
  by (simp add: read_dentry_by_name_def dentry_search_find strncmp_zero_iff split: option.split)

section \<open>Where reading leaves the file or the directory\<close>

text \<open>The index check admits the number of entries itself, one beyond the last entry.\<close>

lemma read_dentry_beyond: "read_dentry_by_index img (boot_nent img) = (0, Some (boot_dirs img (unat (boot_nent img))))"
  by (simp add: read_dentry_by_index_def)

text \<open>An offset beyond the end of a file makes the length wrap around: almost \<open>2 ^ 32\<close> bytes are copied.\<close>

lemma read_data_beyond:
  assumes "nd < boot_nnod img" "length (file_contents img nd) < unat off" "unat len + unat off < 4294967296"
  shows "length (snd (read_data img nd off len)) = 4294967296 - (unat off - length (file_contents img nd))"
proof -
  let ?L = "inode_len img (inode_at nd)"
  have L: "length (file_contents img nd) = unat ?L" using assms(1) by (simp add: file_contents_def)
  have "?L < len + off" using assms(2,3) L by (simp add: word_less_nat_alt unat_plus_if)
  then have "snd (read_data img nd off len) =
      read_data_loop (unat (?L - off)) img (inode_at nd) (block_at img (inode_at nd) off) off"
    using linorder_not_le [THEN iffD2, OF assms(1)] by (simp add: read_data_def Let_def)
  then have "length (snd (read_data img nd off len)) = unat (?L - off)"
    by (simp add: read_data_loop_bytes)
  also have "\<dots> = unat ?L + 4294967296 - unat off" using assms(2) L by (simp add: unat_minus_if)
  finally show ?thesis using assms(2) L u32_lt [of off] by linarith
qed

end
