(* ===== verification/Process.thy ===== *)
theory Process
  imports Filesystem
begin

text \<open>
  Processes and open files: the process control blocks, \<open>get_pcb\<close>, and the directory and file
  operations of \<^verbatim>\<open>src/student-distrib/filesystem.c\<close> that the descriptor table refers to.

  The six control blocks lie at the bottom of the six kernel stacks, at 8 MiB minus multiples of
  8 KiB; they are a list of records here, and \<open>get_pcb\<close> finds the current one from the stack
  pointer as the code does. A pointer to one of the four static operation tables is a value of
  \<open>fap\<close>. An operation that reads into a buffer yields the bytes that it stores there. \<open>None\<close> is
  a call that does not return: it waits, or it has faulted.
\<close>

section \<open>Data\<close>

datatype fap = No_op | Terminal_op | Rtc_op | Dir_op | File_op

record file_desc =
  f_op :: fap
  inode :: u32
  file_position :: u32
  flag :: u32

record pcb =
  file_desc_tb :: "file_desc list"
  args :: "byte list"
  pid :: u32
  parent_pid :: u32
  saved_esp :: u32
  saved_ebp :: u32
  active :: u32

record process_state = paging_state +
  boot :: u32
  curr_pcb :: "pcb list"
  esp :: u32
  ebp :: u32
  tss_ss0 :: u32
  tss_esp0 :: u32

definition fs_8MB :: u32 where "fs_8MB = 0x00800000"
definition fs_4MB :: u32 where "fs_4MB = 0x00400000"
definition fs_8KB :: u32 where "fs_8KB = 0x00002000"

lemmas fs_consts = fs_8MB_def fs_4MB_def fs_8KB_def

text \<open>The addresses in the array \<^verbatim>\<open>curr_pcb\<close>.\<close>

definition curr_pcb_addr :: "nat \<Rightarrow> u32" where
  "curr_pcb_addr i = fs_8MB - of_nat (i + 1) * fs_8KB"

text \<open>The file system image, and the index of the current control block, \<open>None\<close> for NULL.\<close>

definition fs :: "'a process_state_scheme \<Rightarrow> cptr" where
  "fs s = view (ram s) (boot s)"

definition get_pcb :: "'a process_state_scheme \<Rightarrow> nat option" where
  "get_pcb s =
     (let e = 0x3FF - esp s div fs_8KB in if e \<ge> 6 then None else Some (unat e))"

definition pcb_of :: "'a process_state_scheme \<Rightarrow> nat \<Rightarrow> pcb" where
  "pcb_of s p = curr_pcb s ! p"

definition set_pcb :: "nat \<Rightarrow> (pcb \<Rightarrow> pcb) \<Rightarrow> 'a process_state_scheme \<Rightarrow> 'a process_state_scheme" where
  "set_pcb p f s = s\<lparr>curr_pcb := (curr_pcb s)[p := f (curr_pcb s ! p)]\<rparr>"

definition set_fd :: "nat \<Rightarrow> (file_desc \<Rightarrow> file_desc) \<Rightarrow> pcb \<Rightarrow> pcb" where
  "set_fd fd f p = p\<lparr>file_desc_tb := (file_desc_tb p)[fd := f (file_desc_tb p ! fd)]\<rparr>"

section \<open>Directory operations\<close>

definition dir_open :: "u32 \<Rightarrow> 'a process_state_scheme \<Rightarrow> int \<times> 'a process_state_scheme" where
  "dir_open fn s = (0, s\<lparr>boot := fn\<rparr>)"

text \<open>
  The bytes of a directory entry as they lie in the local copy \<^verbatim>\<open>d\<close>: an index beyond the name
  reads the fields after it.
\<close>

definition le32_bytes :: "u32 \<Rightarrow> byte list" where
  "le32_bytes w = [ucast w, ucast (drop_bit 8 w), ucast (drop_bit 16 w), ucast (drop_bit 24 w)]"

definition le16_bytes :: "u16 \<Rightarrow> byte list" where
  "le16_bytes w = [ucast w, ucast (drop_bit 8 w)]"

lemma le_lengths [simp]: "length (le16_bytes a) = 2" "length (le32_bytes b) = 4"
  by (simp_all add: le16_bytes_def le32_bytes_def)

definition dentry_bytes :: "dentry \<Rightarrow> byte list" where
  "dentry_bytes d = name d @ le32_bytes (ft d) @ le32_bytes (ind d) @ res d"

text \<open>The copy loop: the value of \<open>i\<close> at its end and the bytes stored; \<open>k\<close> more may be stored.\<close>

fun dir_copy :: "cptr \<Rightarrow> nat \<Rightarrow> nat \<Rightarrow> nat \<times> byte list" where
  "dir_copy nm i 0 = (i, [])"
| "dir_copy nm i (Suc k) =
     (if nm i = 0 then (i, [nm i])
      else case dir_copy nm (Suc i) k of (r, bs) \<Rightarrow> (r, nm i # bs))"

definition dir_read :: "nat \<Rightarrow> int \<Rightarrow> 'a process_state_scheme \<Rightarrow> (int \<times> byte list \<times> 'a process_state_scheme) option" where
  "dir_read fd n s =
     (case get_pcb s of
        None \<Rightarrow> None
      | Some p \<Rightarrow>
          (case read_dentry_by_index (fs s) (file_position (file_desc_tb (pcb_of s p) ! fd)) of
             (r, None) \<Rightarrow> Some (-1, [], s)
           | (r, Some d) \<Rightarrow>
               let s = set_pcb p (set_fd fd (\<lambda>f. f\<lparr>file_position := file_position f + 1\<rparr>)) s;
                   (i, bs) = dir_copy (list_view (dentry_bytes d)) 0 (nat n)
               in Some (int i, bs, s)))"

definition dir_write :: "nat \<Rightarrow> cptr option \<Rightarrow> int \<Rightarrow> 'a process_state_scheme \<Rightarrow> int \<times> 'a process_state_scheme" where
  "dir_write fd buf n s = (-1, s)"

definition dir_close :: "nat \<Rightarrow> 'a process_state_scheme \<Rightarrow> (int \<times> 'a process_state_scheme) option" where
  "dir_close fd s =
     (case get_pcb s of
        None \<Rightarrow> None
      | Some p \<Rightarrow> Some (0, set_pcb p (set_fd fd (\<lambda>f. f\<lparr>flag := 0\<rparr>)) s))"

section \<open>File operations\<close>

text \<open>The first free descriptor from 2 to 7.\<close>

definition free_fd :: "pcb \<Rightarrow> nat option" where
  "free_fd p = find (\<lambda>i. flag (file_desc_tb p ! i) = 0) [2..<8]"

definition file_open :: "cptr \<Rightarrow> 'a process_state_scheme \<Rightarrow> (int \<times> 'a process_state_scheme) option" where
  "file_open fn s =
     (case read_dentry_by_name (fs s) fn of
        (r, None) \<Rightarrow> Some (-1, s)
      | (r, Some d) \<Rightarrow>
          (case get_pcb s of
             None \<Rightarrow> None
           | Some p \<Rightarrow>
               (case free_fd (pcb_of s p) of
                  None \<Rightarrow> Some (-1, s)
                | Some i \<Rightarrow>
                    Some (int i,
                      set_pcb p (set_fd i (\<lambda>f. f\<lparr>flag := 1, file_position := 0, inode := ind d\<rparr>)) s))))"

definition file_read :: "nat \<Rightarrow> int \<Rightarrow> 'a process_state_scheme \<Rightarrow> (int \<times> byte list \<times> 'a process_state_scheme) option" where
  "file_read fd n s =
     (if fd > 7 then Some (-1, [], s)
      else case get_pcb s of
        None \<Rightarrow> None
      | Some p \<Rightarrow>
          let f = file_desc_tb (pcb_of s p) ! fd;
              (n, bs) = read_data (fs s) (inode f) (file_position f) (w32 n);
              s = set_pcb p (set_fd fd (\<lambda>f. f\<lparr>file_position := file_position f + w32 n\<rparr>)) s
          in Some (n, bs, s))"

definition file_write :: "nat \<Rightarrow> cptr option \<Rightarrow> int \<Rightarrow> 'a process_state_scheme \<Rightarrow> int \<times> 'a process_state_scheme" where
  "file_write fd buf n s = (-1, s)"

definition file_close :: "nat \<Rightarrow> 'a process_state_scheme \<Rightarrow> (int \<times> 'a process_state_scheme) option" where
  "file_close fd s =
     (if fd > 7 \<or> fd < 2 then Some (-1, s)
      else case get_pcb s of
        None \<Rightarrow> None
      | Some p \<Rightarrow> Some (0, set_pcb p (set_fd fd (\<lambda>f. f\<lparr>flag := 0\<rparr>)) s))"

section \<open>Finding the current process\<close>

text \<open>\<open>get_pcb\<close> maps each of the six 8 KiB stacks below 8 MiB to its process and every other address to NULL.\<close>

lemma get_pcb_iff:
  "get_pcb s = Some p \<longleftrightarrow>
     p < 6 \<and> 0x800000 - (p + 1) * 0x2000 \<le> unat (esp s) \<and> unat (esp s) < 0x800000 - p * 0x2000"
proof -
  let ?q = "unat (esp s) div 0x2000"
  have q: "unat (esp s div fs_8KB) = ?q" by (simp add: unat_div_distrib fs_consts)
  have r: "?q = k \<longleftrightarrow> k * 0x2000 \<le> unat (esp s) \<and> unat (esp s) < k * 0x2000 + 0x2000" for k
  proof
    have "unat (esp s) = ?q * 0x2000 + unat (esp s) mod 0x2000" "unat (esp s) mod 0x2000 < 0x2000" by simp_all
    then show "?q = k \<Longrightarrow> k * 0x2000 \<le> unat (esp s) \<and> unat (esp s) < k * 0x2000 + 0x2000" by linarith
  qed (rule div_nat_eqI, simp_all)
  have e: "unat (0x3FF - esp s div fs_8KB) = (if ?q \<le> 0x3FF then 0x3FF - ?q else 0x3FF + 4294967296 - ?q)"
    by (simp add: unat_minus_if q)
  have big: "?q \<le> 524287" using u32_lt [of "esp s"] by linarith
  have "get_pcb s = Some p \<longleftrightarrow> p < 6 \<and> ?q = 0x3FF - p"
  proof -
    have "get_pcb s = (if 6 \<le> unat (0x3FF - esp s div fs_8KB) then None else Some (unat (0x3FF - esp s div fs_8KB)))"
      by (simp add: get_pcb_def Let_def word_le_nat_alt)
    then show ?thesis unfolding e using big by (cases "?q \<le> 0x3FF") auto
  qed
  also have "\<dots> \<longleftrightarrow> p < 6 \<and> (0x3FF - p) * 0x2000 \<le> unat (esp s) \<and> unat (esp s) < (0x3FF - p) * 0x2000 + 0x2000"
    by (simp only: r)
  also have "\<dots> \<longleftrightarrow> p < 6 \<and> 0x800000 - (p + 1) * 0x2000 \<le> unat (esp s) \<and> unat (esp s) < 0x800000 - p * 0x2000"
  proof (cases "p < 6")
    case True
    then have "(0x3FF - p) * 0x2000 = 0x800000 - (p + 1) * 0x2000" "0x800000 - (p + 1) * 0x2000 + 0x2000 = 0x800000 - p * 0x2000"
      by simp_all
    then show ?thesis by simp
  qed simp
  finally show ?thesis .
qed

section \<open>Frame facts\<close>

text \<open>What lies beyond the keyboard driver: paging and processes.\<close>

lemma keyboard_more_all:
  assumes "keyboard_state.more t = keyboard_state.more s"
  shows "pageDir t = pageDir s \<and> table t = table s \<and> cr0 t = cr0 s \<and> cr3 t = cr3 s \<and> cr4 t = cr4 s \<and>
    pageDir_addr t = pageDir_addr s \<and> table_addr t = table_addr s \<and> tlb_clean t = tlb_clean s \<and>
    boot t = boot s \<and> curr_pcb t = curr_pcb s \<and> esp t = esp s \<and> ebp t = ebp s \<and>
    tss_ss0 t = tss_ss0 s \<and> tss_esp0 t = tss_esp0 s"
  using assms by (cases s, cases t) simp

lemma machine_more_keyboard: "machine.more t = machine.more s \<Longrightarrow> keyboard_state.more t = keyboard_state.more s"
  by (cases s; cases t) simp

lemma console_more_keyboard:
  "console_state.more t = console_state.more s \<Longrightarrow> keyboard_state.more t = keyboard_state.more s"
  by (cases s; cases t) simp

lemma putc_term_beyond [simp]: "keyboard_state.more (putc_term c s) = keyboard_state.more s"
  by (rule console_more_keyboard) simp

lemma clear_term_beyond [simp]: "keyboard_state.more (clear_term s) = keyboard_state.more s"
  by (rule console_more_keyboard) simp

lemma untab_beyond [simp]:
  "keyboard_state.more (((move_cursor \<circ> backspace_pressed) ^^ n) s) = keyboard_state.more s"
  by (rule console_more_keyboard) simp

lemma machine_ops_beyond [simp]:
  "keyboard_state.more (sti s) = keyboard_state.more s" "keyboard_state.more (cli s) = keyboard_state.more s"
  "keyboard_state.more (outb d p s) = keyboard_state.more s"
  "keyboard_state.more (snd (inb dev p s)) = keyboard_state.more s"
  "keyboard_state.more (send_eoi i s) = keyboard_state.more s"
  by (rule machine_more_keyboard; simp)+

lemma keyboard_char_beyond [simp]: "keyboard_state.more (keyboard_char c s) = keyboard_state.more s"
  by (simp add: keyboard_char_def Let_def)

lemma keyboard_handler_beyond [simp]: "keyboard_state.more (keyboard_handler dev s) = keyboard_state.more s"
  by (simp add: keyboard_handler_def split_beta keyboard_released_def keyboard_pressed_def)

lemma rtc_handler_beyond [simp]: "keyboard_state.more (rtc_handler dev s) = keyboard_state.more s"
  by (simp add: rtc_handler_def Let_def)

lemma isr_beyond [simp]: "keyboard_state.more (isr dev e s) = keyboard_state.more s"
  by (cases e) (simp_all add: isr_def handler_wrapper_def)

lemma spin_beyond:
  "spin flg (isr dev) evs s = Some (rest, t) \<Longrightarrow> keyboard_state.more t = keyboard_state.more s"
  by (induction evs arbitrary: s) (auto split: if_splits)

lemma terminal_read_beyond:
  "terminal_read dev evs buf n s = Some (r, bs, rest, t) \<Longrightarrow> keyboard_state.more t = keyboard_state.more s"
  by (auto simp: terminal_read_def Let_def dest!: spin_beyond split: option.splits)

lemma fold_putc_beyond [simp]:
  "keyboard_state.more (fold (\<lambda>i. putc_term (f i)) xs s) = keyboard_state.more s"
  by (induction xs arbitrary: s) simp_all

lemma terminal_write_beyond: "keyboard_state.more (snd (terminal_write buf n s)) = keyboard_state.more s"
  by (simp add: terminal_write_def Let_def split: option.split)

lemma rtc_read_beyond:
  "rtc_read (isr dev) evs buf s = Some (r, rest, t) \<Longrightarrow> keyboard_state.more t = keyboard_state.more s"
  by (auto simp: rtc_read_def dest!: spin_beyond split: option.splits)

lemma rtc_write_beyond: "keyboard_state.more (snd (rtc_write buf n s)) = keyboard_state.more s"
  by (simp add: rtc_write_def Let_def split: option.split)

lemma rtc_open_beyond: "keyboard_state.more (snd (rtc_open f s)) = keyboard_state.more s"
  by (simp add: rtc_open_def split: option.split)

section \<open>The interface of an operation table\<close>

text \<open>
  What the system calls need of the operations that a descriptor refers to: a read may move the
  position of its own descriptor, and beyond the devices and the memory changes nothing else; a
  write changes nothing beyond the devices.
\<close>

definition same_kernel :: "'a process_state_scheme \<Rightarrow> 'a process_state_scheme \<Rightarrow> bool" where
  "same_kernel s t \<longleftrightarrow>
     pageDir t = pageDir s \<and> table t = table s \<and> cr0 t = cr0 s \<and> cr3 t = cr3 s \<and> cr4 t = cr4 s \<and>
     pageDir_addr t = pageDir_addr s \<and> table_addr t = table_addr s \<and> tlb_clean t = tlb_clean s \<and>
     boot t = boot s \<and> esp t = esp s \<and> ebp t = ebp s \<and> tss_ss0 t = tss_ss0 s \<and> tss_esp0 t = tss_esp0 s"

definition fd_moved :: "nat \<Rightarrow> nat \<Rightarrow> 'a process_state_scheme \<Rightarrow> 'a process_state_scheme \<Rightarrow> bool" where
  "fd_moved p fd s t \<longleftrightarrow> same_kernel s t \<and>
     (\<exists>pos. curr_pcb t = (curr_pcb s)[p := set_fd fd (\<lambda>f. f\<lparr>file_position := pos\<rparr>) (curr_pcb s ! p)])"

lemma same_kernel_refl [simp]: "same_kernel s s"
  by (simp add: same_kernel_def)

lemma same_kernel_trans: "same_kernel s t \<Longrightarrow> same_kernel t u \<Longrightarrow> same_kernel s u"
  by (simp add: same_kernel_def)

lemma same_kernel_set_pcb [simp]: "same_kernel s (set_pcb p f s)"
  by (simp add: same_kernel_def set_pcb_def)

lemma same_kernel_beyond: "keyboard_state.more t = keyboard_state.more s \<Longrightarrow> same_kernel s t \<and> curr_pcb t = curr_pcb s"
  using keyboard_more_all [of t s] by (simp add: same_kernel_def)

lemma set_fd_id: "set_fd fd (\<lambda>f. f) p = p"
  by (simp add: set_fd_def)

lemma fd_moved_beyond: "keyboard_state.more t = keyboard_state.more s \<Longrightarrow> fd_moved p fd s t"
proof -
  assume m: "keyboard_state.more t = keyboard_state.more s"
  let ?f = "file_desc_tb (curr_pcb s ! p) ! fd"
  have "set_fd fd (\<lambda>f. f\<lparr>file_position := file_position ?f\<rparr>) (curr_pcb s ! p) = curr_pcb s ! p"
    by (simp add: set_fd_def)
  then show ?thesis using same_kernel_beyond [OF m] unfolding fd_moved_def by (metis list_update_id)
qed

lemma map_update_same: "g x = g (xs ! i) \<Longrightarrow> map g (xs[i := x]) = map g xs"
proof (rule nth_equalityI)
  fix j
  assume "g x = g (xs ! i)" "j < length (map g (xs[i := x]))"
  then show "map g (xs[i := x]) ! j = map g xs ! j" by (cases "i = j") simp_all
qed simp

locale op_table =
  fixes rd :: "irq list \<Rightarrow> nat \<Rightarrow> cptr option \<Rightarrow> int \<Rightarrow> 'a process_state_scheme \<Rightarrow>
      (int \<times> byte list \<times> irq list \<times> 'a process_state_scheme) option"
    and wr :: "nat \<Rightarrow> cptr option \<Rightarrow> int \<Rightarrow> 'a process_state_scheme \<Rightarrow> int \<times> 'a process_state_scheme"
  assumes rd_moves: "get_pcb s = Some p \<Longrightarrow> rd evs fd buf n s = Some (r, bs, rest, t) \<Longrightarrow> fd_moved p fd s t"
    and wr_keeps: "same_kernel s (snd (wr fd buf n s)) \<and> curr_pcb (snd (wr fd buf n s)) = curr_pcb s"
begin

text \<open>Neither of them opens or closes a descriptor, of this or another process.\<close>

lemma rd_flags:
  assumes "get_pcb s = Some p" "rd evs fd buf n s = Some (r, bs, rest, t)"
  shows "map (map flag \<circ> file_desc_tb) (curr_pcb t) = map (map flag \<circ> file_desc_tb) (curr_pcb s)"
proof -
  obtain pos where t: "curr_pcb t = (curr_pcb s)[p := set_fd fd (\<lambda>f. f\<lparr>file_position := pos\<rparr>) (curr_pcb s ! p)]"
    using rd_moves [OF assms] by (auto simp: fd_moved_def)
  have "map flag (file_desc_tb (set_fd fd (\<lambda>f. f\<lparr>file_position := pos\<rparr>) q)) = map flag (file_desc_tb q)" for q
    by (simp add: set_fd_def map_update_same)
  then have "(map flag \<circ> file_desc_tb) (set_fd fd (\<lambda>f. f\<lparr>file_position := pos\<rparr>) q) = (map flag \<circ> file_desc_tb) q" for q
    by simp
  then show ?thesis unfolding t by (rule map_update_same)
qed

lemma wr_flags: "map (map flag \<circ> file_desc_tb) (curr_pcb (snd (wr fd buf n s))) = map (map flag \<circ> file_desc_tb) (curr_pcb s)"
  using wr_keeps by simp

end

interpretation terminal_ops: op_table "\<lambda>evs fd buf n s. terminal_read dev evs buf n s" "\<lambda>fd buf n s. terminal_write buf n s"
  for dev
  by unfold_locales
    (auto intro: fd_moved_beyond terminal_read_beyond same_kernel_beyond [THEN conjunct1]
      same_kernel_beyond [THEN conjunct2] terminal_write_beyond)

interpretation rtc_ops: op_table
  "\<lambda>evs fd buf n s. map_option (\<lambda>(r, rest, t). (r, [], rest, t)) (rtc_read (isr dev) evs buf s)"
  "\<lambda>fd buf n s. rtc_write buf n s" for dev
  by unfold_locales
    (auto intro: fd_moved_beyond rtc_read_beyond same_kernel_beyond [THEN conjunct1]
      same_kernel_beyond [THEN conjunct2] rtc_write_beyond)

interpretation dir_ops: op_table "\<lambda>evs fd buf n s. map_option (\<lambda>(r, bs, t). (r, bs, evs, t)) (dir_read fd n s)" dir_write
proof unfold_locales
  fix s t :: "'a process_state_scheme" and p evs fd buf n r bs rest
  assume p: "get_pcb s = Some p"
    and "map_option (\<lambda>(r, bs, t). (r, bs, evs, t)) (dir_read fd n s) = Some (r, bs, rest, t)"
  then have "dir_read fd n s = Some (r, bs, t)" by auto
  then have "t = s \<or> t = set_pcb p (set_fd fd (\<lambda>f. f\<lparr>file_position := file_position f + 1\<rparr>)) s"
    using p by (auto simp: dir_read_def Let_def split: prod.splits option.splits)
  then show "fd_moved p fd s t"
  proof
    assume "t = s"
    then show ?thesis by (simp add: fd_moved_beyond)
  next
    assume "t = set_pcb p (set_fd fd (\<lambda>f. f\<lparr>file_position := file_position f + 1\<rparr>)) s"
    then show ?thesis by (auto simp: fd_moved_def set_pcb_def set_fd_def same_kernel_def)
  qed
qed (simp add: dir_write_def)

interpretation file_ops: op_table "\<lambda>evs fd buf n s. map_option (\<lambda>(r, bs, t). (r, bs, evs, t)) (file_read fd n s)" file_write
proof unfold_locales
  fix s t :: "'a process_state_scheme" and p evs fd buf n r bs rest
  assume p: "get_pcb s = Some p"
    and "map_option (\<lambda>(r, bs, t). (r, bs, evs, t)) (file_read fd n s) = Some (r, bs, rest, t)"
  then have "file_read fd n s = Some (r, bs, t)" by auto
  then have "t = s \<or> (\<exists>k. t = set_pcb p (set_fd fd (\<lambda>f. f\<lparr>file_position := file_position f + k\<rparr>)) s)"
    using p by (auto simp: file_read_def Let_def split: prod.splits if_splits)
  then show "fd_moved p fd s t"
  proof
    assume "t = s"
    then show ?thesis by (simp add: fd_moved_beyond)
  next
    assume "\<exists>k. t = set_pcb p (set_fd fd (\<lambda>f. f\<lparr>file_position := file_position f + k\<rparr>)) s"
    then show ?thesis by (auto simp: fd_moved_def set_pcb_def set_fd_def same_kernel_def)
  qed
qed (simp add: file_write_def)

section \<open>Properties\<close>

text \<open>\<open>get_pcb\<close>: a kernel stack pointer in the 8 KiB stack of process \<open>p\<close> finds the control block of \<open>p\<close>, which is
  at the bottom of the same stack, and a pointer outside the six stacks gives NULL.\<close>

theorem get_pcb_spec:
  "get_pcb s = Some p \<longleftrightarrow>
     p < 6 \<and> unat (curr_pcb_addr p) \<le> unat (esp s) \<and> unat (esp s) < unat (curr_pcb_addr p) + 0x2000"
proof -
  have "unat (curr_pcb_addr p) = 0x800000 - (p + 1) * 0x2000" if "p < 6"
  proof -
    from that have "p = 0 \<or> p = 1 \<or> p = 2 \<or> p = 3 \<or> p = 4 \<or> p = 5" by linarith
    then show ?thesis by (elim disjE) (simp_all add: curr_pcb_addr_def fs_consts)
  qed
  then show ?thesis unfolding get_pcb_iff by (cases "p < 6") auto
qed

text \<open>
  Reading an open file to its end in reads of \<open>n\<close> bytes, as \<^verbatim>\<open>cat\<close> does: the bytes until a read
  returns 0. \<open>None\<close>: a read failed, or the fuel was not enough.
\<close>

primrec read_file :: "nat \<Rightarrow> nat \<Rightarrow> int \<Rightarrow> 'a process_state_scheme \<Rightarrow> byte list option" where
  "read_file 0 fd n s = None"
| "read_file (Suc fuel) fd n s =
     (case file_read fd n s of
        None \<Rightarrow> None
      | Some (r, bs, t) \<Rightarrow>
          if r = 0 then Some [] else if r < 0 then None else map_option ((@) bs) (read_file fuel fd n t))"

lemma file_read_next:
  assumes "get_pcb s = Some p" "p < length (curr_pcb s)" "fd \<le> 7" "fd < length (file_desc_tb (curr_pcb s ! p))"
    and "inode (file_desc_tb (curr_pcb s ! p) ! fd) = nd" "file_position (file_desc_tb (curr_pcb s ! p) ! fd) = of_nat off"
    and "nd < boot_nnod (fs s)" "off \<le> length (file_contents (fs s) nd)" "length (file_contents (fs s) nd) < 2147483648"
    and "0 \<le> n" "n < 2147483648"
  defines "bs \<equiv> take (nat n) (drop off (file_contents (fs s) nd))"
  shows "\<exists>t. file_read fd n s = Some (int (length bs), bs, t) \<and> get_pcb t = Some p \<and> fs t = fs s \<and>
    p < length (curr_pcb t) \<and> fd < length (file_desc_tb (curr_pcb t ! p)) \<and>
    inode (file_desc_tb (curr_pcb t ! p) ! fd) = nd \<and>
    file_position (file_desc_tb (curr_pcb t ! p) ! fd) = of_nat (off + length bs)"
proof -
  let ?t = "set_pcb p (set_fd fd (\<lambda>f. f\<lparr>file_position := file_position f + w32 (int (length bs))\<rparr>)) s"
  have u: "unat (of_nat off :: u32) = off" "unat (w32 n) = nat n"
    using assms(8-11) by (simp_all add: unat_of_nat unat_w32)
  have "read_data (fs s) nd (of_nat off) (w32 n) = (int (length bs), bs)"
  proof (rule prod_eqI)
    have le: "unat (of_nat off :: u32) \<le> length (file_contents (fs s) nd)"
        "unat (w32 n) + unat (of_nat off :: u32) < 4294967296" using assms(8-11) u by simp_all
    show "snd (read_data (fs s) nd (of_nat off) (w32 n)) = snd (int (length bs), bs)"
      using read_data_bytes(1) [OF assms(7) le] u by (simp add: bs_def)
    have "min (nat n) (length (file_contents (fs s) nd) - off) < 2147483648" using assms(9) by auto
    then show "fst (read_data (fs s) nd (of_nat off) (w32 n)) = fst (int (length bs), bs)"
      using read_data_bytes(2) [OF assms(7) le] u by (simp add: bs_def s32_of_nat min.commute)
  qed
  then have "file_read fd n s = Some (int (length bs), bs, ?t)"
    using assms(1,3,5,6) by (simp add: file_read_def pcb_of_def)
  moreover have "get_pcb ?t = Some p" "fs ?t = fs s"
    using assms(1) by (simp_all add: get_pcb_def fs_def set_pcb_def)
  moreover have "p < length (curr_pcb ?t)" "fd < length (file_desc_tb (curr_pcb ?t ! p))"
      "inode (file_desc_tb (curr_pcb ?t ! p) ! fd) = nd"
      "file_position (file_desc_tb (curr_pcb ?t ! p) ! fd) = of_nat (off + length bs)"
    using assms(2,4-6) by (simp_all add: set_pcb_def set_fd_def)
  ultimately show ?thesis by blast
qed

text \<open>A descriptor of the current process that is open on the file \<open>nd\<close> at the offset \<open>off\<close>.\<close>

definition open_at :: "nat \<Rightarrow> nat \<Rightarrow> u32 \<Rightarrow> nat \<Rightarrow> 'a process_state_scheme \<Rightarrow> bool" where
  "open_at p fd nd off s \<longleftrightarrow> get_pcb s = Some p \<and> p < length (curr_pcb s) \<and> fd \<le> 7 \<and>
     fd < length (file_desc_tb (curr_pcb s ! p)) \<and> inode (file_desc_tb (curr_pcb s ! p) ! fd) = nd \<and>
     file_position (file_desc_tb (curr_pcb s ! p) ! fd) = of_nat off \<and>
     nd < boot_nnod (fs s) \<and> off \<le> length (file_contents (fs s) nd) \<and> length (file_contents (fs s) nd) < 2147483648"

lemma file_read_open_at:
  assumes "open_at p fd nd off s" "0 \<le> n" "n < 2147483648"
  defines "bs \<equiv> take (nat n) (drop off (file_contents (fs s) nd))"
  shows "\<exists>t. file_read fd n s = Some (int (length bs), bs, t) \<and> fs t = fs s \<and> open_at p fd nd (off + length bs) t"
proof -
  have "off + length bs \<le> length (file_contents (fs s) nd)"
    using assms(1) by (auto simp: open_at_def bs_def)
  then show ?thesis
    using assms(1-3) file_read_next [of s p fd nd off n] unfolding bs_def open_at_def by fastforce
qed

lemma read_file_rest:
  assumes "0 < n" "n < 2147483648"
  shows "open_at p fd nd off s \<Longrightarrow> length (file_contents (fs s) nd) - off < fuel \<Longrightarrow>
     read_file fuel fd n s = Some (drop off (file_contents (fs s) nd))"
proof (induction fuel arbitrary: s off)
  case (Suc fuel)
  let ?c = "file_contents (fs s) nd"
  let ?bs = "take (nat n) (drop off ?c)"
  have off: "off \<le> length ?c" using Suc.prems(1) by (simp add: open_at_def)
  obtain t where t: "file_read fd n s = Some (int (length ?bs), ?bs, t)" "fs t = fs s"
      "open_at p fd nd (off + length ?bs) t"
    using file_read_open_at [OF Suc.prems(1), of n] assms by auto
  show ?case
  proof (cases "off = length ?c")
    case True
    then show ?thesis using t(1) by simp
  next
    case False
    then have pos: "0 < length ?bs" using off assms(1) by simp
    then have "length ?c - (off + length ?bs) < fuel" using Suc.prems(2) off False by linarith
    then have "read_file fuel fd n t = Some (drop (off + length ?bs) ?c)"
      using Suc.IH [OF t(3)] unfolding t(2) by blast
    moreover have "?bs @ drop (off + length ?bs) ?c = drop off ?c"
      by (rule take_append_rest)
    ultimately show ?thesis using t(1) pos by simp
  qed
qed simp

text \<open>C26. Reading an open file from its start in reads of any size returns exactly its contents, in order and without
  gaps or repetitions, and ends: the position in the descriptor moves with the reads.\<close>

theorem read_file_contents:
  assumes "open_at p fd nd 0 s" "0 < n" "n < 2147483648" "length (file_contents (fs s) nd) < fuel"
  shows "read_file fuel fd n s = Some (file_contents (fs s) nd)"
  using read_file_rest [OF assms(2,3,1)] assms(4) by simp

definition blank_fd :: file_desc where
  "blank_fd = \<lparr>f_op = No_op, inode = 0, file_position = 0, flag = 0\<rparr>"

definition blank_pcb :: pcb where
  "blank_pcb = \<lparr>file_desc_tb = replicate 8 blank_fd, args = replicate 128 0, pid = 0, parent_pid = 0,
     saved_esp = 0, saved_ebp = 0, active = 0\<rparr>"

text \<open>A kernel with the small file system image, in the stack of the first process.\<close>

definition tiny_kernel :: process_state where
  "tiny_kernel = paging_state.extend (blank_paging\<lparr>ram := (\<lambda>a. tiny_fs (unat (a - 0x600000)))\<rparr>)
     \<lparr>boot = 0x600000, curr_pcb = replicate 6 blank_pcb, esp = 0x7FFF00, ebp = 0x7FFF80, tss_ss0 = 0x18,
      tss_esp0 = 0x7FFFFC\<rparr>"

lemma tiny_kernel_fields [simp]:
  "boot tiny_kernel = 0x600000" "curr_pcb tiny_kernel = replicate 6 blank_pcb" "esp tiny_kernel = 0x7FFF00"
  "ram tiny_kernel a = tiny_fs (unat (a - 0x600000))" "paging_state.truncate tiny_kernel = blank_paging\<lparr>ram := (\<lambda>a. tiny_fs (unat (a - 0x600000)))\<rparr>"
  by (simp_all add: tiny_kernel_def paging_state.defs)

lemma fs_tiny_kernel: "i < 4294967296 \<Longrightarrow> fs tiny_kernel i = tiny_fs i"
  by (simp add: fs_def unat_of_nat)

lemma tiny_kernel_file: "boot_nnod (fs tiny_kernel) = 1" "file_contents (fs tiny_kernel) 0 = [0x68, 0x69]"
proof -
  show nnod: "boot_nnod (fs tiny_kernel) = 1" by (simp add: boot_nnod_def load_le32_def fs_tiny_kernel tiny_fs_def)
  have "inode_len (fs tiny_kernel) (inode_at 0) = 2"
    by (simp add: inode_len_def inode_at_def load_le32_def fs_tiny_kernel tiny_fs_def BLKSIZE_def)
  moreover have "[0..<2] = [0, 1 :: nat]" by (simp add: numeral_2_eq_2)
  ultimately show "file_contents (fs tiny_kernel) 0 = [0x68, 0x69]"
    by (simp add: file_contents_def nnod file_byte_def block_data_def block_at_def inode_data_def inode_at_def
        load_le32_def fs_tiny_kernel tiny_fs_def BLKSIZE_def)
qed

theorem read_file_contents_witness: "read_file 3 2 1 tiny_kernel = Some [0x68, 0x69]"
proof -
  have "get_pcb tiny_kernel = Some 0" by (simp add: get_pcb_iff)
  then have "open_at 0 2 0 0 tiny_kernel"
    by (simp add: open_at_def tiny_kernel_file blank_pcb_def blank_fd_def)
  then show ?thesis using read_file_contents [of 0 2 0 tiny_kernel 1 3] by (simp add: tiny_kernel_file)
qed

section \<open>Reading a directory\<close>

lemma dir_copy_spec:
  "dir_copy nm i k =
     (let c = takeWhile (\<lambda>b. b \<noteq> 0) (map nm [i..<i + k])
      in (i + length c, if length c < k then c @ [0] else c))"
proof (induction k arbitrary: i)
  case (Suc k)
  have "map nm [i..<i + Suc k] = nm i # map nm [Suc i..<Suc i + k]" by (simp add: upt_conv_Cons del: upt_Suc)
  then show ?case by (simp add: Suc.IH Let_def)
qed simp

text \<open>The name of a directory entry: its characters up to a NUL, at most 32.\<close>

definition entry_name :: "dentry \<Rightarrow> byte list" where
  "entry_name d = takeWhile (\<lambda>b. b \<noteq> 0) (name d)"

lemma length_boot_name [simp]: "length (name (boot_dirs img i)) = 32"
  by (simp add: boot_dirs_def Let_def)

lemma takeWhile_take_swap: "takeWhile P (take k xs) = take k (takeWhile P xs)"
proof (induction xs arbitrary: k)
  case (Cons x xs)
  then show ?case by (cases k) simp_all
qed simp

lemma takeWhile_prefix:
  assumes "length (takeWhile P xs) < length xs"
  shows "takeWhile P (take k (xs @ ys)) = take k (takeWhile P xs)"
proof -
  have "takeWhile P (xs @ ys) = takeWhile P xs"
    using assms by (metis (no_types, lifting) nat_neq_iff takeWhile_append1 takeWhile_eq_all_conv)
  then show ?thesis by (simp only: takeWhile_take_swap)
qed

text \<open>
  The copy loop on a name: a name of 32 characters has no NUL in its field, so a buffer of more than
  32 bytes is covered for shorter names only.
\<close>

lemma dir_copy_name:
  assumes "length (entry_name d) < 32 \<or> n \<le> 32" "length (name d) = 32"
  shows "dir_copy (list_view (dentry_bytes d)) 0 n =
    (min n (length (entry_name d)), if length (entry_name d) < n then entry_name d @ [0] else take n (entry_name d))"
proof -
  let ?bs = "dentry_bytes d"
  have "map (list_view ?bs) [0..<n] = take n (?bs @ replicate n 0)"
    by (rule nth_equalityI) (auto simp: list_view_def nth_append)
  also have "\<dots> = take n (name d @ (le32_bytes (ft d) @ le32_bytes (ind d) @ res d @ replicate n 0))"
    unfolding dentry_bytes_def append_assoc ..
  finally have m: "map (list_view ?bs) [0..<n] = \<dots>" .
  have c: "takeWhile (\<lambda>b. b \<noteq> 0) (map (list_view ?bs) [0..<n]) = take n (entry_name d)"
  proof (cases "length (entry_name d) < 32")
    case True
    then show ?thesis unfolding m entry_name_def using assms(2) by (intro takeWhile_prefix) (simp add: entry_name_def)
  next
    case False
    then have n: "n \<le> 32" using assms(1) by simp
    have "take n (name d @ (le32_bytes (ft d) @ le32_bytes (ind d) @ res d @ replicate n 0)) = take n (name d)"
      using n assms(2) by (simp add: take_append)
    then show ?thesis unfolding m entry_name_def by (simp only: takeWhile_take_swap)
  qed
  show ?thesis unfolding dir_copy_spec add_0 c Let_def by (auto simp: min_def)
qed

lemma length_entry_name [simp]: "length (entry_name (boot_dirs img i)) \<le> 32"
  using length_takeWhile_le [of "\<lambda>b. b \<noteq> 0" "name (boot_dirs img i)"] by (simp add: entry_name_def)

lemma dir_copy_32:
  "dir_copy (list_view (dentry_bytes (boot_dirs img i))) 0 32 =
     (length (entry_name (boot_dirs img i)), take 32 (entry_name (boot_dirs img i) @ [0]))"
  using length_entry_name [of img i] by (subst dir_copy_name) (auto simp: min_def take_Cons' order.antisym)

text \<open>Listing a directory: \<open>dir_read\<close> at position \<open>i\<close> stores the name of the \<open>i\<close>-th entry with a NUL when it
  fits, cut to the buffer when it does not, returns the number of its characters and moves to the next entry, for
  names shorter than 32 characters and for buffers of at most 32 bytes.\<close>

theorem dir_read_name:
  assumes "get_pcb s = Some p" "file_position (file_desc_tb (curr_pcb s ! p) ! fd) = i" "i < boot_nent (fs s)"
    and "length (entry_name (boot_dirs (fs s) (unat i))) < 32 \<or> n \<le> 32"
  shows "dir_read fd n s =
    (let nm = entry_name (boot_dirs (fs s) (unat i)) in
     Some (min (max n 0) (int (length nm)),
           if int (length nm) < n then nm @ [0] else take (nat n) nm,
           set_pcb p (set_fd fd (\<lambda>f. f\<lparr>file_position := i + 1\<rparr>)) s))"
proof -
  let ?d = "boot_dirs (fs s) (unat i)"
  have pos: "set_fd fd (\<lambda>f. f\<lparr>file_position := file_position f + 1\<rparr>) (curr_pcb s ! p) =
      set_fd fd (\<lambda>f. f\<lparr>file_position := i + 1\<rparr>) (curr_pcb s ! p)"
    using assms(2) by (simp add: set_fd_def)
  have "\<not> boot_nent (fs s) < i" using assms(3) by simp
  then have "dir_read fd n s = (case dir_copy (list_view (dentry_bytes ?d)) 0 (nat n) of
      (k, bs) \<Rightarrow> Some (int k, bs, set_pcb p (set_fd fd (\<lambda>f. f\<lparr>file_position := i + 1\<rparr>)) s))"
    using assms(1,2) pos by (simp add: dir_read_def pcb_of_def read_dentry_by_index_def set_pcb_def)
  moreover have "length (entry_name ?d) < 32 \<or> nat n \<le> 32" using assms(4) by auto
  ultimately show ?thesis by (simp only: dir_copy_name [OF _ length_boot_name]) (auto simp: Let_def)
qed

theorem dir_read_name_witness:
  "\<exists>t. dir_read 2 10 tiny_kernel = Some (1, [0x61, 0], t)"
proof -
  have "get_pcb tiny_kernel = Some 0" by (simp add: get_pcb_iff)
  moreover have "boot_nent (fs tiny_kernel) = 1" by (simp add: boot_nent_def load_le32_def fs_tiny_kernel tiny_fs_def)
  moreover have nm: "entry_name (boot_dirs (fs tiny_kernel) 0) = [0x61]"
  proof -
    have "name (boot_dirs (fs tiny_kernel) 0) = 0x61 # 0 # map (fs tiny_kernel) [66..<96]"
      by (simp add: boot_dirs_def Let_def fs_tiny_kernel tiny_fs_def upt_rec [of 64] upt_rec [of 65])
    then show ?thesis by (simp add: entry_name_def)
  qed
  ultimately show ?thesis using dir_read_name [of tiny_kernel 0 2 0 10] by (simp add: blank_pcb_def blank_fd_def)
qed

text \<open>
  A name of exactly 32 characters has no NUL: the loop runs on into the type field, so the
  listing of a regular file (type 2) ends in a byte that is not part of its name.
\<close>

lemma dir_copy_long_name:
  assumes "length (name d) = 32" "0 \<notin> set (name d)" "ft d = 2" "34 \<le> n"
  shows "dir_copy (list_view (dentry_bytes d)) 0 n = (33, name d @ [2, 0])"
proof -
  let ?bs = "dentry_bytes d"
  have "map (list_view ?bs) [0..<n] = take n (?bs @ replicate n 0)"
    by (rule nth_equalityI) (auto simp: list_view_def nth_append)
  also have "\<dots> = name d @ 2 # 0 # take (n - 34) (drop 34 (?bs @ replicate n 0))"
    using assms by (simp add: dentry_bytes_def le32_bytes_def take_Cons' diff_diff_left)
  finally have "takeWhile (\<lambda>b. b \<noteq> 0) (map (list_view ?bs) [0..<n]) = name d @ [2]"
    using assms(2) by (simp add: takeWhile_append takeWhile_eq_all_conv)
  then show ?thesis using assms unfolding dir_copy_spec by simp
qed

end
