(* ===== verification/Syscall.thy ===== *)
theory Syscall
  imports Process
begin

text \<open>
  The system calls, \<^verbatim>\<open>src/student-distrib/syscall.c\<close>, and their dispatch from
  \<^verbatim>\<open>src/student-distrib/handler_wrapper.S\<close>.

  A call ends in one of three ways, its \<open>outcome\<close>: it returns a value to the program, it enters a
  new program at its entry point (\<open>sys_execute\<close>), or it resumes the parent with the value that the
  parent's \<open>sys_execute\<close> returns (\<open>sys_halt\<close>). \<open>None\<close> is a call that does not end, because it waits
  for interrupts that have not come or has run into a page fault, whose handler never returns, or a
  call about which the model says nothing, because it reads or writes the kernel's own page through
  a pointer of the program.

  The programs' memory is reached through the page tables: \<open>vview\<close> is what a pointer of the program
  shows to the kernel, \<open>vreads\<close> says that bytes behind it can be read, and \<open>vstore\<close> stores to it;
  all translate every address with \<open>page_walk\<close>. Every call that reads through a pointer first asks
  \<open>vreads\<close> for exactly the bytes that the code looks at.

  The code checks no pointer but that of \<open>sys_vidmap\<close>. A program may therefore pass an address from
  4 to 8 MiB, where the kernel keeps its variables, the page tables and the control blocks, and have
  \<open>sys_read\<close> or \<open>sys_getargs\<close> overwrite them (\<open>vstore_kernel\<close>). Here these are fields of records and
  not bytes of \<open>ram\<close>; so \<open>vwalk\<close> leaves the kernel page out, and such a call is None.
\<close>

section \<open>Data\<close>

datatype outcome = Ret int | Enter u32 u32 | Resume int

definition MB_132 :: u32 where "MB_132 = 0x08400000"
definition MB_128 :: u32 where "MB_128 = 0x08000000"
definition PROC_OFFSET :: u32 where "PROC_OFFSET = 0x00048000"
definition MB_8 :: u32 where "MB_8 = 0x00800000"
definition MB_4 :: u32 where "MB_4 = 0x00400000"
definition KB_8 :: u32 where "KB_8 = 0x00002000"
definition MAX_CMD_LEN :: nat where "MAX_CMD_LEN = 32"
definition MAX_PROCESSES :: nat where "MAX_PROCESSES = 6"
definition MAX_FILES :: nat where "MAX_FILES = 8"
definition KERNEL_STACK_BOTTOM :: u32 where "KERNEL_STACK_BOTTOM = (1024 - 1) * 0x1000"
definition KERNEL_DS :: u32 where "KERNEL_DS = 0x0018"

lemmas sys_consts = MB_132_def MB_128_def PROC_OFFSET_def MB_8_def MB_4_def KB_8_def MAX_CMD_LEN_def
  MAX_PROCESSES_def MAX_FILES_def KERNEL_STACK_BOTTOM_def KERNEL_DS_def

definition check_exe :: "byte list" where "check_exe = [0x7f, 0x45, 0x4c, 0x46]"

section \<open>Memory of programs\<close>

definition vview :: "'a process_state_scheme \<Rightarrow> u32 \<Rightarrow> cptr option" where
  "vview s a =
     (if a = 0 then None
      else Some (\<lambda>i. case page_walk s False False (a + of_nat i) of Some pa \<Rightarrow> ram s pa | None \<Rightarrow> 0))"

text \<open>The kernel's own page, by physical address.\<close>

definition kernel_page :: "u32 \<Rightarrow> bool" where
  "kernel_page pa \<longleftrightarrow> 0x400000 \<le> pa \<and> pa < 0x800000"

definition vwalk :: "'a process_state_scheme \<Rightarrow> bool \<Rightarrow> u32 \<Rightarrow> u32 option" where
  "vwalk s write a =
     (case page_walk s False write a of
        None \<Rightarrow> None
      | Some pa \<Rightarrow> if kernel_page pa then None else Some pa)"

definition vreads :: "'a process_state_scheme \<Rightarrow> u32 \<Rightarrow> nat \<Rightarrow> bool" where
  "vreads s a n \<longleftrightarrow> list_all (\<lambda>i. vwalk s False (a + of_nat i) \<noteq> None) [0..<n]"

primrec vstore :: "byte list \<Rightarrow> u32 \<Rightarrow> 'a process_state_scheme \<Rightarrow> 'a process_state_scheme option" where
  "vstore [] a s = Some s"
| "vstore (b # bs) a s =
     (case vwalk s True a of
        None \<Rightarrow> None
      | Some pa \<Rightarrow> vstore bs (a + 1) (s\<lparr>ram := (ram s)(pa := b)\<rparr>))"

text \<open>
  How many bytes the operations look at behind their pointer: \<open>terminal_write\<close> all of its bytes and
  \<open>rtc_write\<close> a frequency, \<open>strncmp\<close> the bytes of its first argument up to the one where it stops,
  and the search by name the most that one of its comparisons does.
\<close>

definition write_reads :: "fap \<Rightarrow> int \<Rightarrow> nat" where
  "write_reads op n =
     (case op of Terminal_op \<Rightarrow> nat n | Rtc_op \<Rightarrow> if n = 4 then 4 else 0 | _ \<Rightarrow> 0)"

definition strncmp_reads :: "cptr \<Rightarrow> cptr \<Rightarrow> nat \<Rightarrow> nat" where
  "strncmp_reads s1 s2 n =
     (case find (\<lambda>i. s1 i \<noteq> s2 i \<or> s1 i = 0) [0..<n] of None \<Rightarrow> n | Some i \<Rightarrow> i + 1)"

function search_reads :: "cptr \<Rightarrow> cptr \<Rightarrow> nat \<Rightarrow> nat" where
  "search_reads img fname i =
     (if i < unat (boot_nent img) then
        let nm = list_view (name (boot_dirs img i)); r = strncmp_reads fname nm 32 in
        if strncmp fname nm 32 = 0 then r else max r (search_reads img fname (i + 1))
      else 0)"
  by auto
termination by (relation "measure (\<lambda>(img, fname, i). unat (boot_nent img) - i)") auto

declare search_reads.simps [simp del]

section \<open>Calls through a descriptor\<close>

definition fap_read ::
  "device \<Rightarrow> irq list \<Rightarrow> fap \<Rightarrow> nat \<Rightarrow> cptr option \<Rightarrow> int \<Rightarrow> 'a process_state_scheme \<Rightarrow>
     (int \<times> byte list \<times> irq list \<times> 'a process_state_scheme) option" where
  "fap_read dev evs op fd buf n s =
     (case op of
        No_op \<Rightarrow> None
      | Terminal_op \<Rightarrow> terminal_read dev evs buf n s
      | Rtc_op \<Rightarrow> map_option (\<lambda>(r, rest, t). (r, [], rest, t)) (rtc_read (isr dev) evs buf s)
      | Dir_op \<Rightarrow> map_option (\<lambda>(r, bs, t). (r, bs, evs, t)) (dir_read fd n s)
      | File_op \<Rightarrow> map_option (\<lambda>(r, bs, t). (r, bs, evs, t)) (file_read fd n s))"

definition fap_write ::
  "fap \<Rightarrow> nat \<Rightarrow> cptr option \<Rightarrow> int \<Rightarrow> 'a process_state_scheme \<Rightarrow> (int \<times> 'a process_state_scheme) option" where
  "fap_write op fd buf n s =
     (case op of
        No_op \<Rightarrow> None
      | Terminal_op \<Rightarrow> Some (terminal_write buf n s)
      | Rtc_op \<Rightarrow> Some (rtc_write buf n s)
      | Dir_op \<Rightarrow> Some (dir_write fd buf n s)
      | File_op \<Rightarrow> Some (file_write fd buf n s))"

definition sys_read ::
  "device \<Rightarrow> irq list \<Rightarrow> int \<Rightarrow> u32 \<Rightarrow> int \<Rightarrow> 'a process_state_scheme \<Rightarrow>
     (int \<times> irq list \<times> 'a process_state_scheme) option" where
  "sys_read dev evs fd buf nbytes s =
     (if fd < 0 then Some (-1, evs, s)
      else if fd = 1 then Some (-1, evs, s)
      else if fd > 7 then Some (-1, evs, s)
      else case get_pcb s of
        None \<Rightarrow> None
      | Some p \<Rightarrow>
          let f = file_desc_tb (pcb_of s p) ! nat fd in
          if flag f = 0 then Some (-1, evs, s)
          else case fap_read dev evs (f_op f) (nat fd) (vview s buf) nbytes s of
            None \<Rightarrow> None
          | Some (valid, bs, rest, t) \<Rightarrow> map_option (\<lambda>u. (valid, rest, u)) (vstore bs buf t))"

text \<open>
  A write through a descriptor faults when a byte that it looks at is not mapped. The descriptor is
  read before its number is checked: out of range, at an address outside the table.
\<close>

definition fd_write ::
  "fap \<Rightarrow> nat \<Rightarrow> u32 \<Rightarrow> int \<Rightarrow> 'a process_state_scheme \<Rightarrow> (int \<times> 'a process_state_scheme) option" where
  "fd_write op fd buf n s =
     (if buf \<noteq> 0 \<and> \<not> vreads s buf (write_reads op n) then None
      else fap_write op fd (vview s buf) n s)"

definition sys_write :: "int \<Rightarrow> u32 \<Rightarrow> int \<Rightarrow> 'a process_state_scheme \<Rightarrow> (int \<times> 'a process_state_scheme) option" where
  "sys_write fd buf nbytes s =
     (case get_pcb s of
        None \<Rightarrow> None
      | Some p \<Rightarrow>
          if fd < 0 \<or> fd > 7 then
            (case page_walk s False False (curr_pcb_addr p + w32 (16 * fd + 12)) of
               None \<Rightarrow> None
             | Some _ \<Rightarrow> Some (-1, s))
          else let f = file_desc_tb (pcb_of s p) ! nat fd in
            if flag f = 0 then Some (-1, s)
            else if fd > 1 then
              (case fd_write (f_op f) (nat fd) buf nbytes s of
                 None \<Rightarrow> None
               | Some (valid, t) \<Rightarrow> if valid \<noteq> -1 then Some (nbytes, t) else Some (-1, t))
            else if fd = 0 then Some (-1, s)
            else fd_write (f_op f) (nat fd) buf nbytes s)"

definition sys_open :: "u32 \<Rightarrow> 'a process_state_scheme \<Rightarrow> (int \<times> 'a process_state_scheme) option" where
  "sys_open filename s =
     (case vview s filename of
        None \<Rightarrow> if boot_nent (fs s) = 0 then Some (-1, s) else None
      | Some fname \<Rightarrow>
          if \<not> vreads s filename (search_reads (fs s) fname 0) then None
          else (case read_dentry_by_name (fs s) fname of
             (r, None) \<Rightarrow> Some (-1, s)
           | (r, Some d) \<Rightarrow>
               (case get_pcb s of
                  None \<Rightarrow> None
                | Some p \<Rightarrow>
                    if ft d = 0 then
                      (case free_fd (pcb_of s p) of
                         None \<Rightarrow> Some (-1, s)
                       | Some i \<Rightarrow>
                           let s = set_pcb p (set_fd i (\<lambda>f. f\<lparr>f_op := Rtc_op, flag := 1, file_position := 0\<rparr>)) s
                           in Some (int i, snd (rtc_open (Some fname) s)))
                    else if ft d = 1 then
                      (case free_fd (pcb_of s p) of
                         None \<Rightarrow> Some (-1, s)
                       | Some i \<Rightarrow>
                           Some (int i, set_pcb p (set_fd i (\<lambda>f. f\<lparr>f_op := Dir_op, flag := 1, file_position := 0\<rparr>)) s))
                    else if ft d = 2 then
                      (case free_fd (pcb_of s p) of
                         None \<Rightarrow> Some (-1, s)
                       | Some i \<Rightarrow>
                           Some (int i, set_pcb p (set_fd i
                             (\<lambda>f. f\<lparr>f_op := File_op, flag := 1, file_position := 0, inode := ind d\<rparr>)) s))
                    else Some (0, s))))"

definition sys_close :: "int \<Rightarrow> 'a process_state_scheme \<Rightarrow> (int \<times> 'a process_state_scheme) option" where
  "sys_close fd s =
     (if fd \<le> 1 \<or> fd \<ge> 8 then Some (-1, s)
      else case get_pcb s of
        None \<Rightarrow> None
      | Some p \<Rightarrow>
          if flag (file_desc_tb (pcb_of s p) ! nat fd) = 0 then Some (-1, s)
          else Some (0, set_pcb p (set_fd (nat fd) (\<lambda>f. f\<lparr>flag := 0\<rparr>)) s))"

text \<open>The memory from \<^verbatim>\<open>args\<close> on: the rest of the control block and what lies \<open>beyond\<close> it.\<close>

definition args_memory :: "cptr \<Rightarrow> pcb \<Rightarrow> cptr" where
  "args_memory beyond p =
     (let bs = args p @ le32_bytes (pid p) @ le32_bytes (parent_pid p) @ le32_bytes (saved_esp p) @
               le32_bytes (saved_ebp p) @ le32_bytes (active p)
      in (\<lambda>i. if i < length bs then bs ! i else beyond i))"

definition sys_getargs ::
  "cptr \<Rightarrow> u32 \<Rightarrow> int \<Rightarrow> 'a process_state_scheme \<Rightarrow> (int \<times> 'a process_state_scheme) option" where
  "sys_getargs beyond buf nbytes s =
     (if buf = 0 \<or> nbytes \<le> 0 then Some (-1, s)
      else case get_pcb s of
        None \<Rightarrow> None
      | Some p \<Rightarrow>
          let a = args_memory beyond (pcb_of s p) in
          if a 0 = 0 then Some (-1, s)
          else case strlen a of
            None \<Rightarrow> None
          | Some n \<Rightarrow>
              if nat nbytes \<le> n then Some (-1, s)
              else map_option (\<lambda>t. (0, t)) (vstore (view_take a (nat nbytes)) buf s))"

definition sys_vidmap :: "u32 \<Rightarrow> 'a process_state_scheme \<Rightarrow> (int \<times> 'a process_state_scheme) option" where
  "sys_vidmap screen_start s =
     (if screen_start < MB_128 \<or> screen_start > MB_132 then Some (-1, s)
      else map_option (\<lambda>t. (0, t)) (vstore (le32_bytes (MB_4 * 33 + 0xB8000)) screen_start s))"

definition sys_sethandler :: "int \<Rightarrow> u32 \<Rightarrow> int" where
  "sys_sethandler signum handler_address = -1"

definition sys_sigreturn :: int where
  "sys_sigreturn = -1"

section \<open>Running programs\<close>

text \<open>The first word of the command: where it ends, and the buffer \<^verbatim>\<open>command_name\<close>.\<close>

function cmd_scan :: "cptr \<Rightarrow> nat \<Rightarrow> nat" where
  "cmd_scan command i =
     (if command i \<noteq> 0x0A \<and> command i \<noteq> 0x20 \<and> i < 32 then cmd_scan command (i + 1) else i)"
  by auto
termination by (relation "measure (\<lambda>(c, i). 32 - i)") auto

definition command_name :: "cptr \<Rightarrow> byte list" where
  "command_name command =
     (let i = cmd_scan command 0 in view_take command i @ replicate (MAX_CMD_LEN - i) 0)"

text \<open>Skipping spaces, and the buffer \<^verbatim>\<open>args\<close>, filled from index \<open>i\<close> of the command.\<close>

partial_function (option) skip_spaces :: "cptr \<Rightarrow> nat \<Rightarrow> nat option" where
  "skip_spaces command i = (if command i = 0x20 then skip_spaces command (i + 1) else Some i)"

function arg_scan :: "cptr \<Rightarrow> nat \<Rightarrow> nat \<Rightarrow> nat" where
  "arg_scan command i j =
     (if command (i + j) \<noteq> 0x0A \<and> command (i + j) \<noteq> 0 \<and> i + j < 128 then arg_scan command i (j + 1) else j)"
  by auto
termination by (relation "measure (\<lambda>(c, i, j). 128 - (i + j))") auto

declare cmd_scan.simps [simp del] arg_scan.simps [simp del]

definition command_args :: "cptr \<Rightarrow> byte list option" where
  "command_args command =
     (let i = cmd_scan command 0 in
      if command i = 0x20 then
        map_option (\<lambda>i. let j = arg_scan command i 0 in
            map (\<lambda>k. command (i + k)) [0..<j] @ replicate (128 - j) 0)
          (skip_spaces command i)
      else Some (replicate 128 0))"

text \<open>
  The bytes of a command that \<open>sys_execute\<close> looks at: the first word and the byte where it ends, and
  the arguments if it comes to them.
\<close>

definition command_reads :: "cptr \<Rightarrow> nat" where
  "command_reads command =
     (let i = cmd_scan command 0; nm = command_name command in
      if nm ! 0 = 0 \<or> strncmp (list_view nm) (list_view (ascii ''quit'')) 4 = 0 \<or> command i \<noteq> 0x20 then i + 1
      else case skip_spaces command i of
        None \<Rightarrow> i + 1
      | Some k \<Rightarrow> k + arg_scan command k 0 + 1)"

text \<open>
  Copying the arguments with \<^verbatim>\<open>strcpy\<close> into the control block: the string and its NUL, the rest
  of the old arguments stays.
\<close>

definition strcpy_args :: "byte list \<Rightarrow> byte list \<Rightarrow> byte list" where
  "strcpy_args as old =
     (let c = takeWhile (\<lambda>b. b \<noteq> 0) as in c @ 0 # drop (length c + 1) old)"

text \<open>Mapping the page of a program and flushing the TLB, as both \<open>sys_execute\<close> and \<open>sys_halt\<close> do.\<close>

definition map_program :: "u32 \<Rightarrow> 'a process_state_scheme \<Rightarrow> 'a process_state_scheme" where
  "map_program n s =
     (let d = 7;
          d = bf_set struct_page ''ps'' 1 d;
          d = bf_set struct_page ''add_22_31'' (drop_bit 22 (MB_8 + MB_4 * n)) d
      in flushTLB (chgDir 32 d s))"

text \<open>The control block of a new process; of the descriptors 2 to 5 only the flag is reset.\<close>

definition new_pcb :: "nat \<Rightarrow> 'a process_state_scheme \<Rightarrow> pcb \<Rightarrow> pcb" where
  "new_pcb pcb_index s p =
     (let p = p\<lparr>pid := of_nat pcb_index, active := 1\<rparr>;
          p = p\<lparr>parent_pid := pid p - 1, saved_esp := MB_8 - 1\<rparr>;
          p = set_fd 0 (\<lambda>f. f\<lparr>flag := 1, f_op := Terminal_op\<rparr>) p;
          p = set_fd 1 (\<lambda>f. f\<lparr>flag := 1, f_op := Terminal_op\<rparr>) p;
          p = fold (\<lambda>i. set_fd i (\<lambda>f. f\<lparr>flag := 0\<rparr>)) [2..<MAX_PROCESSES] p
      in p\<lparr>saved_esp := esp s, saved_ebp := ebp s\<rparr>)"

definition exe_header :: "'a process_state_scheme \<Rightarrow> u32 \<Rightarrow> byte list" where
  "exe_header s nd =
     (let bs = snd (read_data (fs s) nd 0 40) in bs @ replicate (40 - length bs) 0)"

definition exe_entry :: "byte list \<Rightarrow> u32" where
  "exe_entry exe =
     (ucast (exe ! 24) AND 0xFF) + push_bit 8 (ucast (exe ! 25) AND 0xFF) +
     push_bit 16 (ucast (exe ! 26) AND 0xFF) + push_bit 24 (ucast (exe ! 27) AND 0xFF)"

text \<open>The part of \<open>sys_execute\<close> that cannot fail any more: loading the file \<open>nd\<close> and entering it.\<close>

definition start_program ::
  "byte list \<Rightarrow> u32 \<Rightarrow> u32 \<Rightarrow> nat \<Rightarrow> 'a process_state_scheme \<Rightarrow> (outcome \<times> 'a process_state_scheme) option" where
  "start_program as nd entry_point pcb_index s =
     (let s = set_pcb pcb_index (\<lambda>p. p\<lparr>args := strcpy_args as (args p)\<rparr>) s;
          s = map_program (of_nat pcb_index) s
      in case vstore (snd (read_data (fs s) nd 0 KERNEL_STACK_BOTTOM)) (MB_128 + PROC_OFFSET) s of
           None \<Rightarrow> None
         | Some s \<Rightarrow>
             let s = set_pcb pcb_index (new_pcb pcb_index s) s;
                 user_sp = MB_132 - 4;
                 s = s\<lparr>tss_ss0 := KERNEL_DS, tss_esp0 := MB_8 - of_nat pcb_index * KB_8 - 4, iflag := True\<rparr>
             in Some (Enter entry_point user_sp, s))"

text \<open>
  \<open>sys_execute\<close> with the call of \<open>sys_halt\<close> for \<^verbatim>\<open>quit\<close> as a parameter: \<open>sys_halt\<close> in turn executes
  the shell, so the two are defined one after the other.
\<close>

definition execute_with ::
  "('a process_state_scheme \<Rightarrow> (outcome \<times> 'a process_state_scheme) option) \<Rightarrow> cptr \<Rightarrow>
     'a process_state_scheme \<Rightarrow> (outcome \<times> 'a process_state_scheme) option" where
  "execute_with halt command s =
     (let nm = command_name command in
      if nm ! 0 = 0 then Some (Ret 0, s)
      else if strncmp (list_view nm) (list_view (ascii ''quit'')) 4 = 0 then halt s
      else case command_args command of
        None \<Rightarrow> None
      | Some as \<Rightarrow>
          (case read_dentry_by_name (fs s) (list_view nm) of
             (r, None) \<Rightarrow> Some (Ret (-1), s)
           | (r, Some d) \<Rightarrow>
               if ft d \<noteq> 2 then Some (Ret (-1), s)
               else let exe = exe_header s (ind d) in
                 if strncmp (list_view exe) (list_view check_exe) 4 \<noteq> 0 then Some (Ret (-1), s)
                 else case find (\<lambda>i. active (curr_pcb s ! i) = 0) [0..<MAX_PROCESSES] of
                   None \<Rightarrow> Some (Ret (-1), s)
                 | Some pcb_index \<Rightarrow> start_program as (ind d) (exe_entry exe) pcb_index s))"

text \<open>
  \<open>sys_halt\<close>; \<open>shell\<close> is the string literal that it passes on for the first process. The loop
  over the descriptors resets the flag of descriptor 0 each time. A return of the inner call falls
  through to the code below it.
\<close>

definition halt_close :: "pcb \<Rightarrow> pcb" where
  "halt_close p = fold (\<lambda>i p. (set_fd 0 (\<lambda>f. f\<lparr>flag := 0\<rparr>) p)\<lparr>active := 0\<rparr>) [0..<MAX_FILES] p"

definition halt_return :: "nat \<Rightarrow> byte \<Rightarrow> 'a process_state_scheme \<Rightarrow> (outcome \<times> 'a process_state_scheme) option" where
  "halt_return p status s =
     (let parent = parent_pid (pcb_of s p);
          s = map_program parent s;
          s = s\<lparr>tss_ss0 := KERNEL_DS, tss_esp0 := MB_8 - parent * KB_8 - 4\<rparr>;
          s = s\<lparr>esp := saved_esp (pcb_of s p), ebp := saved_ebp (pcb_of s p)\<rparr>
      in Some (Resume (sint status), s))"

definition sys_halt :: "cptr \<Rightarrow> byte \<Rightarrow> 'a process_state_scheme \<Rightarrow> (outcome \<times> 'a process_state_scheme) option" where
  "sys_halt shell status s =
     (case get_pcb s of
        None \<Rightarrow> None
      | Some p \<Rightarrow>
          let s = set_pcb p halt_close s in
          if parent_pid (pcb_of s p) = -1 then
            let s = set_pcb p (\<lambda>q. q\<lparr>pid := pid q - 1\<rparr>) s;
                s = clear_term s
            in case execute_with (\<lambda>_. None) shell s of
                 Some (Ret r, t) \<Rightarrow> halt_return p status t
               | other \<Rightarrow> other
          else halt_return p status s)"

definition sys_execute :: "cptr \<Rightarrow> cptr \<Rightarrow> 'a process_state_scheme \<Rightarrow> (outcome \<times> 'a process_state_scheme) option" where
  "sys_execute shell command s = execute_with (sys_halt shell 0) command s"

section \<open>Dispatch\<close>

text \<open>
  \<open>syscall_wrapper\<close>: interrupt 0x80 enters the kernel through an interrupt gate, on the stack
  that the TSS gives, \<open>depth\<close> bytes of which the frames above \<open>get_pcb\<close> use. The numbers 1 to 9
  are admitted; the table has the entries 0 to 8, so a call with number 9 goes where the bytes after
  the table point, which is \<open>stray\<close>. The other registers hold the arguments. The final \<^verbatim>\<open>iret\<close>
  restores the interrupt flag of the program; a resumed parent runs with interrupts on, because
  \<open>sys_execute\<close> starts every program with the flag set and a program cannot clear it.
\<close>

definition syscall_entry :: "u32 \<Rightarrow> 'a process_state_scheme \<Rightarrow> 'a process_state_scheme" where
  "syscall_entry depth s = s\<lparr>iflag := False, esp := tss_esp0 s - depth\<rparr>"

definition syscall_exit ::
  "'a process_state_scheme \<Rightarrow> (outcome \<times> 'b \<times> 'a process_state_scheme) option \<Rightarrow>
     (outcome \<times> 'b \<times> 'a process_state_scheme) option" where
  "syscall_exit s0 = map_option (\<lambda>(out, rest, t).
     (out, rest, case out of Ret r \<Rightarrow> t\<lparr>iflag := iflag s0\<rparr> | Enter eip sp \<Rightarrow> t | Resume r \<Rightarrow> t\<lparr>iflag := True\<rparr>))"

definition sys_call_table ::
  "('a process_state_scheme \<Rightarrow> (outcome \<times> 'a process_state_scheme) option) \<Rightarrow> device \<Rightarrow> cptr \<Rightarrow> cptr \<Rightarrow>
     irq list \<Rightarrow> u32 \<Rightarrow> u32 \<Rightarrow> u32 \<Rightarrow> u32 \<Rightarrow> 'a process_state_scheme \<Rightarrow>
     (outcome \<times> irq list \<times> 'a process_state_scheme) option" where
  "sys_call_table stray dev shell beyond evs eax ebx ecx edx s =
     (let ret = map_option (\<lambda>(r, t). (Ret r, evs, t));
          proc = map_option (\<lambda>(out, t). (out, evs, t))
      in if eax = 1 then proc (sys_halt shell (ucast ebx) s)
         else if eax = 2 then
           (case vview s ebx of
              None \<Rightarrow> None
            | Some command \<Rightarrow>
                if \<not> vreads s ebx (command_reads command) then None else proc (sys_execute shell command s))
         else if eax = 3 then
           map_option (\<lambda>(r, rest, t). (Ret r, rest, t)) (sys_read dev evs (s32 ebx) ecx (s32 edx) s)
         else if eax = 4 then ret (sys_write (s32 ebx) ecx (s32 edx) s)
         else if eax = 5 then ret (sys_open ebx s)
         else if eax = 6 then ret (sys_close (s32 ebx) s)
         else if eax = 7 then ret (sys_getargs beyond ebx (s32 ecx) s)
         else if eax = 8 then ret (sys_vidmap ebx s)
         else proc (stray s))"

definition syscall_wrapper ::
  "('a process_state_scheme \<Rightarrow> (outcome \<times> 'a process_state_scheme) option) \<Rightarrow> device \<Rightarrow> cptr \<Rightarrow> cptr \<Rightarrow> u32 \<Rightarrow>
     irq list \<Rightarrow> u32 \<Rightarrow> u32 \<Rightarrow> u32 \<Rightarrow> u32 \<Rightarrow> 'a process_state_scheme \<Rightarrow>
     (outcome \<times> irq list \<times> 'a process_state_scheme) option" where
  "syscall_wrapper stray dev shell beyond depth evs eax ebx ecx edx s0 =
     (let s = syscall_entry depth s0 in
      syscall_exit s0
        (if eax > 9 then Some (Ret (-1), evs, s)
         else if sint eax \<le> 0 then Some (Ret (-1), evs, s)
         else sys_call_table stray dev shell beyond evs eax ebx ecx edx s))"

section \<open>Memory\<close>

text \<open>A run of a store goes through the translation of the state it starts in.\<close>

lemma page_walk_ram [simp]: "page_walk (s\<lparr>ram := m\<rparr>) = page_walk s"
  by (simp add: page_walk_def pde_walk_def fun_eq_iff)

lemma vwalk_ram [simp]: "vwalk (s\<lparr>ram := m\<rparr>) = vwalk s"
  by (simp add: vwalk_def fun_eq_iff)

lemma vwalk_Some: "vwalk s write a = Some pa \<longleftrightarrow> page_walk s False write a = Some pa \<and> \<not> kernel_page pa"
  by (auto simp: vwalk_def split: option.splits)

lemma vreadsI: "(\<And>i. i < n \<Longrightarrow> \<exists>pa. page_walk s False False (a + of_nat i) = Some pa \<and> \<not> kernel_page pa) \<Longrightarrow> vreads s a n"
  by (fastforce simp: vreads_def list_all_iff simp flip: vwalk_Some)

lemma vreads_mono: "vreads s a n \<Longrightarrow> m \<le> n \<Longrightarrow> vreads s a m"
  by (simp add: vreads_def list_all_iff)

text \<open>
  A pointer into the kernel page is mapped, so the processor lets the kernel store through it; the
  model gives up there.
\<close>

lemma vstore_kernel:
  assumes "kernel_space s" "0x400000 \<le> unat a" "unat a < 0x800000"
  shows "page_walk s False True a = Some a" "vstore (b # bs) a s = None"
proof -
  have "unat a div 4194304 \<noteq> 32" using dir_range [of "unat a" 32] assms(3) by simp
  then show w: "page_walk s False True a = Some a"
    using kernel_space_walk [OF assms(1)] boot_space_ranges [of False a] assms(2,3) by simp
  have "kernel_page a" using assms(2,3) by (simp add: kernel_page_def word_le_nat_alt word_less_nat_alt)
  then show "vstore (b # bs) a s = None" using w by (simp add: vwalk_def)
qed

lemma strncmp_reads_le: "strncmp_reads s1 s2 n \<le> n"
  by (auto simp: strncmp_reads_def find_Some_iff split: option.splits)

lemma search_reads_le: "search_reads img fname i \<le> 32"
proof (induction img fname i rule: search_reads.induct)
  case (1 img fname i)
  then show ?case
    using strncmp_reads_le [of fname "list_view (name (boot_dirs img i))" 32]
    by (subst search_reads.simps) (simp add: Let_def)
qed

lemma fd_write_fap: "fd_write op fd buf n s = Some x \<Longrightarrow> fap_write op fd (vview s buf) n s = Some x"
  by (simp add: fd_write_def split: if_splits)

lemma vstore_ram:
  "vstore bs a s = Some t \<Longrightarrow> \<exists>m. t = s\<lparr>ram := m\<rparr>"
proof (induction bs arbitrary: a s)
  case Nil
  then show ?case by (intro exI [of _ "ram s"]) simp
next
  case (Cons b bs)
  then obtain pa where "vstore bs (a + 1) (s\<lparr>ram := (ram s)(pa := b)\<rparr>) = Some t"
    by (auto split: option.splits)
  then show ?case using Cons.IH by fastforce
qed

lemma vstore_same: "vstore bs a s = Some t \<Longrightarrow> same_kernel s t \<and> curr_pcb t = curr_pcb s"
  by (auto simp: same_kernel_def dest!: vstore_ram)

text \<open>Only the physical addresses behind the stored range change.\<close>

lemma vstore_outside:
  assumes "vstore bs a s = Some t" "\<And>i. i < length bs \<Longrightarrow> page_walk s False True (a + of_nat i) \<noteq> Some pa"
  shows "ram t pa = ram s pa"
  using assms
proof (induction bs arbitrary: a s)
  case (Cons b bs)
  obtain pb where pb: "page_walk s False True a = Some pb" "vstore bs (a + 1) (s\<lparr>ram := (ram s)(pb := b)\<rparr>) = Some t"
    using Cons.prems(1) by (auto simp: vwalk_Some split: option.splits)
  have "pb \<noteq> pa" using Cons.prems(2) [of 0] pb(1) by auto
  moreover have "ram t pa = ram (s\<lparr>ram := (ram s)(pb := b)\<rparr>) pa"
  proof (rule Cons.IH [OF pb(2)])
    fix i
    assume "i < length bs"
    then show "page_walk (s\<lparr>ram := (ram s)(pb := b)\<rparr>) False True (a + 1 + of_nat i) \<noteq> Some pa"
      using Cons.prems(2) [of "Suc i"] by (simp add: ac_simps)
  qed
  ultimately show ?case by simp
qed simp

section \<open>The invariant of the processes\<close>

text \<open>
  The processes form a stack: slots 0 to \<open>k - 1\<close> are in use, each process was started by the one
  below it, and the topmost runs. \<open>pcb_ok i k\<close> is what holds of the control block in slot \<open>i\<close>.
\<close>

definition in_stack :: "nat \<Rightarrow> u32 \<Rightarrow> bool" where
  "in_stack p e \<longleftrightarrow> 0x800000 - (p + 1) * 0x2000 \<le> unat e \<and> unat e < 0x800000 - p * 0x2000"

definition fds_ok :: "file_desc list \<Rightarrow> bool" where
  "fds_ok tb \<longleftrightarrow> length tb = 8 \<and> (\<forall>fd < 8. flag (tb ! fd) \<noteq> 0 \<longrightarrow> f_op (tb ! fd) \<noteq> No_op)"

definition std_fds :: "file_desc list \<Rightarrow> bool" where
  "std_fds tb \<longleftrightarrow> (\<forall>fd < 2. flag (tb ! fd) \<noteq> 0 \<and> f_op (tb ! fd) = Terminal_op)"

definition pcb_ok :: "nat \<Rightarrow> nat \<Rightarrow> pcb \<Rightarrow> bool" where
  "pcb_ok i k q \<longleftrightarrow> fds_ok (file_desc_tb q) \<and> length (args q) = 128 \<and> (active q \<noteq> 0 \<longleftrightarrow> i < k) \<and>
     (i < k \<longrightarrow> pid q = of_nat i \<and> parent_pid q = of_nat i - 1 \<and> std_fds (file_desc_tb q)) \<and>
     (0 < i \<and> i < k \<longrightarrow> in_stack (i - 1) (saved_esp q))"

definition pcbs_ok :: "nat \<Rightarrow> pcb list \<Rightarrow> bool" where
  "pcbs_ok k ps \<longleftrightarrow> length ps = 6 \<and> (\<forall>i < 6. pcb_ok i k (ps ! i))"

definition mapped_top :: "nat \<Rightarrow> 'a process_state_scheme \<Rightarrow> bool" where
  "mapped_top k s \<longleftrightarrow> kernel_space s \<and>
     pageDir s ! 32 = program_entry (MB_8 + MB_4 * of_nat (k - 1)) \<and> tss_esp0 s = MB_8 - of_nat (k - 1) * KB_8 - 4"

definition stack_ok :: "nat \<Rightarrow> 'a process_state_scheme \<Rightarrow> bool" where
  "stack_ok k s \<longleftrightarrow> 1 \<le> k \<and> k \<le> 6 \<and> pcbs_ok k (curr_pcb s) \<and> mapped_top k s"

lemma pcb_ok_other: "pcb_ok i k q \<Longrightarrow> i \<noteq> k \<Longrightarrow> pcb_ok i (Suc k) q"
  by (auto simp: pcb_ok_def)

lemma pcb_ok_less: "pcb_ok i (Suc k) q \<Longrightarrow> i \<noteq> k \<Longrightarrow> pcb_ok i k q"
  by (auto simp: pcb_ok_def)

lemma mapped_top_cong: "same_kernel s t \<Longrightarrow> mapped_top k t = mapped_top k s"
  using kernel_space_cong(1) [of t s] by (simp add: mapped_top_def same_kernel_def)

lemma pcbs_ok_update:
  "pcbs_ok k ps \<Longrightarrow> (pcb_ok p k (ps ! p) \<Longrightarrow> pcb_ok p k q) \<Longrightarrow> pcbs_ok k (ps[p := q])"
proof -
  assume a: "pcbs_ok k ps" "pcb_ok p k (ps ! p) \<Longrightarrow> pcb_ok p k q"
  have "pcb_ok i k (ps[p := q] ! i)" if "i < 6" for i
    using a that by (cases "i = p") (auto simp: pcbs_ok_def)
  then show ?thesis using a(1) by (simp add: pcbs_ok_def)
qed

lemma pcb_ok_set_fd:
  assumes "pcb_ok p k q" "fd < 8"
    and "flag (f (file_desc_tb q ! fd)) \<noteq> 0 \<Longrightarrow> f_op (f (file_desc_tb q ! fd)) \<noteq> No_op"
    and "fd < 2 \<Longrightarrow> flag (f (file_desc_tb q ! fd)) = flag (file_desc_tb q ! fd) \<and>
           f_op (f (file_desc_tb q ! fd)) = f_op (file_desc_tb q ! fd)"
  shows "pcb_ok p k (set_fd fd f q)"
proof -
  have len: "length (file_desc_tb q) = 8" using assms(1) by (simp add: pcb_ok_def fds_ok_def)
  have nth: "file_desc_tb (set_fd fd f q) ! j = (if j = fd then f (file_desc_tb q ! fd) else file_desc_tb q ! j)" for j
    using assms(2) len by (simp add: set_fd_def)
  have "fds_ok (file_desc_tb (set_fd fd f q))"
    using assms(1,3) unfolding fds_ok_def nth by (auto simp: pcb_ok_def fds_ok_def set_fd_def)
  moreover have "std_fds (file_desc_tb (set_fd fd f q))" if "std_fds (file_desc_tb q)"
    using that assms(4) unfolding std_fds_def nth by auto
  ultimately show ?thesis using assms(1) by (auto simp: pcb_ok_def set_fd_def)
qed

text \<open>Calls that keep the processes, and calls that change one descriptor.\<close>

lemma stack_ok_same: "stack_ok k s \<Longrightarrow> same_kernel s t \<Longrightarrow> curr_pcb t = curr_pcb s \<Longrightarrow> stack_ok k t"
  by (simp add: stack_ok_def mapped_top_cong)

lemma stack_ok_set_fd:
  assumes "stack_ok k s" "fd < 8" "same_kernel s t" "curr_pcb t = (curr_pcb s)[p := set_fd fd f (curr_pcb s ! p)]"
    and "\<And>g. flag (f g) \<noteq> 0 \<Longrightarrow> flag g \<noteq> 0 \<longrightarrow> f_op g \<noteq> No_op \<Longrightarrow> f_op (f g) \<noteq> No_op"
    and "fd < 2 \<Longrightarrow> (\<And>g. flag (f g) = flag g \<and> f_op (f g) = f_op g)"
  shows "stack_ok k t"
proof -
  have "pcbs_ok k (curr_pcb t)"
    unfolding assms(4)
  proof (rule pcbs_ok_update)
    show "pcbs_ok k (curr_pcb s)" using assms(1) by (simp add: stack_ok_def)
    assume q: "pcb_ok p k (curr_pcb s ! p)"
    have "flag (file_desc_tb (curr_pcb s ! p) ! fd) \<noteq> 0 \<longrightarrow> f_op (file_desc_tb (curr_pcb s ! p) ! fd) \<noteq> No_op"
      using q assms(2) by (simp add: pcb_ok_def fds_ok_def)
    then show "pcb_ok p k (set_fd fd f (curr_pcb s ! p))"
      using assms(5,6) by (intro pcb_ok_set_fd [OF q assms(2)]) auto
  qed
  then show ?thesis using assms(1,3) by (simp add: stack_ok_def mapped_top_cong)
qed

lemma stack_ok_moved: "stack_ok k s \<Longrightarrow> fd < 8 \<Longrightarrow> fd_moved p fd s t \<Longrightarrow> stack_ok k t"
  by (auto simp: fd_moved_def intro: stack_ok_set_fd)

lemma fap_read_moves:
  "get_pcb s = Some p \<Longrightarrow> fap_read dev evs op fd buf n s = Some (r, bs, rest, t) \<Longrightarrow> fd_moved p fd s t"
  by (cases op)
    (simp_all add: fap_read_def terminal_ops.rd_moves rtc_ops.rd_moves dir_ops.rd_moves file_ops.rd_moves)

lemma fap_write_keeps:
  "fap_write op fd buf n s = Some (r, t) \<Longrightarrow> same_kernel s t \<and> curr_pcb t = curr_pcb s"
  using terminal_ops.wr_keeps [where s = s and buf = buf and n = n] rtc_ops.wr_keeps [where s = s and buf = buf and n = n]
    dir_ops.wr_keeps [of s fd buf n] file_ops.wr_keeps [of s fd buf n]
  by (cases op) (auto simp: fap_write_def)

section \<open>The calls keep the invariant\<close>

lemma same_kernel_moved: "fd_moved p fd s t \<Longrightarrow> same_kernel t u \<Longrightarrow> curr_pcb u = curr_pcb t \<Longrightarrow> fd_moved p fd s u"
  by (auto simp: fd_moved_def intro: same_kernel_trans)

lemma sys_read_ok:
  assumes "stack_ok k s" "sys_read dev evs fd buf n s = Some (r, rest, t)"
  shows "stack_ok k t"
proof (cases "t = s")
  case False
  then obtain p v bs u where p: "get_pcb s = Some p" "0 \<le> fd" "fd \<le> 7"
      "fap_read dev evs (f_op (file_desc_tb (pcb_of s p) ! nat fd)) (nat fd) (vview s buf) n s = Some (v, bs, rest, u)"
      "vstore bs buf u = Some t"
    using assms(2) by (auto simp: sys_read_def Let_def split: if_splits option.splits)
  then have "fd_moved p (nat fd) s t"
    using fap_read_moves vstore_same same_kernel_moved by metis
  then show ?thesis using p(2,3) by (intro stack_ok_moved [OF assms(1), of "nat fd"]) simp_all
qed (use assms in simp)

lemma sys_write_ok:
  assumes "stack_ok k s" "sys_write fd buf n s = Some (r, t)"
  shows "stack_ok k t"
proof (cases "t = s")
  case False
  then obtain p v where "fap_write (f_op (file_desc_tb (pcb_of s p) ! nat fd)) (nat fd) (vview s buf) n s = Some (v, t)"
    using assms(2) by (auto simp: sys_write_def Let_def dest!: fd_write_fap split: if_splits option.splits)
  then show ?thesis using fap_write_keeps stack_ok_same [OF assms(1)] by blast
qed (use assms in simp)

lemma find_range_Some:
  "find P [a..<b] = Some j \<Longrightarrow> a \<le> j \<and> j < b \<and> P j \<and> (\<forall>i. a \<le> i \<and> i < j \<longrightarrow> \<not> P i)"
proof -
  assume "find P [a..<b] = Some j"
  then obtain n where n: "n < b - a" "P (a + n)" "j = a + n" "\<forall>k < n. \<not> P (a + k)"
    unfolding find_Some_iff by (auto simp: nth_append)
  have "\<not> P i" if "a \<le> i" "i < j" for i
    using n(3,4) that by (metis le_add_diff_inverse less_diff_conv2 nat_add_left_cancel_less)
  with n show ?thesis by auto
qed

lemma free_fd_range:
  "free_fd p = Some i \<Longrightarrow> 2 \<le> i \<and> i < 8 \<and> flag (file_desc_tb p ! i) = 0 \<and>
     (\<forall>j. 2 \<le> j \<and> j < i \<longrightarrow> flag (file_desc_tb p ! j) \<noteq> 0)"
  unfolding free_fd_def by (rule find_range_Some)

lemma sys_open_ok:
  assumes "stack_ok k s" "sys_open fn s = Some (r, t)"
  shows "stack_ok k t"
proof -
  have open_fd: "stack_ok k (set_pcb p (set_fd i f) s)"
    if "free_fd (pcb_of s p) = Some i" "\<And>g. f_op (f g) \<noteq> No_op" for p i f
    using free_fd_range [OF that(1)] that(2)
    by (intro stack_ok_set_fd [OF assms(1), where fd = i and p = p and f = f]) (simp_all add: set_pcb_def same_kernel_def)
  have rtc: "stack_ok k (snd (rtc_open f u))" if "stack_ok k u" for f u
    using same_kernel_beyond [OF rtc_open_beyond [of f u]] stack_ok_same [OF that] by blast
  show ?thesis
    using assms by (auto simp: sys_open_def Let_def intro!: open_fd rtc split: option.splits if_splits prod.splits)
qed

lemma sys_close_ok:
  assumes "stack_ok k s" "sys_close fd s = Some (r, t)"
  shows "stack_ok k t"
proof (cases "t = s")
  case False
  then obtain p where "t = set_pcb p (set_fd (nat fd) (\<lambda>f. f\<lparr>flag := 0\<rparr>)) s" "1 < fd" "fd < 8"
    using assms(2) by (auto simp: sys_close_def split: if_splits option.splits)
  then show ?thesis
    by (intro stack_ok_set_fd [OF assms(1), where fd = "nat fd" and p = p and f = "\<lambda>f. f\<lparr>flag := 0\<rparr>"])
      (simp_all add: set_pcb_def same_kernel_def)
qed (use assms in simp)

lemma sys_getargs_ok:
  assumes "stack_ok k s" "sys_getargs beyond buf n s = Some (r, t)"
  shows "stack_ok k t"
  using assms stack_ok_same [OF assms(1)] vstore_same
  by (fastforce simp: sys_getargs_def Let_def split: if_splits option.splits)

lemma sys_vidmap_ok:
  assumes "stack_ok k s" "sys_vidmap a s = Some (r, t)"
  shows "stack_ok k t"
  using assms stack_ok_same [OF assms(1)] vstore_same
  by (fastforce simp: sys_vidmap_def split: if_splits)

section \<open>Starting a program\<close>

lemma map_program_entry: "map_program n s = flushTLB (chgDir 32 (program_entry (MB_8 + MB_4 * n)) s)"
  by (simp add: map_program_def program_entry_def)

lemma map_program_fields [simp]:
  "curr_pcb (map_program n s) = curr_pcb s" "esp (map_program n s) = esp s" "ebp (map_program n s) = ebp s"
  "boot (map_program n s) = boot s" "ram (map_program n s) = ram s" "tlb_clean (map_program n s)"
  "tss_esp0 (map_program n s) = tss_esp0 s"
  by (simp_all add: map_program_entry flushTLB_def chgDir_def)

lemma map_program_space:
  assumes "kernel_space s"
  shows "kernel_space (map_program n s)" "pageDir (map_program n s) ! 32 = program_entry (MB_8 + MB_4 * n)"
proof -
  show "kernel_space (map_program n s)" using assms by (simp add: map_program_entry kernel_space_chgDir)
  have "length (pageDir s) = 1024" using assms by (simp add: kernel_space_def paging_ok_def)
  then show "pageDir (map_program n s) ! 32 = program_entry (MB_8 + MB_4 * n)"
    by (simp add: map_program_entry flushTLB_def chgDir_def)
qed

lemma skip_spaces_ge:
  "skip_spaces c i = Some j \<Longrightarrow> i \<le> j"
proof -
  assume "skip_spaces c i = Some j"
  then show ?thesis
  proof (rule skip_spaces.raw_induct [where P = "\<lambda>c i j. i \<le> j", rotated])
    fix f :: "cptr \<Rightarrow> nat \<Rightarrow> nat option" and c i j
    assume "\<And>c i j. f c i = Some j \<Longrightarrow> i \<le> j" "(if c i = 0x20 then f c (i + 1) else Some i) = Some j"
    then show "i \<le> j" by (fastforce split: if_splits)
  qed
qed

lemma arg_scan_le: "j \<le> arg_scan c i j \<and> (i + j \<le> 128 \<longrightarrow> i + arg_scan c i j \<le> 128)"
proof (induction c i j rule: arg_scan.induct)
  case (1 c i j)
  show ?case
  proof (cases "c (i + j) \<noteq> 0x0A \<and> c (i + j) \<noteq> 0 \<and> i + j < 128")
    case True
    then have "arg_scan c i j = arg_scan c i (j + 1)" by (simp add: arg_scan.simps [of c i j])
    then show ?thesis using 1 [OF True] True by simp
  next
    case False
    then have "arg_scan c i j = j" by (subst arg_scan.simps) (simp only: if_False)
    then show ?thesis by simp
  qed
qed

lemma arg_scan_stop: "128 < i + j \<Longrightarrow> arg_scan c i j = j"
  by (simp add: arg_scan.simps [of c i j])

lemma command_args_ok: "command_args c = Some as \<Longrightarrow> length as = 128 \<and> as ! 127 = 0"
proof -
  assume as: "command_args c = Some as"
  let ?i = "cmd_scan c 0"
  show ?thesis
  proof (cases "c ?i = 0x20")
    case True
    then obtain i where i: "skip_spaces c ?i = Some i"
        "as = map (\<lambda>k. c (i + k)) [0..<arg_scan c i 0] @ replicate (128 - arg_scan c i 0) 0"
      using as by (auto simp: command_args_def Let_def)
    have "skip_spaces c (?i + 1) = Some i" using i(1) True by (subst (asm) skip_spaces.simps) simp
    then have "1 \<le> i" using skip_spaces_ge by fastforce
    then have "arg_scan c i 0 \<le> 127" using arg_scan_le [of 0 c i] arg_scan_stop [of i 0 c] by (cases "i \<le> 128") auto
    then show ?thesis using i(2) by (simp add: nth_append)
  next
    case False
    then show ?thesis using as by (auto simp: command_args_def Let_def)
  qed
qed

lemma length_strcpy_args:
  assumes "length as = 128" "as ! 127 = 0" "length old = 128"
  shows "length (strcpy_args as old) = 128"
proof -
  have "length (takeWhile (\<lambda>b. b \<noteq> 0) as) \<le> 127"
  proof (rule ccontr)
    let ?c = "takeWhile (\<lambda>b. b \<noteq> 0) as"
    assume "\<not> length ?c \<le> 127"
    then have l: "127 < length ?c" by simp
    then have "?c ! 127 = as ! 127" by (rule takeWhile_nth)
    moreover have "?c ! 127 \<noteq> 0" using nth_mem [OF l] by (rule set_takeWhileD [THEN conjunct2])
    ultimately show False using assms(2) by simp
  qed
  then show ?thesis using assms(3) by (simp add: strcpy_args_def Let_def)
qed

lemma find_inactive:
  assumes "pcbs_ok k ps" "k \<le> 6"
  shows "find (\<lambda>i. active (ps ! i) = 0) [0..<6] = (if k < 6 then Some k else None)"
proof -
  have a: "active (ps ! i) = 0 \<longleftrightarrow> k \<le> i" if "i < 6" for i
    using assms(1) that unfolding pcbs_ok_def pcb_ok_def linorder_not_less [symmetric] by metis
  show ?thesis
  proof (cases "k < 6")
    case True
    then show ?thesis using find_upt [of "\<lambda>i. active (ps ! i) = 0" 6 k] a by auto
  next
    case False
    then show ?thesis using a by (simp add: find_None_iff del: upt_rec_numeral)
  qed
qed

lemma new_pcb_table:
  assumes "length (file_desc_tb q) = 8" "j < 8"
  shows "file_desc_tb (new_pcb n s q) ! j =
    (if j < 2 then (file_desc_tb q ! j)\<lparr>flag := 1, f_op := Terminal_op\<rparr>
     else if j < 6 then (file_desc_tb q ! j)\<lparr>flag := 0\<rparr> else file_desc_tb q ! j)"
proof -
  have "j = 0 \<or> j = 1 \<or> j = 2 \<or> j = 3 \<or> j = 4 \<or> j = 5 \<or> j = 6 \<or> j = 7" using assms(2) by linarith
  then show ?thesis using assms(1)
    by (elim disjE) (simp_all add: new_pcb_def Let_def MAX_PROCESSES_def set_fd_def)
qed

lemma new_pcb_fields:
  "length (file_desc_tb (new_pcb n s q)) = length (file_desc_tb q)" "args (new_pcb n s q) = args q"
  "pid (new_pcb n s q) = of_nat n" "parent_pid (new_pcb n s q) = of_nat n - 1" "active (new_pcb n s q) = 1"
  "saved_esp (new_pcb n s q) = esp s" "saved_ebp (new_pcb n s q) = ebp s"
  by (simp_all add: new_pcb_def Let_def MAX_PROCESSES_def set_fd_def)

lemma new_pcb_ok:
  assumes "fds_ok (file_desc_tb q)" "length (args q) = 128" "0 < n \<Longrightarrow> in_stack (n - 1) (esp s)"
  shows "pcb_ok n (Suc n) (new_pcb n s q)"
proof -
  have len: "length (file_desc_tb q) = 8" using assms(1) by (simp add: fds_ok_def)
  have "fds_ok (file_desc_tb (new_pcb n s q))"
    using assms(1) by (simp add: fds_ok_def new_pcb_table new_pcb_fields)
  moreover have "std_fds (file_desc_tb (new_pcb n s q))"
    using len by (simp add: std_fds_def new_pcb_table)
  ultimately show ?thesis using assms(2,3) by (simp add: pcb_ok_def new_pcb_fields)
qed

lemma pcbs_ok_push:
  assumes "pcbs_ok k ps" "k < 6" "pcb_ok k (Suc k) q"
  shows "pcbs_ok (Suc k) (ps[k := q])"
proof -
  have "pcb_ok i (Suc k) (ps[k := q] ! i)" if "i < 6" for i
    using assms that pcb_ok_other [of i k "ps ! i"] by (cases "i = k") (auto simp: pcbs_ok_def)
  then show ?thesis using assms(1) by (simp add: pcbs_ok_def)
qed

lemma start_program_ok:
  assumes "pcbs_ok k (curr_pcb s)" "k < 6" "kernel_space s" "0 < k \<Longrightarrow> in_stack (k - 1) (esp s)"
    and "length as = 128" "as ! 127 = 0" "start_program as nd entry k s = Some (out, t)"
  shows "out = Enter entry (MB_132 - 4) \<and> stack_ok (Suc k) t"
proof -
  define w where "w = map_program (of_nat k) (set_pcb k (\<lambda>p. p\<lparr>args := strcpy_args as (args p)\<rparr>) s)"
  from assms(7) obtain u where
      u0: "vstore (snd (read_data (fs w) nd 0 KERNEL_STACK_BOTTOM)) (MB_128 + PROC_OFFSET) w = Some u"
    and out: "out = Enter entry (MB_132 - 4)"
    and t: "t = (set_pcb k (new_pcb k u) u)\<lparr>tss_ss0 := KERNEL_DS, tss_esp0 := MB_8 - of_nat k * KB_8 - 4, iflag := True\<rparr>"
    by (auto simp: start_program_def Let_def w_def split: option.splits)
  let ?q = "(curr_pcb s ! k)\<lparr>args := strcpy_args as (args (curr_pcb s ! k))\<rparr>"
  have u: "same_kernel w u" "curr_pcb u = (curr_pcb s)[k := ?q]"
    using vstore_same [OF u0] by (simp_all add: w_def set_pcb_def)
  have len: "length (curr_pcb s) = 6" and q: "pcb_ok k k (curr_pcb s ! k)"
    using assms(1,2) by (auto simp: pcbs_ok_def)
  have "esp u = esp s" using u(1) by (simp add: same_kernel_def w_def set_pcb_def)
  then have "pcb_ok k (Suc k) (new_pcb k u ?q)"
    using q assms(4) length_strcpy_args [OF assms(5,6)] by (intro new_pcb_ok) (auto simp: pcb_ok_def)
  moreover have "curr_pcb t = (curr_pcb s)[k := new_pcb k u ?q]"
    using u(2) len assms(2) by (simp add: t set_pcb_def)
  ultimately have "pcbs_ok (Suc k) (curr_pcb t)" using pcbs_ok_push [OF assms(1,2)] by simp
  moreover have "mapped_top (Suc k) t"
  proof -
    have "kernel_space (set_pcb k (\<lambda>p. p\<lparr>args := strcpy_args as (args p)\<rparr>) s)"
      using assms(3) kernel_space_cong(1) [of "set_pcb k (\<lambda>p. p\<lparr>args := strcpy_args as (args p)\<rparr>) s" s]
      by (simp add: set_pcb_def)
    then have "kernel_space w" "pageDir w ! 32 = program_entry (MB_8 + MB_4 * of_nat k)" "tlb_clean w"
      by (simp_all add: w_def map_program_space)
    then have "kernel_space u" "pageDir u ! 32 = program_entry (MB_8 + MB_4 * of_nat k)" "tlb_clean u"
      using u(1) kernel_space_cong(1) [of u w] by (simp_all add: same_kernel_def)
    then show ?thesis
      using kernel_space_cong(1) [of t u] by (simp add: mapped_top_def t set_pcb_def)
  qed
  ultimately show ?thesis using assms(2) out by (simp add: stack_ok_def)
qed

text \<open>
  What \<open>sys_execute\<close> does in a kernel with \<open>k\<close> processes, \<open>k\<close> being 0 while the first shell is
  restarted: it hands \<^verbatim>\<open>quit\<close> over, fails and changes nothing, or starts process \<open>k\<close>.
\<close>

lemma execute_cases:
  assumes "pcbs_ok k (curr_pcb s)" "k \<le> 6" "kernel_space s" "0 < k \<Longrightarrow> in_stack (k - 1) (esp s)"
    and "execute_with halt command s = Some (out, t)"
  shows "halt s = Some (out, t) \<or> (\<exists>r. out = Ret r \<and> t = s) \<or>
    (\<exists>e sp. out = Enter e sp \<and> k < 6 \<and> stack_ok (Suc k) t)"
proof (cases "halt s = Some (out, t) \<or> (\<exists>r. out = Ret r \<and> t = s)")
  case False
  from assms(5) False have "\<exists>as nd e. k < 6 \<and> command_args command = Some as \<and> start_program as nd e k s = Some (out, t)"
    by (auto simp: execute_with_def Let_def MAX_PROCESSES_def find_inactive [OF assms(1,2)]
        simp del: upt_rec_numeral split: if_splits option.splits prod.splits)
  then obtain as nd e where "k < 6" "command_args command = Some as" "start_program as nd e k s = Some (out, t)" by blast
  then show ?thesis using start_program_ok [OF assms(1) _ assms(3,4)] command_args_ok by blast
qed blast

section \<open>Ending a program\<close>

lemma get_pcb_in_stack: "get_pcb s = Some p \<longleftrightarrow> p < 6 \<and> in_stack p (esp s)"
  by (simp add: get_pcb_iff in_stack_def)

lemma halt_close_eq: "halt_close p = (set_fd 0 (\<lambda>f. f\<lparr>flag := 0\<rparr>) p)\<lparr>active := 0\<rparr>"
proof -
  let ?g = "\<lambda>p. (set_fd 0 (\<lambda>f. f\<lparr>flag := 0\<rparr>) p)\<lparr>active := 0\<rparr>"
  have "?g (?g p) = ?g p" for p
    by (cases "file_desc_tb p") (simp_all add: set_fd_def)
  then have f: "fold (\<lambda>i. ?g) (i # is) p = ?g p" for i :: nat and "is" and p
    by (induction "is" arbitrary: p) simp_all
  have "[0..<8] = 0 # [Suc 0..<8]" by (rule upt_conv_Cons) simp
  then show ?thesis unfolding halt_close_def MAX_FILES_def by (simp only: f)
qed

lemma halt_close_fields [simp]:
  "parent_pid (halt_close q) = parent_pid q" "saved_esp (halt_close q) = saved_esp q"
  "pid (halt_close q) = pid q"
  by (simp_all add: halt_close_eq set_fd_def)

lemma pcb_ok_halt: "pcb_ok k (Suc k) q \<Longrightarrow> pcb_ok k k (halt_close q)"
proof -
  assume q: "pcb_ok k (Suc k) q"
  then have "fds_ok (file_desc_tb (halt_close q))"
    by (auto simp: pcb_ok_def fds_ok_def halt_close_eq set_fd_def nth_list_update)
  then show ?thesis using q by (simp add: pcb_ok_def) (simp add: halt_close_eq set_fd_def)
qed

lemma pcbs_ok_pop:
  assumes "pcbs_ok (Suc k) ps" "k < 6" "pcb_ok k k q"
  shows "pcbs_ok k (ps[k := q])"
proof -
  have "pcb_ok i k (ps[k := q] ! i)" if "i < 6" for i
    using assms that pcb_ok_less [of i k "ps ! i"] by (cases "i = k") (auto simp: pcbs_ok_def)
  then show ?thesis using assms(1) by (simp add: pcbs_ok_def)
qed

lemma halt_return_ok:
  assumes "pcbs_ok k (curr_pcb s)" "0 < k" "k < 6" "kernel_space s" "parent_pid (curr_pcb s ! k) = of_nat k - 1"
    and "halt_return k status s = Some (out, t)"
  shows "out = Resume (sint status) \<and> stack_ok k t"
proof -
  have parent: "parent_pid (pcb_of s k) = of_nat (k - 1)" using assms(2,5) by (simp add: pcb_of_def)
  from assms(6) have out: "out = Resume (sint status)" and
    t: "t = (map_program (of_nat (k - 1)) s)\<lparr>tss_ss0 := KERNEL_DS, tss_esp0 := MB_8 - of_nat (k - 1) * KB_8 - 4,
      esp := saved_esp (pcb_of s k), ebp := saved_ebp (pcb_of s k)\<rparr>"
    unfolding halt_return_def Let_def parent by (auto simp: pcb_of_def)
  have "mapped_top k t"
    using map_program_space [OF assms(4), of "of_nat (k - 1)"] kernel_space_cong(1) [of t "map_program (of_nat (k - 1)) s"]
    by (simp add: mapped_top_def t)
  then show ?thesis using assms(1-3) out by (simp add: stack_ok_def t)
qed

lemma sys_halt_cases:
  assumes "stack_ok (Suc k) s" "get_pcb s = Some k" "sys_halt shell status s = Some (out, t)"
  shows "(0 < k \<and> out = Resume (sint status) \<and> stack_ok k t) \<or>
    (k = 0 \<and> ((\<exists>e sp. out = Enter e sp \<and> stack_ok 1 t) \<or> (\<exists>r. out = Resume r)))"
proof -
  let ?q = "curr_pcb s ! k"
  let ?s = "set_pcb k halt_close s"
  have k: "k < 6" and pcbs: "pcbs_ok (Suc k) (curr_pcb s)" and sp: "kernel_space s"
    using assms(1) by (auto simp: stack_ok_def mapped_top_def)
  then have q: "pcb_ok k (Suc k) ?q" and len: "length (curr_pcb s) = 6" by (auto simp: pcbs_ok_def)
  have parent: "parent_pid ?q = of_nat k - 1" using q by (simp add: pcb_ok_def)
  have pcbs': "pcbs_ok k (curr_pcb ?s)"
    using pcbs_ok_pop [OF pcbs k pcb_ok_halt [OF q]] by (simp add: set_pcb_def)
  have sp': "kernel_space ?s" using sp kernel_space_cong(1) [of ?s s] by (simp add: set_pcb_def)
  have pcb: "pcb_of ?s k = halt_close ?q" "curr_pcb ?s ! k = halt_close ?q" using len k by (simp_all add: pcb_of_def set_pcb_def)
  show ?thesis
  proof (cases "k = 0")
    case False
    have "(of_nat k :: u32) - 1 \<noteq> - 1"
    proof
      assume "(of_nat k :: u32) - 1 = - 1"
      then have "(of_nat k :: u32) = 0" by simp
      then have "unat (of_nat k :: u32) = 0" by simp
      then show False using False k by (simp add: unat_of_nat)
    qed
    then have "halt_return k status ?s = Some (out, t)"
      using assms(2,3) pcb parent by (simp add: sys_halt_def Let_def)
    then show ?thesis using halt_return_ok [OF pcbs' _ k sp'] False pcb(2) parent by simp
  next
    case True
    let ?v = "set_pcb 0 (\<lambda>q. q\<lparr>pid := pid q - 1\<rparr>) ?s"
    let ?u = "clear_term ?v"
    have u: "same_kernel ?v ?u" "curr_pcb ?u = curr_pcb ?v"
      using same_kernel_beyond [OF clear_term_beyond [of ?v]] by blast+
    have same: "same_kernel ?s ?u" "curr_pcb ?u = (curr_pcb ?s)[0 := (curr_pcb ?s ! 0)\<lparr>pid := pid (curr_pcb ?s ! 0) - 1\<rparr>]"
      using same_kernel_trans [OF same_kernel_set_pcb u(1)] u(2) by (simp_all add: set_pcb_def [of 0])
    have "pcb_ok 0 0 ((curr_pcb ?s ! 0)\<lparr>pid := pid (curr_pcb ?s ! 0) - 1\<rparr>)"
      using pcbs' True by (auto simp: pcbs_ok_def pcb_ok_def)
    then have "pcbs_ok 0 (curr_pcb ?u)" using pcbs_ok_update [of 0 "curr_pcb ?s" 0] pcbs' same(2) True by simp
    moreover have "kernel_space ?u" using sp' same(1) kernel_space_cong(1) [of ?u ?s] by (simp add: same_kernel_def)
    moreover have "sys_halt shell status s = (case execute_with (\<lambda>_. None) shell ?u of
        Some (Ret r, t) \<Rightarrow> halt_return 0 status t | other \<Rightarrow> other)"
      using assms(2) pcb parent True by (simp add: sys_halt_def Let_def)
    ultimately show ?thesis
      using True assms(3) execute_cases [of 0 ?u "\<lambda>_. None" shell]
      by (auto split: option.splits prod.splits outcome.splits simp: halt_return_def Let_def)
  qed
qed

section \<open>The process stack as a state machine\<close>

lemma syscall_entry_same: "curr_pcb (syscall_entry depth s) = curr_pcb s" "mapped_top k (syscall_entry depth s) = mapped_top k s"
  using kernel_space_cong(1) [of "syscall_entry depth s" s] by (simp_all add: syscall_entry_def mapped_top_def)

lemma stack_top_word:
  assumes "k < 6" "unat depth \<le> 8188"
  shows "unat (MB_8 - of_nat k * KB_8 - 4 - depth) = 0x800000 - k * 0x2000 - 4 - unat depth"
proof -
  have "unat (of_nat k * KB_8) = k * 0x2000"
    using assms(1) by (simp add: KB_8_def unat_word_ariths unat_of_nat)
  then show ?thesis using assms by (simp add: MB_8_def unat_minus_if)
qed

lemma stack_bounds:
  "x \<le> 40960 \<Longrightarrow> d \<le> 8188 \<Longrightarrow>
     0x800000 - (x + 0x2000) \<le> 0x800000 - x - 4 - d \<and> 0x800000 - x - 4 - d < 0x800000 - (x :: nat)"
  by auto

lemma entry_slot:
  assumes "stack_ok (Suc k) s" "unat depth \<le> 8188"
  shows "get_pcb (syscall_entry depth s) = Some k"
proof -
  have k: "k < 6" and esp: "tss_esp0 s = MB_8 - of_nat k * KB_8 - 4"
    using assms(1) by (auto simp: stack_ok_def mapped_top_def)
  have "esp (syscall_entry depth s) = MB_8 - of_nat k * KB_8 - 4 - depth" by (simp add: syscall_entry_def esp)
  then have e: "unat (esp (syscall_entry depth s)) = 0x800000 - k * 0x2000 - 4 - unat depth"
    using stack_top_word [OF k assms(2)] by (simp only:)
  show ?thesis unfolding get_pcb_iff e using k stack_bounds [of "k * 0x2000" "unat depth"] assms(2) by (simp add: algebra_simps)
qed

text \<open>How a call may change the number of processes.\<close>

definition outcome_ok :: "nat \<Rightarrow> outcome \<Rightarrow> 'a process_state_scheme \<Rightarrow> bool" where
  "outcome_ok k out t \<longleftrightarrow>
     (case out of
        Ret r \<Rightarrow> stack_ok k t
      | Enter e sp \<Rightarrow> stack_ok (Suc k) t \<or> k = 1 \<and> stack_ok 1 t
      | Resume r \<Rightarrow> k = 1 \<or> stack_ok (k - 1) t)"

lemma outcome_ok_iflag: "outcome_ok k out t \<Longrightarrow> outcome_ok k out (t\<lparr>iflag := b\<rparr>)"
proof -
  have "stack_ok n (t\<lparr>iflag := b\<rparr>) = stack_ok n t" for n
    using mapped_top_cong [of t "t\<lparr>iflag := b\<rparr>" n] by (simp add: stack_ok_def same_kernel_def)
  then show "outcome_ok k out t \<Longrightarrow> outcome_ok k out (t\<lparr>iflag := b\<rparr>)"
    by (simp add: outcome_ok_def split: outcome.splits)
qed

lemma sys_halt_ok:
  assumes "stack_ok (Suc k) s" "get_pcb s = Some k" "sys_halt shell status s = Some (out, t)"
  shows "outcome_ok (Suc k) out t"
  using sys_halt_cases [OF assms] by (auto simp: outcome_ok_def)

lemma sys_execute_ok:
  assumes "stack_ok (Suc k) s" "get_pcb s = Some k" "sys_execute shell command s = Some (out, t)"
  shows "outcome_ok (Suc k) out t"
proof -
  have "pcbs_ok (Suc k) (curr_pcb s)" "Suc k \<le> 6" "kernel_space s" "in_stack k (esp s)"
    using assms(1,2) by (auto simp: stack_ok_def mapped_top_def get_pcb_in_stack)
  then have "sys_halt shell 0 s = Some (out, t) \<or> (\<exists>r. out = Ret r \<and> t = s) \<or>
      (\<exists>e sp. out = Enter e sp \<and> Suc k < 6 \<and> stack_ok (Suc (Suc k)) t)"
    using execute_cases [of "Suc k" s "sys_halt shell 0" command out t] assms(3) by (simp add: sys_execute_def)
  then show ?thesis using sys_halt_ok [OF assms(1,2)] assms(1) by (auto simp: outcome_ok_def)
qed

lemma syscall_number:
  "\<not> 9 < (eax :: u32) \<Longrightarrow> \<not> sint eax \<le> 0 \<Longrightarrow>
     eax = 1 \<or> eax = 2 \<or> eax = 3 \<or> eax = 4 \<or> eax = 5 \<or> eax = 6 \<or> eax = 7 \<or> eax = 8 \<or> eax = 9"
proof -
  assume a: "\<not> 9 < eax" "\<not> sint eax \<le> 0"
  then have "unat eax \<le> 9" by (simp add: word_less_nat_alt)
  then have "unat eax = 0 \<or> unat eax = 1 \<or> unat eax = 2 \<or> unat eax = 3 \<or> unat eax = 4 \<or> unat eax = 5 \<or>
      unat eax = 6 \<or> unat eax = 7 \<or> unat eax = 8 \<or> unat eax = 9" by presburger
  then have "unat eax \<in> {0, 1, 2, 3, 4, 5, 6, 7, 8, 9}" by blast
  then have "eax \<in> of_nat ` {0, 1, 2, 3, 4, 5, 6, 7, 8, 9}" by (intro image_eqI [of _ _ "unat eax"]) simp_all
  then show ?thesis using a(2) by auto
qed

text \<open>The calls that only return, together.\<close>

lemmas returning_calls_ok = sys_read_ok sys_write_ok sys_open_ok sys_close_ok sys_getargs_ok sys_vidmap_ok

lemma sys_call_table_ok:
  assumes ok: "stack_ok (Suc k) s" and slot: "get_pcb s = Some k" and "\<not> 9 < eax" "\<not> sint eax \<le> 0" "eax \<noteq> 9"
    and call: "sys_call_table stray dev shell beyond evs eax ebx ecx edx s = Some (out, rest, t)"
  shows "outcome_ok (Suc k) out t"
proof (cases "eax = 1 \<or> eax = 2")
  case True
  then show ?thesis using call sys_halt_ok [OF ok slot] sys_execute_ok [OF ok slot]
    by (auto simp: sys_call_table_def split: option.splits if_splits)
next
  case False
  note n = syscall_number [OF assms(3,4)]
  have "\<exists>r. out = Ret r \<and> stack_ok (Suc k) t"
    using n False assms(5) call by (auto simp: sys_call_table_def intro: returning_calls_ok [OF ok])
  then show ?thesis by (auto simp: outcome_ok_def)
qed

lemma syscall_exit_Some:
  "syscall_exit s x = Some (out, rest, t) \<Longrightarrow> \<exists>u. x = Some (out, rest, u) \<and> (t = u \<or> (\<exists>b. t = u\<lparr>iflag := b\<rparr>))"
  by (cases out) (auto simp: syscall_exit_def)

text \<open>What a call through the gate does, in terms of the entry of the table.\<close>

lemma syscall_wrapper_cases:
  assumes "syscall_wrapper stray dev shell beyond depth evs eax ebx ecx edx s = Some (out, rest, t)"
  obtains u where "t = u \<or> (\<exists>b. t = u\<lparr>iflag := b\<rparr>)"
    and "out = Ret (-1) \<and> u = syscall_entry depth s \<or>
      \<not> 9 < eax \<and> \<not> sint eax \<le> 0 \<and>
      sys_call_table stray dev shell beyond evs eax ebx ecx edx (syscall_entry depth s) = Some (out, rest, u)"
proof -
  let ?s = "syscall_entry depth s"
  obtain u where u: "(if eax > 9 then Some (Ret (-1), evs, ?s) else if sint eax \<le> 0 then Some (Ret (-1), evs, ?s)
      else sys_call_table stray dev shell beyond evs eax ebx ecx edx ?s) = Some (out, rest, u)"
      "t = u \<or> (\<exists>b. t = u\<lparr>iflag := b\<rparr>)"
    using syscall_exit_Some [OF assms [unfolded syscall_wrapper_def Let_def]] by blast
  show ?thesis
  proof (cases "9 < eax \<or> sint eax \<le> 0")
    case True
    then have "out = Ret (-1) \<and> u = ?s" using u(1) by (auto split: if_splits)
    then show ?thesis using that u(2) by blast
  next
    case False
    then have "sys_call_table stray dev shell beyond evs eax ebx ecx edx ?s = Some (out, rest, u)" using u(1) by simp
    then show ?thesis using that u(2) False by blast
  qed
qed

lemma syscall_step:
  assumes "stack_ok k s" "unat depth \<le> 8188" "eax \<noteq> 9"
    and "syscall_wrapper stray dev shell beyond depth evs eax ebx ecx edx s = Some (out, rest, t)"
  shows "outcome_ok k out t"
proof -
  obtain j where k: "k = Suc j" using assms(1) by (cases k) (auto simp: stack_ok_def)
  let ?s = "syscall_entry depth s"
  have ok: "stack_ok (Suc j) ?s" using assms(1) by (simp add: k stack_ok_def syscall_entry_same)
  have slot: "get_pcb ?s = Some j" using entry_slot assms(1,2) k by blast
  obtain u where u: "t = u \<or> (\<exists>b. t = u\<lparr>iflag := b\<rparr>)" and "out = Ret (-1) \<and> u = ?s \<or>
      \<not> 9 < eax \<and> \<not> sint eax \<le> 0 \<and> sys_call_table stray dev shell beyond evs eax ebx ecx edx ?s = Some (out, rest, u)"
    using syscall_wrapper_cases [OF assms(4)] .
  then have "outcome_ok (Suc j) out u"
    using ok sys_call_table_ok [OF ok slot _ _ assms(3)] by (auto simp: outcome_ok_def)
  then show ?thesis using u outcome_ok_iflag k by blast
qed

end
