(* ===== verification/Execute.thy ===== *)
theory Execute
  imports Syscall
begin

text \<open>
  What \<open>sys_execute\<close>, \<open>sys_halt\<close> and \<open>sys_getargs\<close> of \<^verbatim>\<open>src/student-distrib/syscall.c\<close> promise to
  programs: a command line is split into the name of a program and its arguments, the file with that
  name is loaded into the frame of the new process and entered at the address in its header, the
  program can fetch the arguments, and when it ends the parent goes on as if the call had returned.
\<close>

section \<open>Stores to the page of a program\<close>

text \<open>A store through a piece of the address space that is mapped linearly.\<close>

lemma vstore_linear:
  assumes "length bs < 4294967296" "\<And>i. i < length bs \<Longrightarrow> page_walk s False True (a + of_nat i) = Some (pa + of_nat i)"
    and "\<And>i. i < length bs \<Longrightarrow> \<not> kernel_page (pa + of_nat i)"
  shows "vstore bs a s = Some (s\<lparr>ram := written (ram s) pa bs\<rparr>)"
  using assms
proof (induction bs arbitrary: a pa s)
  case (Cons b bs)
  let ?s = "s\<lparr>ram := (ram s)(pa := b)\<rparr>"
  have "page_walk ?s False True (a + 1 + of_nat i) = Some (pa + 1 + of_nat i)" if "i < length bs" for i
    using Cons.prems(2) [of "Suc i"] that by (simp add: ac_simps)
  moreover have "\<not> kernel_page (pa + 1 + of_nat i)" if "i < length bs" for i
    using Cons.prems(3) [of "Suc i"] that by (simp add: ac_simps)
  ultimately have "vstore bs (a + 1) ?s = Some (?s\<lparr>ram := written (ram ?s) (pa + 1) bs\<rparr>)"
    using Cons.prems(1) by (intro Cons.IH) simp_all
  moreover have "vwalk s True a = Some pa" using Cons.prems(2,3) [of 0] by (simp add: vwalk_Some)
  ultimately show ?case using Cons.prems(1) by (simp add: written_Cons)
qed simp

definition program_frame :: "nat \<Rightarrow> u32" where
  "program_frame k = MB_8 + MB_4 * of_nat k"

lemma unat_program_frame: "k < 6 \<Longrightarrow> unat (program_frame k) = (2 + k) * 4194304"
  by (simp add: program_frame_def MB_8_def MB_4_def unat_word_ariths unat_of_nat)

lemma program_not_kernel: "k < 6 \<Longrightarrow> j < 4194304 \<Longrightarrow> \<not> kernel_page (program_frame k + of_nat j)"
proof -
  assume "k < 6" "j < 4194304"
  then have "unat (program_frame k + of_nat j) = (2 + k) * 4194304 + j"
    by (simp add: unat_plus_if unat_program_frame unat_of_nat)
  then show ?thesis by (simp add: kernel_page_def word_less_nat_alt)
qed

lemma program_linear:
  assumes "kernel_space s" "pageDir s ! 32 = program_entry (program_frame k)" "k < 6" "j < 4194304"
  shows "page_walk s user write (MB_128 + of_nat j) = Some (program_frame k + of_nat j)"
proof -
  have va: "unat (MB_128 + of_nat j) = 134217728 + j"
    using assms(4) by (simp add: MB_128_def unat_word_ariths unat_of_nat)
  have "(j + 32 * 4194304) mod 4194304 = j mod 4194304" by (rule mod_mult_self1)
  then have d: "(134217728 + j) div 4194304 = 32" "(134217728 + j) mod 4194304 = j"
    using assms(4) by (simp_all add: add.commute)
  have f: "unat (program_frame k) div 4194304 * 4194304 = unat (program_frame k)"
    by (simp add: unat_program_frame [OF assms(3)])
  have w: "(of_nat (unat (program_frame k) + j) :: u32) = program_frame k + of_nat j" by simp
  show ?thesis using program_walk [OF assms(1) _ assms(2), of "MB_128 + of_nat j"] unfolding va d f w by simp
qed

lemma vstore_program:
  assumes "kernel_space s" "pageDir s ! 32 = program_entry (program_frame k)" "k < 6" "off + length bs \<le> 4194304"
  shows "vstore bs (MB_128 + of_nat off) s = Some (s\<lparr>ram := written (ram s) (program_frame k + of_nat off) bs\<rparr>)"
proof (rule vstore_linear)
  fix i
  assume "i < length bs"
  then show "page_walk s False True (MB_128 + of_nat off + of_nat i) = Some (program_frame k + of_nat off + of_nat i)"
    using program_linear [OF assms(1-3), of "off + i"] assms(4) by (simp add: ac_simps)
  show "\<not> kernel_page (program_frame k + of_nat off + of_nat i)"
    using program_not_kernel [OF assms(3), of "off + i"] \<open>i < length bs\<close> assms(4) by (simp add: ac_simps)
qed (use assms(4) in simp)

lemma program_address: "0x8000000 \<le> unat buf \<Longrightarrow> buf = MB_128 + of_nat (unat buf - 0x8000000)"
  by (rule word_unat_eq_iff [THEN iffD2]) (simp add: MB_128_def unat_word_ariths unat_of_nat)

text \<open>What the kernel, or the program, finds there after a store.\<close>

lemma vview_program:
  assumes "kernel_space s" "pageDir s ! 32 = program_entry (program_frame k)" "k < 6"
    and "0x8000000 \<le> unat buf" "unat buf + length bs \<le> 0x8400000"
  shows "\<exists>t p. vstore bs buf s = Some t \<and> vview t buf = Some p \<and> (\<forall>i < length bs. p i = bs ! i)"
proof -
  define off where "off = unat buf - 0x8000000"
  have b: "buf = MB_128 + of_nat off" using program_address [OF assms(4)] by (simp add: off_def)
  have len: "off + length bs \<le> 4194304" using assms(4,5) by (simp add: off_def)
  let ?t = "s\<lparr>ram := written (ram s) (program_frame k + of_nat off) bs\<rparr>"
  let ?p = "\<lambda>i. case page_walk ?t False False (buf + of_nat i) of Some pa \<Rightarrow> ram ?t pa | None \<Rightarrow> 0"
  have "vstore bs buf s = Some ?t" unfolding b by (rule vstore_program [OF assms(1-3) len])
  moreover have "vview ?t buf = Some ?p" using assms(4) by (auto simp: vview_def)
  moreover have "?p i = bs ! i" if "i < length bs" for i
  proof -
    have "page_walk ?t False False (buf + of_nat i) = Some (program_frame k + of_nat off + of_nat i)"
      using program_linear [OF assms(1-3), of "off + i" False False] that len by (simp add: b ac_simps)
    then show ?thesis using that len by (simp add: written_def in_range_def unat_of_nat)
  qed
  ultimately show ?thesis by blast
qed

section \<open>The header of an executable\<close>

lemma exe_header_contents:
  "exe_header s nd = take 40 (file_contents (fs s) nd) @ replicate (40 - length (file_contents (fs s) nd)) 0"
proof (cases "nd < boot_nnod (fs s)")
  case True
  then have "snd (read_data (fs s) nd 0 40) = take 40 (file_contents (fs s) nd)"
    using read_data_bytes(1) [OF True, of 0 40] by simp
  then show ?thesis by (simp add: exe_header_def Let_def)
next
  case False
  then show ?thesis by (simp add: exe_header_def read_data_def file_contents_def linorder_not_less)
qed

lemma length_exe_header [simp]: "length (exe_header s nd) = 40"
  by (auto simp: exe_header_contents)

lemma list_view_pad: "list_view (take n bs @ replicate (n - length bs) 0) i = (if i < n then list_view bs i else 0)"
  by (auto simp: list_view_def nth_append)

lemma exe_header_view: "list_view (exe_header s nd) i = (if i < 40 then list_view (file_contents (fs s) nd) i else 0)"
  by (simp add: exe_header_contents list_view_pad)

lemma cstr_take_list:
  "0 \<notin> set (take n bs) \<Longrightarrow> cstr_take (list_view bs) n = take n bs"
proof -
  assume nz: "0 \<notin> set (take n bs)"
  have v: "view_take (list_view bs) n = take n bs @ replicate (n - length bs) 0"
    by (rule nth_equalityI) (auto simp: list_view_def nth_append)
  have "takeWhile (\<lambda>b. b \<noteq> 0) (take n bs @ replicate (n - length bs) 0) = take n bs"
    using nz by (subst takeWhile_append2) (auto simp: takeWhile_eq_Nil_iff)
  then show ?thesis by (simp only: cstr_take_def v)
qed

lemma check_exe_header:
  "strncmp (list_view (exe_header s nd)) (list_view check_exe) 4 = 0 \<longleftrightarrow> take 4 (file_contents (fs s) nd) = check_exe"
proof -
  let ?c = "file_contents (fs s) nd"
  have ck: "cstr_take (list_view check_exe) 4 = check_exe" by (subst cstr_take_list) (simp_all add: check_exe_def)
  have vt: "view_take (list_view (exe_header s nd)) 4 = view_take (list_view ?c) 4"
    by (simp add: view_take_def exe_header_view)
  have "strncmp (list_view (exe_header s nd)) (list_view check_exe) 4 = 0 \<longleftrightarrow> cstr_take (list_view ?c) 4 = check_exe"
    by (simp add: strncmp_zero_iff ck) (simp add: cstr_take_def vt)
  also have "\<dots> \<longleftrightarrow> take 4 ?c = check_exe"
  proof
    assume c: "take 4 ?c = check_exe"
    then have "0 \<notin> set (take 4 ?c)" by (simp add: check_exe_def)
    then show "cstr_take (list_view ?c) 4 = check_exe" using cstr_take_list c by simp
  next
    assume c: "cstr_take (list_view ?c) 4 = check_exe"
    let ?v = "view_take (list_view ?c) 4"
    have "length (takeWhile (\<lambda>b. b \<noteq> 0) ?v) = length ?v" using c by (simp add: cstr_take_def check_exe_def)
    then have v: "?v = check_exe"
      using c takeWhile_eq_take [of "\<lambda>b. b \<noteq> 0" ?v] by (simp add: cstr_take_def)
    have "4 \<le> length ?c"
    proof (rule ccontr)
      assume "\<not> 4 \<le> length ?c"
      then have "?v ! 3 = 0" by (simp add: list_view_def)
      then show False unfolding v by (simp add: check_exe_def)
    qed
    then have "take 4 ?c = ?v" by (intro nth_equalityI) (auto simp: list_view_def)
    then show "take 4 ?c = check_exe" using v by simp
  qed
  finally show ?thesis .
qed

lemma exe_entry_le32: "exe_entry exe = load_le32 (list_view exe) 24" if "28 \<le> length exe"
proof -
  let ?w = "\<lambda>i. ucast (exe ! i) :: u32"
  have small: "(?w i AND 0xFF) = ?w i" for i
    using bit_byte_high by (intro bit_word_eqI) (auto simp: bit_simps not_less [symmetric])
  have "?w 24 + push_bit 8 (?w 25) + push_bit 16 (?w 26) + push_bit 24 (?w 27) =
      ?w 24 OR push_bit 8 (?w 25) OR push_bit 16 (?w 26) OR push_bit 24 (?w 27)"
    by (subst disjunctive_add, force simp: bit_simps bit_byte_high)+ (simp add: or.assoc)
  then show ?thesis using that by (simp add: exe_entry_def small load_le32_def)
qed

section \<open>Command lines\<close>

text \<open>
  A command line: a word \<open>w\<close>, \<open>n\<close> spaces, the arguments \<open>a\<close> and an end character \<open>e\<close>, NUL or
  newline, all within the first 129 bytes. Without a space after the word there are no arguments;
  then no space may follow the NUL of the word before a newline in the first 33 bytes, because the
  code looks for the end of the word at spaces and newlines only.
\<close>

definition command_line :: "cptr \<Rightarrow> byte list \<Rightarrow> nat \<Rightarrow> byte list \<Rightarrow> byte \<Rightarrow> bool" where
  "command_line c w n a e \<longleftrightarrow>
     view_take c (length w + n + length a + 1) = w @ replicate n 0x20 @ a @ [e] \<and>
     w \<noteq> [] \<and> length w \<le> 32 \<and> set w \<inter> {0, 0x0A, 0x20} = {} \<and>
     (n = 0 \<longrightarrow> a = [] \<and> 0x20 \<notin> set (takeWhile (\<lambda>b. b \<noteq> 0x0A) (view_take c 33))) \<and> set a \<inter> {0, 0x0A} = {} \<and> (a \<noteq> [] \<longrightarrow> hd a \<noteq> 0x20) \<and> e \<in> {0, 0x0A} \<and>
     length w + n + length a \<le> 128"

lemma cmd_scan_stop:
  assumes "i \<le> n" "\<And>j. i \<le> j \<Longrightarrow> j < n \<Longrightarrow> c j \<noteq> 0x0A \<and> c j \<noteq> 0x20" "n \<le> 32" "c n = 0x0A \<or> c n = 0x20 \<or> n = 32"
  shows "cmd_scan c i = n"
  using assms
proof (induction "n - i" arbitrary: i)
  case 0
  then show ?case by (subst cmd_scan.simps) auto
next
  case (Suc d)
  then have "cmd_scan c (i + 1) = n" by (intro Suc.hyps(1)) auto
  then show ?case using Suc.hyps(2) Suc.prems by (subst cmd_scan.simps) auto
qed

lemma cmd_scan_le: "i \<le> 32 \<Longrightarrow> i \<le> cmd_scan c i \<and> cmd_scan c i \<le> 32"
proof (induction c i rule: cmd_scan.induct)
  case (1 c i)
  then show ?case by (subst (1 2) cmd_scan.simps) auto
qed

lemma cmd_scan_end: "i \<le> 32 \<Longrightarrow> c (cmd_scan c i) = 0x0A \<or> c (cmd_scan c i) = 0x20 \<or> cmd_scan c i = 32"
proof (induction c i rule: cmd_scan.induct)
  case (1 c i)
  then show ?case by (cases "c i \<noteq> 0x0A \<and> c i \<noteq> 0x20 \<and> i < 32") (auto simp: cmd_scan.simps [of c i])
qed

lemma cmd_scan_before: "i \<le> j \<Longrightarrow> j < cmd_scan c i \<Longrightarrow> c j \<noteq> 0x0A \<and> c j \<noteq> 0x20"
proof (induction c i rule: cmd_scan.induct)
  case (1 c i)
  show ?case
  proof (cases "c i \<noteq> 0x0A \<and> c i \<noteq> 0x20 \<and> i < 32")
    case True
    then have "cmd_scan c i = cmd_scan c (i + 1)" by (subst cmd_scan.simps) simp
    then show ?thesis using 1 True by (cases "i = j") auto
  next
    case False
    then have "cmd_scan c i = i" by (subst cmd_scan.simps) (simp only: if_False)
    then show ?thesis using 1(2,3) by simp
  qed
qed

lemma skip_spaces_stop:
  assumes "i \<le> n" "\<And>j. i \<le> j \<Longrightarrow> j < n \<Longrightarrow> c j = 0x20" "c n \<noteq> 0x20"
  shows "skip_spaces c i = Some n"
  using assms
proof (induction "n - i" arbitrary: i)
  case 0
  then show ?case by (subst skip_spaces.simps) auto
next
  case (Suc d)
  then have "skip_spaces c (i + 1) = Some n" by (intro Suc.hyps(1)) auto
  then show ?case using Suc.hyps(2) Suc.prems by (subst skip_spaces.simps) auto
qed

lemma arg_scan_word:
  assumes "j \<le> n" "\<And>k. j \<le> k \<Longrightarrow> k < n \<Longrightarrow> c (i + k) \<noteq> 0x0A \<and> c (i + k) \<noteq> 0" "i + n \<le> 128" "c (i + n) = 0x0A \<or> c (i + n) = 0"
  shows "arg_scan c i j = n"
  using assms
proof (induction "n - j" arbitrary: j)
  case 0
  then show ?case by (subst arg_scan.simps) auto
next
  case (Suc d)
  then have "arg_scan c i (j + 1) = n" by (intro Suc.hyps(1)) auto
  then show ?case using Suc.hyps(2) Suc.prems by (subst arg_scan.simps) auto
qed

text \<open>The bytes of a command line, part by part.\<close>

lemma command_line_nth:
  assumes "command_line c w n a e"
  shows "i < length w \<Longrightarrow> c i = w ! i"
    and "length w \<le> i \<Longrightarrow> i < length w + n \<Longrightarrow> c i = 0x20"
    and "k < length a \<Longrightarrow> c (length w + n + k) = a ! k"
    and "c (length w + n + length a) = e"
proof -
  let ?l = "length w + n + length a + 1"
  have "view_take c ?l ! i = c i" if "i < ?l" for i using that by simp
  then have nth: "c i = (w @ replicate n 0x20 @ a @ [e]) ! i" if "i < ?l" for i
    using assms that by (simp only: command_line_def)
  show "i < length w \<Longrightarrow> c i = w ! i" using nth [of i] by (simp add: nth_append)
  show "length w \<le> i \<Longrightarrow> i < length w + n \<Longrightarrow> c i = 0x20"
    using nth [of i] by (auto simp: nth_append less_diff_conv2 add.commute)
  show "k < length a \<Longrightarrow> c (length w + n + k) = a ! k" using nth [of "length w + n + k"] by (simp add: nth_append)
  show "c (length w + n + length a) = e" using nth [of "length w + n + length a"] by (simp add: nth_append)
qed

text \<open>The name that the code extracts when the word is followed by a NUL or ends the scan.\<close>

lemma command_name_string:
  assumes "view_take c (length w) = w" "length w \<le> 32" "0 \<notin> set w" "length w \<le> cmd_scan c 0"
    and "length w = cmd_scan c 0 \<or> c (length w) = 0"
  shows "cstr_take (list_view (command_name c)) 32 = w"
proof -
  let ?i = "cmd_scan c 0"
  have i: "?i \<le> 32" using cmd_scan_le by simp
  have nth: "view_take (list_view (command_name c)) 32 ! j = (if j < ?i then c j else 0)" if "j < 32" for j
    using that i by (simp add: command_name_def Let_def MAX_CMD_LEN_def list_view_def nth_append)
  have wj: "w ! j = c j" if "j < length w" for j using that arg_cong [OF assms(1), of "\<lambda>x. x ! j"] by simp
  have "length w \<le> length (view_take (list_view (command_name c)) 32)" using assms(2) by simp
  moreover have "take (length w) (view_take (list_view (command_name c)) 32) = w"
    using assms(2,4) nth wj by (intro nth_equalityI) auto
  moreover have "view_take (list_view (command_name c)) 32 ! length w = 0" if "length w < 32"
    using nth [OF that] assms(5) by auto
  ultimately have "takeWhile (\<lambda>b. b \<noteq> 0) (view_take (list_view (command_name c)) 32) = w"
    using assms(2,3) takeWhile_eq_take_P_nth [of "length w" "view_take (list_view (command_name c)) 32" "\<lambda>b. b \<noteq> 0"]
    by (metis (mono_tags, lifting) length_view_take nth_mem nth_take)
  then show ?thesis by (simp add: cstr_take_def)
qed

lemma command_line_scan:
  assumes "command_line c w n a e"
  shows "0 < n \<Longrightarrow> cmd_scan c 0 = length w"
    and "n = 0 \<Longrightarrow> length w \<le> cmd_scan c 0 \<and> c (cmd_scan c 0) \<noteq> 0x20 \<and> (length w = cmd_scan c 0 \<or> c (length w) = 0)"
proof -
  note nth = command_line_nth [OF assms]
  have c: "length w \<le> 32" "set w \<inter> {0, 0x0A, 0x20} = {}" using assms by (simp_all add: command_line_def)
  have w: "c j \<noteq> 0x0A \<and> c j \<noteq> 0x20" if "j < length w" for j using that nth(1) nth_mem c(2) by fastforce
  show "0 < n \<Longrightarrow> cmd_scan c 0 = length w" using w c(1) nth(2) [of "length w"] by (intro cmd_scan_stop) auto
  assume n: "n = 0"
  let ?i = "cmd_scan c 0"
  have i: "?i \<le> 32" using cmd_scan_le by simp
  have le: "length w \<le> ?i"
  proof (rule ccontr)
    assume "\<not> length w \<le> ?i"
    then have "?i < length w" "?i < 32" using c(1) by auto
    then show False using w [of ?i] cmd_scan_end [of 0 c] by simp
  qed
  have "c ?i \<noteq> 0x20"
  proof
    assume sp: "c ?i = 0x20"
    have "x \<noteq> 0x0A" if "x \<in> set (take (Suc ?i) (view_take c 33))" for x
      using that i sp cmd_scan_before [of 0 _ c] by (fastforce simp: in_set_conv_nth less_Suc_eq)
    then have "takeWhile (\<lambda>b. b \<noteq> 0x0A) (view_take c 33) =
        take (Suc ?i) (view_take c 33) @ takeWhile (\<lambda>b. b \<noteq> 0x0A) (drop (Suc ?i) (view_take c 33))"
      using takeWhile_append2 [of "take (Suc ?i) (view_take c 33)" "\<lambda>b. b \<noteq> 0x0A"] by (metis append_take_drop_id)
    moreover have "0x20 \<in> set (take (Suc ?i) (view_take c 33))"
      using sp i by (auto simp: in_set_conv_nth intro: exI [of _ ?i])
    ultimately show False using assms n by (simp add: command_line_def)
  qed
  moreover have "length w = ?i \<or> c (length w) = 0"
  proof -
    have "a = []" "e \<in> {0, 0x0A}" using assms n by (auto simp: command_line_def)
    then have "c (length w) = 0 \<or> c (length w) = 0x0A" using nth(4) n by simp
    then show ?thesis using cmd_scan_before [of 0 "length w" c] le by (cases "length w = ?i") auto
  qed
  ultimately show "length w \<le> ?i \<and> c ?i \<noteq> 0x20 \<and> (length w = ?i \<or> c (length w) = 0)" using le by blast
qed

lemma command_line_parse:
  assumes "command_line c w n a e"
  shows "cstr_take (list_view (command_name c)) 32 = w"
    and "command_args c = Some (a @ replicate (128 - length a) 0)"
    and "command_reads c \<le> 129"
proof -
  note nth = command_line_nth [OF assms] and scan = command_line_scan [OF assms]
  have c: "length w \<le> 32" "set w \<inter> {0, 0x0A, 0x20} = {}" "n = 0 \<longrightarrow> a = []" "set a \<inter> {0, 0x0A} = {}"
      "a \<noteq> [] \<longrightarrow> hd a \<noteq> 0x20" "e \<in> {0, 0x0A}" "length w + n + length a \<le> 128"
    using assms by (simp_all add: command_line_def)
  have i: "cmd_scan c 0 \<le> 32" using cmd_scan_le by simp
  have "view_take c (length w) = w" by (rule nth_equalityI) (simp_all add: nth(1))
  then show "cstr_take (list_view (command_name c)) 32 = w"
    using c(1,2) scan by (intro command_name_string) (cases "n = 0"; auto)+
  have "command_args c = Some (a @ replicate (128 - length a) 0) \<and> command_reads c \<le> 129"
  proof (cases "n = 0")
    case True
    then show ?thesis using scan(2) c(3) i by (simp add: command_args_def command_reads_def Let_def)
  next
    case False
    have "c (length w + n) \<noteq> 0x20" using nth(3) [of 0] nth(4) c(5,6) by (cases a) auto
    then have sk: "skip_spaces c (length w) = Some (length w + n)" using nth(2) by (intro skip_spaces_stop) auto
    have "arg_scan c (length w + n) 0 = length a"
    proof (rule arg_scan_word)
      fix k
      assume "k < length a"
      then show "c (length w + n + k) \<noteq> 0x0A \<and> c (length w + n + k) \<noteq> 0" using nth(3) nth_mem c(4) by fastforce
    qed (use c nth(4) in auto)
    moreover have "map (\<lambda>k. c (length w + n + k)) [0..<length a] = a" by (rule nth_equalityI) (simp_all add: nth(3))
    ultimately show ?thesis
      using nth(2) [of "length w"] False c(7) scan(1) by (simp add: command_args_def command_reads_def Let_def sk)
  qed
  then show "command_args c = Some (a @ replicate (128 - length a) 0)" "command_reads c \<le> 129" by simp_all
qed

section \<open>Loading a program\<close>

lemma read_data_whole:
  assumes "length (file_contents img nd) \<le> 0x3FF000"
  shows "snd (read_data img nd 0 KERNEL_STACK_BOTTOM) = file_contents img nd"
proof (cases "nd < boot_nnod img")
  case True
  then show ?thesis using read_data_bytes(1) [OF True, of 0 KERNEL_STACK_BOTTOM] assms by (simp add: KERNEL_STACK_BOTTOM_def)
next
  case False
  then show ?thesis by (simp add: read_data_def file_contents_def linorder_not_less)
qed

lemma start_program_loads:
  assumes "kernel_space s" "k < 6" "length (file_contents (fs s) nd) \<le> 0x3B8000"
  shows "\<exists>t. start_program as nd entry k s = Some (Enter entry (MB_132 - 4), t) \<and>
    ram t = written (ram s) (program_frame k + PROC_OFFSET) (file_contents (fs s) nd)"
proof -
  let ?f = "\<lambda>p. p\<lparr>args := strcpy_args as (args p)\<rparr>"
  let ?s = "set_pcb k ?f s"
  define w where "w = map_program (of_nat k) ?s"
  have "kernel_space ?s" using assms(1) kernel_space_cong(1) [of ?s s] by (simp add: set_pcb_def)
  then have m: "kernel_space w" "pageDir w ! 32 = program_entry (program_frame k)"
    by (simp_all add: w_def map_program_space program_frame_def)
  have fs: "fs w = fs s" by (simp add: w_def fs_def set_pcb_def)
  have off: "PROC_OFFSET = of_nat 0x48000" by (simp add: PROC_OFFSET_def)
  have "vstore (file_contents (fs s) nd) (MB_128 + PROC_OFFSET) w =
      Some (w\<lparr>ram := written (ram w) (program_frame k + PROC_OFFSET) (file_contents (fs s) nd)\<rparr>)"
    unfolding off using assms(3) by (intro vstore_program [OF m assms(2)]) simp
  then show ?thesis
    using read_data_whole [of "fs s" nd] assms(3) by (simp add: start_program_def Let_def w_def [symmetric] fs)
      (simp add: set_pcb_def w_def)
qed

text \<open>The control blocks after the start: only the one of the new process has changed.\<close>

lemma start_program_pcb:
  assumes "start_program as nd entry k s = Some (out, t)" "k < length (curr_pcb s)"
  shows "\<exists>q. curr_pcb t = (curr_pcb s)[k := q] \<and> args q = strcpy_args as (args (curr_pcb s ! k)) \<and>
    saved_esp q = esp s \<and> saved_ebp q = ebp s \<and> parent_pid q = of_nat k - 1"
proof -
  define w where "w = map_program (of_nat k) (set_pcb k (\<lambda>p. p\<lparr>args := strcpy_args as (args p)\<rparr>) s)"
  from assms(1) obtain u where
      u0: "vstore (snd (read_data (fs w) nd 0 KERNEL_STACK_BOTTOM)) (MB_128 + PROC_OFFSET) w = Some u"
    and t: "curr_pcb t = curr_pcb (set_pcb k (new_pcb k u) u)"
    by (auto simp: start_program_def Let_def w_def split: option.splits)
  have u: "curr_pcb u = curr_pcb w" "esp u = esp w" "ebp u = ebp w"
    using vstore_same [OF u0] by (simp_all add: same_kernel_def)
  let ?q = "new_pcb k u (curr_pcb u ! k)"
  have "curr_pcb t = (curr_pcb s)[k := ?q]" using assms(2) by (simp add: t u w_def set_pcb_def)
  moreover have "args (curr_pcb u ! k) = strcpy_args as (args (curr_pcb s ! k))"
    using assms(2) by (simp add: u w_def set_pcb_def)
  ultimately show ?thesis using u by (intro exI [of _ ?q]) (simp add: new_pcb_fields w_def set_pcb_def)
qed

lemma strcpy_args_string:
  assumes "0 \<notin> set a"
  shows "takeWhile (\<lambda>b. b \<noteq> 0) (strcpy_args (a @ replicate m 0) old) = a"
proof -
  have "takeWhile (\<lambda>b. b \<noteq> 0) (a @ replicate m 0) = a"
    using assms by (subst takeWhile_append2) (auto simp: takeWhile_eq_Nil_iff)
  moreover have "takeWhile (\<lambda>b. b \<noteq> 0) (a @ 0 # xs) = a" for xs
    using assms by (subst takeWhile_append2) auto
  ultimately show ?thesis by (simp add: strcpy_args_def Let_def)
qed

text \<open>\<open>sys_getargs\<close> for a control block whose arguments are the string \<open>a\<close>.\<close>

lemma args_memory_string:
  assumes "length (args q) = 128" "takeWhile (\<lambda>b. b \<noteq> 0) (args q) = a" "length a < 128"
  shows "is_cstring (args_memory beyond q) (length a)" "\<And>i. i < length a \<Longrightarrow> args_memory beyond q i = a ! i"
proof -
  have nth: "args_memory beyond q i = args q ! i" if "i < 128" for i
    using that assms(1) by (simp add: args_memory_def Let_def nth_append)
  have a: "args q ! i = a ! i \<and> a ! i \<noteq> 0" if "i < length a" for i
    using that assms(2) takeWhile_nth [of i "\<lambda>b. b \<noteq> 0" "args q"] nth_mem [of i a] set_takeWhileD [of _ "\<lambda>b. b \<noteq> 0" "args q"] by auto
  have "args q ! length a = 0"
    using assms nth_length_takeWhile [of "\<lambda>b. b \<noteq> 0" "args q"] by simp
  then show "is_cstring (args_memory beyond q) (length a)" "\<And>i. i < length a \<Longrightarrow> args_memory beyond q i = a ! i"
    using nth a assms(3) by (simp_all add: is_cstring_def)
qed

lemma getargs_string:
  assumes "get_pcb s = Some p" "length (args (curr_pcb s ! p)) = 128"
    and "takeWhile (\<lambda>b. b \<noteq> 0) (args (curr_pcb s ! p)) = a" "length a < 128" "buf \<noteq> 0" "0 < nbytes"
  shows "sys_getargs beyond buf nbytes s =
    (if a = [] \<or> nat nbytes \<le> length a then Some (-1, s)
     else map_option (\<lambda>t. (0, t)) (vstore (view_take (args_memory beyond (curr_pcb s ! p)) (nat nbytes)) buf s))"
proof -
  let ?m = "args_memory beyond (curr_pcb s ! p)"
  have m: "strlen ?m = Some (length a)" using args_memory_string(1) [OF assms(2-4)] by (simp add: strlen_iff)
  have "?m 0 = 0 \<longleftrightarrow> a = []"
    using args_memory_string(1) [OF assms(2-4), of beyond] by (cases a) (auto simp: is_cstring_def)
  then show ?thesis using assms(1,5,6) by (simp add: sys_getargs_def Let_def pcb_of_def m)
qed

text \<open>A name in a NUL-padded buffer reads as the name; names are compared up to a NUL or 32 characters.\<close>

lemma list_view_padded: "list_view (w @ replicate m 0) = list_view w"
  by (auto simp: list_view_def nth_append fun_eq_iff)

lemma takeWhile_of_take: "takeWhile P (take m xs) = take m (takeWhile P xs)"
  by (induction xs arbitrary: m) (auto simp: take_Cons split: nat.splits)

lemma cstr_take_shorter: "m \<le> n \<Longrightarrow> cstr_take p m = take m (cstr_take p n)"
proof -
  assume "m \<le> n"
  then have "view_take p m = take m (view_take p n)" by (intro nth_equalityI) auto
  then show ?thesis by (simp only: cstr_take_def takeWhile_of_take)
qed

lemma cstr_take_nonzero: "0 \<notin> set (cstr_take p n)" "length (cstr_take p n) \<le> n"
  using length_takeWhile_le [of "\<lambda>b. b \<noteq> 0" "view_take p n"] by (auto simp: cstr_take_def dest: set_takeWhileD)

lemma read_dentry_cong: "cstr_take f 32 = cstr_take g 32 \<Longrightarrow> read_dentry_by_name img f = read_dentry_by_name img g"
  by (simp add: read_dentry_by_name_def dentry_search_find strncmp_zero_iff)

text \<open>\<open>sys_execute\<close> of a command whose first word is \<open>w\<close> and not \<^verbatim>\<open>quit\<close>, after its parsing.\<close>

lemma execute_named:
  assumes "cstr_take (list_view (command_name command)) 32 = w" "w \<noteq> []" "take 4 w \<noteq> ascii ''quit''"
    and "command_args command = Some as" "pcbs_ok k (curr_pcb s)" "k \<le> 6"
  shows "execute_with halt command s =
    (case snd (read_dentry_by_name (fs s) (list_view w)) of
       None \<Rightarrow> Some (Ret (-1), s)
     | Some d \<Rightarrow>
         if ft d \<noteq> 2 \<or> take 4 (file_contents (fs s) (ind d)) \<noteq> check_exe \<or> k = 6 then Some (Ret (-1), s)
         else start_program as (ind d) (load_le32 (list_view (file_contents (fs s) (ind d))) 24) k s)"
proof -
  let ?nm = "list_view (command_name command)"
  have len: "length (command_name command) = 32"
    using cmd_scan_le [of 0 command] by (simp add: command_name_def Let_def MAX_CMD_LEN_def)
  have "?nm 0 \<noteq> 0"
  proof
    assume "?nm 0 = 0"
    then have "cstr_take ?nm 32 = []" by (simp add: cstr_take_def view_take_def upt_conv_Cons)
    then show False using assms(1,2) by simp
  qed
  then have w0: "command_name command ! 0 \<noteq> 0" using len by (simp add: list_view_def split: if_splits)
  have quit: "strncmp ?nm (list_view (ascii ''quit'')) 4 \<noteq> 0"
  proof -
    have q: "ascii ''quit'' = [0x71, 0x75, 0x69, 0x74]" by (simp add: ascii_def)
    then have "cstr_take (list_view (ascii ''quit'')) 4 = ascii ''quit''" by (subst cstr_take_list) simp_all
    then show ?thesis using assms(1,3) cstr_take_shorter [of 4 32 ?nm] by (simp add: strncmp_zero_iff)
  qed
  have "cstr_take (list_view w) 32 = w"
    using cstr_take_nonzero [of ?nm 32] assms(1) by (subst cstr_take_list) auto
  then have look: "read_dentry_by_name img ?nm = read_dentry_by_name img (list_view w)" for img
    using assms(1) by (intro read_dentry_cong) simp
  have entry: "exe_entry (exe_header s nd) = load_le32 (list_view (file_contents (fs s) nd)) 24" for nd
    by (simp add: exe_entry_le32 load_le32_def exe_header_view)
  have find: "find (\<lambda>i. active (curr_pcb s ! i) = 0) [0..<MAX_PROCESSES] = (if k = 6 then None else Some k)"
    unfolding MAX_PROCESSES_def using find_inactive [OF assms(5,6)] assms(6) by auto
  show ?thesis
    unfolding execute_with_def Let_def look check_exe_header entry find
    using w0 quit assms(4) by (auto split: prod.splits option.splits)
qed

lemma execute_line:
  assumes "command_line command w n a e" "take 4 w \<noteq> ascii ''quit''" "pcbs_ok k (curr_pcb s)" "k \<le> 6"
  shows "sys_execute shell command s =
    (case snd (read_dentry_by_name (fs s) (list_view w)) of
       None \<Rightarrow> Some (Ret (-1), s)
     | Some d \<Rightarrow>
         if ft d \<noteq> 2 \<or> take 4 (file_contents (fs s) (ind d)) \<noteq> check_exe \<or> k = 6 then Some (Ret (-1), s)
         else start_program (a @ replicate (128 - length a) 0) (ind d)
                (load_le32 (list_view (file_contents (fs s) (ind d))) 24) k s)"
proof -
  have "w \<noteq> []" using assms(1) by (simp add: command_line_def)
  then show ?thesis
    unfolding sys_execute_def using assms command_line_parse(1,2) [OF assms(1)] by (intro execute_named)
qed

section \<open>A running kernel\<close>

text \<open>A kernel in which the first process runs.\<close>

definition running_kernel :: process_state where
  "running_kernel = (map_program 0 (page_init tiny_kernel))
     \<lparr>curr_pcb := new_pcb 0 tiny_kernel blank_pcb # replicate 5 blank_pcb, tss_esp0 := 0x7FFFFC\<rparr>"

lemma blank_pcb_ok: "pcb_ok (Suc i) (Suc 0) blank_pcb"
  by (simp add: pcb_ok_def fds_ok_def blank_pcb_def blank_fd_def)

lemma paging_ok_tiny: "paging_ok tiny_kernel"
  by (simp add: paging_ok_def tiny_kernel_def blank_paging_def paging_state.defs keyboard_state.defs)

lemma running_kernel_ok: "stack_ok 1 running_kernel"
proof -
  have b: "fds_ok (file_desc_tb blank_pcb)" "length (args blank_pcb) = 128"
    by (simp_all add: fds_ok_def blank_pcb_def blank_fd_def)
  have "pcb_ok i 1 (curr_pcb running_kernel ! i)" if "i < 6" for i
    using that new_pcb_ok [OF b, of 0 tiny_kernel] blank_pcb_ok
    by (cases i) (simp_all add: running_kernel_def)
  then have "pcbs_ok 1 (curr_pcb running_kernel)" by (simp add: pcbs_ok_def running_kernel_def)
  moreover have "mapped_top 1 running_kernel"
    using map_program_space [OF kernel_space_page_init [OF paging_ok_tiny], of 0]
      kernel_space_cong(1) [of running_kernel "map_program 0 (page_init tiny_kernel)"]
    by (simp add: mapped_top_def running_kernel_def MB_8_def)
  ultimately show ?thesis by (simp add: stack_ok_def)
qed


text \<open>An image with one file, of the name \<open>w\<close>, which is the header of an executable, and the same kernel with such an image.\<close>

definition exe_image :: "byte list \<Rightarrow> cptr" where
  "exe_image w i = (if 64 \<le> i \<and> i < 64 + length w then w ! (i - 64)
     else if i = 0 \<or> i = 4 \<or> i = 8 then 1 else if i = 96 then 2
     else if i = 4096 then 28 else if 8192 \<le> i \<and> i < 8196 then check_exe ! (i - 8192)
     else if i = 8217 then 0x80 else if i = 8218 then 0x04 else if i = 8219 then 0x08 else 0)"

lemma page_init_process: "boot (page_init s) = boot s" "esp (page_init s) = esp s" "curr_pcb (page_init s) = curr_pcb s"
  by (simp_all add: page_init_def Let_def pageEnable_def spawnDir_def)

definition exe_kernel :: process_state where
  "exe_kernel = running_kernel\<lparr>ram := (\<lambda>a. exe_image [0x61] (unat (a - 0x600000)))\<rparr>"

lemma exe_kernel_ok: "stack_ok 1 exe_kernel" "get_pcb exe_kernel = Some 0"
proof -
  have "same_kernel running_kernel exe_kernel" "curr_pcb exe_kernel = curr_pcb running_kernel"
    by (simp_all add: exe_kernel_def same_kernel_def)
  then show "stack_ok 1 exe_kernel" by (rule stack_ok_same [OF running_kernel_ok])
  have "esp exe_kernel = 0x7FFF00" by (simp add: exe_kernel_def running_kernel_def page_init_process)
  then show "get_pcb exe_kernel = Some 0" by (simp add: get_pcb_iff)
qed

lemma length_check_exe: "length check_exe = 4"
  by (simp add: check_exe_def)

lemma exe_image_file:
  assumes img: "\<And>i. i < 16384 \<Longrightarrow> img i = exe_image w i" and w: "length w < 32" "0 \<notin> set w"
  shows "read_dentry_by_name img (list_view w) = (0, Some (boot_dirs img 0))" "ft (boot_dirs img 0) = 2"
    "ind (boot_dirs img 0) = 0" "file_contents img 0 = check_exe @ replicate 20 0 @ [0, 0x80, 0x04, 0x08]"
    "cstr_take (list_view (name (boot_dirs img 0))) 32 = w" "boot_nent img = 1"
proof -
  have i: "img i = exe_image w i" if "i < 64 \<or> 96 \<le> i \<and> i < 16384" for i using that img by auto
  have e: "exe_image w i = (if i = 0 \<or> i = 4 \<or> i = 8 then 1 else if i = 96 then 2
     else if i = 4096 then 28 else if 8192 \<le> i \<and> i < 8196 then check_exe ! (i - 8192)
     else if i = 8217 then 0x80 else if i = 8218 then 0x04 else if i = 8219 then 0x08 else 0)" if "i < 64 \<or> 96 \<le> i" for i
    using that w(1) by (auto simp: exe_image_def)
  have head: "boot_nnod img = 1" "inode_len img (inode_at 0) = 28"
    by (simp_all add: boot_nnod_def inode_len_def inode_at_def load_le32_def i e BLKSIZE_def)
  show "ft (boot_dirs img 0) = 2" "ind (boot_dirs img 0) = 0"
    by (simp_all add: boot_dirs_def Let_def load_le32_def i e)
  have "name (boot_dirs img 0) = w @ replicate (32 - length w) 0"
  proof (rule nth_equalityI)
    fix j
    assume "j < length (name (boot_dirs img 0))"
    then have j: "j < 32" by (simp add: boot_dirs_def Let_def)
    then have "name (boot_dirs img 0) ! j = exe_image w (64 + j)" by (simp add: boot_dirs_def Let_def img del: upt_rec_numeral)
    then show "name (boot_dirs img 0) ! j = (w @ replicate (32 - length w) 0) ! j"
      using j by (auto simp: exe_image_def nth_append)
  qed (use w(1) in \<open>simp add: boot_dirs_def Let_def\<close>)
  moreover have "32 - length w = Suc (31 - length w)" using w(1) by simp
  ultimately have "name (boot_dirs img 0) = w @ 0 # replicate (31 - length w) 0" by simp
  moreover have "length (name (boot_dirs img 0)) = 32" by (simp add: boot_dirs_def Let_def)
  ultimately show nm: "cstr_take (list_view (name (boot_dirs img 0))) 32 = w"
    using w(2) view_take_list_view [of "name (boot_dirs img 0)"] by (simp add: cstr_take_def takeWhile_append)
  show n: "boot_nent img = 1" by (simp add: boot_nent_def load_le32_def i e)
  have "cstr_take (list_view w) 32 = w" using w by (subst cstr_take_list) simp_all
  then show "read_dentry_by_name img (list_view w) = (0, Some (boot_dirs img 0))"
    by (simp add: read_dentry_by_name_def dentry_search_find strncmp_zero_iff nm n)
  have "file_byte img 0 i = exe_image w (8192 + i)" if "i < 28" for i
    using that by (simp add: file_byte_def block_data_def block_at_def inode_data_def inode_at_def load_le32_def i e
        BLKSIZE_def unat_of_nat head img)
  then have "file_contents img 0 = map (\<lambda>i. exe_image w (8192 + i)) [0..<28]"
    by (simp add: file_contents_def head del: upt_rec_numeral)
  also have "\<dots> = check_exe @ replicate 20 0 @ [0, 0x80, 0x04, 0x08]"
  proof (rule nth_equalityI)
    fix i
    assume "i < length (map (\<lambda>i. exe_image w (8192 + i)) [0..<28])"
    then consider "i < 4" | "4 \<le> i" "i < 24" | "i = 24" | "i = 25" | "i = 26" | "i = 27" by (simp only: length_map length_upt) linarith
    then show "map (\<lambda>i. exe_image w (8192 + i)) [0..<28] ! i = (check_exe @ replicate 20 0 @ [0, 0x80, 0x04, 0x08]) ! i"
      by cases (simp_all add: e nth_append length_check_exe)
  qed (simp add: length_check_exe)
  finally show "file_contents img 0 = check_exe @ replicate 20 0 @ [0, 0x80, 0x04, 0x08]" .
qed

lemma exe_kernel_image: "i < 16384 \<Longrightarrow> fs exe_kernel i = exe_image [0x61] i"
  by (simp add: fs_def exe_kernel_def running_kernel_def page_init_process unat_of_nat)

lemmas exe_kernel_file = exe_image_file [of "fs exe_kernel" "[0x61]", OF exe_kernel_image, simplified]

lemmas exe_kernel_name = exe_kernel_file(5,6)

lemma exe_kernel_line: "command_line (list_view [0x61, 0x20, 0x78, 0]) [0x61] 1 [0x78] 0" "take 4 [0x61] \<noteq> ascii ''quit''"
  by (simp_all add: command_line_def view_take_def list_view_def upt_conv_Cons ascii_def)

lemma exe_kernel_runs: "\<exists>entry t. sys_execute shell (list_view [0x61, 0x20, 0x78, 0]) exe_kernel = Some (Enter entry (MB_132 - 4), t)"
proof -
  have k: "pcbs_ok 1 (curr_pcb exe_kernel)" "kernel_space exe_kernel"
    using exe_kernel_ok(1) by (auto simp: stack_ok_def mapped_top_def)
  have "length (file_contents (fs exe_kernel) 0) \<le> 0x3B8000" by (simp add: exe_kernel_file check_exe_def)
  then have st: "\<exists>t. start_program as 0 entry 1 exe_kernel = Some (Enter entry (MB_132 - 4), t)" for as entry
    using start_program_loads [OF k(2), of 1 0 as entry] by auto
  obtain as entry where "sys_execute shell (list_view [0x61, 0x20, 0x78, 0]) exe_kernel = start_program as 0 entry 1 exe_kernel"
    using execute_line [OF exe_kernel_line k(1), of shell] exe_kernel_file by (auto simp: check_exe_def)
  then show ?thesis using st by metis
qed

section \<open>Properties\<close>

text \<open>C3. Running a program: when a process runs a command line whose first word, which does not begin with
  \<^verbatim>\<open>quit\<close>, names an executable file that fits into the page of a program, and fewer than six
  processes exist, \<open>sys_execute\<close> enters the new program at the address in bytes 24 to 27 of the file,
  with the whole file loaded at offset 0x48000 of the frame of the new process, no other byte of memory changed, and
  the rest of the line as its arguments.\<close>

theorem execute_loads:
  assumes "stack_ok k s" "get_pcb s = Some (k - 1)" "k < 6"
    and "command_line command w n a e" "take 4 w \<noteq> ascii ''quit''"
    and "read_dentry_by_name (fs s) (list_view w) = (0, Some d)" "ft d = 2"
    and "take 4 (file_contents (fs s) (ind d)) = check_exe" "length (file_contents (fs s) (ind d)) \<le> 0x3B8000"
  shows "\<exists>t. sys_execute shell command s =
      Some (Enter (load_le32 (list_view (file_contents (fs s) (ind d))) 24) (MB_132 - 4), t) \<and>
    stack_ok (Suc k) t \<and> takeWhile (\<lambda>b. b \<noteq> 0) (args (curr_pcb t ! k)) = a \<and>
    ram t = written (ram s) (program_frame k + PROC_OFFSET) (file_contents (fs s) (ind d))"
proof -
  let ?a = "a @ replicate (128 - length a) 0" and ?e = "load_le32 (list_view (file_contents (fs s) (ind d))) 24"
  have k: "pcbs_ok k (curr_pcb s)" "kernel_space s" "0 < k" "length (curr_pcb s) = 6"
    using assms(1) by (auto simp: stack_ok_def mapped_top_def pcbs_ok_def)
  have esp: "in_stack (k - 1) (esp s)" using assms(2) by (simp add: get_pcb_in_stack)
  have a: "0 \<notin> set a" "length a < 128" using assms(4) by (auto simp: command_line_def)
  obtain t where t: "start_program ?a (ind d) ?e k s = Some (Enter ?e (MB_132 - 4), t)"
      "ram t = written (ram s) (program_frame k + PROC_OFFSET) (file_contents (fs s) (ind d))"
    using start_program_loads [OF k(2) assms(3,9)] by blast
  have "sys_execute shell command s = Some (Enter ?e (MB_132 - 4), t)"
    using execute_line [OF assms(4,5) k(1), of shell] assms(3,6-8) t(1) by simp
  moreover have "stack_ok (Suc k) t"
    using start_program_ok [OF k(1) assms(3) k(2) esp _ _ t(1)] a(2) by (simp add: nth_append)
  moreover have "takeWhile (\<lambda>b. b \<noteq> 0) (args (curr_pcb t ! k)) = a"
    using start_program_pcb [OF t(1)] k(4) assms(3) strcpy_args_string [OF a(1)] by auto
  ultimately show ?thesis using t(2) by blast
qed

theorem execute_loads_witness:
  "\<exists>t. sys_execute (\<lambda>_. 0) (list_view [0x61, 0x20, 0x78, 0]) exe_kernel = Some (Enter 0x08048000 0x083FFFFC, t) \<and>
     stack_ok 2 t \<and> ram t 0xC48000 = 0x7F"
proof -
  let ?d = "boot_dirs (fs exe_kernel) 0"
  have "load_le32 (list_view (file_contents (fs exe_kernel) (ind ?d))) 24 = 0x08048000"
    by (simp add: exe_kernel_file load_le32_def list_view_def check_exe_def nth_append)
  moreover have "take 4 (file_contents (fs exe_kernel) (ind ?d)) = check_exe" "length (file_contents (fs exe_kernel) (ind ?d)) = 28"
    by (simp_all add: exe_kernel_file check_exe_def)
  moreover have "written m 0xC48000 (file_contents (fs exe_kernel) (ind ?d)) 0xC48000 = 0x7F" for m
    by (simp add: written_def in_range_def exe_kernel_file check_exe_def)
  ultimately show ?thesis
    using execute_loads [OF exe_kernel_ok(1) _ _ exe_kernel_line exe_kernel_file(1,2), of "\<lambda>_. 0"] exe_kernel_ok(2)
    by (auto simp: MB_132_def program_frame_def MB_8_def MB_4_def PROC_OFFSET_def numeral_2_eq_2)
qed

text \<open>C6. Commands that cannot be run: when a command has a first word, which does not begin with
  \<^verbatim>\<open>quit\<close>, and that word names no entry of the directory, or one that is no file, or a file
  without the magic number of an executable, or when six processes exist already, \<open>sys_execute\<close> returns
  -1 and changes nothing. The word may be ended by a space, a newline or a NUL. (An empty command returns 0 and one
  that begins with \<^verbatim>\<open>quit\<close> ends the process.)\<close>

theorem execute_refuses:
  assumes "stack_ok k s" "command_line command w n a e" "take 4 w \<noteq> ascii ''quit''"
    and "k = 6 \<or> (case snd (read_dentry_by_name (fs s) (list_view w)) of
           None \<Rightarrow> True
         | Some d \<Rightarrow> ft d \<noteq> 2 \<or> take 4 (file_contents (fs s) (ind d)) \<noteq> check_exe)"
  shows "sys_execute shell command s = Some (Ret (-1), s)"
proof -
  have "pcbs_ok k (curr_pcb s)" "k \<le> 6" using assms(1) by (simp_all add: stack_ok_def)
  then show ?thesis using execute_line [OF assms(2,3), of k s shell] assms(4) by (auto split: option.splits)
qed

lemma exe_kernel_absent: "read_dentry_by_name (fs exe_kernel) (list_view [0x62]) = (-1, None)"
proof -
  have "cstr_take (list_view (name (boot_dirs (fs exe_kernel) 0))) 32 = [0x61]" "boot_nent (fs exe_kernel) = 1"
    by (rule exe_kernel_name)+
  moreover have "cstr_take (list_view [0x62]) 32 = [0x62 :: byte]" by (subst cstr_take_list) simp_all
  ultimately show ?thesis by (simp add: read_dentry_by_name_def dentry_search_find strncmp_zero_iff)
qed

theorem execute_refuses_witness:
  "sys_execute (\<lambda>_. 0) (list_view [0x62, 0x20, 0x78, 0]) exe_kernel = Some (Ret (-1), exe_kernel) \<and>
   sys_execute (\<lambda>_. 0) (list_view [0x62, 0]) exe_kernel = Some (Ret (-1), exe_kernel)"
proof -
  have line: "command_line (list_view [0x62, 0x20, 0x78, 0]) [0x62] 1 [0x78] 0" "command_line (list_view [0x62, 0]) [0x62] 0 [] 0"
      "take 4 [0x62] \<noteq> ascii ''quit''"
    by (simp_all add: command_line_def view_take_def list_view_def upt_conv_Cons ascii_def)
  show ?thesis
    using execute_refuses [OF exe_kernel_ok(1) line(1,3), of "\<lambda>_. 0"] execute_refuses [OF exe_kernel_ok(1) line(2,3), of "\<lambda>_. 0"]
      exe_kernel_absent by simp
qed

end
