(* ===== verification/Nested.thy ===== *)
theory Nested
  imports Execute
begin

text \<open>
  What a process keeps while the processes above it run. The kernel stores the stack of the caller of
  \<open>sys_execute\<close> and the arguments in the control block of the started process; no call of a process
  above it changes them, so that its end resumes the caller where it stopped.
\<close>

section \<open>Saved parts of the control blocks\<close>

definition same_saved :: "nat \<Rightarrow> 'a process_state_scheme \<Rightarrow> 'b process_state_scheme \<Rightarrow> bool" where
  "same_saved i s t \<longleftrightarrow>
     args (curr_pcb t ! i) = args (curr_pcb s ! i) \<and> saved_esp (curr_pcb t ! i) = saved_esp (curr_pcb s ! i) \<and>
     saved_ebp (curr_pcb t ! i) = saved_ebp (curr_pcb s ! i)"

lemma same_saved_eq: "curr_pcb t = curr_pcb s \<Longrightarrow> same_saved i s t"
  by (simp add: same_saved_def)

lemma same_saved_refl [simp]: "same_saved i s s"
  by (simp add: same_saved_def)

lemma same_saved_trans: "same_saved i s t \<Longrightarrow> same_saved i t u \<Longrightarrow> same_saved i s u"
  by (simp add: same_saved_def)

lemma same_saved_update:
  assumes "curr_pcb t = (curr_pcb s)[p := q]"
    and "p = i \<Longrightarrow> args q = args (curr_pcb s ! p) \<and> saved_esp q = saved_esp (curr_pcb s ! p) \<and> saved_ebp q = saved_ebp (curr_pcb s ! p)"
  shows "same_saved i s t"
  using assms by (cases "p = i"; cases "p < length (curr_pcb s)") (auto simp: same_saved_def list_update_beyond not_less)

lemma set_fd_saved [simp]:
  "args (set_fd fd f q) = args q" "saved_esp (set_fd fd f q) = saved_esp q" "saved_ebp (set_fd fd f q) = saved_ebp q"
  by (simp_all add: set_fd_def)

lemma same_saved_set_fd: "curr_pcb t = (curr_pcb s)[p := set_fd fd f (curr_pcb s ! p)] \<Longrightarrow> same_saved i s t"
  by (erule same_saved_update) simp

section \<open>System calls\<close>

lemma sys_read_saved: "sys_read dev evs fd buf n s = Some (r, rest, t) \<Longrightarrow> same_saved i s t"
proof (cases "t = s")
  case False
  assume "sys_read dev evs fd buf n s = Some (r, rest, t)"
  with False obtain p v bs u where p: "get_pcb s = Some p"
      "fap_read dev evs (f_op (file_desc_tb (pcb_of s p) ! nat fd)) (nat fd) (vview s buf) n s = Some (v, bs, rest, u)"
      "vstore bs buf u = Some t"
    by (auto simp: sys_read_def Let_def split: if_splits option.splits)
  then have "same_saved i s u" "curr_pcb t = curr_pcb u"
    using fap_read_moves [OF p(1,2)] vstore_same [OF p(3)] by (auto simp: fd_moved_def intro: same_saved_set_fd)
  then show ?thesis using same_saved_trans same_saved_eq by blast
qed simp

lemma sys_write_saved: "sys_write fd buf n s = Some (r, t) \<Longrightarrow> same_saved i s t"
proof (cases "t = s")
  case False
  assume "sys_write fd buf n s = Some (r, t)"
  with False obtain p v where "fap_write (f_op (file_desc_tb (pcb_of s p) ! nat fd)) (nat fd) (vview s buf) n s = Some (v, t)"
    by (auto simp: sys_write_def Let_def dest!: fd_write_fap split: if_splits option.splits)
  then show ?thesis using fap_write_keeps same_saved_eq by blast
qed simp

lemma same_saved_set_pcb_fd: "same_saved i s (set_pcb p (set_fd fd f) s)"
  by (rule same_saved_set_fd [where p = p and fd = fd and f = f]) (simp add: set_pcb_def)

lemma sys_open_saved: "sys_open fn s = Some (r, t) \<Longrightarrow> same_saved i s t"
proof -
  have rtc: "same_saved i s (snd (rtc_open f u))" if "same_saved i s u" for f and u :: "'a process_state_scheme"
    using same_kernel_beyond [OF rtc_open_beyond [of f u]] that same_saved_eq same_saved_trans by blast
  show "sys_open fn s = Some (r, t) \<Longrightarrow> same_saved i s t"
    by (auto simp: sys_open_def Let_def intro!: rtc same_saved_set_pcb_fd split: option.splits if_splits prod.splits)
qed

lemma sys_close_saved: "sys_close fd s = Some (r, t) \<Longrightarrow> same_saved i s t"
  by (auto simp: sys_close_def intro: same_saved_set_pcb_fd split: if_splits option.splits)

lemma sys_getargs_saved: "sys_getargs beyond buf n s = Some (r, t) \<Longrightarrow> same_saved i s t"
  using vstore_same by (fastforce intro: same_saved_eq simp: sys_getargs_def Let_def split: if_splits option.splits)

lemma sys_vidmap_saved: "sys_vidmap a s = Some (r, t) \<Longrightarrow> same_saved i s t"
  using vstore_same by (fastforce intro: same_saved_eq simp: sys_vidmap_def split: if_splits)

lemmas returning_calls_saved = sys_read_saved sys_write_saved sys_open_saved sys_close_saved sys_getargs_saved sys_vidmap_saved

lemma halt_close_saved [simp]: "args (halt_close q) = args q" "saved_ebp (halt_close q) = saved_ebp q"
  by (simp_all add: halt_close_eq)

text \<open>The end of a process that is not the first.\<close>

lemma halt_to_parent:
  assumes "get_pcb s = Some k" "0 < k" "length (curr_pcb s) = 6" "parent_pid (curr_pcb s ! k) = of_nat k - 1"
  shows "\<exists>t. sys_halt shell status s = Some (Resume (sint status), t) \<and>
    curr_pcb t = (curr_pcb s)[k := halt_close (curr_pcb s ! k)] \<and>
    esp t = saved_esp (curr_pcb s ! k) \<and> ebp t = saved_ebp (curr_pcb s ! k)"
proof -
  have k: "k < 6" using assms(1) by (simp add: get_pcb_in_stack)
  have "(of_nat k :: u32) - 1 \<noteq> - 1"
  proof
    assume "(of_nat k :: u32) - 1 = - 1"
    then have "unat (of_nat k :: u32) = 0" by simp
    then show False using assms(2) k by (simp add: unat_of_nat)
  qed
  then show ?thesis using assms k by (auto simp: sys_halt_def Let_def halt_return_def pcb_of_def set_pcb_def)
qed

lemma sys_halt_resumes:
  assumes "stack_ok (Suc k) s" "get_pcb s = Some k" "0 < k"
  shows "\<exists>t. sys_halt shell status s = Some (Resume (sint status), t) \<and> stack_ok k t \<and>
    esp t = saved_esp (curr_pcb s ! k) \<and> ebp t = saved_ebp (curr_pcb s ! k) \<and> (\<forall>i. same_saved i s t)"
proof -
  have "length (curr_pcb s) = 6" "parent_pid (curr_pcb s ! k) = of_nat k - 1"
    using assms(1) by (auto simp: stack_ok_def pcbs_ok_def pcb_ok_def)
  then obtain t where h: "sys_halt shell status s = Some (Resume (sint status), t)"
      and t: "curr_pcb t = (curr_pcb s)[k := halt_close (curr_pcb s ! k)]"
      "esp t = saved_esp (curr_pcb s ! k)" "ebp t = saved_ebp (curr_pcb s ! k)"
    using halt_to_parent [OF assms(2,3), of shell status] by blast
  have "stack_ok k t" using sys_halt_cases [OF assms(1,2) h] assms(3) by auto
  moreover have "same_saved i s t" for i using t(1) by (rule same_saved_update) simp
  ultimately show ?thesis using h t by blast
qed

lemma sys_halt_saved:
  assumes "stack_ok (Suc k) s" "get_pcb s = Some k" "0 < k" "sys_halt shell status s = Some (out, t)"
  shows "same_saved i s t"
  using sys_halt_resumes [OF assms(1-3), of shell status] assms(4) by auto

lemma sys_execute_saved:
  assumes "stack_ok (Suc k) s" "get_pcb s = Some k" "0 < k" "i < Suc k" "sys_execute shell command s = Some (out, t)"
  shows "same_saved i s t"
proof -
  have pcbs: "pcbs_ok (Suc k) (curr_pcb s)" "Suc k \<le> 6" "length (curr_pcb s) = 6"
    using assms(1) by (auto simp: stack_ok_def pcbs_ok_def)
  have "t = s \<or> sys_halt shell 0 s = Some (out, t) \<or>
      (\<exists>as nd e. Suc k < 6 \<and> start_program as nd e (Suc k) s = Some (out, t))"
    using assms(5) by (auto simp: sys_execute_def execute_with_def Let_def MAX_PROCESSES_def find_inactive [OF pcbs(1,2)]
        simp del: upt_rec_numeral split: if_splits option.splits prod.splits)
  then show ?thesis
  proof (elim disjE exE conjE)
    fix as nd e
    assume "Suc k < 6" "start_program as nd e (Suc k) s = Some (out, t)"
    then obtain q where "curr_pcb t = (curr_pcb s)[Suc k := q]" using start_program_pcb pcbs(3) by fastforce
    then show ?thesis by (rule same_saved_update) (use assms(4) in simp)
  qed (use sys_halt_saved [OF assms(1-3)] in auto)
qed

text \<open>A call of a process above the first changes nothing saved in the processes up to it.\<close>

lemma syscall_saved:
  assumes "stack_ok k s" "1 < k" "i < k" "unat depth \<le> 8188" "eax \<noteq> 9"
    and "syscall_wrapper stray dev shell beyond depth evs eax ebx ecx edx s = Some (out, rest, t)"
  shows "same_saved i s t"
proof -
  obtain j where k: "k = Suc j" "0 < j" using assms(2) by (cases k) auto
  let ?s = "syscall_entry depth s"
  have ok: "stack_ok (Suc j) ?s" using assms(1) by (simp add: k stack_ok_def syscall_entry_same)
  have slot: "get_pcb ?s = Some j" using entry_slot assms(1,4) k by blast
  obtain u where u: "t = u \<or> (\<exists>b. t = u\<lparr>iflag := b\<rparr>)" and c: "out = Ret (-1) \<and> u = ?s \<or>
      \<not> 9 < eax \<and> \<not> sint eax \<le> 0 \<and> sys_call_table stray dev shell beyond evs eax ebx ecx edx ?s = Some (out, rest, u)"
    using syscall_wrapper_cases [OF assms(6)] .
  have "same_saved i ?s u"
    using c
  proof
    assume call: "\<not> 9 < eax \<and> \<not> sint eax \<le> 0 \<and> sys_call_table stray dev shell beyond evs eax ebx ecx edx ?s = Some (out, rest, u)"
    show ?thesis
    proof (cases "eax = 1 \<or> eax = 2")
      case True
      then show ?thesis using call sys_halt_saved [OF ok slot k(2)] sys_execute_saved [OF ok slot k(2)] assms(3) k(1)
        by (auto simp: sys_call_table_def split: option.splits if_splits)
    next
      case False
      then show ?thesis using call syscall_number [of eax] assms(5) by (auto simp: sys_call_table_def intro: returning_calls_saved)
    qed
  qed simp
  then show ?thesis using u by (auto simp: same_saved_def syscall_entry_def)
qed

end
