(* ===== verification/Descriptors.thy ===== *)
theory Descriptors
  imports Prelude
begin

text \<open>
  The descriptors of \<^verbatim>\<open>src/student-distrib/x86_desc.h\<close>: segment descriptors and interrupt gates
  as records with the fields of the C structures, bit fields as words of their width, and the macros
  that fill them. \<open>seg_val\<close> and \<open>idt_val\<close> are the \<^verbatim>\<open>val\<close> members of the unions, the two words as
  the packed fields lie in memory; \<open>seg_base\<close>, \<open>seg_limit\<close> and \<open>gate_\<close>\<open>\<dots>\<close> read them as the
  processor does.
\<close>

section \<open>Selectors\<close>

definition KERNEL_CS :: u16 where "KERNEL_CS = 0x0010"
definition USER_CS :: u16 where "USER_CS = 0x0023"
definition USER_DS :: u16 where "USER_DS = 0x002B"
definition KERNEL_TSS :: u16 where "KERNEL_TSS = 0x0030"
definition KERNEL_LDT :: u16 where "KERNEL_LDT = 0x0038"
definition TSS_SIZE :: u32 where "TSS_SIZE = 104"
definition NUM_VEC :: nat where "NUM_VEC = 256"

section \<open>Segment descriptors\<close>

record seg_desc =
  seg_lim_15_00 :: u16
  base_15_00 :: u16
  base_23_16 :: byte
  sd_type :: "4 word"
  sd_sys :: "1 word"
  sd_dpl :: "2 word"
  sd_present :: "1 word"
  seg_lim_19_16 :: "4 word"
  avail :: "1 word"
  sd_reserved :: "1 word"
  opsize :: "1 word"
  granularity :: "1 word"
  base_31_24 :: byte

definition seg_val :: "seg_desc \<Rightarrow> u32 \<times> u32" where
  "seg_val d =
     (ucast (seg_lim_15_00 d) OR push_bit 16 (ucast (base_15_00 d)),
      ucast (base_23_16 d) OR push_bit 8 (ucast (sd_type d)) OR push_bit 12 (ucast (sd_sys d)) OR
      push_bit 13 (ucast (sd_dpl d)) OR push_bit 15 (ucast (sd_present d)) OR
      push_bit 16 (ucast (seg_lim_19_16 d)) OR push_bit 20 (ucast (avail d)) OR
      push_bit 21 (ucast (sd_reserved d)) OR push_bit 22 (ucast (opsize d)) OR
      push_bit 23 (ucast (granularity d)) OR push_bit 24 (ucast (base_31_24 d)))"

definition SET_LDT_PARAMS :: "u32 \<Rightarrow> u32 \<Rightarrow> seg_desc \<Rightarrow> seg_desc" where
  "SET_LDT_PARAMS addr lim str =
     str\<lparr>base_31_24 := ucast (drop_bit 24 (addr AND 0xFF000000)),
         base_23_16 := ucast (drop_bit 16 (addr AND 0x00FF0000)),
         base_15_00 := ucast (addr AND 0x0000FFFF),
         seg_lim_19_16 := ucast (drop_bit 16 (lim AND 0x000F0000)),
         seg_lim_15_00 := ucast (lim AND 0x0000FFFF)\<rparr>"

definition SET_TSS_PARAMS :: "u32 \<Rightarrow> u32 \<Rightarrow> seg_desc \<Rightarrow> seg_desc" where
  "SET_TSS_PARAMS addr lim str =
     str\<lparr>base_31_24 := ucast (drop_bit 24 (addr AND 0xFF000000)),
         base_23_16 := ucast (drop_bit 16 (addr AND 0x00FF0000)),
         base_15_00 := ucast (addr AND 0x0000FFFF),
         seg_lim_19_16 := ucast (drop_bit 16 (lim AND 0x000F0000)),
         seg_lim_15_00 := ucast (lim AND 0x0000FFFF)\<rparr>"

text \<open>The reading of the processor: base address, limit, type with the system bit, privilege, presence.\<close>

definition seg_base :: "u32 \<times> u32 \<Rightarrow> u32" where
  "seg_base v = drop_bit 16 (fst v) OR push_bit 16 (snd v AND 0xFF) OR (snd v AND 0xFF000000)"

definition seg_limit :: "u32 \<times> u32 \<Rightarrow> u32" where
  "seg_limit v = (fst v AND 0xFFFF) OR (snd v AND 0xF0000)"

definition seg_type :: "u32 \<times> u32 \<Rightarrow> u32" where "seg_type v = drop_bit 8 (snd v) AND 0x1F"
definition seg_present :: "u32 \<times> u32 \<Rightarrow> bool" where "seg_present v = bit (snd v) 15"

section \<open>Interrupt gates\<close>

record idt_desc_t =
  offset_15_00 :: u16
  seg_selector :: u16
  reserved4 :: byte
  reserved3 :: "1 word"
  reserved2 :: "1 word"
  reserved1 :: "1 word"
  gate_size :: "1 word"
  reserved0 :: "1 word"
  dpl :: "2 word"
  present :: "1 word"
  offset_31_16 :: u16

definition idt_val :: "idt_desc_t \<Rightarrow> u32 \<times> u32" where
  "idt_val d =
     (ucast (offset_15_00 d) OR push_bit 16 (ucast (seg_selector d)),
      ucast (reserved4 d) OR push_bit 8 (ucast (reserved3 d)) OR push_bit 9 (ucast (reserved2 d)) OR
      push_bit 10 (ucast (reserved1 d)) OR push_bit 11 (ucast (gate_size d)) OR
      push_bit 12 (ucast (reserved0 d)) OR push_bit 13 (ucast (dpl d)) OR push_bit 15 (ucast (present d)) OR
      push_bit 16 (ucast (offset_31_16 d)))"

definition SET_IDT_ENTRY :: "u32 \<Rightarrow> idt_desc_t \<Rightarrow> idt_desc_t" where
  "SET_IDT_ENTRY handler str =
     str\<lparr>offset_31_16 := ucast (drop_bit 16 (handler AND 0xFFFF0000)), offset_15_00 := ucast (handler AND 0xFFFF)\<rparr>"

text \<open>The reading of the processor: a type of 0xE with a zero above it is a 32-bit interrupt gate.\<close>

definition gate_offset :: "u32 \<times> u32 \<Rightarrow> u32" where
  "gate_offset v = (fst v AND 0xFFFF) OR (snd v AND 0xFFFF0000)"

definition gate_selector :: "u32 \<times> u32 \<Rightarrow> u16" where "gate_selector v = ucast (drop_bit 16 (fst v))"
definition gate_type :: "u32 \<times> u32 \<Rightarrow> u32" where "gate_type v = drop_bit 8 (snd v) AND 0x1F"
definition gate_dpl :: "u32 \<times> u32 \<Rightarrow> u32" where "gate_dpl v = drop_bit 13 (snd v) AND 3"
definition gate_present :: "u32 \<times> u32 \<Rightarrow> bool" where "gate_present v = bit (snd v) 15"

lemmas gate_defs = gate_offset_def gate_selector_def gate_type_def gate_dpl_def gate_present_def

section \<open>Reading back what was written\<close>

text \<open>The bits of a field at its place, and of a value under a mask that is a block of ones.\<close>

lemma bit_place:
  "bit (push_bit k (ucast (w :: 'a::len word)) :: u32) n \<longleftrightarrow> k \<le> n \<and> n < k + LENGTH('a) \<and> n < 32 \<and> bit w (n - k)"
  "bit (ucast (w :: 'a word) :: u32) n \<longleftrightarrow> n < LENGTH('a) \<and> n < 32 \<and> bit w n"
  by (auto simp: bit_push_bit_iff bit_unsigned_iff dest: bit_imp_le_length)

lemma mask_block:
  "(0xFF :: u32) = push_bit 0 (mask 8)" "(0xFFFF :: u32) = push_bit 0 (mask 16)" "(0xFFFF0000 :: u32) = push_bit 16 (mask 16)"
  "(0xFF000000 :: u32) = push_bit 24 (mask 8)" "(0x00FF0000 :: u32) = push_bit 16 (mask 8)"
  "(0x000F0000 :: u32) = push_bit 16 (mask 4)" "(0x1F :: u32) = push_bit 0 (mask 5)" "(3 :: u32) = push_bit 0 (mask 2)"
  "(0xF :: u32) = push_bit 0 (mask 4)"
  by (simp_all add: mask_eq_exp_minus_1)

lemma bit_block: "bit (x AND push_bit m (mask k) :: u32) n \<longleftrightarrow> m \<le> n \<and> n < m + k \<and> n < 32 \<and> bit x n"
  by (auto simp: bit_and_iff bit_push_bit_iff bit_mask_iff)

lemma bit_masked:
  "bit (x AND 0xFF :: u32) n \<longleftrightarrow> n < 8 \<and> bit x n" "bit (x AND 0xFFFF :: u32) n \<longleftrightarrow> n < 16 \<and> bit x n"
  "bit (x AND 0xFFFF0000 :: u32) n \<longleftrightarrow> 16 \<le> n \<and> n < 32 \<and> bit x n"
  "bit (x AND 0xFF000000 :: u32) n \<longleftrightarrow> 24 \<le> n \<and> n < 32 \<and> bit x n"
  "bit (x AND 0x00FF0000 :: u32) n \<longleftrightarrow> 16 \<le> n \<and> n < 24 \<and> bit x n"
  "bit (x AND 0x000F0000 :: u32) n \<longleftrightarrow> 16 \<le> n \<and> n < 20 \<and> bit x n"
  "bit (x AND 0x1F :: u32) n \<longleftrightarrow> n < 5 \<and> bit x n" "bit (x AND 3 :: u32) n \<longleftrightarrow> n < 2 \<and> bit x n"
  "bit (x AND 0xF :: u32) n \<longleftrightarrow> n < 4 \<and> bit x n"
  unfolding mask_block bit_block by auto

lemma bit_u32_high: "32 \<le> n \<Longrightarrow> \<not> bit (w :: u32) n"
  by (auto dest: bit_imp_le_length)

text \<open>The words of a descriptor, bit by bit.\<close>

lemma idt_val_bits:
  assumes "n < 32"
  shows "bit (fst (idt_val d)) n = (if n < 16 then bit (offset_15_00 d) n else bit (seg_selector d) (n - 16))"
    and "bit (snd (idt_val d)) n =
      (if n < 8 then bit (reserved4 d) n else if n = 8 then bit (reserved3 d) 0 else if n = 9 then bit (reserved2 d) 0
       else if n = 10 then bit (reserved1 d) 0 else if n = 11 then bit (gate_size d) 0 else if n = 12 then bit (reserved0 d) 0
       else if n < 15 then bit (dpl d) (n - 13) else if n = 15 then bit (present d) 0 else bit (offset_31_16 d) (n - 16))"
proof -
  show "bit (fst (idt_val d)) n = (if n < 16 then bit (offset_15_00 d) n else bit (seg_selector d) (n - 16))"
    using assms by (simp add: idt_val_def bit_or_iff bit_place)
  consider "n < 8" | "n = 8" | "n = 9" | "n = 10" | "n = 11" | "n = 12" | "13 \<le> n" "n < 15" | "n = 15" | "16 \<le> n"
    using assms by linarith
  then show "bit (snd (idt_val d)) n =
      (if n < 8 then bit (reserved4 d) n else if n = 8 then bit (reserved3 d) 0 else if n = 9 then bit (reserved2 d) 0
       else if n = 10 then bit (reserved1 d) 0 else if n = 11 then bit (gate_size d) 0 else if n = 12 then bit (reserved0 d) 0
       else if n < 15 then bit (dpl d) (n - 13) else if n = 15 then bit (present d) 0 else bit (offset_31_16 d) (n - 16))"
    by cases (use assms in \<open>simp_all add: idt_val_def bit_or_iff bit_place\<close>)
qed

lemma seg_val_bits:
  assumes "n < 32"
  shows "bit (fst (seg_val d)) n = (if n < 16 then bit (seg_lim_15_00 d) n else bit (base_15_00 d) (n - 16))"
    and "bit (snd (seg_val d)) n =
      (if n < 8 then bit (base_23_16 d) n else if n < 12 then bit (sd_type d) (n - 8) else if n = 12 then bit (sd_sys d) 0
       else if n < 15 then bit (sd_dpl d) (n - 13) else if n = 15 then bit (sd_present d) 0
       else if n < 20 then bit (seg_lim_19_16 d) (n - 16) else if n = 20 then bit (avail d) 0
       else if n = 21 then bit (sd_reserved d) 0 else if n = 22 then bit (opsize d) 0
       else if n = 23 then bit (granularity d) 0 else bit (base_31_24 d) (n - 24))"
proof -
  show "bit (fst (seg_val d)) n = (if n < 16 then bit (seg_lim_15_00 d) n else bit (base_15_00 d) (n - 16))"
    using assms by (simp add: seg_val_def bit_or_iff bit_place)
  consider "n < 8" | "8 \<le> n" "n < 12" | "n = 12" | "13 \<le> n" "n < 15" | "n = 15" | "16 \<le> n" "n < 20" | "n = 20" |
      "n = 21" | "n = 22" | "n = 23" | "24 \<le> n"
    using assms by linarith
  then show "bit (snd (seg_val d)) n =
      (if n < 8 then bit (base_23_16 d) n else if n < 12 then bit (sd_type d) (n - 8) else if n = 12 then bit (sd_sys d) 0
       else if n < 15 then bit (sd_dpl d) (n - 13) else if n = 15 then bit (sd_present d) 0
       else if n < 20 then bit (seg_lim_19_16 d) (n - 16) else if n = 20 then bit (avail d) 0
       else if n = 21 then bit (sd_reserved d) 0 else if n = 22 then bit (opsize d) 0
       else if n = 23 then bit (granularity d) 0 else bit (base_31_24 d) (n - 24))"
    by cases (use assms in \<open>simp_all add: seg_val_def bit_or_iff bit_place\<close>)
qed

text \<open>The fields of a gate.\<close>

lemma bit_cut: "bit (ucast (w :: u32) :: 'a::len word) n \<longleftrightarrow> n < LENGTH('a) \<and> bit w n"
  by (auto simp: bit_unsigned_iff)

lemma gate_offset_set: "gate_offset (idt_val (SET_IDT_ENTRY h d)) = h"
proof (rule bit_word_eqI)
  fix n
  assume "n < LENGTH(32)"
  then show "bit (gate_offset (idt_val (SET_IDT_ENTRY h d))) n = bit h n"
    by (cases "n < 16")
      (auto simp: gate_offset_def bit_or_iff bit_masked idt_val_bits SET_IDT_ENTRY_def bit_cut bit_drop_bit_eq)
qed

lemma gate_selector_set: "gate_selector (idt_val d) = seg_selector d"
  by (rule bit_word_eqI) (simp add: gate_selector_def bit_cut bit_drop_bit_eq idt_val_bits)

lemma gate_dpl_set: "gate_dpl (idt_val d) = ucast (dpl d)"
proof (rule bit_word_eqI)
  fix n
  assume "n < LENGTH(32)"
  moreover have "n = 0 \<or> n = 1 \<or> 2 \<le> n" by linarith
  ultimately show "bit (gate_dpl (idt_val d)) n = bit (ucast (dpl d) :: u32) n"
    by (elim disjE) (simp_all add: gate_dpl_def bit_masked bit_drop_bit_eq idt_val_bits bit_place)
qed

lemma gate_present_set: "gate_present (idt_val d) = bit (present d) 0"
  by (simp add: gate_present_def idt_val_bits)

lemma gate_type_set:
  assumes "reserved3 d = 0" "reserved2 d = 1" "reserved1 d = 1" "gate_size d = 1" "reserved0 d = 0"
  shows "gate_type (idt_val d) = 0xE"
proof (rule bit_word_eqI)
  fix n
  assume "n < LENGTH(32)"
  moreover have "n = 0 \<or> n = 1 \<or> n = 2 \<or> n = 3 \<or> n = 4 \<or> 5 \<le> n" by linarith
  moreover have e: "(0xE :: u32) = push_bit 1 (mask 3)" by (simp add: mask_eq_exp_minus_1)
  have "bit (0xE :: u32) n \<longleftrightarrow> 1 \<le> n \<and> n < 4" unfolding e bit_push_bit_iff bit_mask_iff by auto
  ultimately show "bit (gate_type (idt_val d)) n = bit (0xE :: u32) n"
    using assms by (elim disjE) (simp_all add: gate_type_def bit_masked bit_drop_bit_eq idt_val_bits bit_place)
qed

text \<open>The fields of a segment descriptor.\<close>

lemma seg_base_set: "seg_base (seg_val (SET_LDT_PARAMS addr lim d)) = addr"
proof (rule bit_word_eqI)
  fix n
  assume n: "n < LENGTH(32)"
  then consider "n < 16" | "16 \<le> n" "n < 24" | "24 \<le> n" by linarith
  then show "bit (seg_base (seg_val (SET_LDT_PARAMS addr lim d))) n = bit addr n"
    by cases (use n in \<open>auto simp: seg_base_def bit_or_iff bit_push_bit_iff bit_masked bit_drop_bit_eq seg_val_bits
      SET_LDT_PARAMS_def bit_cut bit_u32_high\<close>)
qed

lemma seg_limit_set: "seg_limit (seg_val (SET_LDT_PARAMS addr lim d)) = take_bit 20 lim"
proof (rule bit_word_eqI)
  fix n
  assume n: "n < LENGTH(32)"
  then consider "n < 16" | "16 \<le> n" "n < 20" | "20 \<le> n" by linarith
  then show "bit (seg_limit (seg_val (SET_LDT_PARAMS addr lim d))) n = bit (take_bit 20 lim) n"
    by cases (use n in \<open>auto simp: seg_limit_def bit_or_iff bit_masked bit_drop_bit_eq seg_val_bits
      SET_LDT_PARAMS_def bit_cut bit_take_bit_iff\<close>)
qed

lemma seg_type_set: "seg_type (seg_val d) = ucast (sd_type d) OR push_bit 4 (ucast (sd_sys d))"
proof (rule bit_word_eqI)
  fix n
  assume n: "n < LENGTH(32)"
  then consider "n < 4" | "n = 4" | "5 \<le> n" by linarith
  then show "bit (seg_type (seg_val d)) n = bit (ucast (sd_type d) OR push_bit 4 (ucast (sd_sys d)) :: u32) n"
    by cases (use n in \<open>auto simp: seg_type_def bit_or_iff bit_masked bit_drop_bit_eq seg_val_bits bit_place\<close>)
qed

lemma seg_present_set: "seg_present (seg_val d) = bit (sd_present d) 0"
  by (simp add: seg_present_def seg_val_bits)

lemma set_params_same: "SET_TSS_PARAMS = SET_LDT_PARAMS"
  by (simp add: SET_TSS_PARAMS_def SET_LDT_PARAMS_def fun_eq_iff)

end
