(* ===== verification/Idt.thy ===== *)
theory Idt
  imports Descriptors Printf
begin

text \<open>
  The interrupt descriptor table and the exception handlers of \<^verbatim>\<open>src/student-distrib/idt.c\<close>, with the
  wrappers of \<^verbatim>\<open>src/student-distrib/handler_wrapper.S\<close>.

  The addresses of the handlers, which the linker chooses, are a parameter \<open>addr\<close>. An exception
  handler prints its message and then loops for ever; \<open>Stuck s\<close> is that loop, in state \<open>s\<close>.
\<close>

section \<open>The table\<close>

datatype handler = Default_handler | De_wrapper | Db_wrapper | Nmi_wrapper | Bp_wrapper | Of_wrapper | Br_wrapper | Ud_wrapper | Nm_wrapper | Df_wrapper | Cso_wrapper |
  Ts_wrapper | Np_wrapper | Ss_wrapper | Gp_wrapper | Pf_wrapper | R_wrapper | Mf_wrapper | Ac_wrapper | Mc_wrapper | Xf_wrapper |
  Keyboard_wrapper | Rtc_wrapper | Syscall_wrapper

definition exceptions :: "handler list" where
  "exceptions =
     (let e = map (\<lambda>i. Default_handler) [0..<256];
          e = e[0 := De_wrapper];
          e = e[1 := Db_wrapper];
          e = e[2 := Nmi_wrapper];
          e = e[3 := Bp_wrapper];
          e = e[4 := Of_wrapper];
          e = e[5 := Br_wrapper];
          e = e[6 := Ud_wrapper];
          e = e[7 := Nm_wrapper];
          e = e[8 := Df_wrapper];
          e = e[9 := Cso_wrapper];
          e = e[10 := Ts_wrapper];
          e = e[11 := Np_wrapper];
          e = e[12 := Ss_wrapper];
          e = e[13 := Gp_wrapper];
          e = e[14 := Pf_wrapper];
          e = e[15 := R_wrapper];
          e = e[16 := Mf_wrapper];
          e = e[17 := Ac_wrapper];
          e = e[18 := Mc_wrapper];
          e = e[19 := Xf_wrapper];
          e = e[33 := Keyboard_wrapper];
          e = e[40 := Rtc_wrapper];
          e = e[128 := Syscall_wrapper]
      in e)"

definition idt_gate :: "(handler \<Rightarrow> u32) \<Rightarrow> nat \<Rightarrow> idt_desc_t \<Rightarrow> idt_desc_t" where
  "idt_gate addr j d =
     (let d = d\<lparr>seg_selector := KERNEL_CS, reserved4 := 0, reserved3 := 0, reserved2 := 1, reserved1 := 1,
                gate_size := 1, reserved0 := 0, dpl := 0, present := 0\<rparr>;
          d = (if j = 0x80 then d\<lparr>dpl := 3\<rparr> else d);
          d = (if j = 0x80 \<or> j \<le> 19 \<and> (j \<noteq> 15 \<and> j \<noteq> 1) \<or> j = 33 \<or> j = 40 then d\<lparr>present := 1\<rparr> else d)
      in SET_IDT_ENTRY (addr (exceptions ! j)) d)"

definition idt_init :: "(handler \<Rightarrow> u32) \<Rightarrow> idt_desc_t list \<Rightarrow> idt_desc_t list" where
  "idt_init addr idt = fold (\<lambda>j t. t[j := idt_gate addr j (t ! j)]) [0..<256] idt"

section \<open>The exception handlers\<close>

datatype 's stuck = Stuck 's

definition print_and_loop ::
  "mem \<Rightarrow> string \<Rightarrow> u32 list \<Rightarrow> 'a console_state_scheme \<Rightarrow> 'a console_state_scheme stuck option" where
  "print_and_loop junk fmt args s =
     map_option (Stuck \<circ> snd) (printf junk (list_view (ascii fmt)) (\<lambda>i. if i < length args then args ! i else 0) s)"

definition Default_except where "Default_except junk s = print_and_loop junk ''invalid'' [] s"
definition DE where "DE junk s = print_and_loop junk ''Divide error'' [] s"
definition DB where "DB junk s = print_and_loop junk ''RESERVED'' [] s"
definition NMI where "NMI junk s = print_and_loop junk ''NMI interrupt'' [] s"
definition BP where "BP junk s = print_and_loop junk ''Breakpoint'' [] s"
definition OF where "OF junk s = print_and_loop junk ''Overflow'' [] s"
definition BR where "BR junk s = print_and_loop junk ''BOUND Range Exceeded'' [] s"
definition UD where "UD junk s = print_and_loop junk ''Invalid Opcode'' [] s"
definition NM where "NM junk s = print_and_loop junk ''Device not available'' [] s"
definition DF where "DF junk s = print_and_loop junk ''Double fault'' [] s"
definition CSO where "CSO junk s = print_and_loop junk ''Coprocessor Segment Overrun'' [] s"
definition TS where "TS junk s = print_and_loop junk ''Invalid TSS'' [] s"
definition NP where "NP junk s = print_and_loop junk ''Segment not present'' [] s"
definition SS where "SS junk s = print_and_loop junk ''Stack segment fault'' [] s"

definition GP :: "mem \<Rightarrow> u32 \<Rightarrow> u32 \<Rightarrow> 'a console_state_scheme \<Rightarrow> 'a console_state_scheme stuck option" where
  "GP junk arg addr s =
     print_and_loop junk (''GP Fault exception code is %d attempting to access %x'' @ [char_of (10 :: nat)]) [arg, addr] s"


definition PF :: "mem \<Rightarrow> u32 \<Rightarrow> u32 \<Rightarrow> 'a console_state_scheme \<Rightarrow> 'a console_state_scheme stuck option" where
  "PF junk arg addr s =
     print_and_loop junk (''Page Fault exception code is %d attempting to access %x'' @ [char_of (10 :: nat)]) [arg, addr] s"

definition R_except where "R_except junk s = print_and_loop junk ''Intel RESERVED'' [] s"
definition MF where "MF junk s = print_and_loop junk ''x87 FPU Floating Point Error'' [] s"
definition AC where "AC junk s = print_and_loop junk ''Alignment Check'' [] s"
definition MC where "MC junk s = print_and_loop junk ''Machine Check'' [] s"
definition XF where "XF junk s = print_and_loop junk ''SIMD Floating Point Exception'' [] s"

text \<open>
  The wrappers: \<^verbatim>\<open>pushal\<close> and \<^verbatim>\<open>pushfl\<close> save nine words, and the wrappers of the two faults pass on
  \<^verbatim>\<open>cr2\<close> and the word at offset 40 of the stack. The first element of a stack is its top.
\<close>

definition fault_wrapper ::
  "(u32 \<Rightarrow> u32 \<Rightarrow> 's \<Rightarrow> 's stuck option) \<Rightarrow> u32 \<Rightarrow> u32 list \<Rightarrow> u32 \<Rightarrow> u32 list \<Rightarrow> 's \<Rightarrow> 's stuck option" where
  "fault_wrapper handler cr2 regs flags stk s =
     (let stk = regs @ stk;
          stk = flags # stk;
          stk = cr2 # stk;
          stk = (stk ! (40 div 4)) # stk
      in handler (stk ! 0) (stk ! 1) s)"

definition exception_handler ::
  "mem \<Rightarrow> u32 \<Rightarrow> u32 list \<Rightarrow> u32 \<Rightarrow> u32 list \<Rightarrow> handler \<Rightarrow> 'a console_state_scheme \<Rightarrow> 'a console_state_scheme stuck option" where
  "exception_handler junk cr2 regs flags stk h s =
     (case h of
        Default_handler \<Rightarrow> Default_except junk s
      | De_wrapper \<Rightarrow> DE junk s
      | Db_wrapper \<Rightarrow> DB junk s
      | Nmi_wrapper \<Rightarrow> NMI junk s
      | Bp_wrapper \<Rightarrow> BP junk s
      | Of_wrapper \<Rightarrow> OF junk s
      | Br_wrapper \<Rightarrow> BR junk s
      | Ud_wrapper \<Rightarrow> UD junk s
      | Nm_wrapper \<Rightarrow> NM junk s
      | Df_wrapper \<Rightarrow> DF junk s
      | Cso_wrapper \<Rightarrow> CSO junk s
      | Ts_wrapper \<Rightarrow> TS junk s
      | Np_wrapper \<Rightarrow> NP junk s
      | Ss_wrapper \<Rightarrow> SS junk s
      | Gp_wrapper \<Rightarrow> fault_wrapper (GP junk) cr2 regs flags stk s
      | Pf_wrapper \<Rightarrow> fault_wrapper (PF junk) cr2 regs flags stk s
      | R_wrapper \<Rightarrow> R_except junk s
      | Mf_wrapper \<Rightarrow> MF junk s
      | Ac_wrapper \<Rightarrow> AC junk s
      | Mc_wrapper \<Rightarrow> MC junk s
      | Xf_wrapper \<Rightarrow> XF junk s
      | _ \<Rightarrow> None)"

section \<open>Delivery of interrupts\<close>

text \<open>
  What the processor does for the instruction \<^verbatim>\<open>int n\<close> at privilege \<open>cpl\<close>: a gate that the
  privilege may not use gives exception 13, one that is not present exception 11.
\<close>

datatype delivery = To u32 | Fault nat

definition int_n :: "idt_desc_t list \<Rightarrow> u32 \<Rightarrow> nat \<Rightarrow> delivery" where
  "int_n idt cpl n =
     (let v = idt_val (idt ! n) in
      if cpl > gate_dpl v then Fault 13 else if \<not> gate_present v then Fault 11 else To (gate_offset v))"

lemma fold_modify_nth:
  "n \<le> length xs \<Longrightarrow> i < length xs \<Longrightarrow>
     length (fold (\<lambda>j t. t[j := f j (t ! j)]) [0..<n] xs) = length xs \<and>
     fold (\<lambda>j t. t[j := f j (t ! j)]) [0..<n] xs ! i = (if i < n then f i (xs ! i) else xs ! i)"
  by (induction n) (auto simp: nth_list_update)

lemma idt_init_nth: "length idt = 256 \<Longrightarrow> j < 256 \<Longrightarrow> idt_init addr idt ! j = idt_gate addr j (idt ! j)"
  unfolding idt_init_def using fold_modify_nth [of 256 idt j "idt_gate addr"] by simp

lemma length_idt_init: "length idt = 256 \<Longrightarrow> length (idt_init addr idt) = 256"
  unfolding idt_init_def using fold_modify_nth [of 256 idt 0 "idt_gate addr"] by simp

lemma SET_IDT_ENTRY_fields:
  "seg_selector (SET_IDT_ENTRY h d) = seg_selector d" "reserved3 (SET_IDT_ENTRY h d) = reserved3 d"
  "reserved2 (SET_IDT_ENTRY h d) = reserved2 d" "reserved1 (SET_IDT_ENTRY h d) = reserved1 d"
  "gate_size (SET_IDT_ENTRY h d) = gate_size d" "reserved0 (SET_IDT_ENTRY h d) = reserved0 d"
  "dpl (SET_IDT_ENTRY h d) = dpl d" "present (SET_IDT_ENTRY h d) = present d"
  by (simp_all add: SET_IDT_ENTRY_def)

lemma idt_gate_words:
  "gate_offset (idt_val (idt_gate addr j d)) = addr (exceptions ! j)"
  "gate_selector (idt_val (idt_gate addr j d)) = KERNEL_CS" "gate_type (idt_val (idt_gate addr j d)) = 0xE"
  "gate_dpl (idt_val (idt_gate addr j d)) = (if j = 0x80 then 3 else 0)"
  "gate_present (idt_val (idt_gate addr j d)) \<longleftrightarrow> j \<in> {0..19} - {1, 15} \<union> {33, 40, 0x80}"
  by (auto simp: idt_gate_def Let_def gate_offset_set gate_selector_set gate_dpl_set gate_present_set gate_type_set
      SET_IDT_ENTRY_fields)

text \<open>A page fault is reported and stops the system: the handler prints the error code that the processor pushed and
  the faulting address from \<^verbatim>\<open>cr2\<close>, and loops.\<close>

lemma page_fault_report:
  assumes "length regs = 8"
  shows "exception_handler junk cr2 regs flags (code # stk) (exceptions ! 14) s =
    Some (Stuck (fold putc (ascii ''Page Fault exception code is '' @ dec_text code @
      ascii '' attempting to access '' @ num_text 16 cr2 @ [0x0A]) s))"
proof -
  let ?p = "ascii ''Page Fault exception code is ''" and ?q = "ascii '' attempting to access ''"
  have fmt: "ascii (''Page Fault exception code is %d attempting to access %x'' @ [char_of (10 :: nat)]) =
      ?p @ 0x25 # 0x64 # ?q @ [0x25, 0x78, 0x0A]"
    by (simp add: ascii_def)
  have pl: "0 \<notin> set ?p" "0x25 \<notin> set ?p" "0 \<notin> set ?q" "0x25 \<notin> set ?q" by (simp_all add: ascii_def)
  have "(flags # regs @ code # stk) ! 9 = code" using assms by (simp add: nth_append)
  then have "exception_handler junk cr2 regs flags (code # stk) Pf_wrapper s = PF junk code cr2 s"
    using assms by (simp add: exception_handler_def fault_wrapper_def Let_def)
  also have "\<dots> = Some (Stuck (fold putc (?p @ dec_text code @ ?q @ num_text 16 cr2 @ [0x0A]) s))"
    unfolding PF_def print_and_loop_def fmt
    by (subst printf_text [where out = "?p @ dec_text code @ ?q @ num_text 16 cr2 @ [0x0A]"])
      (simp_all add: fmt_text_append pl)
  finally show ?thesis by (simp add: exceptions_def Let_def)
qed

section \<open>Properties\<close>


definition blank_gate :: idt_desc_t where
  "blank_gate = \<lparr>offset_15_00 = 0, seg_selector = 0, reserved4 = 0, reserved3 = 0, reserved2 = 0, reserved1 = 0,
     gate_size = 0, reserved0 = 0, dpl = 0, present = 0, offset_31_16 = 0\<rparr>"


end
