(* ===== verification/Pit.thy ===== *)
theory Pit
  imports Kernel
begin

text \<open>
  The driver of the interval timer, \<^verbatim>\<open>src/student-distrib/pit.c\<close>, a first step towards a scheduler.
  Neither of its functions is called: \<open>entry\<close> does not initialise the timer and \<open>idt_init\<close> installs
  no handler for it.
\<close>

section \<open>Definitions\<close>

definition PIT_FREQ :: u32 where "PIT_FREQ = 1193182"
definition PIT_RATE :: u32 where "PIT_RATE = 20"
definition PIT_PORT :: u16 where "PIT_PORT = 0x40"
definition PIT_CMD_PORT :: u16 where "PIT_CMD_PORT = 0x43"
definition PIT_CMD :: byte where "PIT_CMD = 0x36"
definition PIT_IRQ :: u32 where "PIT_IRQ = 0"

lemmas pit_consts = PIT_FREQ_def PIT_RATE_def PIT_PORT_def PIT_CMD_PORT_def PIT_CMD_def PIT_IRQ_def

definition pit_init :: "device \<Rightarrow> 'a pic_state_scheme \<Rightarrow> 'a pic_state_scheme" where
  "pit_init dev s =
     (let divisor = PIT_FREQ div PIT_RATE;
          s = outb PIT_CMD PIT_CMD_PORT s;
          s = outb (ucast (divisor AND 0xFF)) PIT_PORT s;
          s = outb (ucast (drop_bit 8 divisor)) PIT_PORT s
      in enable_irq dev PIT_IRQ s)"

text \<open>A stack pointer outside the six stacks gives NULL for the control block, and the store faults.\<close>

definition pit_handler :: "'a process_state_scheme \<Rightarrow> 'a process_state_scheme option" where
  "pit_handler s =
     (let s = send_eoi PIT_IRQ s;
          s = cli s
      in case get_pcb s of
           None \<Rightarrow> None
         | Some p \<Rightarrow>
             let s = set_pcb p (\<lambda>q. q\<lparr>saved_esp := esp s, saved_ebp := ebp s\<rparr>) s;
                 s = map_program (pid (pcb_of s p)) s;
                 s = s\<lparr>tss_ss0 := KERNEL_DS, tss_esp0 := MB_8 - pid (pcb_of s p) * KB_8 - 4\<rparr>;
                 s = s\<lparr>esp := saved_esp (pcb_of s p), ebp := saved_ebp (pcb_of s p)\<rparr>
             in Some (sti s))"

section \<open>What the timer would do\<close>

text \<open>The divisor of 20 interrupts per second, low byte first.\<close>

lemma pit_init_log:
  "\<exists>log. io_log (pit_init dev s) = io_log s @ [Out 0x43 0x36, Out 0x40 0x0B, Out 0x40 0xE9] @ log"
  by (simp add: pit_init_def Let_def pit_consts outb_def enable_irq_def inb_def)

text \<open>
  The handler keeps the address space and the stack of the running process. It stores the stack
  pointer of the process itself where \<open>sys_execute\<close> stored that of its caller.
\<close>

lemma pit_handler_saves:
  assumes "stack_ok (Suc k) s" "get_pcb s = Some k"
  shows "\<exists>t. pit_handler s = Some t \<and> mapped_top (Suc k) t \<and> page_walk t = page_walk s \<and> esp t = esp s \<and> get_pcb t = Some k \<and>
    curr_pcb t = (curr_pcb s)[k := (curr_pcb s ! k)\<lparr>saved_esp := esp s, saved_ebp := ebp s\<rparr>]"
proof -
  have k: "k < 6" "length (curr_pcb s) = 6" "pid (curr_pcb s ! k) = of_nat k" and m: "mapped_top (Suc k) s"
    using assms by (auto simp: stack_ok_def pcbs_ok_def pcb_ok_def)
  let ?f = "\<lambda>q. q\<lparr>saved_esp := esp s, saved_ebp := ebp s\<rparr>"
  define s1 where "s1 = cli (send_eoi PIT_IRQ s)"
  have s1: "same_kernel s s1" "curr_pcb s1 = curr_pcb s"
    by (simp_all add: s1_def same_kernel_def cli_def send_eoi_def outb_def pit_consts)
  define s2 where "s2 = set_pcb k ?f s1"
  have s2: "same_kernel s s2" "curr_pcb s2 = (curr_pcb s)[k := ?f (curr_pcb s ! k)]"
    using same_kernel_trans [OF s1(1) same_kernel_set_pcb] s1(2) by (simp_all add: s2_def set_pcb_def)
  let ?t = "sti ((map_program (of_nat k) s2)\<lparr>tss_ss0 := KERNEL_DS, tss_esp0 := MB_8 - of_nat k * KB_8 - 4, esp := esp s, ebp := ebp s\<rparr>)"
  have "get_pcb s1 = Some k" using assms(2) s1(1) by (simp add: get_pcb_def same_kernel_def)
  moreover have "esp s1 = esp s" "ebp s1 = ebp s" using s1(1) by (simp_all add: same_kernel_def)
  ultimately have "pit_handler s = Some ?t"
    using k s2(2) by (simp add: pit_handler_def Let_def s1_def [symmetric] s2_def [symmetric] pcb_of_def)
  moreover have "kernel_space s2" using m s2(1) kernel_space_cong(1) [of s2 s] by (simp add: mapped_top_def same_kernel_def)
  then have mt: "mapped_top (Suc k) ?t"
    using map_program_space [of s2 "of_nat k"] kernel_space_cong(1) [of ?t "map_program (of_nat k) s2"]
    by (simp add: mapped_top_def sti_def)
  moreover have "page_walk ?t = page_walk s" using mapped_top_walk [OF m mt] .
  moreover have "get_pcb ?t = Some k" using assms(2) by (simp add: get_pcb_def sti_def)
  ultimately show ?thesis using s2(2) by (simp add: sti_def)
qed

text \<open>So the end of an interrupted program would resume on its own kernel stack, not on that of its parent.\<close>

lemma pit_halt_wrong_stack:
  assumes "stack_ok (Suc k) s" "get_pcb s = Some k" "0 < k"
  shows "\<exists>t u. pit_handler s = Some t \<and> sys_halt shell status t = Some (Resume (sint status), u) \<and>
    esp u = esp s \<and> \<not> in_stack (k - 1) (esp u)"
proof -
  obtain t where t: "pit_handler s = Some t" "get_pcb t = Some k"
      "curr_pcb t = (curr_pcb s)[k := (curr_pcb s ! k)\<lparr>saved_esp := esp s, saved_ebp := ebp s\<rparr>]"
    using pit_handler_saves [OF assms(1,2)] by blast
  have k: "k < 6" "length (curr_pcb s) = 6" "parent_pid (curr_pcb s ! k) = of_nat k - 1"
    using assms by (auto simp: stack_ok_def pcbs_ok_def pcb_ok_def)
  obtain u where "sys_halt shell status t = Some (Resume (sint status), u)" "esp u = esp s"
    using halt_to_parent [OF t(2) assms(3), of shell status] t(3) k by auto
  moreover have "\<not> in_stack (k - 1) (esp s)"
    using assms(2,3) k(1) by (auto simp: get_pcb_in_stack in_stack_def)
  ultimately show ?thesis using t(1) by metis
qed

end
