(* ===== verification/Boot.thy ===== *)
theory Boot
  imports Kernel Idt "HOL-Library.Monad_Syntax"
begin

text \<open>
  The C entry point of the kernel, \<open>entry\<close> of \<^verbatim>\<open>src/student-distrib/kernel.c\<close>, with the structures of
  \<^verbatim>\<open>src/student-distrib/multiboot.h\<close>, which the boot loader leaves in memory at \<open>addr\<close>.

  \<open>entry\<close> falls into three parts here, in the order of the code: the report on what the boot loader
  passed, the construction of the two system descriptors, and the initialisation of the devices,
  which ends with the execution of the shell. From the end of \<open>rtc_init\<close> on, which sets the interrupt flag and lets the
  clock through, interrupts may arrive: those after each call of \<open>entry\<close> are a parameter, \<open>evs\<close>, as are the addresses of the tables and handlers
  (\<open>ldt_addr\<close>, \<open>tss_addr\<close>, \<open>addr\<close> of \<open>Idt\<close>), the contents \<open>junk\<close> of the uninitialised stack, the
  uninitialised local descriptors, and the string literal \<open>shell\<close>. Once paging is on, a character that \<open>printf\<close> would store
  in a cell of the screen that is not mapped is a page fault in the kernel, here \<open>None\<close>.
\<close>

section \<open>State\<close>

record boot_state = process_state +
  idt :: "idt_desc_t list"
  ldt_desc_ptr :: seg_desc
  tss_desc_ptr :: seg_desc
  ldtr :: u16
  tr :: u16
  tss_ldt :: u16

datatype 's boot_outcome = Returned 's | Spinning 's | Started u32 u32 's

section \<open>The report\<close>

definition MULTIBOOT_BOOTLOADER_MAGIC :: u32 where "MULTIBOOT_BOOTLOADER_MAGIC = 0x2BADB002"

definition CHECK_FLAG :: "u32 \<Rightarrow> nat \<Rightarrow> bool" where
  "CHECK_FLAG flags b \<longleftrightarrow> flags AND push_bit b 1 \<noteq> 0"

text \<open>The fields of the structures of the boot loader, at their offsets.\<close>

definition mb_field :: "'a console_state_scheme \<Rightarrow> u32 \<Rightarrow> nat \<Rightarrow> u32" where
  "mb_field s a off = load_le32 (view (ram s) a) off"

definition mbi_flags where "mbi_flags s mbi = mb_field s mbi 0"
definition mbi_mem_lower where "mbi_mem_lower s mbi = mb_field s mbi 4"
definition mbi_mem_upper where "mbi_mem_upper s mbi = mb_field s mbi 8"
definition mbi_boot_device where "mbi_boot_device s mbi = mb_field s mbi 12"
definition mbi_cmdline where "mbi_cmdline s mbi = mb_field s mbi 16"
definition mbi_mods_count where "mbi_mods_count s mbi = mb_field s mbi 20"
definition mbi_mods_addr where "mbi_mods_addr s mbi = mb_field s mbi 24"
definition mbi_elf_sec where "mbi_elf_sec s mbi i = mb_field s mbi (28 + 4 * i)"
definition mbi_mmap_length where "mbi_mmap_length s mbi = mb_field s mbi 44"
definition mbi_mmap_addr where "mbi_mmap_addr s mbi = mb_field s mbi 48"

definition mod_start where "mod_start s md = mb_field s md 0"
definition mod_end where "mod_end s md = mb_field s md 4"

text \<open>\<open>printf\<close> of a string literal with the arguments \<open>xs\<close>.\<close>

definition say :: "mem \<Rightarrow> string \<Rightarrow> u32 list \<Rightarrow> 'a console_state_scheme \<Rightarrow> 'a console_state_scheme option" where
  "say junk fmt xs s =
     map_option snd (printf junk (list_view (ascii fmt)) (\<lambda>i. if i < length xs then xs ! i else 0) s)"

definition nl :: string where "nl = [CHR 0x0A]"

text \<open>The first bytes of a module: each is a \<^verbatim>\<open>char\<close>, which is promoted with its sign.\<close>

fun report_bytes :: "mem \<Rightarrow> u32 \<Rightarrow> nat \<Rightarrow> nat \<Rightarrow> 'a console_state_scheme \<Rightarrow> 'a console_state_scheme option" where
  "report_bytes junk md i 0 s = Some s"
| "report_bytes junk md i (Suc n) s =
     do { s \<leftarrow> say junk ''0x%x '' [scast (ram s (mod_start s md + of_nat i))] s;
          report_bytes junk md (Suc i) n s }"

partial_function (option) report_modules ::
  "mem \<Rightarrow> u32 \<Rightarrow> u32 \<Rightarrow> u32 \<Rightarrow> 'a console_state_scheme \<Rightarrow> 'a console_state_scheme option" where
  "report_modules junk mbi mod_count md s =
     (if mod_count < mbi_mods_count s mbi then
        do { s \<leftarrow> say junk (''Module %d loaded at address: 0x%#x'' @ nl) [mod_count, mod_start s md] s;
             s \<leftarrow> say junk (''Module %d ends at address: 0x%#x'' @ nl) [mod_count, mod_end s md] s;
             s \<leftarrow> say junk (''First few bytes of module:'' @ nl) [] s;
             s \<leftarrow> report_bytes junk md 0 16 s;
             s \<leftarrow> say junk nl [] s;
             report_modules junk mbi (mod_count + 1) (md + 16) s }
      else Some s)"

partial_function (option) report_mmap ::
  "mem \<Rightarrow> u32 \<Rightarrow> u32 \<Rightarrow> 'a console_state_scheme \<Rightarrow> 'a console_state_scheme option" where
  "report_mmap junk mbi mmap s =
     (if mmap < mbi_mmap_addr s mbi + mbi_mmap_length s mbi then
        do { s \<leftarrow> say junk (''    size = 0x%x, base_addr = 0x%#x%#x'' @ nl @ ''    type = 0x%x,  length    = 0x%#x%#x'' @ nl)
                    [mb_field s mmap 0, mb_field s mmap 8, mb_field s mmap 4, mb_field s mmap 20, mb_field s mmap 16,
                     mb_field s mmap 12] s;
             report_mmap junk mbi (mmap + mb_field s mmap 0 + 4) s }
      else Some s)"

definition when_flag ::
  "bool \<Rightarrow> ('a console_state_scheme \<Rightarrow> 'a console_state_scheme option) \<Rightarrow> 'a console_state_scheme \<Rightarrow>
     'a console_state_scheme option" where
  "when_flag b f s = (if b then f s else Some s)"

text \<open>The state in which \<open>entry\<close> goes on, or returns (\<open>False\<close>).\<close>

definition entry_report ::
  "mem \<Rightarrow> u32 \<Rightarrow> u32 \<Rightarrow> 'a console_state_scheme \<Rightarrow> (bool \<times> 'a console_state_scheme) option" where
  "entry_report junk magic mbi s =
     (let s = clear s in
      if magic \<noteq> MULTIBOOT_BOOTLOADER_MAGIC then
        map_option (Pair False) (say junk (''Invalid magic number: 0x%#x'' @ nl) [magic] s)
      else do {
        s \<leftarrow> say junk (''flags = 0x%#x'' @ nl) [mbi_flags s mbi] s;
        s \<leftarrow> when_flag (CHECK_FLAG (mbi_flags s mbi) 0)
               (\<lambda>s. say junk (''mem_lower = %uKB, mem_upper = %uKB'' @ nl) [mbi_mem_lower s mbi, mbi_mem_upper s mbi] s) s;
        s \<leftarrow> when_flag (CHECK_FLAG (mbi_flags s mbi) 1)
               (\<lambda>s. say junk (''boot_device = 0x%#x'' @ nl) [mbi_boot_device s mbi] s) s;
        s \<leftarrow> when_flag (CHECK_FLAG (mbi_flags s mbi) 2)
               (\<lambda>s. say junk (''cmdline = %s'' @ nl) [mbi_cmdline s mbi] s) s;
        s \<leftarrow> when_flag (CHECK_FLAG (mbi_flags s mbi) 3)
               (\<lambda>s. report_modules junk mbi 0 (mbi_mods_addr s mbi) s) s;
        if CHECK_FLAG (mbi_flags s mbi) 4 \<and> CHECK_FLAG (mbi_flags s mbi) 5 then
          map_option (Pair False) (say junk (''Both bits 4 and 5 are set.'' @ nl) [] s)
        else do {
          s \<leftarrow> when_flag (CHECK_FLAG (mbi_flags s mbi) 5)
                 (\<lambda>s. say junk (''elf_sec: num = %u, size = 0x%#x, addr = 0x%#x, shndx = 0x%#x'' @ nl)
                        [mbi_elf_sec s mbi 0, mbi_elf_sec s mbi 1, mbi_elf_sec s mbi 2, mbi_elf_sec s mbi 3] s) s;
          s \<leftarrow> when_flag (CHECK_FLAG (mbi_flags s mbi) 6)
                 (\<lambda>s. do { s \<leftarrow> say junk (''mmap_addr = 0x%#x, mmap_length = 0x%x'' @ nl)
                                 [mbi_mmap_addr s mbi, mbi_mmap_length s mbi] s;
                            report_mmap junk mbi (mbi_mmap_addr s mbi) s }) s;
          Some (True, s) } })"

section \<open>Descriptors\<close>

text \<open>
  The instructions behind the macros \<^verbatim>\<open>lldt\<close> and \<^verbatim>\<open>ltr\<close>, which load a selector; \<open>ltr\<close> marks the descriptor that it loads,
  here the one at \<^verbatim>\<open>tss_desc_ptr\<close>, as busy.
\<close>

definition lldt :: "u16 \<Rightarrow> 'a boot_state_scheme \<Rightarrow> 'a boot_state_scheme" where
  "lldt desc s = s\<lparr>ldtr := desc\<rparr>"

definition ltr :: "u16 \<Rightarrow> 'a boot_state_scheme \<Rightarrow> 'a boot_state_scheme" where
  "ltr desc s = s\<lparr>tr := desc, tss_desc_ptr := (tss_desc_ptr s)\<lparr>sd_type := sd_type (tss_desc_ptr s) OR 2\<rparr>\<rparr>"

definition entry_ldt :: "u32 \<Rightarrow> u32 \<Rightarrow> seg_desc \<Rightarrow> 'a boot_state_scheme \<Rightarrow> 'a boot_state_scheme" where
  "entry_ldt ldt_addr ldt_size the_ldt_desc s =
     (let d = the_ldt_desc\<lparr>granularity := 0, opsize := 1, sd_reserved := 0, avail := 0, sd_present := 1, sd_dpl := 0,
                sd_sys := 0, sd_type := 2\<rparr>;
          d = SET_LDT_PARAMS ldt_addr ldt_size d
      in lldt KERNEL_LDT (s\<lparr>ldt_desc_ptr := d\<rparr>))"

definition entry_tss :: "u32 \<Rightarrow> u32 \<Rightarrow> seg_desc \<Rightarrow> 'a boot_state_scheme \<Rightarrow> 'a boot_state_scheme" where
  "entry_tss tss_addr tss_size the_tss_desc s =
     (let d = the_tss_desc\<lparr>granularity := 0, opsize := 0, sd_reserved := 0, avail := 0,
                seg_lim_19_16 := ucast (TSS_SIZE AND 0x000F0000), sd_present := 1, sd_dpl := 0, sd_sys := 0, sd_type := 9,
                seg_lim_15_00 := ucast (TSS_SIZE AND 0x0000FFFF)\<rparr>;
          d = SET_TSS_PARAMS tss_addr tss_size d
      in ltr KERNEL_TSS (s\<lparr>tss_desc_ptr := d, tss_ldt := KERNEL_LDT, tss_ss0 := KERNEL_DS, tss_esp0 := 0x800000\<rparr>))"

lemmas entry_defs = entry_ldt_def entry_tss_def lldt_def ltr_def

section \<open>Devices and the first program\<close>

text \<open>
  The interrupts that arrive at a point of the code, which are served when the flag is set; and a message that is printed after
  \<open>page_init\<close>. Its first character goes to the cell of the cursor, which has to be mapped; from then on \<open>putc\<close> keeps to the
  25 rows of the screen (\<open>message_mapped\<close>).
\<close>

definition deliver :: "device \<Rightarrow> irq list \<Rightarrow> 'a keyboard_state_scheme \<Rightarrow> 'a keyboard_state_scheme" where
  "deliver dev evs s = (if iflag s then fold (isr dev) evs s else s)"

definition cell_mapped :: "'a paging_state_scheme \<Rightarrow> bool" where
  "cell_mapped s =
     (let k = 2 * (NUM_COLS * screen_y s + screen_x s)
      in list_all (\<lambda>i. page_walk s False True (vaddr i) = Some (vaddr i)) [k, k + 1])"

definition say_paged :: "mem \<Rightarrow> string \<Rightarrow> u32 list \<Rightarrow> 'a paging_state_scheme \<Rightarrow> 'a paging_state_scheme option" where
  "say_paged junk fmt xs s = (if cell_mapped s then say junk fmt xs s else None)"

definition entry_devices ::
  "device \<Rightarrow> (handler \<Rightarrow> u32) \<Rightarrow> mem \<Rightarrow> (nat \<Rightarrow> irq list) \<Rightarrow> cptr \<Rightarrow> u32 \<Rightarrow> 'a boot_state_scheme \<Rightarrow>
     'a boot_state_scheme boot_outcome option" where
  "entry_devices dev addr junk evs shell mbi s =
     (let s = i8259_init dev s;
          s = snd (dir_open (mod_start s (mbi_mods_addr s mbi)) s);
          s = s\<lparr>idt := idt_init addr (idt s)\<rparr>;
          s = deliver dev (evs 0) (rtc_init dev s);
          s = deliver dev (evs 1) (keyboard_init dev s);
          s = deliver dev (evs 2) (page_init s)
      in do {
        s \<leftarrow> say_paged junk (''size of dentry: %d, inode: %d, bootblock: %d, data: %d'' @ nl) [64, 4096, 4096, 4096] s;
        s \<leftarrow> say_paged junk (''Enabling Interrupts'' @ nl) [] (deliver dev (evs 3) s);
        (let s = deliver dev (evs 4) s;
             s = deliver dev (evs 5) (sti s);
             s = deliver dev (evs 6) (clear_term s)
         in case sys_execute shell shell s of
              None \<Rightarrow> None
            | Some (Enter e sp, s) \<Rightarrow> Some (Started e sp s)
            | Some (Ret r, s) \<Rightarrow> Some (Spinning s)
            | Some (Resume r, s) \<Rightarrow> None) })"

definition entry ::
  "device \<Rightarrow> (handler \<Rightarrow> u32) \<Rightarrow> u32 \<times> u32 \<Rightarrow> u32 \<times> u32 \<Rightarrow> seg_desc \<Rightarrow> seg_desc \<Rightarrow> mem \<Rightarrow> (nat \<Rightarrow> irq list) \<Rightarrow> cptr \<Rightarrow> u32 \<Rightarrow> u32 \<Rightarrow>
     'a boot_state_scheme \<Rightarrow> 'a boot_state_scheme boot_outcome option" where
  "entry dev addr ldt tss the_ldt_desc the_tss_desc junk evs shell magic mbi s =
     (case entry_report junk magic mbi s of
        None \<Rightarrow> None
      | Some (False, s) \<Rightarrow> Some (Returned s)
      | Some (True, s) \<Rightarrow>
          entry_devices dev addr junk evs shell mbi
            (entry_tss (fst tss) (snd tss) the_tss_desc (entry_ldt (fst ldt) (snd ldt) the_ldt_desc s)))"

section \<open>Printing during the boot\<close>

text \<open>
  Before the terminal is set up, a newline may move the cursor below the screen. \<open>cursor_ok n\<close>: the
  cursor is at most \<open>n\<close> rows down; the cells up to row 1000 lie in the window of 192 KiB from the
  video memory on.
\<close>

definition video_window :: "u32 \<Rightarrow> bool" where
  "video_window a \<longleftrightarrow> in_range VIDEO 0x30000 a"

definition cursor_ok :: "nat \<Rightarrow> 'a console_state_scheme \<Rightarrow> bool" where
  "cursor_ok n s \<longleftrightarrow> 0 \<le> screen_x s \<and> screen_x s < 80 \<and> 0 \<le> screen_y s \<and> screen_y s \<le> int n"

lemma put_cell_window:
  assumes "0 \<le> k" "k < 90000" "\<not> video_window a"
  shows "put_cell c k m a = m a"
proof -
  define x where "x = uint (a - VIDEO)"
  have a: "a = vaddr x" unfolding x_def by (rule vaddr_surj)
  have u: "int (unat (a - VIDEO)) = x" by (simp add: x_def)
  have "\<not> unat (a - VIDEO) < 0x30000" using assms(3) by (simp only: video_window_def in_range_def not_False_eq_True)
  then have "0x30000 \<le> x" using u by linarith
  moreover have "x < 4294967296" by (simp add: x_def)
  ultimately have "put_cell c k m (vaddr x) = m (vaddr x)" using assms(1,2) put_cell_at [of k x c m] by auto
  then show ?thesis by (simp only: a)
qed

lemma smod_range: "0 \<le> x \<Longrightarrow> 0 < n \<Longrightarrow> 0 \<le> x smod n \<and> x smod n < (n :: int)"
  by (cases "x = 0") (simp_all add: signed_modulo_int_def signed_divide_int_def minus_div_mult_eq_mod)

lemma window_low: "video_window a \<Longrightarrow> 0xB8000 \<le> a \<and> a < 0xE8000"
proof -
  assume "video_window a"
  then have "unat (a - 0xB8000) < 0x30000" by (simp add: video_window_def in_range_def VIDEO_def)
  then show ?thesis using u32_lt [of a] by (auto simp: unat_sub_if' word_less_nat_alt word_le_nat_alt split: if_splits)
qed

lemma outside_window: "a < 0xB8000 \<or> 0xE8000 \<le> a \<Longrightarrow> \<not> video_window a"
  using window_low [of a] by auto

lemma putc_cursor:
  assumes "cursor_ok n s"
  shows "cursor_ok (max 24 (Suc n)) (putc c s)"
proof -
  have x: "0 \<le> (screen_x s + 1) smod 80 \<and> (screen_x s + 1) smod 80 < 80"
    using assms by (intro smod_range) (simp_all add: cursor_ok_def)
  then have "(screen_x s + 1) smod 80 sdiv 80 = 0" by (simp add: signed_divide_int_def)
  moreover have "0 \<le> screen_y s smod 25 \<and> screen_y s smod 25 < 25"
    using assms by (intro smod_range) (simp_all add: cursor_ok_def)
  ultimately show ?thesis using assms x by (auto simp: putc_def Let_def screen_consts cursor_ok_def)
qed

lemma putc_frame:
  "console_state.more (putc c s) = console_state.more s" "io_log (putc c s) = io_log s" "iflag (putc c s) = iflag s"
  by (simp_all add: putc_def Let_def)

lemma putc_window: "cursor_ok 1000 s \<Longrightarrow> \<not> video_window a \<Longrightarrow> ram (putc c s) a = ram s a"
  by (simp add: putc_def Let_def put_cell_window cursor_ok_def screen_consts)

lemma fold_putc_window:
  "cursor_ok n s \<Longrightarrow> 24 \<le> n \<Longrightarrow> n + length cs \<le> 1000 \<Longrightarrow>
     cursor_ok (n + length cs) (fold putc cs s) \<and> console_state.more (fold putc cs s) = console_state.more s \<and>
     io_log (fold putc cs s) = io_log s \<and> (\<forall>a. \<not> video_window a \<longrightarrow> ram (fold putc cs s) a = ram s a)"
proof (induction cs arbitrary: n s)
  case (Cons c cs)
  have "cursor_ok (Suc n) (putc c s)" using putc_cursor [OF Cons.prems(1), of c] Cons.prems(2) by simp
  then have "cursor_ok (Suc n + length cs) (fold putc cs (putc c s)) \<and>
      console_state.more (fold putc cs (putc c s)) = console_state.more (putc c s) \<and>
      io_log (fold putc cs (putc c s)) = io_log (putc c s) \<and>
      (\<forall>a. \<not> video_window a \<longrightarrow> ram (fold putc cs (putc c s)) a = ram (putc c s) a)"
    using Cons.prems by (intro Cons.IH) simp_all
  moreover have "cursor_ok 1000 s" using Cons.prems by (simp add: cursor_ok_def)
  ultimately show ?case by (simp add: putc_frame putc_window)
qed simp

text \<open>
  Behind the first character of a line, \<open>putc\<close> stores on the screen: a printed character brings the cursor back to its 25
  rows, and only a newline moves it down.
\<close>

lemma putc_rows:
  assumes "cursor_ok n s" "c \<noteq> 0x0A" "c \<noteq> 0x0D"
  shows "cursor_ok 24 (putc c s)"
proof -
  have x: "0 \<le> (screen_x s + 1) smod 80 \<and> (screen_x s + 1) smod 80 < 80"
    using assms(1) by (intro smod_range) (simp_all add: cursor_ok_def)
  then have "(screen_x s + 1) smod 80 sdiv 80 = 0" by (simp add: signed_divide_int_def)
  moreover have "0 \<le> screen_y s smod 25 \<and> screen_y s smod 25 < 25"
    using assms(1) by (intro smod_range) (simp_all add: cursor_ok_def)
  ultimately show ?thesis using assms(2,3) x by (simp add: putc_def Let_def screen_consts cursor_ok_def)
qed

definition one_line :: "byte list \<Rightarrow> bool" where
  "one_line out \<longleftrightarrow> (\<exists>cs. out = cs @ [0x0A] \<and> cs \<noteq> [] \<and> 0x0A \<notin> set cs \<and> 0x0D \<notin> set cs)"

lemma fold_putc_rows:
  "cursor_ok n s \<Longrightarrow> 0x0A \<notin> set cs \<Longrightarrow> 0x0D \<notin> set cs \<Longrightarrow> cs \<noteq> [] \<Longrightarrow> cursor_ok 24 (fold putc cs s)"
proof (induction cs arbitrary: n s)
  case (Cons c cs)
  then show ?case using putc_rows [OF Cons.prems(1), of c] by (cases "cs = []") auto
qed simp

lemma one_line_rows: "cursor_ok n s \<Longrightarrow> one_line out \<Longrightarrow> cursor_ok 25 (fold putc out s)"
  using fold_putc_rows [of n s] by (auto simp: one_line_def putc_def cursor_ok_def)

lemma cell_mapped_rows:
  assumes "kernel_space s" "cursor_ok 203 s"
  shows "cell_mapped s"
proof -
  have "page_walk s False True (vaddr i) = Some (vaddr i)" if "0 \<le> i" "i < 32768" for i
  proof -
    have "unat (vaddr i) = 0xB8000 + nat i" using that by (simp add: vaddr_def VIDEO_def unat_w32 unat_word_ariths)
    moreover have "of_nat (unat (vaddr i)) = vaddr i" by simp
    moreover have "nat i < 32768" using that by simp
    ultimately show ?thesis using kernel_space_walk [OF assms(1), of "vaddr i" False True]
      by (simp only: boot_space_def video_walk_def Let_def) simp
  qed
  then show ?thesis using assms(2) by (auto simp: cell_mapped_def cursor_ok_def screen_consts Let_def)
qed

lemma kernel_space_putc: "kernel_space (fold putc cs s) = kernel_space s"
proof (induction cs arbitrary: s)
  case (Cons c cs)
  have "kernel_space (putc c s) = kernel_space s" by (rule kernel_space_cong(1)) (simp_all add: putc_def Let_def)
  then show ?case using Cons.IH [of "putc c s"] by simp
qed simp

text \<open>Every character that a message of one line prints goes to a cell that is mapped, when the cell of the cursor is.\<close>

lemma message_mapped:
  assumes "kernel_space s" "cell_mapped s" "cursor_ok n s" "one_line out" "k < length out" "out ! k \<noteq> 0x0A"
  shows "cell_mapped (fold putc (take k out) s)"
proof (cases "k = 0")
  case False
  obtain cs where cs: "out = cs @ [0x0A]" "0x0A \<notin> set cs" "0x0D \<notin> set cs" using assms(4) by (auto simp: one_line_def)
  then have k: "k < length cs" using assms(5,6) by (cases "k = length cs") auto
  let ?t = "fold putc (take k cs) s"
  have "cursor_ok 24 ?t" using cs False k by (intro fold_putc_rows [OF assms(3)]) (auto dest: in_set_takeD)
  then have "cursor_ok 203 ?t" by (simp add: cursor_ok_def)
  moreover have "kernel_space ?t" using assms(1) by (simp add: kernel_space_putc)
  ultimately show ?thesis using cell_mapped_rows k by (simp add: cs(1))
qed (use assms(2) in simp)

text \<open>The two messages of \<open>entry_devices\<close>.\<close>

lemma length_dec_text: "length (dec_text v) \<le> 33"
  using number_digits_length [of "unat v" 10] number_digits_length [of "unat (- v)" 10]
  by (simp add: dec_text_def num_text_def)

lemma dec_text_sizes: "dec_text 64 = [0x36, 0x34]" "dec_text 4096 = [0x34, 0x30, 0x39, 0x36]"
  by (simp_all add: dec_text_def num_text_def number_digits_def digits.simps digit_char_def)

lemma say_text:
  "fmt_text (\<lambda>i. if i < length xs then xs ! i else 0) 0 (ascii fmt) = Some out \<Longrightarrow> say junk fmt xs s = Some (fold putc out s)"
  by (simp add: say_def printf_text)

lemma say_sizes:
  "\<exists>out. length out \<le> 300 \<and> one_line out \<and> (\<forall>s. say junk (''size of dentry: %d, inode: %d, bootblock: %d, data: %d'' @ nl)
     [64, 4096, 4096, 4096] s = Some (fold putc out s))"
proof -
  have plain: "0 \<notin> set (ascii ''size of dentry: '')" "0x25 \<notin> set (ascii ''size of dentry: '')"
      "0 \<notin> set (ascii '', inode: '')" "0x25 \<notin> set (ascii '', inode: '')"
      "0 \<notin> set (ascii '', bootblock: '')" "0x25 \<notin> set (ascii '', bootblock: '')"
      "0 \<notin> set (ascii '', data: '')" "0x25 \<notin> set (ascii '', data: '')"
    by (simp_all add: ascii_def)
  let ?out = "ascii ''size of dentry: '' @ dec_text 64 @ ascii '', inode: '' @ dec_text 4096 @
    ascii '', bootblock: '' @ dec_text 4096 @ ascii '', data: '' @ dec_text 4096 @ [0x0A]"
  have fmt: "ascii (''size of dentry: %d, inode: %d, bootblock: %d, data: %d'' @ nl) =
      ascii ''size of dentry: '' @ 0x25 # 0x64 # ascii '', inode: '' @ 0x25 # 0x64 # ascii '', bootblock: '' @
      0x25 # 0x64 # ascii '', data: '' @ [0x25, 0x64, 0x0A]"
    by (simp add: ascii_def nl_def)
  have "fmt_text (\<lambda>i. if i < length [64, 4096, 4096, 4096] then [64, 4096, 4096, 4096] ! i else 0) 0
      (ascii (''size of dentry: %d, inode: %d, bootblock: %d, data: %d'' @ nl)) = Some ?out"
    unfolding fmt by (simp add: fmt_text_append plain)
  moreover have "length ?out \<le> 300" using length_dec_text [of 64] length_dec_text [of 4096] by simp
  moreover have "one_line ?out"
    unfolding one_line_def by (intro exI [of _ "butlast ?out"]) (simp add: dec_text_sizes butlast_append ascii_def)
  ultimately show ?thesis using say_text by blast
qed

lemma say_interrupts:
  "\<exists>out. length out \<le> 300 \<and> one_line out \<and> (\<forall>s. say junk (''Enabling Interrupts'' @ nl) [] s = Some (fold putc out s))"
proof -
  have "fmt_text stk 0 (ascii (''Enabling Interrupts'' @ nl)) = Some (ascii (''Enabling Interrupts'' @ nl))" for stk
    by (rule fmt_text_plain) (simp_all add: ascii_def nl_def)
  then have "say junk (''Enabling Interrupts'' @ nl) [] s = Some (fold putc (ascii (''Enabling Interrupts'' @ nl)) s)"
    for s :: "'a console_state_scheme"
    by (rule say_text)
  moreover have "one_line (ascii (''Enabling Interrupts'' @ nl))"
    unfolding one_line_def by (rule exI [of _ "ascii ''Enabling Interrupts''"]) (simp add: ascii_def nl_def)
  ultimately show ?thesis by (intro exI [of _ "ascii (''Enabling Interrupts'' @ nl)"]) (simp add: nl_def)
qed

section \<open>The literal with the name of the shell\<close>

lemma cmd_scan_ge: "i \<le> n \<Longrightarrow> n \<le> 32 \<Longrightarrow> (\<And>j. i \<le> j \<Longrightarrow> j < n \<Longrightarrow> c j \<noteq> 0x0A \<and> c j \<noteq> 0x20) \<Longrightarrow> n \<le> cmd_scan c i"
proof (induction "n - i" arbitrary: i)
  case 0
  then show ?case using cmd_scan_le [of i c] by simp
next
  case (Suc d)
  then have "n \<le> cmd_scan c (i + 1)" by (intro Suc.hyps(1)) auto
  then show ?case using Suc.hyps(2) Suc.prems by (subst cmd_scan.simps) auto
qed

lemma skip_spaces_list: "\<exists>j. skip_spaces (list_view bs) i = Some j"
proof (induction "length bs - i" arbitrary: i)
  case 0
  then show ?case by (subst skip_spaces.simps) (simp add: list_view_def)
next
  case (Suc d)
  then have "\<exists>j. skip_spaces (list_view bs) (i + 1) = Some j" by (intro Suc.hyps(1)) simp
  then show ?case by (subst skip_spaces.simps) auto
qed

lemma list_view_prefix: "j < length xs \<Longrightarrow> list_view (xs @ ys) j = xs ! j"
  by (simp add: list_view_def nth_append)

lemma shell_literal:
  fixes bs :: "byte list"
  defines "shell \<equiv> list_view (ascii ''shell'' @ 0 # bs)"
  shows "cstr_take (list_view (command_name shell)) 32 = ascii ''shell''" "\<exists>as. command_args shell = Some as"
proof -
  let ?i = "cmd_scan shell 0"
  have w: "ascii ''shell'' = [0x73, 0x68, 0x65, 0x6C, 0x6C]" by (simp add: ascii_def)
  have c: "shell j = [0x73, 0x68, 0x65, 0x6C, 0x6C, 0] ! j" if "j < 6" for j
  proof -
    have "shell = list_view ([0x73, 0x68, 0x65, 0x6C, 0x6C, 0] @ bs)" by (simp add: shell_def w)
    moreover have "length [0x73, 0x68, 0x65, 0x6C, 0x6C, 0 :: byte] = 6" by simp
    ultimately show ?thesis using that list_view_prefix [of j "[0x73, 0x68, 0x65, 0x6C, 0x6C, 0]" bs] by simp
  qed
  have "shell j \<noteq> 0x0A \<and> shell j \<noteq> 0x20" if "j < 6" for j
  proof -
    have "j = 0 \<or> j = 1 \<or> j = 2 \<or> j = 3 \<or> j = 4 \<or> j = 5" using that by linarith
    then show ?thesis using c [OF that] by auto
  qed
  then have i: "6 \<le> ?i" "?i \<le> 32" using cmd_scan_ge [of 0 6 shell] cmd_scan_le [of 0 shell] by auto
  let ?nm = "command_name shell"
  have nm: "?nm = view_take shell ?i @ replicate (32 - ?i) 0" by (simp add: command_name_def Let_def MAX_CMD_LEN_def)
  have "take 6 ?nm = [0x73, 0x68, 0x65, 0x6C, 0x6C, 0]"
  proof (rule nth_equalityI)
    fix j
    assume "j < length (take 6 ?nm)"
    then have j: "j < 6" by simp
    then show "take 6 ?nm ! j = [0x73, 0x68, 0x65, 0x6C, 0x6C, 0] ! j"
      using i(1) c [OF j] unfolding nm by (simp only: nth_take nth_append length_view_take nth_view_take) simp
  qed (use i in \<open>simp add: nm\<close>)
  then have "[0x73, 0x68, 0x65, 0x6C, 0x6C, 0] @ drop 6 ?nm = ?nm" using append_take_drop_id [of 6 ?nm] by simp
  then have "?nm = ascii ''shell'' @ 0 # drop 6 ?nm" unfolding w by simp
  then obtain xs where "?nm = ascii ''shell'' @ 0 # xs" by blast
  moreover have "takeWhile (\<lambda>b. b \<noteq> 0) (ascii ''shell'' @ 0 # xs) = ascii ''shell''" for xs by (simp add: w)
  ultimately have "takeWhile (\<lambda>b. b \<noteq> 0) ?nm = ascii ''shell''" by (simp only:)
  moreover have "view_take (list_view ?nm) 32 = ?nm" using i by (intro nth_equalityI) (auto simp: nm)
  ultimately show "cstr_take (list_view ?nm) 32 = ascii ''shell''" by (simp add: cstr_take_def)
  show "\<exists>as. command_args shell = Some as"
    using skip_spaces_list [of "ascii ''shell'' @ 0 # bs" ?i] by (auto simp: command_args_def Let_def shell_def)
qed

section \<open>The interrupt lines\<close>

text \<open>Port accesses that neither initialise a controller nor set a mask.\<close>

fun pic_quiet :: "io_event \<Rightarrow> bool" where
  "pic_quiet (In p b) = True"
| "pic_quiet (Out p b) = (p \<notin> {0x21, 0xA1} \<and> (p \<in> {0x20, 0xA0} \<longrightarrow> \<not> bit b 4))"

lemma chip_state_quiet:
  "list_all pic_quiet es \<Longrightarrow> cmd = 0x20 \<or> cmd = 0xA0 \<Longrightarrow> chip_state cmd (log @ es) = chip_state cmd log"
proof (induction es arbitrary: log)
  case (Cons e es)
  have "chip_step cmd e (chip_state cmd log) = chip_state cmd log"
    using Cons.prems by (cases e) (auto simp: chip_step_Out)
  then show ?case using Cons.IH [of "log @ [e]"] Cons.prems by simp
qed simp

definition irqs_same :: "'a machine_scheme \<Rightarrow> 'b machine_scheme \<Rightarrow> bool" where
  "irqs_same s t \<longleftrightarrow> (\<exists>es. io_log t = io_log s @ es \<and> list_all pic_quiet es)"

lemma irqs_same_laws:
  assumes "irqs_same s t"
  shows "irqs_enabled t = irqs_enabled s" "pics_ready t = pics_ready s"
  using assms by (auto simp: irqs_same_def irqs_enabled_def pics_ready_def chip_state_quiet)

lemma irqs_same_refl: "io_log t = io_log s \<Longrightarrow> irqs_same s t"
  by (simp add: irqs_same_def)

lemma irqs_same_trans: "irqs_same s t \<Longrightarrow> irqs_same t u \<Longrightarrow> irqs_same s u"
  by (fastforce simp: irqs_same_def)

lemma rtc_tick_quiet: "irqs_same s (isr dev Rtc_irq s)" "ram (isr dev Rtc_irq s) = ram s"
  by (simp_all add: irqs_same_def isr_def handler_wrapper_def rtc_handler_def Let_def cli_def sti_def outb_def inb_def
      send_eoi_def pic_consts rtc_consts bit_numeral_simps)

lemma clear_term_quiet: "irqs_same s (clear_term s)"
  by (simp add: irqs_same_def clear_term_def clear_def Let_def move_cursor_def outb_def)

lemma rtc_init_words: "\<exists>t. rtc_init dev s = sti (enable_irq dev 8 t) \<and> irqs_same s t"
  unfolding rtc_init_def inb_def Let_def split_conv rtc_consts
  by (rule exI, rule conjI, rule refl)
    (simp add: irqs_same_def rtc_set_rate_def Let_def inb_def outb_def cli_def sti_def rtc_consts)

lemma rtc_init_irqs:
  assumes "masks_readable dev" "pics_ready s"
  shows "pics_ready (rtc_init dev s)" "irqs_enabled (rtc_init dev s) = irqs_enabled s \<union> {8}"
proof -
  obtain t :: "'a rtc_state_scheme" where t: "rtc_init dev s = sti (enable_irq dev 8 t)" "irqs_same s t"
    using rtc_init_words by blast
  have same: "irqs_same (enable_irq dev 8 t) (rtc_init dev s)" by (rule irqs_same_refl) (simp add: t(1) sti_def)
  have r: "pics_ready t" using assms(2) irqs_same_laws(2) [OF t(2)] by simp
  show "pics_ready (rtc_init dev s)" "irqs_enabled (rtc_init dev s) = irqs_enabled s \<union> {8}"
    using enable_irq_laws [OF assms(1) r, of 8] irqs_same_laws [OF same] irqs_same_laws(1) [OF t(2)] by simp_all
qed

lemma keyboard_init_irqs:
  assumes "masks_readable dev" "pics_ready s"
  shows "pics_ready (keyboard_init dev s)" "irqs_enabled (keyboard_init dev s) = irqs_enabled s \<union> {1}"
  using enable_irq_laws [OF assms, of 1] by (simp_all add: keyboard_init_def KEYBOARD_IRQ_def)

section \<open>From the entry to the first program\<close>

text \<open>What the initialisation of a device leaves alone.\<close>

definition quiet :: "'a keyboard_state_scheme \<Rightarrow> 'a keyboard_state_scheme \<Rightarrow> bool" where
  "quiet s t \<longleftrightarrow> ram t = ram s \<and> screen_x t = screen_x s \<and> screen_y t = screen_y s \<and>
     keyboard_state.more t = keyboard_state.more s"

lemma quiet_trans: "quiet s t \<Longrightarrow> quiet t u \<Longrightarrow> quiet s u"
  by (simp add: quiet_def)

lemma enable_irq_quiet: "quiet s (enable_irq dev i s)"
  by (simp add: quiet_def enable_irq_def Let_def inb_def outb_def)

lemma keyboard_init_quiet: "quiet s (keyboard_init dev s)"
  by (simp add: keyboard_init_def enable_irq_quiet)

lemma i8259_init_quiet: "quiet s (i8259_init dev s)"
proof -
  have step: "quiet s t \<Longrightarrow> quiet s (enable_irq dev 2 t)" for t using quiet_trans enable_irq_quiet by blast
  show ?thesis unfolding i8259_init_def Let_def by (rule step) (simp add: quiet_def outb_def)
qed

lemma rtc_init_quiet: "quiet s (rtc_init dev s)"
proof -
  have sti: "quiet t (sti t)" for t :: "'a keyboard_state_scheme" by (simp add: quiet_def sti_def)
  have step: "quiet s t \<Longrightarrow> quiet s (sti (enable_irq dev RTC_IRQ t))" for t
    using quiet_trans enable_irq_quiet sti by blast
  show ?thesis unfolding rtc_init_def Let_def inb_def split_conv
    by (rule step) (simp add: quiet_def rtc_set_rate_def Let_def inb_def outb_def cli_def sti_def)
qed

text \<open>Ticks of the clock.\<close>

lemma tick_quiet: "quiet s (isr dev Rtc_irq s)"
  by (simp add: quiet_def isr_def handler_wrapper_def rtc_handler_def Let_def cli_def sti_def outb_def inb_def send_eoi_def)

lemma deliver_quiet:
  assumes "set evs \<subseteq> {Rtc_irq}"
  shows "quiet s (deliver dev evs s)" "irqs_same s (deliver dev evs s)"
proof -
  have "quiet s (fold (isr dev) evs s) \<and> irqs_same s (fold (isr dev) evs s)"
    using assms
  proof (induction evs arbitrary: s)
    case (Cons e evs)
    then show ?case
      using quiet_trans [OF tick_quiet [of s dev]] irqs_same_trans [OF rtc_tick_quiet(1) [of s dev]] by auto
  qed (simp add: quiet_def irqs_same_refl)
  then show "quiet s (deliver dev evs s)" "irqs_same s (deliver dev evs s)"
    by (simp_all add: deliver_def quiet_def irqs_same_refl)
qed

lemma process_more: "keyboard_state.more t = keyboard_state.more s \<Longrightarrow> process_state.more t = process_state.more s"
  by (cases s; cases t) simp

lemma quiet_parts:
  assumes "quiet s t"
  shows "ram t = ram s" "screen_x t = screen_x s" "screen_y t = screen_y s" "curr_pcb t = curr_pcb s" "boot t = boot s"
    "paging_ok t = paging_ok s" "process_state.more t = process_state.more s"
  using assms same_kernel_beyond [of t s] process_more [of t s] by (simp_all add: quiet_def same_kernel_def paging_ok_def)

text \<open>The image with an executable shell lies in the kernel's page: what is read of it does not depend on the memory outside.\<close>

definition shell_image :: "mem \<Rightarrow> u32 \<Rightarrow> bool" where
  "shell_image m b \<longleftrightarrow> (\<forall>m'. (\<forall>a. 0x400000 \<le> a \<and> a < 0x800000 \<longrightarrow> m' a = m a) \<longrightarrow>
     (\<exists>d. read_dentry_by_name (view m' b) (list_view (ascii ''shell'')) = (0, Some d) \<and> ft d = 2 \<and>
        take 4 (file_contents (view m' b) (ind d)) = check_exe \<and> length (file_contents (view m' b) (ind d)) \<le> 0x3B8000))"

lemma start_shell:
  assumes "pcbs_ok 0 (curr_pcb s)" "kernel_space s" "shell_image m (boot s)" "\<And>a. \<not> video_window a \<Longrightarrow> ram s a = m a"
  shows "\<exists>e t. sys_execute (list_view (ascii ''shell'' @ 0 # bs)) (list_view (ascii ''shell'' @ 0 # bs)) s =
      Some (Enter e (MB_132 - 4), t) \<and> stack_ok 1 t \<and> io_log t = io_log s \<and> process_state.more t = process_state.more s"
proof -
  let ?sh = "list_view (ascii ''shell'' @ 0 # bs)"
  have page: "\<forall>a. 0x400000 \<le> a \<and> a < 0x800000 \<longrightarrow> ram s a = m a"
    using assms(4) outside_window by (auto simp: word_le_nat_alt)
  obtain d where d: "read_dentry_by_name (fs s) (list_view (ascii ''shell'')) = (0, Some d)" "ft d = 2"
      "take 4 (file_contents (fs s) (ind d)) = check_exe" "length (file_contents (fs s) (ind d)) \<le> 0x3B8000"
    using assms(3) page unfolding shell_image_def fs_def by blast
  obtain as where as: "command_args ?sh = Some as" using shell_literal(2) by blast
  let ?e = "load_le32 (list_view (file_contents (fs s) (ind d))) 24"
  obtain t where t: "start_program as (ind d) ?e 0 s = Some (Enter ?e (MB_132 - 4), t)"
    using start_program_loads [OF assms(2) _ d(4), of 0] by auto
  have "ascii ''shell'' \<noteq> []" "take 4 (ascii ''shell'') \<noteq> ascii ''quit''" by (simp_all add: ascii_def)
  then have "sys_execute ?sh ?sh s = Some (Enter ?e (MB_132 - 4), t)"
    using execute_named [OF shell_literal(1) _ _ as assms(1)] d t by (simp add: sys_execute_def)
  moreover have "stack_ok (Suc 0) t"
    using start_program_ok [OF assms(1) _ assms(2) _ _ _ t] command_args_ok [OF as] by simp
  moreover have "io_log t = io_log s" "process_state.more t = process_state.more s"
    using t by (auto simp: start_program_def Let_def set_pcb_def map_program_def flushTLB_def chgDir_def
        split: option.splits dest!: vstore_ram)
  ultimately show ?thesis by auto
qed

lemma idt_more: "process_state.more t = process_state.more s \<Longrightarrow> idt t = idt s"
  by (cases s; cases t) simp

lemma descriptors_more:
  "process_state.more t = process_state.more s \<Longrightarrow> tss_desc_ptr t = tss_desc_ptr s \<and> ldt_desc_ptr t = ldt_desc_ptr s \<and>
     tr t = tr s \<and> ldtr t = ldtr s \<and> boot_state.more t = boot_state.more s"
  by (cases s; cases t) simp

lemma page_init_rest:
  "ram (page_init s) = ram s" "screen_x (page_init s) = screen_x s" "screen_y (page_init s) = screen_y s"
  "io_log (page_init s) = io_log s" "curr_pcb (page_init s) = curr_pcb s" "boot (page_init s) = boot s"
  "idt (page_init s) = idt s" "process_state.more (page_init s) = process_state.more s"
  by (simp_all add: page_init_def Let_def pageEnable_def spawnDir_def)

lemma window_screen: "\<not> video_window a \<Longrightarrow> a \<notin> screen_bytes"
proof
  assume "\<not> video_window a" "a \<in> screen_bytes"
  then obtain x where x: "a = vaddr x" "0 \<le> x" "x < 4000" by (auto simp: screen_bytes_def)
  then have "unat (a - VIDEO) = nat x" by (simp add: vaddr_def unat_w32)
  then have "video_window a" using x(3) unfolding video_window_def in_range_def by linarith
  then show False using \<open>\<not> video_window a\<close> by blast
qed

text \<open>The initialisations of \<open>entry_devices\<close>, up to \<open>page_init\<close> and the interrupts behind it.\<close>

definition boot_devices where
  "boot_devices dev addr evs mbi s =
     (let s = i8259_init dev s;
          s = snd (dir_open (mod_start s (mbi_mods_addr s mbi)) s);
          s = s\<lparr>idt := idt_init addr (idt s)\<rparr>;
          s = deliver dev (evs 0) (rtc_init dev s);
          s = deliver dev (evs (Suc 0)) (keyboard_init dev s)
      in deliver dev (evs 2) (page_init s))"

definition boot_ready :: "'a boot_state_scheme \<Rightarrow> 'a boot_state_scheme \<Rightarrow> bool" where
  "boot_ready s t \<longleftrightarrow> ram t = ram s \<and> screen_x t = screen_x s \<and> screen_y t = screen_y s \<and> curr_pcb t = curr_pcb s"

definition same_descriptors :: "'a boot_state_scheme \<Rightarrow> 'a boot_state_scheme \<Rightarrow> bool" where
  "same_descriptors s t \<longleftrightarrow> tss_desc_ptr t = tss_desc_ptr s \<and> ldt_desc_ptr t = ldt_desc_ptr s \<and>
     tr t = tr s \<and> ldtr t = ldtr s \<and> boot_state.more t = boot_state.more s"

lemma boot_ready_descriptors: "boot_ready r (entry_tss ta tn td (entry_ldt la ln ld r))"
  by (simp add: boot_ready_def entry_defs Let_def)

text \<open>What ticks and messages keep.\<close>

lemma quiet_ready:
  assumes "quiet s t"
  shows "boot_ready r t = boot_ready r s" "idt t = idt s" "same_descriptors q t = same_descriptors q s"
    "kernel_space t = kernel_space s" "boot t = boot s"
  using quiet_parts [OF assms] idt_more [of t s] descriptors_more [of t s] same_kernel_beyond [of t s] kernel_space_cong(1) [of t s] assms
  by (simp_all add: boot_ready_def same_descriptors_def quiet_def same_kernel_def)

lemma boot_devices_ready:
  fixes s r :: "'a boot_state_scheme" and addr :: "handler \<Rightarrow> u32" and mbi :: u32
  assumes "masks_readable dev" "paging_ok r" "boot_ready r s" "idt s = idt r" "paging_ok s = paging_ok r"
    and evs: "\<And>i. set (evs i) \<subseteq> {Rtc_irq}"
  defines "t \<equiv> boot_devices dev addr evs mbi s"
  shows "boot_ready r t" "idt t = idt_init addr (idt r)" "boot t = mod_start r (mbi_mods_addr r mbi)" "kernel_space t"
    "irqs_enabled t = {1, 2, 8}" "same_descriptors s t"
proof -
  define s1 where "s1 = i8259_init dev s"
  define s3 where "s3 = s1\<lparr>boot := mod_start s1 (mbi_mods_addr s1 mbi), idt := idt_init addr (idt s1)\<rparr>"
  define s4 where "s4 = deliver dev (evs 0) (rtc_init dev s3)"
  define s5 where "s5 = deliver dev (evs (Suc 0)) (keyboard_init dev s4)"
  have t: "t = deliver dev (evs 2) (page_init s5)" by (simp add: t_def boot_devices_def s5_def s4_def s3_def s1_def dir_open_def Let_def)
  note e = deliver_quiet [OF evs]
  have q1: "quiet s s1" unfolding s1_def by (rule i8259_init_quiet)
  note k1 = quiet_parts [OF q1]
  have q5: "quiet s3 s5" unfolding s5_def s4_def using quiet_trans rtc_init_quiet keyboard_init_quiet e(1) by meson
  note k5 = quiet_parts [OF q5] and s0 = assms(3) [unfolded boot_ready_def]
  note q6 = quiet_ready [OF e(1) [of "page_init s5" dev 2]]
  have "boot s3 = mod_start r (mbi_mods_addr r mbi)"
    using q1 s0 by (simp add: s3_def quiet_def mod_start_def mbi_mods_addr_def mb_field_def)
  then show "boot t = mod_start r (mbi_mods_addr r mbi)" "boot_ready r t"
    unfolding t q6 using k1 k5 s0 page_init_rest [of s5] by (simp_all add: s3_def boot_ready_def)
  have "paging_ok s5" using k1 k5 assms(2,5) by (simp add: s3_def paging_ok_def)
  then show "kernel_space t" unfolding t q6 by (rule kernel_space_page_init)
  show "idt t = idt_init addr (idt r)"
    unfolding t q6 using idt_more [OF k1(7)] idt_more [OF k5(7)] assms(4) page_init_rest(7) [of s5] by (simp add: s3_def)
  show "same_descriptors s t"
    unfolding t q6 using descriptors_more [OF k1(7)] descriptors_more [OF k5(7)] descriptors_more [OF page_init_rest(8) [of s5]]
    by (simp add: s3_def same_descriptors_def)
  have "pics_ready s1 \<and> irqs_enabled s1 = {2}" using i8259_init_laws [OF assms(1), of s] by (simp add: s1_def)
  then have "pics_ready s3 \<and> irqs_enabled s3 = {2}"
    using irqs_same_laws [OF irqs_same_refl [of s3 s1]] by (simp add: s3_def)
  then have "pics_ready s4 \<and> irqs_enabled s4 = {2, 8}"
    using rtc_init_irqs [OF assms(1), of s3] irqs_same_laws [OF e(2) [of "rtc_init dev s3" dev 0]] by (auto simp: s4_def)
  then have "irqs_enabled s5 = {1, 2, 8}"
    using keyboard_init_irqs [OF assms(1), of s4] irqs_same_laws(1) [OF e(2) [of "keyboard_init dev s4" dev "Suc 0"]] by (auto simp: s5_def)
  then show "irqs_enabled t = {1, 2, 8}"
    using page_init_rest(4) [of s5] irqs_same_laws(1) [OF e(2) [of "page_init s5" dev 2]] by (simp add: t irqs_enabled_def)
qed

text \<open>A message of one line and the ticks behind it.\<close>

definition carried :: "'a process_state_scheme \<Rightarrow> 'a process_state_scheme \<Rightarrow> bool" where
  "carried s t \<longleftrightarrow> irqs_same s t \<and> keyboard_state.more t = keyboard_state.more s \<and> (\<forall>a. \<not> video_window a \<longrightarrow> ram t a = ram s a)"

lemma carried_trans: "carried s t \<Longrightarrow> carried t u \<Longrightarrow> carried s u"
  using irqs_same_trans [of s t u] by (simp add: carried_def)

lemma carried_deliver: "set evs \<subseteq> {Rtc_irq} \<Longrightarrow> carried s (deliver dev evs s)"
  using deliver_quiet [of evs s dev] by (simp add: carried_def quiet_def)

lemma carried_space: "carried s t \<Longrightarrow> kernel_space t = kernel_space s"
  using same_kernel_beyond [of t s] kernel_space_cong(1) [of t s] by (simp add: carried_def same_kernel_def)

lemma carried_clear: "carried s (clear_term (s :: 'a process_state_scheme))"
proof -
  have "\<forall>a. \<not> video_window a \<longrightarrow> ram (clear_term s) a = ram s a"
    using clear_mem [OF window_screen, of _ s] by (simp add: clear_term_def Let_def)
  then show ?thesis using clear_term_quiet [of s] by (simp add: carried_def)
qed

lemma carried_sti: "carried s (sti (s :: 'a process_state_scheme))"
  by (simp add: carried_def sti_def irqs_same_def)

lemma carried_message:
  fixes s :: "'a process_state_scheme" and dev :: device
  assumes "cursor_ok 203 s" "one_line out" "length out \<le> 300" "set evs \<subseteq> {Rtc_irq}"
  defines "t \<equiv> deliver dev evs (fold putc out s)"
  shows "carried s t" "cursor_ok 203 t"
proof -
  have w: "console_state.more (fold putc out s) = console_state.more s" "io_log (fold putc out s) = io_log s"
      "\<forall>a. \<not> video_window a \<longrightarrow> ram (fold putc out s) a = ram s a"
    using fold_putc_window [OF assms(1), of out] assms(3) by simp_all
  then have "carried s (fold putc out s)" using console_more_keyboard [OF w(1)] by (simp add: carried_def irqs_same_refl)
  then show "carried s t" unfolding t_def using carried_trans carried_deliver [OF assms(4)] by blast
  show "cursor_ok 203 t"
    using one_line_rows [OF assms(1,2)] deliver_quiet(1) [OF assms(4), of "fold putc out s" dev]
    by (simp add: t_def cursor_ok_def quiet_def)
qed

text \<open>The end of \<open>entry_devices\<close>, after \<open>page_init\<close>: the messages, the ticks and the cleared screen.\<close>

lemma entry_devices_run:
  fixes s :: "'a boot_state_scheme" and dev :: device and addr :: "handler \<Rightarrow> u32" and mbi :: u32 and evs :: "nat \<Rightarrow> irq list"
  defines "s6 \<equiv> boot_devices dev addr evs mbi s"
  assumes "cursor_ok 203 s6" "kernel_space s6" "\<And>i. set (evs i) \<subseteq> {Rtc_irq}"
  shows "\<exists>u. entry_devices dev addr junk evs shell mbi s =
      (case sys_execute shell shell u of None \<Rightarrow> None | Some (Enter e sp, s) \<Rightarrow> Some (Started e sp s)
       | Some (Ret r, s) \<Rightarrow> Some (Spinning s) | Some (Resume r, s) \<Rightarrow> None) \<and> carried s6 u"
proof -
  obtain out1 where o1: "length out1 \<le> 300" "one_line out1" "\<And>s :: 'a boot_state_scheme. say junk (''size of dentry: %d, inode: %d, bootblock: %d, data: %d'' @ nl)
     [64, 4096, 4096, 4096] s = Some (fold putc out1 s)" using say_sizes by blast
  obtain out2 where o2: "length out2 \<le> 300" "one_line out2" "\<And>s :: 'a boot_state_scheme. say junk (''Enabling Interrupts'' @ nl) [] s = Some (fold putc out2 s)"
    using say_interrupts by blast
  define s7 where "s7 = deliver dev (evs 3) (fold putc out1 s6)"
  define s8 where "s8 = deliver dev (evs 4) (fold putc out2 s7)"
  note c7 = carried_message [OF assms(2) o1(2,1) assms(4), of dev 3, folded s7_def]
  note c8 = carried_message [OF c7(2) o2(2,1) assms(4), of dev 4, folded s8_def]
  have "cell_mapped s6" "cell_mapped s7" using cell_mapped_rows assms(2,3) c7(2) carried_space [OF c7(1)] by simp_all
  then have p: "say_paged junk (''size of dentry: %d, inode: %d, bootblock: %d, data: %d'' @ nl) [64, 4096, 4096, 4096] s6 = Some (fold putc out1 s6)"
      "say_paged junk (''Enabling Interrupts'' @ nl) [] s7 = Some (fold putc out2 s7)"
    by (simp_all only: say_paged_def if_True o1(3) o2(3))
  let ?u = "deliver dev (evs 6) (clear_term (deliver dev (evs 5) (sti s8)))"
  have "entry_devices dev addr junk evs shell mbi s =
      (case sys_execute shell shell ?u of None \<Rightarrow> None | Some (Enter e sp, s) \<Rightarrow> Some (Started e sp s)
       | Some (Ret r, s) \<Rightarrow> Some (Spinning s) | Some (Resume r, s) \<Rightarrow> None)"
    using p unfolding entry_devices_def s8_def s7_def s6_def boot_devices_def Let_def One_nat_def by (simp only: Option.bind_lunit)
  moreover have "carried s6 ?u"
    using c7(1) c8(1) carried_sti carried_clear carried_deliver [OF assms(4)] carried_trans by meson
  ultimately show ?thesis by blast
qed

section \<open>A concrete boot\<close>

text \<open>A boot loader that sets no flag passes a module with an executable shell.\<close>

lemma say_flags: "\<exists>out. length out \<le> 60 \<and> (\<forall>s. say junk (''flags = 0x%#x'' @ nl) [v] s = Some (fold putc out s))"
proof -
  have fmt: "ascii (''flags = 0x%#x'' @ nl) = ascii ''flags = 0x'' @ [0x25, 0x23, 0x78, 0x0A]" by (simp add: ascii_def nl_def)
  have plain: "0 \<notin> set (ascii ''flags = 0x'')" "0x25 \<notin> set (ascii ''flags = 0x'')" by (simp_all add: ascii_def)
  have "fmt_text (\<lambda>i. if i < length [v] then [v] ! i else 0) 0 (ascii (''flags = 0x%#x'' @ nl)) =
      Some (ascii ''flags = 0x'' @ hex8_text v @ [0x0A])"
    unfolding fmt by (simp add: fmt_text_append plain)
  moreover have "length (ascii ''flags = 0x'' @ hex8_text v @ [0x0A]) \<le> 60"
    using number_digits_length [of "unat v" 16] by (simp add: hex8_text_def num_text_def)
  ultimately show ?thesis using say_text by blast
qed

lemma mb_field_cong:
  assumes "\<And>i. i < off + 4 \<Longrightarrow> ram t (a + of_nat i) = ram s (a + of_nat i)"
  shows "mb_field t a off = mb_field s a off"
proof -
  have "view (ram t) a i = view (ram s) a i" if "i < off + 4" for i using assms [OF that] by (simp add: view_def)
  then show ?thesis by (simp add: mb_field_def load_le32_def del: view_apply)
qed

lemma entry_report_no_flags:
  assumes "cursor_ok 24 s" "mbi_flags s mbi = 0" "\<And>i. i < 4 \<Longrightarrow> \<not> video_window (mbi + of_nat i)"
  shows "\<exists>r. entry_report junk MULTIBOOT_BOOTLOADER_MAGIC mbi s = Some (True, r) \<and> cursor_ok 203 r \<and>
      console_state.more r = console_state.more s \<and> (\<forall>a. \<not> video_window a \<longrightarrow> ram r a = ram s a)"
proof -
  have c: "cursor_ok 24 (clear s)" "console_state.more (clear s) = console_state.more s"
      "\<forall>a. \<not> video_window a \<longrightarrow> ram (clear s) a = ram s a"
    using assms(1) clear_mem [OF window_screen, of _ s] by (simp_all add: cursor_ok_def clear_def)
  obtain out where out: "length out \<le> 60" "\<And>t :: 'a console_state_scheme. say junk (''flags = 0x%#x'' @ nl) [mbi_flags (clear s) mbi] t = Some (fold putc out t)"
    using say_flags by blast
  let ?r = "fold putc out (clear s)"
  have r: "cursor_ok (24 + length out) ?r" "console_state.more ?r = console_state.more s" "\<forall>a. \<not> video_window a \<longrightarrow> ram ?r a = ram s a"
    using fold_putc_window [OF c(1), of out] c(2,3) out(1) by simp_all
  have "mbi_flags ?r mbi = 0"
    using assms(2,3) r(3) mb_field_cong [of 0 ?r mbi s] by (simp add: mbi_flags_def)
  then have "entry_report junk MULTIBOOT_BOOTLOADER_MAGIC mbi s = Some (True, ?r)"
    by (simp only: entry_report_def Let_def out(2) when_flag_def CHECK_FLAG_def Option.bind_lunit and_zero_eq zero_and_eq simp_thms if_False if_True)
  then show ?thesis using r out(1) by (auto simp: cursor_ok_def)
qed

definition zero_seg :: seg_desc where
  "zero_seg = \<lparr>seg_lim_15_00 = 0, base_15_00 = 0, base_23_16 = 0, sd_type = 0, sd_sys = 0, sd_dpl = 0, sd_present = 0,
     seg_lim_19_16 = 0, avail = 0, sd_reserved = 0, opsize = 0, granularity = 0, base_31_24 = 0\<rparr>"

definition boot_kernel :: boot_state where
  "boot_kernel = process_state.extend
     (tiny_kernel\<lparr>ram := (\<lambda>a. exe_image (ascii ''shell'') (unat (a - 0x600000)))(0x1001A := 2, 0x20002 := 0x60),
        screen_x := 0, screen_y := 0\<rparr>)
     \<lparr>idt = replicate NUM_VEC blank_gate, ldt_desc_ptr = zero_seg, tss_desc_ptr = zero_seg, ldtr = 0, tr = 0, tss_ldt = 0\<rparr>"

lemma boot_kernel_fields:
  "screen_x boot_kernel = 0" "screen_y boot_kernel = 0" "curr_pcb boot_kernel = replicate 6 blank_pcb"
  "ram boot_kernel = (\<lambda>a. exe_image (ascii ''shell'') (unat (a - 0x600000)))(0x1001A := 2, 0x20002 := 0x60)"
  by (simp_all add: boot_kernel_def process_state.defs paging_state.defs tiny_kernel_def)

lemma boot_kernel_paging: "paging_ok boot_kernel"
  using paging_ok_tiny by (simp add: paging_ok_def boot_kernel_def process_state.defs)

lemma exe_image_beyond: "8220 \<le> i \<Longrightarrow> exe_image (ascii ''shell'') i = 0"
  by (simp add: exe_image_def)

lemma boot_kernel_low: "a < 0x600000 \<Longrightarrow> a \<noteq> 0x1001A \<Longrightarrow> a \<noteq> 0x20002 \<Longrightarrow> ram boot_kernel a = 0"
proof -
  assume a: "a < 0x600000" "a \<noteq> 0x1001A" "a \<noteq> 0x20002"
  have "unat a < 0x600000" using a(1) by (simp add: word_less_nat_alt)
  then have "8220 \<le> unat (a - 0x600000)" using a(1) by (subst unat_sub_if') (auto simp: word_less_nat_alt)
  then show ?thesis using a exe_image_beyond by (simp add: boot_kernel_fields)
qed

lemma boot_kernel_image:
  assumes r: "\<forall>a. \<not> video_window a \<and> a < 0x700000 \<longrightarrow> m a = ram boot_kernel a"
  shows "shell_image m 0x600000"
  unfolding shell_image_def
proof (intro allI impI)
  fix m'
  assume m': "\<forall>a. 0x400000 \<le> a \<and> a < 0x800000 \<longrightarrow> m' a = m a"
  have v: "view m' 0x600000 i = exe_image (ascii ''shell'') i" if "i < 16384" for i
  proof -
    have i: "unat (of_nat i :: u32) = i" using that by (simp add: unat_of_nat)
    have "0x600000 \<le> 0x600000 + (word_of_nat i :: u32) \<and> 0x600000 + (word_of_nat i :: u32) < 0x700000"
      using that by (simp add: word_le_nat_alt word_less_nat_alt unat_word_ariths i)
    moreover have "x \<noteq> 0x1001A \<and> x \<noteq> 0x20002 \<and> 0xE8000 \<le> x \<and> 0x400000 \<le> x" if "0x600000 \<le> x" for x :: u32
      using that by (auto simp: word_le_nat_alt)
    moreover have "x < 0x800000" if "x < 0x700000" for x :: u32 using that by (simp add: word_less_nat_alt)
    ultimately show ?thesis using m' r outside_window [of "0x600000 + of_nat i"] by (simp add: view_def boot_kernel_fields i)
  qed
  have w: "length (ascii ''shell'') < 32" "0 \<notin> set (ascii ''shell'')" by (simp_all add: ascii_def)
  show "\<exists>d. read_dentry_by_name (view m' 0x600000) (list_view (ascii ''shell'')) = (0, Some d) \<and> ft d = 2 \<and>
      take 4 (file_contents (view m' 0x600000) (ind d)) = check_exe \<and> length (file_contents (view m' 0x600000) (ind d)) \<le> 0x3B8000"
    using exe_image_file [of "view m' 0x600000", OF v w] by (intro exI [of _ "boot_dirs (view m' 0x600000) 0"]) (simp add: check_exe_def)
qed

section \<open>The boot\<close>

text \<open>When the report to the screen has ended without an error, the cursor is at most at row 203, no process is marked as
  active, the module that the boot loader passed is an image in the kernel's page with an executable shell, and no key is
  pressed, then \<open>entry\<close> starts it. One
  process runs then, with its page and its kernel stack; exactly the interrupt lines of the keyboard, the cascade and the
  clock are let through, and the descriptors are those of \<open>entry_ldt\<close>, \<open>entry_tss\<close> and \<open>idt_init\<close>.\<close>

lemma entry_starts_shell:
  fixes s r :: "'a boot_state_scheme"
  assumes "entry_report junk magic mbi s = Some (True, r)" "masks_readable dev" "\<And>i. set (evs i) \<subseteq> {Rtc_irq}"
    and "cursor_ok 203 r" "pcbs_ok 0 (curr_pcb r)" "paging_ok r"
    and "shell_image (ram r) (mod_start r (mbi_mods_addr r mbi))"
  shows "\<exists>e t. entry dev addr ldt tss ld td junk evs (list_view (ascii ''shell'' @ 0 # bs)) magic mbi s =
      Some (Started e (MB_132 - 4) t) \<and> stack_ok 1 t \<and> irqs_enabled t = {1, 2, 8} \<and> idt t = idt_init addr (idt r) \<and>
      same_descriptors (entry_tss (fst tss) (snd tss) td (entry_ldt (fst ldt) (snd ldt) ld r)) t"
proof -
  let ?sh = "list_view (ascii ''shell'' @ 0 # bs)"
  define s0 where "s0 = entry_tss (fst tss) (snd tss) td (entry_ldt (fst ldt) (snd ldt) ld r)"
  have s0: "boot_ready r s0" "idt s0 = idt r" by (simp_all add: s0_def boot_ready_descriptors) (simp add: entry_defs Let_def)
  have "paging_ok s0 = paging_ok r" by (simp add: s0_def entry_defs Let_def paging_ok_def)
  note s6 = boot_devices_ready [OF assms(2,6) s0 this assms(3), where addr = addr and mbi = mbi]
  have c6: "cursor_ok 203 (boot_devices dev addr evs mbi s0)" using assms(4) s6(1) by (simp add: cursor_ok_def boot_ready_def)
  obtain u where u: "entry_devices dev addr junk evs ?sh mbi s0 =
      (case sys_execute ?sh ?sh u of None \<Rightarrow> None | Some (Enter e sp, s) \<Rightarrow> Some (Started e sp s)
       | Some (Ret r, s) \<Rightarrow> Some (Spinning s) | Some (Resume r, s) \<Rightarrow> None)"
      "irqs_same (boot_devices dev addr evs mbi s0) u" "keyboard_state.more u = keyboard_state.more (boot_devices dev addr evs mbi s0)"
      "\<forall>a. \<not> video_window a \<longrightarrow> ram u a = ram (boot_devices dev addr evs mbi s0) a"
    using entry_devices_run [OF c6 s6(4) assms(3), of junk ?sh] unfolding carried_def by blast
  have "pcbs_ok 0 (curr_pcb u)" "kernel_space u" "shell_image (ram r) (boot u)"
    using assms(5,7) s6 same_kernel_beyond [OF u(3)] kernel_space_cong(1) [of u "boot_devices dev addr evs mbi s0"]
    by (simp_all add: same_kernel_def boot_ready_def)
  then obtain e t where t: "sys_execute ?sh ?sh u = Some (Enter e (MB_132 - 4), t)" "stack_ok 1 t" "io_log t = io_log u"
      "process_state.more t = process_state.more u"
    using start_shell [of u "ram r" bs] u(4) s6(1) by (auto simp: boot_ready_def)
  have "entry dev addr ldt tss ld td junk evs ?sh magic mbi s = Some (Started e (MB_132 - 4) t)"
    using assms(1) u(1) t(1) by (simp add: entry_def s0_def [symmetric])
  moreover have "irqs_enabled t = {1, 2, 8}"
    using irqs_same_laws(1) [OF irqs_same_trans [OF u(2) irqs_same_refl [OF t(3)]]] s6(5) by simp
  moreover have "idt t = idt_init addr (idt r)"
    using idt_more [OF t(4)] idt_more [OF process_more [OF u(3)]] s6(2) by simp
  moreover have "same_descriptors s0 t"
    using descriptors_more [OF t(4)] descriptors_more [OF process_more [OF u(3)]] s6(6) by (simp add: same_descriptors_def)
  ultimately show ?thesis using t(2) unfolding s0_def by blast
qed

end
