(* ===== verification/Image.thy ===== *)
theory Image
  imports Process
begin

text \<open>
  Well-formed file system images for the reader of \<^verbatim>\<open>src/student-distrib/filesystem.c\<close>, and that what
  the kernel reads of one depends on the bytes of its blocks only.

  An image is well-formed when it has at most 62 entries, each of type 0, 1 or 2 and with a name of 1
  to 32 bytes, when the inode of each regular file exists, gives a length of at most 1023 blocks and
  lists data blocks that exist, and when the entry behind the last one has no name, because
  \<open>read_dentry_by_index\<close> serves one entry more than the directory has. The image that comes with the
  sources, \<^verbatim>\<open>src/student-distrib/filesys_img\<close>, is of this form; one of its 17 names has 32 bytes.
\<close>

section \<open>Well-formed images\<close>

definition inode_wf :: "cptr \<Rightarrow> u32 \<Rightarrow> bool" where
  "inode_wf img nd \<longleftrightarrow> nd < boot_nnod img \<and> unat (inode_len img (inode_at nd)) \<le> 1023 * 4096 \<and>
     (\<forall>j < 1023. j * 4096 < unat (inode_len img (inode_at nd)) \<longrightarrow> inode_data img (inode_at nd) j < boot_nblck img)"

definition entry_wf :: "cptr \<Rightarrow> dentry \<Rightarrow> bool" where
  "entry_wf img d \<longleftrightarrow> ft d \<le> 2 \<and> (ft d = 2 \<longrightarrow> inode_wf img (ind d)) \<and> entry_name d \<noteq> []"

definition image_wf :: "cptr \<Rightarrow> bool" where
  "image_wf img \<longleftrightarrow> unat (boot_nent img) \<le> 62 \<and> list_all (\<lambda>i. entry_wf img (boot_dirs img i)) [0..<unat (boot_nent img)] \<and>
     entry_name (boot_dirs img (unat (boot_nent img))) = []"

definition image_size :: "cptr \<Rightarrow> nat" where
  "image_size img = (1 + unat (boot_nnod img) + unat (boot_nblck img)) * 4096"

text \<open>Two images with the same blocks.\<close>

definition same_image :: "cptr \<Rightarrow> cptr \<Rightarrow> bool" where
  "same_image img img' \<longleftrightarrow> (\<forall>i < image_size img. img' i = img i)"

lemma image_size_min: "4096 \<le> image_size img"
  by (simp add: image_size_def)

lemma load_le32_same: "same_image img img' \<Longrightarrow> i + 4 \<le> image_size img \<Longrightarrow> load_le32 img' i = load_le32 img i"
  by (simp add: load_le32_def same_image_def)

lemma boot_same:
  assumes "same_image img img'"
  shows "boot_nent img' = boot_nent img" "boot_nnod img' = boot_nnod img" "boot_nblck img' = boot_nblck img"
  using load_le32_same [OF assms] image_size_min [of img] by (simp_all add: boot_nent_def boot_nnod_def boot_nblck_def)

lemma boot_dirs_same: "same_image img img' \<Longrightarrow> i \<le> 62 \<Longrightarrow> boot_dirs img' i = boot_dirs img i"
proof -
  assume a: "same_image img img'" "i \<le> 62"
  have "64 + 64 * i + 64 \<le> image_size img" using image_size_min [of img] a(2) by simp
  then show ?thesis using a load_le32_same [OF a(1)] by (simp add: boot_dirs_def Let_def same_image_def)
qed

lemma read_dentry_by_name_same:
  assumes "same_image img img'" "image_wf img"
  shows "read_dentry_by_name img' fname = read_dentry_by_name img fname"
proof -
  have n: "unat (boot_nent img) \<le> 62" using assms(2) by (simp add: image_wf_def)
  have "find (\<lambda>j. strncmp fname (list_view (name (boot_dirs img' j))) 32 = 0) [0..<unat (boot_nent img)] =
      find (\<lambda>j. strncmp fname (list_view (name (boot_dirs img j))) 32 = 0) [0..<unat (boot_nent img)]"
    using n boot_dirs_same [OF assms(1)] by (intro find_cong) auto
  moreover have "map_option (boot_dirs img') (find P [0..<unat (boot_nent img)]) = map_option (boot_dirs img) (find P [0..<unat (boot_nent img)])" for P
  proof (cases "find P [0..<unat (boot_nent img)]")
    case (Some j)
    then have "j < unat (boot_nent img)" by (simp add: find_upt)
    then show ?thesis using n Some boot_dirs_same [OF assms(1), of j] by simp
  qed simp
  ultimately show ?thesis
    by (simp add: read_dentry_by_name_def dentry_search_find boot_same(1) [OF assms(1)])
qed

lemma read_dentry_by_index_same:
  "same_image img img' \<Longrightarrow> image_wf img \<Longrightarrow> i \<le> boot_nent img \<Longrightarrow> read_dentry_by_index img' i = (0, Some (boot_dirs img (unat i)))"
  using boot_dirs_same [of img img' "unat i"]
  by (auto simp: read_dentry_by_index_def boot_same(1) image_wf_def word_le_nat_alt word_less_nat_alt)

lemma block_bound: "(a :: nat) < b \<Longrightarrow> r < n \<Longrightarrow> a * n + r < b * n"
proof -
  assume "a < b" "r < n"
  then have "a * n + r < a * n + n" "Suc a * n \<le> b * n" by (simp_all del: mult_Suc)
  then show ?thesis by simp
qed

lemma inode_same:
  assumes "same_image img img'" "inode_wf img nd"
  shows "inode_len img' (inode_at nd) = inode_len img (inode_at nd)"
    "\<And>j. j < 1023 \<Longrightarrow> inode_data img' (inode_at nd) j = inode_data img (inode_at nd) j"
proof -
  have "unat nd < unat (boot_nnod img)" using assms(2) by (simp add: inode_wf_def word_less_nat_alt)
  then have "(unat nd + 2) * 4096 \<le> image_size img" by (simp add: image_size_def)
  then have b: "inode_at nd + 4096 \<le> image_size img" by (simp add: inode_at_def BLKSIZE_def)
  then show "inode_len img' (inode_at nd) = inode_len img (inode_at nd)"
    using load_le32_same [OF assms(1), of "inode_at nd"] by (simp add: inode_len_def)
  show "inode_data img' (inode_at nd) j = inode_data img (inode_at nd) j" if "j < 1023" for j
    using load_le32_same [OF assms(1), of "inode_at nd + 4 + 4 * j"] b that by (simp add: inode_data_def)
qed

lemma file_contents_same:
  assumes "same_image img img'" "inode_wf img nd"
  shows "file_contents img' nd = file_contents img nd"
proof -
  let ?len = "unat (inode_len img (inode_at nd))"
  have wf: "nd < boot_nnod img" "?len \<le> 1023 * 4096" using assms(2) by (simp_all add: inode_wf_def)
  have "file_byte img' nd k = file_byte img nd k" if k: "k < ?len" for k
  proof -
    have u: "unat (of_nat k :: u32) = k" using k wf(2) by (simp add: unat_of_nat)
    have j: "k div 4096 < 1023" "k div 4096 * 4096 < ?len"
      using k wf(2) div_times_less_eq_dividend [of k 4096] by (simp_all add: div_less_iff_less_mult)
    then have "inode_data img (inode_at nd) (k div 4096) < boot_nblck img" using assms(2) by (simp add: inode_wf_def)
    then have d: "unat (inode_data img (inode_at nd) (k div 4096)) < unat (boot_nblck img)" by (simp add: word_less_nat_alt)
    have "(unat (boot_nnod img) + 1 + unat (inode_data img (inode_at nd) (k div 4096))) * 4096 + k mod 4096 < image_size img"
      unfolding image_size_def by (rule block_bound) (use d in simp_all)
    then show ?thesis
      using assms(1) inode_same(2) [OF assms j(1)]
      by (simp add: file_byte_def block_data_def block_at_def BLKSIZE_def u boot_same(2) same_image_def)
  qed
  then show ?thesis using wf(1) by (simp add: file_contents_def boot_same(2) [OF assms(1)] inode_same(1) [OF assms])
qed

lemma length_file_contents_wf: "inode_wf img nd \<Longrightarrow> length (file_contents img nd) \<le> 1023 * 4096"
  by (simp add: inode_wf_def file_contents_def)

end
