(* ===== verification/UserLib.thy ===== *)
theory UserLib
  imports LibStr "HOL-Library.Monad_Syntax"
begin

text \<open>
  The library of the programs, \<^verbatim>\<open>src/syscalls/ece391support.c\<close> (of which \<^verbatim>\<open>src/fish/ece391support.c\<close>
  has the first functions too), and the interface to the system calls, \<^verbatim>\<open>ece391syscall.h\<close>.

  An array of a program is a list of its bytes, and a pointer into it the rest of the list from
  there on; every access outside of the array is \<open>None\<close>. A record \<open>usys\<close> has the system calls as its
  fields, on states of any type \<open>'s\<close>; a call takes the bytes that its pointer shows, and one that
  fills a buffer gives the new bytes of the buffer. \<open>None\<close> is a call that does not return.
\<close>

section \<open>The system calls\<close>

record 's usys =
  ece391_execute :: "byte list \<Rightarrow> 's \<Rightarrow> (int \<times> 's) option"
  ece391_read :: "int \<Rightarrow> byte list \<Rightarrow> int \<Rightarrow> 's \<Rightarrow> (int \<times> byte list \<times> 's) option"
  ece391_write :: "int \<Rightarrow> byte list \<Rightarrow> int \<Rightarrow> 's \<Rightarrow> (int \<times> 's) option"
  ece391_open :: "byte list \<Rightarrow> 's \<Rightarrow> (int \<times> 's) option"
  ece391_close :: "int \<Rightarrow> 's \<Rightarrow> (int \<times> 's) option"
  ece391_getargs :: "byte list \<Rightarrow> int \<Rightarrow> 's \<Rightarrow> (int \<times> byte list \<times> 's) option"
  ece391_vidmap :: "u32 \<Rightarrow> 's \<Rightarrow> (int \<times> 's) option"
  ece391_set_handler :: "int \<Rightarrow> 's \<Rightarrow> (int \<times> 's) option"
  call_sys :: "int \<Rightarrow> 's \<Rightarrow> (int \<times> 's) option"

text \<open>A string literal, and an assignment to an element of an array.\<close>

definition lit :: "string \<Rightarrow> byte list" where
  "lit s = ascii s @ [0]"

definition assign :: "byte list \<Rightarrow> int \<Rightarrow> byte \<Rightarrow> byte list option" where
  "assign buf i b = (if 0 \<le> i \<and> i < int (length buf) then Some (buf[nat i := b]) else None)"

definition element :: "byte list \<Rightarrow> int \<Rightarrow> byte option" where
  "element buf i = (if 0 \<le> i \<and> i < int (length buf) then Some (buf ! nat i) else None)"

section \<open>Strings\<close>

fun ece391_strlen_loop :: "byte list \<Rightarrow> nat \<Rightarrow> nat option" where
  "ece391_strlen_loop [] len = None"
| "ece391_strlen_loop (b # s) len = (if 0 \<noteq> b then ece391_strlen_loop s (len + 1) else Some len)"

definition ece391_strlen :: "byte list \<Rightarrow> nat option" where
  "ece391_strlen s = ece391_strlen_loop s 0"

text \<open>Copying within one array, from index \<open>src\<close> to index \<open>dst\<close>.\<close>

function ece391_strcpy :: "byte list \<Rightarrow> nat \<Rightarrow> nat \<Rightarrow> byte list option" where
  "ece391_strcpy buf dst src =
     (if dst < length buf \<and> src < length buf then
        let b = buf ! src;
            buf = buf[dst := b]
        in if 0 \<noteq> b then ece391_strcpy buf (dst + 1) (src + 1) else Some buf
      else None)"
  by auto
termination by (relation "measure (\<lambda>(buf, dst, src). length buf - src)") auto

definition ece391_fdputs :: "'s usys \<Rightarrow> int \<Rightarrow> byte list \<Rightarrow> 's \<Rightarrow> 's option" where
  "ece391_fdputs sys fd s st =
     do { n \<leftarrow> ece391_strlen s;
          (_, st) \<leftarrow> ece391_write sys fd s (int n) st;
          Some st }"

fun ece391_strcmp :: "byte list \<Rightarrow> byte list \<Rightarrow> int option" where
  "ece391_strcmp (a # s1) (b # s2) =
     (if a = b then (if a = 0 then Some 0 else ece391_strcmp s1 s2) else Some (uint a - uint b))"
| "ece391_strcmp _ _ = None"

fun ece391_strncmp_loop :: "byte list \<Rightarrow> byte list \<Rightarrow> u32 \<Rightarrow> int option" where
  "ece391_strncmp_loop (a # s1) (b # s2) n =
     (if a = b then
        (if a = 0 then Some 0
         else let n = n - 1 in if n = 0 then Some 0 else ece391_strncmp_loop s1 s2 n)
      else Some (uint a - uint b))"
| "ece391_strncmp_loop _ _ n = None"

definition ece391_strncmp :: "byte list \<Rightarrow> byte list \<Rightarrow> u32 \<Rightarrow> int option" where
  "ece391_strncmp s1 s2 n = (if 0 = n then Some 0 else ece391_strncmp_loop s1 s2 n)"

section \<open>Numbers\<close>

function ece391_strrev_loop :: "byte list \<Rightarrow> int \<Rightarrow> int \<Rightarrow> byte list" where
  "ece391_strrev_loop s beg ends =
     (if beg < ends then
        let tmp = s ! nat ends;
            s = s[nat ends := s ! nat beg];
            s = s[nat beg := tmp]
        in ece391_strrev_loop s (beg + 1) (ends - 1)
      else s)"
  by auto
termination by (relation "measure (\<lambda>(s, beg, ends). nat (ends - beg))") auto

definition ece391_strrev :: "byte list \<Rightarrow> byte list option" where
  "ece391_strrev s =
     do { n \<leftarrow> ece391_strlen s;
          let ends = int n - 1;
          if ends \<le> 0 then Some s else Some (ece391_strrev_loop s 0 ends) }"

definition ece391_lookup :: "byte list" where
  "ece391_lookup = lit ''0123456789ABCDEFGHIJKLMNOPQRSTUVWXYZ''"

partial_function (option) ece391_itoa_loop :: "byte list \<Rightarrow> nat \<Rightarrow> u32 \<Rightarrow> u32 \<Rightarrow> (byte list \<times> nat) option" where
  "ece391_itoa_loop buf newbuf newval radix =
     (if newval > 0 then
        (if radix = 0 then None
         else do { c \<leftarrow> element ece391_lookup (s32 (newval mod radix));
                   buf \<leftarrow> assign buf (int newbuf) c;
                   ece391_itoa_loop buf (newbuf + 1) (newval div radix) radix })
      else Some (buf, newbuf))"

definition ece391_itoa :: "u32 \<Rightarrow> byte list \<Rightarrow> u32 \<Rightarrow> byte list option" where
  "ece391_itoa val buf radix =
     (if val = 0 then do { buf \<leftarrow> assign buf 0 0x30; assign buf 1 0 }
      else do { (buf, newbuf) \<leftarrow> ece391_itoa_loop buf 0 val radix;
                buf \<leftarrow> assign buf (int newbuf) 0;
                ece391_strrev buf })"

declare ece391_strcpy.simps [simp del] ece391_strrev_loop.simps [simp del]

section \<open>Strings in arrays\<close>

text \<open>The string of an array: the bytes before its first NUL.\<close>

definition cstr :: "byte list \<Rightarrow> byte list" where
  "cstr s = takeWhile (\<lambda>b. b \<noteq> 0) s"

lemma cstr_append [simp]: "0 \<notin> set s \<Longrightarrow> cstr (s @ 0 # r) = s"
  by (auto simp: cstr_def takeWhile_append)

lemma cstr_split: "0 \<in> set s \<Longrightarrow> \<exists>r. s = cstr s @ 0 # r"
  by (induction s) (auto simp: cstr_def)

lemma cstr_nonzero: "0 \<notin> set (cstr s)"
  by (auto simp: cstr_def dest: set_takeWhileD)

lemma cstr_lit [simp]: "0 \<notin> set (ascii s) \<Longrightarrow> cstr (lit s) = ascii s"
  by (simp add: lit_def)

lemma ece391_strlen_loop_at: "0 \<notin> set s \<Longrightarrow> ece391_strlen_loop (s @ 0 # r) len = Some (len + length s)"
  by (induction s arbitrary: len) auto

lemma ece391_strlen_at [simp]: "0 \<notin> set s \<Longrightarrow> ece391_strlen (s @ 0 # r) = Some (length s)"
  by (simp add: ece391_strlen_def ece391_strlen_loop_at)

lemma ece391_strlen_None: "0 \<notin> set s \<Longrightarrow> ece391_strlen s = None"
proof -
  have "0 \<notin> set s \<Longrightarrow> ece391_strlen_loop s len = None" for len by (induction s arbitrary: len) auto
  then show "0 \<notin> set s \<Longrightarrow> ece391_strlen s = None" by (simp add: ece391_strlen_def)
qed

lemma ece391_strlen_cstr: "ece391_strlen s = (if 0 \<in> set s then Some (length (cstr s)) else None)"
proof (cases "0 \<in> set s")
  case True
  then obtain r where "s = cstr s @ 0 # r" using cstr_split by blast
  then show ?thesis using True ece391_strlen_at [OF cstr_nonzero, of s r] by simp
qed (simp add: ece391_strlen_None)

text \<open>The call that \<open>ece391_fdputs\<close> makes.\<close>

lemma fdputs_string:
  "0 \<notin> set s \<Longrightarrow> ece391_fdputs sys fd (s @ 0 # r) st = map_option snd (ece391_write sys fd (s @ 0 # r) (int (length s)) st)"
  by (simp add: ece391_fdputs_def split_beta map_option_case split: bind_split)

lemma fdputs_lit:
  "0 \<notin> set (ascii s) \<Longrightarrow> ece391_fdputs sys fd (lit s) st = map_option snd (ece391_write sys fd (lit s) (int (length s)) st)"
  using fdputs_string [of "ascii s" sys fd "[]" st] by (simp add: lit_def)

lemma ece391_strcmp_iff:
  "0 \<notin> set a \<Longrightarrow> 0 \<notin> set b \<Longrightarrow> \<exists>d. ece391_strcmp (a @ 0 # r) (b @ 0 # q) = Some d \<and> (d = 0 \<longleftrightarrow> a = b)"
proof (induction a arbitrary: b)
  case Nil
  then show ?case by (cases b) (auto simp: uint_0_iff)
next
  case (Cons x a)
  then show ?case by (cases b) (auto simp: uint_0_iff dest: word_uint_eqI)
qed

lemma ece391_strncmp_prefix:
  "0 \<notin> set x \<Longrightarrow> 0 \<notin> set w \<Longrightarrow> length w < 4294967296 \<Longrightarrow>
     \<exists>d. ece391_strncmp (x @ 0 # r) (w @ q) (of_nat (length w)) = Some d \<and> (d = 0 \<longleftrightarrow> (\<exists>y. x = w @ y))"
proof (cases "w = []")
  case False
  assume a: "0 \<notin> set x" "0 \<notin> set w" "length w < 4294967296"
  have "w \<noteq> [] \<Longrightarrow> 0 \<notin> set x \<Longrightarrow> 0 \<notin> set w \<Longrightarrow> length w < 4294967296 \<Longrightarrow>
      \<exists>d. ece391_strncmp_loop (x @ 0 # r) (w @ q) (of_nat (length w)) = Some d \<and> (d = 0 \<longleftrightarrow> (\<exists>y. x = w @ y))"
  proof (induction w arbitrary: x)
    case (Cons c w)
    have n: "of_nat (length (c # w)) - 1 = (of_nat (length w) :: u32)" "of_nat (length w) = (0 :: u32) \<longleftrightarrow> w = []"
      using Cons.prems(4) by (auto simp: word_of_nat_eq_0_iff dest: dvd_imp_le)
    show ?case
    proof (cases x)
      case Nil
      then show ?thesis using Cons.prems(3) by (auto simp: uint_0_iff)
    next
      case x: (Cons b x')
      show ?thesis
      proof (cases "b = c \<and> w \<noteq> []")
        case True
        then show ?thesis using Cons.IH [of x'] Cons.prems x n by auto
      next
        case False
        then show ?thesis using Cons.prems x n by (auto dest: word_uint_eqI)
      qed
    qed
  qed simp
  then obtain d where "ece391_strncmp_loop (x @ 0 # r) (w @ q) (of_nat (length w)) = Some d" "d = 0 \<longleftrightarrow> (\<exists>y. x = w @ y)"
    using a False by blast
  moreover have "of_nat (length w) \<noteq> (0 :: u32)"
    using a(3) False by (auto simp: word_of_nat_eq_0_iff dest: dvd_imp_le)
  ultimately show ?thesis by (auto simp: ece391_strncmp_def)
qed (simp add: ece391_strncmp_def)

section \<open>Numerals\<close>

lemma ece391_strrev_loop_nth:
  "0 \<le> b \<Longrightarrow> e < int (length s) \<Longrightarrow> length (ece391_strrev_loop s b e) = length s \<and>
     (\<forall>i < length s. ece391_strrev_loop s b e ! i = (if b \<le> int i \<and> int i \<le> e then s ! nat (b + e - int i) else s ! i))"
proof (induction s b e rule: ece391_strrev_loop.induct)
  case (1 s b e)
  show ?case
  proof (cases "b < e")
    case True
    define s2 where "s2 = s[nat e := s ! nat b, nat b := s ! nat e]"
    have l: "length s2 = length s" by (simp add: s2_def)
    have IH: "length (ece391_strrev_loop s2 (b + 1) (e - 1)) = length s2 \<and>
        (\<forall>i < length s2. ece391_strrev_loop s2 (b + 1) (e - 1) ! i =
           (if b + 1 \<le> int i \<and> int i \<le> e - 1 then s2 ! nat (b + 1 + (e - 1) - int i) else s2 ! i))"
      using 1 True by (simp add: s2_def Let_def)
    have s2: "s2 ! i = (if i = nat b then s ! nat e else if i = nat e then s ! nat b else s ! i)" if "i < length s" for i
      using that 1 True by (auto simp: s2_def nth_list_update)
    have "ece391_strrev_loop s b e = ece391_strrev_loop s2 (b + 1) (e - 1)"
      using True by (subst ece391_strrev_loop.simps) (simp add: Let_def s2_def)
    moreover have "ece391_strrev_loop s2 (b + 1) (e - 1) ! i = (if b \<le> int i \<and> int i \<le> e then s ! nat (b + e - int i) else s ! i)"
      if i: "i < length s" for i
    proof -
      consider "int i < b \<or> e < int i" | "int i = b" | "int i = e" | "b < int i" "int i < e" by linarith
      then show ?thesis using IH i l 1(2,3) True by cases (auto simp: s2)
    qed
    ultimately show ?thesis using IH l by simp
  next
    case False
    then have "b \<le> int i \<and> int i \<le> e \<Longrightarrow> nat (b + e - int i) = i" for i by linarith
    then show ?thesis using False by (simp add: ece391_strrev_loop.simps)
  qed
qed

lemma ece391_strrev_string: "0 \<notin> set s \<Longrightarrow> ece391_strrev (s @ 0 # r) = Some (rev s @ 0 # r)"
proof -
  assume s: "0 \<notin> set s"
  have "ece391_strrev_loop (s @ 0 # r) 0 (int (length s) - 1) = rev s @ 0 # r"
  proof (rule nth_equalityI)
    fix i
    assume "i < length (ece391_strrev_loop (s @ 0 # r) 0 (int (length s) - 1))"
    then have "i < length (s @ 0 # r)" using ece391_strrev_loop_nth [of 0 "int (length s) - 1" "s @ 0 # r"] by simp
    then show "ece391_strrev_loop (s @ 0 # r) 0 (int (length s) - 1) ! i = (rev s @ 0 # r) ! i"
      using ece391_strrev_loop_nth [of 0 "int (length s) - 1" "s @ 0 # r"]
      by (auto simp: nth_append rev_nth nat_diff_distrib' intro!: arg_cong2 [of _ _ _ _ nth])
  qed (use ece391_strrev_loop_nth [of 0 "int (length s) - 1" "s @ 0 # r"] in simp)
  moreover have "length s \<le> 1 \<Longrightarrow> rev s = s" by (cases s) auto
  ultimately show ?thesis using s by (auto simp: ece391_strrev_def Let_def)
qed

lemma ece391_lookup_eq: "ece391_lookup = itoa_lookup"
  by (simp add: ece391_lookup_def itoa_lookup_def lit_def)

lemma ece391_itoa_loop_digits:
  assumes r: "2 \<le> unat radix" "unat radix \<le> 36"
  shows "i + length (digits (unat radix) (unat v)) \<le> length buf \<Longrightarrow>
    ece391_itoa_loop buf i v radix =
      Some (take i buf @ map digit_char (rev (digits (unat radix) (unat v))) @
              drop (i + length (digits (unat radix) (unat v))) buf,
            i + length (digits (unat radix) (unat v)))"
proof (induction "unat v" arbitrary: buf i v rule: less_induct)
  case less
  show ?case
  proof (cases "v = 0")
    case True
    then show ?thesis by (subst ece391_itoa_loop.simps) (simp add: digits.simps)
  next
    case False
    let ?r = "unat radix" and ?v = "unat v"
    have v: "0 < ?v" using False by (simp add: unat_gt_0)
    have d: "digits ?r ?v = digits ?r (?v div ?r) @ [?v mod ?r]" using v r by (subst digits.simps) simp
    have q: "unat (v div radix) = ?v div ?r" "unat (v mod radix) = ?v mod ?r" by (simp_all add: unat_div_distrib unat_mod_distrib)
    have "?v mod ?r < ?r" using r by (intro mod_less_divisor) simp
    then have m: "?v mod ?r < 36" using r by linarith
    have "s32 (v mod radix) = int (?v mod ?r)" using s32_of_nat [of "unat (v mod radix)"] m unfolding q(2) [symmetric] by simp
    then have c: "element ece391_lookup (s32 (v mod radix)) = Some (digit_char (?v mod ?r))"
      using m by (simp add: element_def ece391_lookup_eq length_itoa_lookup lookup_digit)
    let ?b = "buf[i := digit_char (?v mod ?r)]"
    have i: "i < length buf" using less.prems by (simp add: d)
    have "ece391_itoa_loop ?b (i + 1) (v div radix) radix =
        Some (take (i + 1) ?b @ map digit_char (rev (digits ?r (?v div ?r))) @ drop (i + 1 + length (digits ?r (?v div ?r))) ?b,
              i + 1 + length (digits ?r (?v div ?r)))"
      using less.hyps [of "v div radix" "i + 1" ?b, unfolded q] less.prems v r by (simp add: d)
    moreover have "ece391_itoa_loop buf i v radix = ece391_itoa_loop ?b (i + 1) (v div radix) radix"
      using False r c i by (subst ece391_itoa_loop.simps) (auto simp: assign_def word_gt_0)
    moreover have "take (i + 1) ?b = take i buf @ [digit_char (?v mod ?r)]" using i by (simp add: take_Suc_conv_app_nth)
    ultimately show ?thesis by (simp add: d)
  qed
qed

lemma ece391_itoa_digits:
  assumes r: "2 \<le> unat radix" "unat radix \<le> 36" and l: "33 \<le> length buf"
  shows "\<exists>rest. ece391_itoa v buf radix = Some (map digit_char (number_digits (unat radix) (unat v)) @ 0 # rest) \<and>
    length (map digit_char (number_digits (unat radix) (unat v)) @ 0 # rest) = length buf"
proof (cases "v = 0")
  case True
  obtain a b rest where "buf = a # b # rest" using l by (cases buf; cases "tl buf") auto
  then show ?thesis using True by (simp add: ece391_itoa_def assign_def number_digits_def digit_char_def)
next
  case False
  let ?ds = "digits (unat radix) (unat v)"
  have len: "length ?ds \<le> 32" by (rule digits_length) (use unsigned_less [of v] in simp)
  have nz: "0 \<notin> set (map digit_char (rev ?ds))"
    using digits_bound [OF r(1)] digit_char_nonzero r(2) by (fastforce simp: image_iff)
  define rest where "rest = drop (Suc (length ?ds)) buf"
  have cut: "drop (length ?ds) buf = buf ! length ?ds # rest" using len l by (simp add: rest_def Cons_nth_drop_Suc)
  have "assign (map digit_char (rev ?ds) @ drop (length ?ds) buf) (int (length ?ds)) 0 = Some (map digit_char (rev ?ds) @ 0 # rest)"
    using len l by (simp add: assign_def cut list_update_append)
  then have "ece391_itoa v buf radix = ece391_strrev (map digit_char (rev ?ds) @ 0 # rest)"
    using False ece391_itoa_loop_digits [OF r, of 0 v buf] len l by (simp add: ece391_itoa_def)
  also have "\<dots> = Some (map digit_char ?ds @ 0 # rest)" using ece391_strrev_string [OF nz] by (simp add: rev_map)
  moreover have "number_digits (unat radix) (unat v) = ?ds" using False by (simp add: number_digits_def unat_eq_0)
  moreover have "length ?ds + Suc (length rest) = length buf" using len l by (simp add: rest_def)
  ultimately show ?thesis by auto
qed

end
