(* ===== verification/UserProgs.thy ===== *)
theory UserProgs
  imports UserLib
begin

text \<open>
  The programs of \<^verbatim>\<open>src/syscalls\<close>: \<open>cat\<close>, \<open>ls\<close>, \<open>grep\<close>, \<open>shell\<close>, \<open>hello\<close>, \<open>counter\<close>,
  \<open>testprint\<close> and \<open>pingpong\<close>, each as the function \<open>main\<close> of its file with the prefix of its name, over the
  system calls \<open>sys\<close> and the uninitialised contents of its arrays. A result is the value that
  \<open>main\<close> returns; \<open>None\<close> is a program that does not return, or that leaves the bounds of an array.
\<close>

section \<open>Definitions\<close>

text \<open>A literal that ends in a newline.\<close>

definition litn :: "string \<Rightarrow> byte list" where
  "litn s = ascii s @ [0x0A, 0]"

definition complain :: "'s usys \<Rightarrow> string \<Rightarrow> int \<Rightarrow> 's \<Rightarrow> (int \<times> 's) option" where
  "complain sys msg r s = do { s \<leftarrow> ece391_fdputs sys 1 (litn msg) s; Some (r, s) }"

subsection \<open>cat\<close>

partial_function (option) cat_loop :: "'s usys \<Rightarrow> int \<Rightarrow> byte list \<Rightarrow> 's \<Rightarrow> (int \<times> 's) option" where
  "cat_loop sys fd buf s =
     do { (cnt, buf, s) \<leftarrow> ece391_read sys fd buf 1024 s;
          if cnt = 0 then Some (0, s)
          else if cnt = -1 then complain sys ''file read failed'' 3 s
          else do { (r, s) \<leftarrow> ece391_write sys 1 buf cnt s;
                    if r = -1 then Some (3, s) else cat_loop sys fd buf s } }"

definition cat_main :: "'s usys \<Rightarrow> byte list \<Rightarrow> 's \<Rightarrow> (int \<times> 's) option" where
  "cat_main sys buf s =
     do { (r, buf, s) \<leftarrow> ece391_getargs sys buf 1024 s;
          if r \<noteq> 0 then complain sys ''could not read arguments'' 3 s
          else do { (fd, s) \<leftarrow> ece391_open sys buf s;
                    if fd = -1 then complain sys ''file not found'' 2 s
                    else cat_loop sys fd buf s } }"

subsection \<open>ls\<close>

partial_function (option) ls_loop :: "'s usys \<Rightarrow> int \<Rightarrow> byte list \<Rightarrow> 's \<Rightarrow> (int \<times> 's) option" where
  "ls_loop sys fd buf s =
     do { (cnt, buf, s) \<leftarrow> ece391_read sys fd buf 32 s;
          if cnt = 0 then Some (0, s)
          else if cnt = -1 then complain sys ''directory entry read failed'' 3 s
          else do { buf \<leftarrow> assign buf cnt 0x0A;
                    (r, s) \<leftarrow> ece391_write sys 1 buf (cnt + 1) s;
                    if r = -1 then Some (3, s) else ls_loop sys fd buf s } }"

definition ls_main :: "'s usys \<Rightarrow> byte list \<Rightarrow> 's \<Rightarrow> (int \<times> 's) option" where
  "ls_main sys buf s =
     do { (fd, s) \<leftarrow> ece391_open sys (lit ''.'') s;
          if fd = -1 then complain sys ''directory open failed'' 2 s
          else ls_loop sys fd buf s }"

subsection \<open>grep\<close>

text \<open>The end of the line that starts at \<open>line_end\<close>.\<close>

partial_function (option) grep_line_end :: "byte list \<Rightarrow> int \<Rightarrow> int \<Rightarrow> int option" where
  "grep_line_end data lst line_end =
     (if line_end < lst then
        do { b \<leftarrow> element data line_end;
             if b \<noteq> 0x0A then grep_line_end data lst (line_end + 1) else Some line_end }
      else Some line_end)"

text \<open>The search in a line; \<open>s\<close> has elements of type \<^verbatim>\<open>char\<close>, which is signed.\<close>

partial_function (option) grep_search ::
  "'s usys \<Rightarrow> byte list \<Rightarrow> nat \<Rightarrow> byte list \<Rightarrow> byte list \<Rightarrow> int \<Rightarrow> int \<Rightarrow> int \<Rightarrow> 's \<Rightarrow> 's option" where
  "grep_search sys s s_len fname data line_start line_end check st =
     (if check < line_end then
        do { c \<leftarrow> element s 0;
             d \<leftarrow> element data check;
             found \<leftarrow> (if sint c = uint d
                then map_option (\<lambda>r. r = 0) (ece391_strncmp (drop (nat check) data) s (of_nat s_len)) else Some False);
             if found then
               do { st \<leftarrow> ece391_fdputs sys 1 fname st;
                    st \<leftarrow> ece391_fdputs sys 1 (lit '':'') st;
                    st \<leftarrow> ece391_fdputs sys 1 (drop (nat line_start) data) st;
                    ece391_fdputs sys 1 [0x0A, 0] st }
             else grep_search sys s s_len fname data line_start line_end (check + 1) st }
      else Some st)"

text \<open>The loop over the lines in the buffer: the new buffer, the new value of \<open>lst\<close> and the state.\<close>

partial_function (option) grep_lines ::
  "'s usys \<Rightarrow> byte list \<Rightarrow> nat \<Rightarrow> byte list \<Rightarrow> int \<Rightarrow> byte list \<Rightarrow> int \<Rightarrow> int \<Rightarrow> 's \<Rightarrow> (byte list \<times> int \<times> 's) option" where
  "grep_lines sys s s_len fname cnt data lst line_start st =
     do { line_end \<leftarrow> grep_line_end data lst line_start;
          b \<leftarrow> element data line_end;
          data' \<leftarrow> assign data line_end 0;
          if b \<noteq> 0x0A \<and> cnt \<noteq> 0 \<and> line_start \<noteq> 0 then
            do { data' \<leftarrow> ece391_strcpy data' 0 (nat line_start);
                 Some (data', lst - line_start, st) }
          else
            do { st \<leftarrow> grep_search sys s s_len fname data' line_start line_end line_start st;
                 if line_end + 1 \<ge> lst then Some (data', 0, st)
                 else grep_lines sys s s_len fname cnt data' lst (line_end + 1) st } }"

partial_function (option) grep_reads ::
  "'s usys \<Rightarrow> byte list \<Rightarrow> nat \<Rightarrow> byte list \<Rightarrow> int \<Rightarrow> byte list \<Rightarrow> int \<Rightarrow> 's \<Rightarrow> (int \<times> 's) option" where
  "grep_reads sys s s_len fname fd data lst st =
     do { (cnt, new, st) \<leftarrow> ece391_read sys fd (drop (nat lst) data) (1024 - lst) st;
          if cnt = -1 then complain sys ''file read failed'' (-1) st
          else do { (data, lst, st) \<leftarrow> grep_lines sys s s_len fname cnt (take (nat lst) data @ new) (lst + cnt) 0 st;
                    if cnt = 0 then
                      do { (r, st) \<leftarrow> ece391_close sys fd st;
                           if r = -1 then complain sys ''file close failed'' (-1) st else Some (0, st) }
                    else grep_reads sys s s_len fname fd data lst st } }"

definition do_one_file :: "'s usys \<Rightarrow> byte list \<Rightarrow> byte list \<Rightarrow> byte list \<Rightarrow> 's \<Rightarrow> (int \<times> 's) option" where
  "do_one_file sys data s fname st =
     do { s_len \<leftarrow> ece391_strlen s;
          (fd, st) \<leftarrow> ece391_open sys fname st;
          if fd = -1 then complain sys ''file open failed'' (-1) st
          else grep_reads sys s s_len fname fd data 0 st }"

text \<open>The array \<^verbatim>\<open>data\<close> is uninitialised in each call of \<open>do_one_file\<close>.\<close>

partial_function (option) grep_loop ::
  "'s usys \<Rightarrow> byte list \<Rightarrow> byte list \<Rightarrow> int \<Rightarrow> byte list \<Rightarrow> 's \<Rightarrow> (int \<times> 's) option" where
  "grep_loop sys data search fd buf s =
     do { (cnt, buf, s) \<leftarrow> ece391_read sys fd buf 32 s;
          if cnt = 0 then Some (0, s)
          else if cnt = -1 then complain sys ''directory entry read failed'' 3 s
          else do { b \<leftarrow> element buf 0;
                    if b = 0x2E then grep_loop sys data search fd buf s
                    else do { buf \<leftarrow> assign buf cnt 0;
                              (r, s) \<leftarrow> do_one_file sys data search buf s;
                              if r \<noteq> 0 then Some (3, s) else grep_loop sys data search fd buf s } } }"

definition grep_main :: "'s usys \<Rightarrow> byte list \<Rightarrow> byte list \<Rightarrow> byte list \<Rightarrow> 's \<Rightarrow> (int \<times> 's) option" where
  "grep_main sys data search buf s =
     do { (r, search, s) \<leftarrow> ece391_getargs sys search 1024 s;
          if r \<noteq> 0 then complain sys ''could not read argument'' 3 s
          else do { (fd, s) \<leftarrow> ece391_open sys (lit ''.'') s;
                    if fd = -1 then complain sys ''directory open failed'' 2 s
                    else grep_loop sys data search fd buf s } }"

subsection \<open>shell\<close>

partial_function (option) shell_loop :: "'s usys \<Rightarrow> byte list \<Rightarrow> 's \<Rightarrow> (int \<times> 's) option" where
  "shell_loop sys buf s =
     do { s \<leftarrow> ece391_fdputs sys 1 (lit ''391OS> '') s;
          (cnt, buf, s) \<leftarrow> ece391_read sys 0 buf 1023 s;
          if cnt = -1 then complain sys ''read from keyboard failed'' 3 s
          else do {
            cnt \<leftarrow> (if cnt > 0 then map_option (\<lambda>b. if b = 0x0A then cnt - 1 else cnt) (element buf (cnt - 1)) else Some cnt);
            buf \<leftarrow> assign buf cnt 0;
            c \<leftarrow> ece391_strcmp buf (lit ''exit'');
            if c = 0 then Some (0, s)
            else if buf ! 0 = 0 then shell_loop sys buf s
            else do { (rval, s) \<leftarrow> ece391_execute sys buf s;
                      s \<leftarrow> (if rval = -1 then ece391_fdputs sys 1 (litn ''no such command'') s
                           else if rval = 256 then ece391_fdputs sys 1 (litn ''program terminated by exception'') s
                           else if rval \<noteq> 0 then ece391_fdputs sys 1 (litn ''program terminated abnormally'') s
                           else Some s);
                      shell_loop sys buf s } } }"

definition shell_main :: "'s usys \<Rightarrow> byte list \<Rightarrow> 's \<Rightarrow> (int \<times> 's) option" where
  "shell_main sys buf s =
     do { s \<leftarrow> ece391_fdputs sys 1 (litn ''Starting 391 Shell'') s;
          shell_loop sys buf s }"

subsection \<open>hello, counter, testprint\<close>

definition hello_main :: "'s usys \<Rightarrow> byte list \<Rightarrow> 's \<Rightarrow> (int \<times> 's) option" where
  "hello_main sys buf s =
     do { s \<leftarrow> ece391_fdputs sys 1 (lit ''Hi, what's your name? '') s;
          (cnt, buf, s) \<leftarrow> ece391_read sys 0 buf 1023 s;
          if cnt = -1 then complain sys ''Can't read name from keyboard.'' 3 s
          else do { buf \<leftarrow> assign buf cnt 0;
                    s \<leftarrow> ece391_fdputs sys 1 (lit ''Hello, '') s;
                    s \<leftarrow> ece391_fdputs sys 1 buf s;
                    Some (0, s) } }"

primrec counter_loop :: "'s usys \<Rightarrow> u32 \<Rightarrow> nat \<Rightarrow> byte list \<Rightarrow> 's \<Rightarrow> 's option" where
  "counter_loop sys i 0 buf s = Some s"
| "counter_loop sys i (Suc k) buf s =
     do { buf \<leftarrow> ece391_itoa (i + 1) buf 10;
          s \<leftarrow> ece391_fdputs sys 1 buf s;
          s \<leftarrow> ece391_fdputs sys 1 [0x0A, 0] s;
          counter_loop sys (i + 1) k buf s }"

definition counter_max :: "byte \<Rightarrow> nat" where
  "counter_max b = (if b = 0x30 then 100 else if b = 0x31 then 10000 else if b = 0x32 then 100000 else 0)"

definition counter_main :: "'s usys \<Rightarrow> byte list \<Rightarrow> 's \<Rightarrow> (int \<times> 's) option" where
  "counter_main sys buf s =
     do { s \<leftarrow> ece391_fdputs sys 1 (litn ''Enter the Test Number: (0): 100, (1): 10000, (2): 100000'') s;
          (cnt, buf, s) \<leftarrow> ece391_read sys 0 buf 1023 s;
          if cnt = -1 then complain sys ''Can't read the number from keyboard.'' 3 s
          else do { buf \<leftarrow> assign buf cnt 0;
                    n \<leftarrow> ece391_strlen buf;
                    if n > 2 \<or> n = 2 \<and> (buf ! 0 < 0x30 \<or> buf ! 0 > 0x32) then complain sys ''Wrong Choice!'' 0 s
                    else do { s \<leftarrow> counter_loop sys 0 (counter_max (buf ! 0)) buf s;
                              Some (0, s) } } }"

definition testprint_main :: "'s usys \<Rightarrow> 's \<Rightarrow> (int \<times> 's) option" where
  "testprint_main sys s = complain sys ''Hello, if this ran, the program was correct. Yay!'' 0 s"

subsection \<open>pingpong\<close>

text \<open>The positions of the walls follow from the macros: an array of 81 bytes, and the inner part from 2 to 77.\<close>

definition pingpong_clear :: "byte list \<Rightarrow> byte list" where
  "pingpong_clear buf = fold (\<lambda>i buf. buf[i := 0x20]) [2..<78] buf"

definition pingpong_draw :: "'s usys \<Rightarrow> int \<Rightarrow> byte \<Rightarrow> nat \<Rightarrow> byte list \<Rightarrow> 's \<Rightarrow> (byte list \<times> 's) option" where
  "pingpong_draw sys rtc_fd curchar j buf s =
     (let buf = (pingpong_clear buf)[j := curchar] in
      do { s \<leftarrow> ece391_fdputs sys 1 buf s;
           (_, _, s) \<leftarrow> ece391_read sys rtc_fd (replicate 4 0) 4 s;
           Some (buf, s) })"

fun pingpong_moves :: "'s usys \<Rightarrow> int \<Rightarrow> byte \<Rightarrow> nat list \<Rightarrow> byte list \<Rightarrow> 's \<Rightarrow> (byte list \<times> 's) option" where
  "pingpong_moves sys rtc_fd curchar [] buf s = Some (buf, s)"
| "pingpong_moves sys rtc_fd curchar (j # js) buf s =
     do { (buf, s) \<leftarrow> pingpong_draw sys rtc_fd curchar j buf s;
          pingpong_moves sys rtc_fd curchar js buf s }"

partial_function (option) pingpong_loop :: "'s usys \<Rightarrow> int \<Rightarrow> byte \<Rightarrow> byte list \<Rightarrow> 's \<Rightarrow> (int \<times> 's) option" where
  "pingpong_loop sys rtc_fd curchar buf s =
     do { (buf, s) \<leftarrow> pingpong_moves sys rtc_fd curchar [2..<78] buf s;
          (buf, s) \<leftarrow> pingpong_moves sys rtc_fd curchar (rev [2..<78]) buf s;
          pingpong_loop sys rtc_fd (if curchar = 0x5A then 0x41 else curchar + 1) buf s }"

definition pingpong_walls :: "byte list" where
  "pingpong_walls = (replicate 81 0x20)[80 := 0, 79 := 0x0A, 78 := 0x7C, 1 := 0x7C]"

definition pingpong_main :: "'s usys \<Rightarrow> 's \<Rightarrow> (int \<times> 's) option" where
  "pingpong_main sys s =
     do { (rtc_fd, s) \<leftarrow> ece391_open sys (lit ''rtc'') s;
          (_, s) \<leftarrow> ece391_write sys rtc_fd [32, 0, 0, 0] 4 s;
          pingpong_loop sys rtc_fd 0x41 pingpong_walls s }"

end
