(* ===== verification/UserSpec.thy ===== *)
theory UserSpec
  imports UserProgs
begin

text \<open>
  What the programs rely on, as two locales over the system calls \<open>sys\<close>: one for the output, one
  for files and directories. The programs are proved against these laws only; the kernel's system
  calls are shown to satisfy them in the theory \<open>UserKernel\<close>.
\<close>

section \<open>Output\<close>

text \<open>
  \<open>ok\<close> are the states in which the program runs, \<open>shown\<close> is what the user sees, \<open>out\<close> how bytes change
  it, \<open>plain\<close> the bytes that may be written, and \<open>fds\<close> the descriptors, which a write leaves alone.
\<close>

locale output_calls =
  fixes sys :: "'s usys" and ok :: "'s \<Rightarrow> bool" and shown :: "'s \<Rightarrow> 'o" and out :: "byte list \<Rightarrow> 'o \<Rightarrow> 'o"
    and plain :: "byte \<Rightarrow> bool" and fds :: "'s \<Rightarrow> int \<Rightarrow> 'd"
  assumes out_Nil: "out [] v = v"
    and out_append: "out (xs @ ys) v = out ys (out xs v)"
    and write_shows: "ok s \<Longrightarrow> 0 < n \<Longrightarrow> n \<le> length buf \<Longrightarrow> length buf \<le> 4096 \<Longrightarrow>
      list_all plain (take n buf) \<Longrightarrow>
      \<exists>t. ece391_write sys 1 buf (int n) s = Some (int n, t) \<and> ok t \<and> shown t = out (take n buf) (shown s) \<and> fds t = fds s"
begin

lemma fdputs_shows:
  assumes "ok s" "w \<noteq> []" "0 \<notin> set w" "list_all plain w" "length (w @ 0 # r) \<le> 4096"
  shows "\<exists>t. ece391_fdputs sys 1 (w @ 0 # r) s = Some t \<and> ok t \<and> shown t = out w (shown s) \<and> fds t = fds s"
  using write_shows [OF assms(1), of "length w" "w @ 0 # r"] assms(2-5) by (auto simp: fdputs_string)

lemma complain_shows:
  assumes "ok s" "0 \<notin> set (ascii msg)" "list_all plain (ascii msg @ [0x0A])" "length msg \<le> 1000"
  shows "\<exists>t. complain sys msg r s = Some (r, t) \<and> ok t \<and> shown t = out (ascii msg @ [0x0A]) (shown s) \<and> fds t = fds s"
  using fdputs_shows [OF assms(1) _ _ assms(3), of "[]"] assms(2,4) by (auto simp: complain_def litn_def)

end

section \<open>Files\<close>

text \<open>
  What a descriptor refers to: a file with the bytes that are still to be read, a directory with the
  names that are still to be read, or a device. \<open>node\<close> gives what a name refers to, \<open>argument\<close> is the
  string of arguments.
\<close>

datatype descriptor = Closed | File "byte list" | Dir "byte list list" | Device

locale file_calls = output_calls sys ok shown out plain fds
  for sys :: "'s usys" and ok :: "'s \<Rightarrow> bool" and shown :: "'s \<Rightarrow> 'o" and out :: "byte list \<Rightarrow> 'o \<Rightarrow> 'o"
    and plain :: "byte \<Rightarrow> bool" and fds :: "'s \<Rightarrow> int \<Rightarrow> descriptor" +
  fixes node :: "byte list \<Rightarrow> descriptor option" and argument :: "byte list"
  assumes read_file: "ok s \<Longrightarrow> fds s fd = File r \<Longrightarrow> 0 < n \<Longrightarrow> n \<le> length buf \<Longrightarrow> length buf \<le> 4096 \<Longrightarrow>
      \<exists>t. ece391_read sys fd buf (int n) s = Some (int (length (take n r)), take n r @ drop (length (take n r)) buf, t) \<and>
        ok t \<and> shown t = shown s \<and> fds t = (fds s)(fd := File (drop n r))"
    and read_dir: "ok s \<Longrightarrow> fds s fd = Dir (nm # nms) \<Longrightarrow> 32 \<le> length buf \<Longrightarrow> length buf \<le> 4096 \<Longrightarrow>
      \<exists>t r. ece391_read sys fd buf 32 s = Some (int (length nm), nm @ r, t) \<and> length (nm @ r) = length buf \<and>
        ok t \<and> shown t = shown s \<and> fds t = (fds s)(fd := Dir nms)"
    and read_dir_end: "ok s \<Longrightarrow> fds s fd = Dir [] \<Longrightarrow> 32 \<le> length buf \<Longrightarrow> length buf \<le> 4096 \<Longrightarrow>
      \<exists>t buf'. ece391_read sys fd buf 32 s = Some (0, buf', t) \<and> ok t \<and> shown t = shown s"
    and dir_names: "ok s \<Longrightarrow> fds s fd = Dir nms \<Longrightarrow> nm \<in> set nms \<Longrightarrow> nm \<noteq> [] \<and> length nm \<le> 32"
    and open_node: "ok s \<Longrightarrow> 0 \<in> set buf \<Longrightarrow> length buf \<le> 4096 \<Longrightarrow> node (cstr buf) = Some d \<Longrightarrow> \<exists>fd \<in> {2..7}. fds s fd = Closed \<Longrightarrow>
      \<exists>fd t. ece391_open sys buf s = Some (fd, t) \<and> 2 \<le> fd \<and> ok t \<and> shown t = shown s \<and> fds t = (fds s)(fd := d)"
    and open_missing: "ok s \<Longrightarrow> 0 \<in> set buf \<Longrightarrow> length buf \<le> 4096 \<Longrightarrow> node (cstr buf) = None \<Longrightarrow>
      \<exists>t. ece391_open sys buf s = Some (-1, t) \<and> ok t \<and> shown t = shown s \<and> fds t = fds s"
    and arguments: "ok s \<Longrightarrow> argument \<noteq> [] \<Longrightarrow> length buf = 1024 \<Longrightarrow>
      \<exists>t r. ece391_getargs sys buf 1024 s = Some (0, argument @ 0 # r, t) \<and> length (argument @ 0 # r) = length buf \<and>
        ok t \<and> shown t = shown s \<and> fds t = fds s"
    and no_arguments: "ok s \<Longrightarrow> argument = [] \<Longrightarrow> length buf = 1024 \<Longrightarrow>
      \<exists>t. ece391_getargs sys buf 1024 s = Some (-1, buf, t) \<and> ok t \<and> shown t = shown s \<and> fds t = fds s"
    and argument_string: "ok s \<Longrightarrow> 0 \<notin> set argument"
begin

subsection \<open>cat\<close>

lemma cat_loop_copies:
  "ok s \<Longrightarrow> fds s fd = File r \<Longrightarrow> list_all plain r \<Longrightarrow> length buf = 1024 \<Longrightarrow>
     \<exists>t. cat_loop sys fd buf s = Some (0, t) \<and> ok t \<and> shown t = out r (shown s)"
proof (induction "length r" arbitrary: r s buf rule: less_induct)
  case less
  define c where "c = take 1024 r"
  have c: "r = c @ drop 1024 r" "r \<noteq> [] \<Longrightarrow> c \<noteq> []" by (simp_all add: c_def)
  obtain t where t: "ece391_read sys fd buf 1024 s = Some (int (length c), c @ drop (length c) buf, t)" "ok t"
      "shown t = shown s" "fds t fd = File (drop 1024 r)"
    using read_file [OF less.prems(1,2), of 1024 buf, folded c_def] less.prems(4) by auto
  show ?case
  proof (cases "r = []")
    case True
    then show ?thesis using t by (subst cat_loop.simps) (simp add: out_Nil c_def)
  next
    case False
    have p: "list_all plain c" "list_all plain (drop 1024 r)" using less.prems(3) c(1) by (metis list_all_append)+
    let ?b = "c @ drop (length c) buf"
    have len: "length c \<le> 1024" by (simp add: c_def)
    obtain u where u: "ece391_write sys 1 ?b (int (length c)) t = Some (int (length c), u)" "ok u"
        "shown u = out c (shown s)" "fds u fd = File (drop 1024 r)"
      using write_shows [OF t(2), of "length c" ?b] p(1) c(2) False t(3,4) len less.prems(4) by auto
    have "cat_loop sys fd buf s = cat_loop sys fd ?b u"
      using t(1) u(1) c(2) False by (subst cat_loop.simps) simp
    moreover have "\<exists>v. cat_loop sys fd ?b u = Some (0, v) \<and> ok v \<and> shown v = out (drop 1024 r) (shown u)"
      using False less.prems(4) len by (intro less.hyps u p) auto
    moreover have "out r (shown s) = out (drop 1024 r) (out c (shown s))" using c(1) by (simp flip: out_append)
    ultimately show ?thesis using u(3) by auto
  qed
qed

lemma cat_copies:
  assumes "ok s" "argument \<noteq> []" "node argument = Some (File c)" "list_all plain c" "\<exists>fd \<in> {2..7}. fds s fd = Closed"
    and "length buf = 1024"
  shows "\<exists>t. cat_main sys buf s = Some (0, t) \<and> ok t \<and> shown t = out c (shown s)"
proof -
  obtain t r where t: "ece391_getargs sys buf 1024 s = Some (0, argument @ 0 # r, t)" "length (argument @ 0 # r) = 1024"
      "ok t" "shown t = shown s" "fds t = fds s"
    using arguments [OF assms(1,2,6)] assms(6) by auto
  have nm: "cstr (argument @ 0 # r) = argument" using argument_string [OF assms(1)] by simp
  obtain fd u where u: "ece391_open sys (argument @ 0 # r) t = Some (fd, u)" "2 \<le> fd" "ok u" "shown u = shown s"
      "fds u fd = File c"
    using open_node [OF t(3), of "argument @ 0 # r", unfolded nm, OF _ _ assms(3)] assms(5) t(2,4,5) by auto
  have "cat_main sys buf s = cat_loop sys fd (argument @ 0 # r) u"
    using t(1) u(1,2) by (simp add: cat_main_def)
  then show ?thesis using cat_loop_copies [OF u(3,5) assms(4) t(2)] u(4) by simp
qed

lemma cat_fails:
  assumes "ok s" "argument = [] \<or> node argument = None" "length buf = 1024"
    and "list_all plain (ascii ''could not read arguments'' @ ascii ''file not found'' @ [0x0A])"
  shows "\<exists>t. cat_main sys buf s = Some (if argument = [] then 3 else 2, t) \<and> ok t \<and> fds t = fds s \<and>
    shown t = out (ascii (if argument = [] then ''could not read arguments'' else ''file not found'') @ [0x0A]) (shown s)"
proof (cases "argument = []")
  case True
  obtain t where t: "ece391_getargs sys buf 1024 s = Some (-1, buf, t)" "ok t" "shown t = shown s" "fds t = fds s"
    using no_arguments [OF assms(1) True assms(3)] by auto
  have z: "0 \<notin> set (ascii ''could not read arguments'')" by (simp add: ascii_def)
  have "cat_main sys buf s = complain sys ''could not read arguments'' 3 t" using t(1) by (simp add: cat_main_def)
  then show ?thesis using complain_shows [OF t(2) z, of 3] assms(4) t(3,4) True by auto
next
  case False
  obtain t r where t: "ece391_getargs sys buf 1024 s = Some (0, argument @ 0 # r, t)" "ok t" "shown t = shown s" "fds t = fds s"
      "length (argument @ 0 # r) = 1024"
    using arguments [OF assms(1) False assms(3)] assms(3) by auto
  have nm: "cstr (argument @ 0 # r) = argument" using argument_string [OF assms(1)] by simp
  obtain u where u: "ece391_open sys (argument @ 0 # r) t = Some (-1, u)" "ok u" "shown u = shown s" "fds u = fds s"
    using open_missing [OF t(2), of "argument @ 0 # r", unfolded nm] assms(2) False t(3-5) by auto
  have z: "0 \<notin> set (ascii ''file not found'')" by (simp add: ascii_def)
  have "cat_main sys buf s = complain sys ''file not found'' 2 u" using t(1) u(1) by (simp add: cat_main_def)
  then show ?thesis using complain_shows [OF u(2) z, of 2] assms(4) u(3,4) False by auto
qed

subsection \<open>ls\<close>

lemma ls_loop_lists:
  "ok s \<Longrightarrow> fds s fd = Dir nms \<Longrightarrow> list_all (list_all plain) nms \<Longrightarrow> plain 0x0A \<Longrightarrow> length buf = 33 \<Longrightarrow>
     \<exists>t. ls_loop sys fd buf s = Some (0, t) \<and> ok t \<and>
       shown t = fold (\<lambda>nm. out (nm @ [0x0A])) nms (shown s)"
proof (induction nms arbitrary: s buf)
  case Nil
  then obtain t buf' where "ece391_read sys fd buf 32 s = Some (0, buf', t)" "ok t" "shown t = shown s"
    using read_dir_end [of s fd buf] by auto
  then show ?case by (subst ls_loop.simps) simp
next
  case (Cons nm nms)
  have nm: "nm \<noteq> []" "length nm \<le> 32" using dir_names [OF Cons.prems(1,2)] by simp_all
  obtain t r where t: "ece391_read sys fd buf 32 s = Some (int (length nm), nm @ r, t)" "length (nm @ r) = 33"
      "ok t" "shown t = shown s" "fds t fd = Dir nms"
    using read_dir [OF Cons.prems(1,2), of buf] Cons.prems(5) by auto
  obtain b r' where r: "r = b # r'" using t(2) nm(2) by (cases r) auto
  let ?b = "nm @ 0x0A # r'"
  have b: "assign (nm @ r) (int (length nm)) 0x0A = Some ?b" using r by (simp add: assign_def)
  have "list_all plain (take (Suc (length nm)) ?b)" using Cons.prems(3,4) by simp
  then obtain u where u: "ece391_write sys 1 ?b (int (length nm) + 1) t = Some (int (length nm) + 1, u)" "ok u"
      "shown u = out (nm @ [0x0A]) (shown s)" "fds u fd = Dir nms"
    using write_shows [OF t(3), of "Suc (length nm)" ?b] t(2,4,5) r by (auto simp: add.commute)
  have "ls_loop sys fd buf s = ls_loop sys fd ?b u"
    using t(1) nm(1) b u(1) by (subst ls_loop.simps) simp
  moreover have "\<exists>v. ls_loop sys fd ?b u = Some (0, v) \<and> ok v \<and> shown v = fold (\<lambda>nm. out (nm @ [0x0A])) nms (shown u)"
    using Cons.prems t(2) r by (intro Cons.IH u) simp_all
  ultimately show ?case using u(3) by simp
qed

lemma ls_lists:
  assumes "ok s" "node [0x2E] = Some (Dir nms)" "list_all (list_all plain) nms" "plain 0x0A" "\<exists>fd \<in> {2..7}. fds s fd = Closed"
    and "length buf = 33"
  shows "\<exists>t. ls_main sys buf s = Some (0, t) \<and> ok t \<and> shown t = fold (\<lambda>nm. out (nm @ [0x0A])) nms (shown s)"
proof -
  have d: "cstr (lit ''.'') = [0x2E]" "0 \<in> set (lit ''.'')" by (simp_all add: cstr_def lit_def ascii_def)
  obtain fd u where u: "ece391_open sys (lit ''.'') s = Some (fd, u)" "2 \<le> fd" "ok u" "shown u = shown s" "fds u fd = Dir nms"
    using open_node [OF assms(1) d(2), unfolded d(1), OF _ assms(2,5)] by (auto simp: lit_def)
  have "ls_main sys buf s = ls_loop sys fd buf u" using u(1,2) by (simp add: ls_main_def)
  then show ?thesis using ls_loop_lists [OF u(3,5) assms(3,4,6)] u(4) by simp
qed

end

end
