(* ===== verification/UserKernel.thy ===== *)
theory UserKernel
  imports Kernel Image UserSpec
begin

text \<open>
  The programs on the kernel: the functions of \<^verbatim>\<open>src/syscalls/ece391syscall.S\<close> issue interrupt 0x80 with
  the number of the call and its arguments in the registers. Here the calls of a program are
  answered by \<open>syscall_wrapper\<close>, and are shown to keep the laws that the programs rely on.

  A state is the kernel's state and the interrupts that are still to come. The bytes that a program
  passes to a call lie in its memory at the address \<open>B\<close>; the program stores them there itself, at its
  own privilege, and reads them back after the call.
\<close>

section \<open>System calls of programs\<close>

primrec user_store :: "byte list \<Rightarrow> u32 \<Rightarrow> 'a process_state_scheme \<Rightarrow> 'a process_state_scheme option" where
  "user_store [] a s = Some s"
| "user_store (b # bs) a s =
     (case page_walk s True True a of
        None \<Rightarrow> None
      | Some pa \<Rightarrow> user_store bs (a + 1) (s\<lparr>ram := (ram s)(pa := b)\<rparr>))"

definition user_load :: "'a process_state_scheme \<Rightarrow> u32 \<Rightarrow> nat \<Rightarrow> byte list" where
  "user_load s a n =
     map (\<lambda>i. case page_walk s True False (a + of_nat i) of Some pa \<Rightarrow> ram s pa | None \<Rightarrow> 0) [0..<n]"

type_synonym 'a running = "irq list \<times> 'a process_state_scheme"

definition DO_CALL ::
  "kernel_env \<Rightarrow> u32 \<Rightarrow> u32 \<Rightarrow> u32 \<Rightarrow> u32 \<Rightarrow> u32 \<Rightarrow> 'a running \<Rightarrow> (int \<times> 'a running) option" where
  "DO_CALL env depth number ebx ecx edx st =
     (case syscall_wrapper (\<lambda>_. None) (env_dev env) (env_shell env) (env_beyond env) depth (fst st) number ebx ecx edx (snd st) of
        Some (Ret r, rest, t) \<Rightarrow> Some (r, rest, t)
      | _ \<Rightarrow> None)"

text \<open>A call whose argument is a pointer to the bytes \<open>bs\<close>, and one that fills the buffer \<open>buf\<close>.\<close>

definition with_bytes :: "byte list \<Rightarrow> u32 \<Rightarrow> ('a running \<Rightarrow> 'r option) \<Rightarrow> 'a running \<Rightarrow> 'r option" where
  "with_bytes bs B f st = (case user_store bs B (snd st) of None \<Rightarrow> None | Some s \<Rightarrow> f (fst st, s))"

definition with_buffer ::
  "byte list \<Rightarrow> u32 \<Rightarrow> ('a running \<Rightarrow> (int \<times> 'a running) option) \<Rightarrow> 'a running \<Rightarrow> (int \<times> byte list \<times> 'a running) option" where
  "with_buffer buf B f st =
     map_option (\<lambda>(r, st). (r, user_load (snd st) B (length buf), st)) (with_bytes buf B f st)"

text \<open>
  The calls as the programs see them. \<open>ece391_execute\<close> is here only that part of a call that returns
  without another program having run: the command is refused; the theory \<open>Session\<close> has the whole call. A count beyond the array is not
  given to \<open>ece391_write\<close>.
\<close>

definition ksys :: "kernel_env \<Rightarrow> u32 \<Rightarrow> u32 \<Rightarrow> 'a running usys" where
  "ksys env depth B =
     \<lparr>ece391_execute = (\<lambda>command. with_bytes command B (DO_CALL env depth 2 B 0 0)),
      ece391_read = (\<lambda>fd buf n. with_buffer buf B (DO_CALL env depth 3 (w32 fd) B (w32 n))),
      ece391_write = (\<lambda>fd buf n st. if n > int (length buf) then None
        else with_bytes (take (nat n) buf) B (DO_CALL env depth 4 (w32 fd) B (w32 n)) st),
      ece391_open = (\<lambda>filename. with_bytes filename B (DO_CALL env depth 5 B 0 0)),
      ece391_close = (\<lambda>fd. DO_CALL env depth 6 (w32 fd) 0 0),
      ece391_getargs = (\<lambda>buf n. with_buffer buf B (DO_CALL env depth 7 B (w32 n) 0)),
      ece391_vidmap = (\<lambda>screen_start. DO_CALL env depth 8 screen_start 0 0),
      ece391_set_handler = (\<lambda>signum. DO_CALL env depth 9 (w32 signum) 0 0),
      call_sys = (\<lambda>num. DO_CALL env depth (w32 num) 0 0 0)\<rparr>"

section \<open>Memory of the program\<close>

definition buffer_at :: "u32 \<Rightarrow> bool" where
  "buffer_at B \<longleftrightarrow> 0x8000000 \<le> unat B \<and> unat B + 4096 \<le> 0x8400000"

definition phys :: "nat \<Rightarrow> u32 \<Rightarrow> u32" where
  "phys k B = program_frame k + of_nat (unat B - 0x8000000)"

lemma user_walk:
  assumes "stack_ok (Suc k) s" "0x8000000 \<le> unat B" "unat B + i < 0x8400000"
  shows "page_walk s user wr (B + of_nat i) = Some (phys k B + of_nat i)"
proof -
  have k: "k < 6" "kernel_space s" "pageDir s ! 32 = program_entry (program_frame k)"
    using assms(1) by (auto simp: stack_ok_def mapped_top_def program_frame_def)
  define off where "off = unat B - 0x8000000"
  have "B = MB_128 + of_nat off" unfolding off_def using assms(2,3) by (intro program_address) simp
  then have B: "B + of_nat i = MB_128 + of_nat (off + i)" by (simp add: ac_simps)
  have "off + i < 4194304" using assms(2,3) unfolding off_def by linarith
  then show ?thesis using program_linear [OF k(2,3,1), of "off + i" user wr] by (simp add: B phys_def off_def ac_simps)
qed

lemma buffer_walk:
  assumes "stack_ok (Suc k) s" "buffer_at B" "i < 4096"
  shows "page_walk s user wr (B + of_nat i) = Some (phys k B + of_nat i)"
  using assms by (intro user_walk) (simp_all add: buffer_at_def)

lemma user_store_vstore:
  "(\<And>i. i < length bs \<Longrightarrow> page_walk s True True (a + of_nat i) = vwalk s True (a + of_nat i)) \<Longrightarrow>
     user_store bs a s = vstore bs a s"
proof (induction bs arbitrary: a s)
  case (Cons b bs)
  have "page_walk s True True a = vwalk s True a" using Cons.prems [of 0] by simp
  moreover have "user_store bs (a + 1) (s\<lparr>ram := m\<rparr>) = vstore bs (a + 1) (s\<lparr>ram := m\<rparr>)" for m
    using Cons.prems [of "Suc _"] by (intro Cons.IH) (simp add: ac_simps)
  ultimately show ?case by (simp split: option.split)
qed simp

lemma phys_not_kernel:
  assumes "k < 6" "0x8000000 \<le> unat B" "unat B + i < 0x8400000"
  shows "\<not> kernel_page (phys k B + of_nat i)"
proof -
  have "unat B - 0x8000000 + i < 4194304" using assms(2,3) by linarith
  then show ?thesis using program_not_kernel [OF assms(1), of "unat B - 0x8000000 + i"] by (simp add: phys_def ac_simps)
qed

lemma buffer_not_kernel: "stack_ok (Suc k) s \<Longrightarrow> buffer_at B \<Longrightarrow> i < 4096 \<Longrightarrow> \<not> kernel_page (phys k B + of_nat i)"
  by (rule phys_not_kernel) (simp_all add: stack_ok_def buffer_at_def)

lemma buffer_reads: "stack_ok (Suc k) s \<Longrightarrow> buffer_at B \<Longrightarrow> n \<le> 4096 \<Longrightarrow> vreads s B n"
  using buffer_walk buffer_not_kernel by (fastforce intro: vreadsI)

lemma buffer_store:
  assumes "stack_ok (Suc k) s" "buffer_at B" "length bs \<le> 4096"
  shows "vstore bs B s = Some (s\<lparr>ram := written (ram s) (phys k B) bs\<rparr>)"
    "user_store bs B s = Some (s\<lparr>ram := written (ram s) (phys k B) bs\<rparr>)"
proof -
  show "vstore bs B s = Some (s\<lparr>ram := written (ram s) (phys k B) bs\<rparr>)"
    using assms(3) by (intro vstore_linear buffer_walk [OF assms(1,2)] buffer_not_kernel [OF assms(1,2)]) simp_all
  then show "user_store bs B s = Some (s\<lparr>ram := written (ram s) (phys k B) bs\<rparr>)"
    using user_store_vstore [of bs s B] buffer_walk [OF assms(1,2)] buffer_not_kernel [OF assms(1,2)] assms(3)
    by (simp add: vwalk_def)
qed

lemma buffer_view:
  assumes "stack_ok (Suc k) s" "buffer_at B"
  shows "\<exists>p. vview s B = Some p \<and> (\<forall>i < 4096. p i = ram s (phys k B + of_nat i))"
proof -
  have "B \<noteq> 0" using assms(2) by (auto simp: buffer_at_def)
  then show ?thesis using buffer_walk [OF assms] by (simp add: vview_def)
qed

lemma buffer_load:
  assumes "stack_ok (Suc k) s" "buffer_at B" "n \<le> 4096"
  shows "user_load s B n = map (\<lambda>i. ram s (phys k B + of_nat i)) [0..<n]"
  using buffer_walk [OF assms(1,2)] assms(3) by (simp add: user_load_def)

text \<open>What is read back after the program has stored \<open>buf\<close> and the kernel \<open>bs\<close>.\<close>

lemma written_at: "i < 4096 \<Longrightarrow> length bs \<le> 4096 \<Longrightarrow> written m P bs (P + of_nat i) = (if i < length bs then bs ! i else m (P + of_nat i))"
  by (simp add: written_def in_range_def unat_of_nat)

lemma written_back:
  assumes "length buf \<le> 4096"
  shows "map (\<lambda>i. written m P buf (P + of_nat i)) [0..<length buf] = buf"
  using assms by (intro nth_equalityI) (simp_all add: written_at)

lemma written_over:
  assumes "length buf \<le> 4096" "length bs \<le> length buf"
  shows "map (\<lambda>i. written (written m P buf) P bs (P + of_nat i)) [0..<length buf] = bs @ drop (length bs) buf"
  using assms by (intro nth_equalityI) (simp_all add: written_at nth_append)

text \<open>Stores to the buffer stay in the frame of the program.\<close>

lemma user_in_frame:
  assumes "0x8000000 \<le> unat B" "unat B + n \<le> 0x8400000" "in_range (phys k B) n a"
  shows "in_range (program_frame k) 0x400000 a"
proof -
  define o1 where "o1 = unat B - 0x8000000"
  define d where "d = unat (a - phys k B)"
  have "d < n" using assms(3) by (simp add: in_range_def d_def)
  moreover have "o1 + n \<le> 0x400000" using assms(1,2) unfolding o1_def by linarith
  moreover have "a - program_frame k = of_nat (o1 + d)"
  proof -
    have "a - phys k B = of_nat d" by (simp add: d_def)
    then have "a = program_frame k + of_nat o1 + of_nat d" by (simp add: phys_def o1_def algebra_simps)
    then show ?thesis by simp
  qed
  ultimately show ?thesis by (simp add: in_range_def unat_of_nat del: of_nat_add)
qed

lemma written_outside:
  assumes "k < 6" "buffer_at B" "length bs \<le> 4096" "\<not> in_range (program_frame k) 0x400000 a"
  shows "written m (phys k B) bs a = m a"
proof -
  have "\<not> in_range (phys k B) (length bs) a"
    using user_in_frame [of B "length bs" k a] assms(2-4) by (auto simp: buffer_at_def)
  then show ?thesis by (simp add: written_def)
qed

section \<open>Running programs\<close>

text \<open>
  The states in which the program of process \<open>k\<close> runs: it is the topmost process of the stack, the
  cursor is on the screen, the file system has the well-formed image \<open>img\<close>, which the boot loader
  has put into the kernel's page, the buffer of the program is in its own page, and \<open>a\<close> are its
  arguments.
\<close>

definition image_home :: "cptr \<Rightarrow> u32 \<Rightarrow> bool" where
  "image_home img b \<longleftrightarrow> 0x400000 \<le> unat b \<and> unat b + image_size img \<le> 0x800000"

definition runs :: "nat \<Rightarrow> u32 \<Rightarrow> u32 \<Rightarrow> cptr \<Rightarrow> byte list \<Rightarrow> 'a running \<Rightarrow> bool" where
  "runs k depth B img a st \<longleftrightarrow> stack_ok (Suc k) (snd st) \<and> on_screen (snd st) \<and> same_image img (fs (snd st)) \<and> image_wf img \<and>
     image_home img (boot (snd st)) \<and> buffer_at B \<and> unat depth \<le> 8188 \<and> cstr (args (curr_pcb (snd st) ! k)) = a \<and> length a < 128"

lemma screen_low: "a \<in> screen_bytes \<Longrightarrow> unat a < 0xB9000"
proof -
  assume "a \<in> screen_bytes"
  then obtain x where x: "a = VIDEO + w32 x" "0 \<le> x" "x < 4000" by (auto simp: screen_bytes_def vaddr_def)
  then have "unat a = 0xB8000 + nat x" by (simp add: VIDEO_def unat_word_ariths unat_w32)
  then show ?thesis using x(2,3) by simp
qed

lemma screen_not_frame: "a \<in> screen_bytes \<Longrightarrow> k < 6 \<Longrightarrow> \<not> in_range (program_frame k) 0x400000 a"
proof -
  assume a: "a \<in> screen_bytes" "k < 6"
  have f: "unat (program_frame k) = (2 + k) * 4194304" by (rule unat_program_frame [OF a(2)])
  have "unat (a - program_frame k) = 4294967296 + unat a - (2 + k) * 4194304"
    using screen_low [OF a(1)] by (simp add: unat_minus_if f)
  then show ?thesis using a(2) by (simp add: in_range_def)
qed

text \<open>The kernel's page is apart from the screen and from the frames of the programs.\<close>

lemma image_home_apart:
  assumes "image_home img b" "i < image_size img" "k < 6"
  shows "b + of_nat i \<notin> screen_bytes" "\<not> in_range (program_frame k) 0x400000 (b + of_nat i)"
proof -
  have b: "0x400000 \<le> unat b" "unat b + i < 0x800000" using assms(1,2) by (simp_all add: image_home_def)
  then have u: "unat (b + of_nat i) = unat b + i" by (simp add: unat_plus_if unat_of_nat)
  then show "b + of_nat i \<notin> screen_bytes" using screen_low [of "b + of_nat i"] b by auto
  have f: "unat (program_frame k) = (2 + k) * 4194304" by (rule unat_program_frame [OF assms(3)])
  have "unat (b + of_nat i - program_frame k) = 4294967296 + (unat b + i) - (2 + k) * 4194304"
    unfolding unat_minus_if f u using b by simp
  then show "\<not> in_range (program_frame k) 0x400000 (b + of_nat i)" using assms(3) b by (simp add: in_range_def)
qed

lemma runs_slot: "runs k depth B img a st \<Longrightarrow> k < 6"
  by (simp add: runs_def stack_ok_def)

lemma runs_keeps:
  assumes "runs k depth B img a (evs, s)" "stack_ok (Suc k) t" "on_screen t" "boot t = boot s"
    and "args (curr_pcb t ! k) = args (curr_pcb s ! k)"
    and "\<And>x. x \<notin> screen_bytes \<Longrightarrow> \<not> in_range (program_frame k) 0x400000 x \<Longrightarrow> ram t x = ram s x"
  shows "runs k depth B img a (evs', t)"
proof -
  have "fs t i = fs s i" if "i < image_size img" for i
    using assms(1,4,6) image_home_apart [OF _ that, of "boot s" k] runs_slot [OF assms(1)] by (simp add: runs_def fs_def)
  then show ?thesis using assms(1-5) by (simp add: runs_def same_image_def)
qed

text \<open>A call in terms of the entry of the table.\<close>

lemma DO_CALL_ret:
  assumes "sys_call_table (\<lambda>_. None) (env_dev env) (env_shell env) (env_beyond env) evs nr ebx ecx edx (syscall_entry depth s) =
      Some (Ret r, rest, t)" "nr \<in> {1, 2, 3, 4, 5, 6, 7, 8}"
  shows "DO_CALL env depth nr ebx ecx edx (evs, s) = Some (r, rest, t\<lparr>iflag := iflag s\<rparr>)"
  using assms by (auto simp: DO_CALL_def syscall_wrapper_def syscall_exit_def Let_def)

text \<open>After the program has stored the bytes \<open>bs\<close> at \<open>B\<close>: the state that the call sees.\<close>

definition called :: "nat \<Rightarrow> u32 \<Rightarrow> u32 \<Rightarrow> byte list \<Rightarrow> 'a process_state_scheme \<Rightarrow> 'a process_state_scheme" where
  "called k depth B bs s = syscall_entry depth (s\<lparr>ram := written (ram s) (phys k B) bs\<rparr>)"

lemma stack_ok_ram: "stack_ok k (s\<lparr>ram := m\<rparr>) = stack_ok k s"
  using stack_ok_same [of k s "s\<lparr>ram := m\<rparr>"] stack_ok_same [of k "s\<lparr>ram := m\<rparr>" s] by (auto simp: same_kernel_def)

lemma stack_ok_iflag: "stack_ok k (s\<lparr>iflag := b\<rparr>) = stack_ok k s"
  using stack_ok_same [of k s "s\<lparr>iflag := b\<rparr>"] stack_ok_same [of k "s\<lparr>iflag := b\<rparr>" s] by (auto simp: same_kernel_def)

lemma stack_ok_entry: "stack_ok k (syscall_entry depth s) = stack_ok k s"
  by (simp add: stack_ok_def syscall_entry_same)

lemma abs_term_cong:
  assumes "screen_x t = screen_x s" "screen_y t = screen_y s" "\<And>a. a \<in> screen_bytes \<Longrightarrow> ram t a = ram s a"
  shows "abs_term t = abs_term s"
proof -
  have "char_at (ram t) r c = char_at (ram s) r c" if "r < 25" "c < 80" for r c
  proof -
    have "vaddr (2 * (80 * int r + int c)) \<in> screen_bytes" unfolding screen_bytes_def using that by (intro imageI) auto
    then show ?thesis using assms(3) by (simp add: char_at_def)
  qed
  then show ?thesis using assms(1,2) by (auto simp: abs_term_def cut_def fun_eq_iff)
qed

lemma called_runs:
  assumes "runs k depth B img a (evs, s)" "length bs \<le> 4096"
  shows "runs k depth B img a (evs, called k depth B bs s)" "get_pcb (called k depth B bs s) = Some k"
    "ram (called k depth B bs s) = written (ram s) (phys k B) bs" "curr_pcb (called k depth B bs s) = curr_pcb s"
    "abs_term (called k depth B bs s) = abs_term s"
proof -
  let ?t = "called k depth B bs s"
  have s: "stack_ok (Suc k) s" "buffer_at B" "unat depth \<le> 8188" "on_screen s"
    using assms(1) by (simp_all add: runs_def)
  have ok: "stack_ok (Suc k) ?t"
    using s(1) by (simp add: called_def stack_ok_entry stack_ok_ram)
  show "get_pcb ?t = Some k" using entry_slot [of k "s\<lparr>ram := _\<rparr>" depth] s(1,3) by (simp add: called_def stack_ok_ram)
  show r: "ram ?t = written (ram s) (phys k B) bs" "curr_pcb ?t = curr_pcb s" by (simp_all add: called_def syscall_entry_def)
  show "runs k depth B img a (evs, ?t)"
    using assms(1) ok
  proof (rule runs_keeps)
    show "on_screen ?t" using s(4) by (simp add: called_def syscall_entry_def on_screen_def)
  qed (use written_outside [OF runs_slot [OF assms(1)] s(2) assms(2)] r in \<open>simp_all add: called_def syscall_entry_def\<close>)
  show "abs_term ?t = abs_term s"
    using written_outside [OF runs_slot [OF assms(1)] s(2) assms(2)] screen_not_frame [OF _ runs_slot [OF assms(1)]]
    by (intro abs_term_cong) (simp_all add: r, simp_all add: called_def syscall_entry_def)
qed

section \<open>Descriptors\<close>

definition descriptor_of :: "cptr \<Rightarrow> file_desc \<Rightarrow> descriptor" where
  "descriptor_of img f =
     (if flag f = 0 then Closed
      else if f_op f = File_op \<and> inode_wf img (inode f) \<and> unat (file_position f) \<le> length (file_contents img (inode f))
        then File (drop (unat (file_position f)) (file_contents img (inode f)))
      else if f_op f = Dir_op \<and> file_position f \<le> boot_nent img
        then Dir (map (\<lambda>i. entry_name (boot_dirs img i)) [unat (file_position f)..<unat (boot_nent img)])
      else Device)"

definition kfds :: "nat \<Rightarrow> cptr \<Rightarrow> 'a running \<Rightarrow> int \<Rightarrow> descriptor" where
  "kfds k img st fd =
     (if 0 \<le> fd \<and> fd < 8 then descriptor_of img (file_desc_tb (curr_pcb (snd st) ! k) ! nat fd) else Device)"

lemma kfds_same: "curr_pcb t = curr_pcb s \<Longrightarrow> kfds k img (evs', t) = kfds k img (evs, s)"
  by (simp add: kfds_def fun_eq_iff)

text \<open>The variables of the keyboard driver, which output leaves alone.\<close>

definition kb_state :: "'a keyboard_state_scheme \<Rightarrow> byte list \<times> int \<times> byte \<times> int" where
  "kb_state s = (keyboard_buffer s, keyboard_buffer_index s, key_status s, enterpress s)"

text \<open>
  What a call of process \<open>k\<close> leaves alone: the keyboard driver, the control blocks of the other processes and all memory
  but the frame of the process and the screen.
\<close>

definition others_kept :: "nat \<Rightarrow> 'a process_state_scheme \<Rightarrow> 'a process_state_scheme \<Rightarrow> bool" where
  "others_kept k s t \<longleftrightarrow> kb_state t = kb_state s \<and> boot t = boot s \<and> (\<forall>i. i \<noteq> k \<longrightarrow> curr_pcb t ! i = curr_pcb s ! i) \<and>
     (\<forall>x. x \<notin> screen_bytes \<longrightarrow> \<not> in_range (program_frame k) 0x400000 x \<longrightarrow> ram t x = ram s x)"

lemma others_kept_refl [simp]: "others_kept k s s"
  by (simp add: others_kept_def)

lemma others_kept_trans: "others_kept k s t \<Longrightarrow> others_kept k t u \<Longrightarrow> others_kept k s u"
  by (simp add: others_kept_def)

lemma others_kept_update:
  assumes "kb_state t = kb_state s" "boot t = boot s" "curr_pcb t = (curr_pcb s)[k := q]"
    and "\<And>x. x \<notin> screen_bytes \<Longrightarrow> \<not> in_range (program_frame k) 0x400000 x \<Longrightarrow> ram t x = ram s x"
  shows "others_kept k s t"
  using assms by (simp add: others_kept_def)

lemma others_kept_same:
  assumes "kb_state t = kb_state s" "boot t = boot s" "curr_pcb t = curr_pcb s"
    and "\<And>x. x \<notin> screen_bytes \<Longrightarrow> \<not> in_range (program_frame k) 0x400000 x \<Longrightarrow> ram t x = ram s x"
  shows "others_kept k s t"
  using assms by (simp add: others_kept_def)

lemma called_kept: "runs k depth B img a (evs, s) \<Longrightarrow> length bs \<le> 4096 \<Longrightarrow> others_kept k s (called k depth B bs s)"
  using written_outside [of k B bs] runs_slot [of k depth B img a "(evs, s)"]
  by (intro others_kept_same) (simp_all add: runs_def kb_state_def called_def syscall_entry_def)

lemma kb_state_iflag [simp]: "kb_state (s\<lparr>iflag := b\<rparr>) = kb_state s" "kb_state (s\<lparr>ram := m\<rparr>) = kb_state s"
  by (simp_all add: kb_state_def)

text \<open>A call that is refused leaves the kernel in the state in which it was entered.\<close>

lemma called_back:
  assumes "runs k depth B img a (evs, s)" "length bs \<le> 4096"
  defines "e \<equiv> called k depth B bs s"
  shows "runs k depth B img a (evs, e\<lparr>iflag := iflag s\<rparr>) \<and> abs_term (e\<lparr>iflag := iflag s\<rparr>) = abs_term s \<and>
    kfds k img (evs, e\<lparr>iflag := iflag s\<rparr>) = kfds k img (evs, s) \<and> others_kept k s (e\<lparr>iflag := iflag s\<rparr>)"
proof -
  note e = called_runs [OF assms(1,2), folded e_def]
  have "runs k depth B img a (evs, e\<lparr>iflag := iflag s\<rparr>)"
    using e(1) by (rule runs_keeps) (use e(1) in \<open>simp_all add: runs_def stack_ok_iflag on_screen_def\<close>)
  moreover have "abs_term (e\<lparr>iflag := iflag s\<rparr>) = abs_term s" using e(5) by (simp add: abs_term_def)
  moreover have "kfds k img (evs, e\<lparr>iflag := iflag s\<rparr>) = kfds k img (evs, s)" using e(4) by (intro kfds_same) simp
  moreover have "others_kept k s (e\<lparr>iflag := iflag s\<rparr>)" using called_kept [OF assms(1,2)] by (simp add: e_def others_kept_def)
  ultimately show ?thesis by blast
qed

section \<open>Writing to the terminal\<close>

lemma std_fd: "stack_ok (Suc k) s \<Longrightarrow> fd < 2 \<Longrightarrow> flag (file_desc_tb (curr_pcb s ! k) ! fd) \<noteq> 0 \<and> f_op (file_desc_tb (curr_pcb s ! k) ! fd) = Terminal_op"
  by (simp add: stack_ok_def pcbs_ok_def pcb_ok_def std_fds_def)

lemma s32_small: "0 \<le> n \<Longrightarrow> n < 2147483648 \<Longrightarrow> s32 (w32 n) = n"
  by (rule s32_w32) simp_all

lemma fold_putc_kb: "kb_state (fold putc_term bs s) = kb_state s"
  by (induction bs arbitrary: s) (simp_all add: kb_state_def)

lemma terminal_write_bytes:
  assumes "on_screen s" "view_take p (nat n) = bs" "0 < n" "0x09 \<notin> set bs"
  shows "\<exists>t. terminal_write (Some p) n s = (n, t) \<and> on_screen t \<and> abs_term t = fold aterm_put bs (abs_term s) \<and>
    (\<forall>a. a \<notin> screen_bytes \<longrightarrow> ram t a = ram s a) \<and> keyboard_state.more t = keyboard_state.more (s :: 'a keyboard_state_scheme) \<and>
    kb_state t = kb_state s"
proof -
  let ?t = "fold putc_term bs (cli s)"
  have "on_screen (cli s)" using assms(1) by (simp add: on_screen_def cli_def)
  note f = fold_putc_term [OF this assms(4)]
  have "fold (\<lambda>i. putc_term (p i)) [0..<nat n] (cli s) = ?t"
    unfolding assms(2) [symmetric] by (simp add: view_take_def fold_map comp_def)
  then have t: "terminal_write (Some p) n s = (n, sti ?t)" using assms(3) by (simp add: terminal_write_def Let_def)
  moreover have "on_screen (sti ?t)" using f by (simp add: on_screen_def sti_def)
  moreover have "abs_term (sti ?t) = fold aterm_put bs (abs_term s)" using f by (simp add: abs_term_def sti_def cli_def)
  moreover have "\<forall>a. a \<notin> screen_bytes \<longrightarrow> ram (sti ?t) a = ram s a" using f by (simp add: sti_def cli_def)
  moreover have "kb_state (sti ?t) = kb_state s" using fold_putc_kb [of bs "cli s"] by (simp add: kb_state_def sti_def cli_def)
  ultimately show ?thesis using terminal_write_beyond [of "Some p" n s] by auto
qed

lemma user_write:
  assumes "runs k depth B img a (evs, s)" "0 < n" "n \<le> length buf" "length buf \<le> 4096" "0x09 \<notin> set (take n buf)"
  shows "\<exists>t. ece391_write (ksys env depth B) 1 buf (int n) (evs, s) = Some (int n, evs, t) \<and> runs k depth B img a (evs, t) \<and>
    abs_term t = fold aterm_put (take n buf) (abs_term s) \<and> kfds k img (evs, t) = kfds k img (evs, s) \<and> others_kept k s t"
proof -
  let ?bs = "take n buf"
  define e where "e = called k depth B ?bs s"
  have s: "stack_ok (Suc k) s" "buffer_at B" and len: "length ?bs = n" "n \<le> 4096" using assms by (simp_all add: runs_def)
  have lb: "length ?bs \<le> 4096" unfolding len(1) by (rule len(2))
  note e = called_runs [OF assms(1), of ?bs, folded e_def]
  have ok: "stack_ok (Suc k) e" "on_screen e" using e(1) assms(4) by (simp_all add: runs_def)
  obtain p where p: "vview e B = Some p" "\<forall>i < 4096. p i = ram e (phys k B + of_nat i)" using buffer_view [OF ok(1) s(2)] by blast
  have "view_take p n = ?bs"
    using len p(2) e(3) assms(4) by (intro nth_equalityI) (simp_all add: written_at)
  then obtain t where t: "terminal_write (Some p) (int n) e = (int n, t)" "on_screen t"
      "abs_term t = fold aterm_put ?bs (abs_term e)" "\<forall>x. x \<notin> screen_bytes \<longrightarrow> ram t x = ram e x"
      "keyboard_state.more t = keyboard_state.more e" "kb_state t = kb_state e"
    using terminal_write_bytes [OF ok(2), of p "int n" ?bs] assms(2,5) by auto
  have "sys_write 1 B (int n) e = Some (int n, t)"
    using std_fd [OF ok(1), of 1] e(2) assms(4) p(1) t(1) buffer_reads [OF ok(1) s(2) len(2)]
    by (simp add: sys_write_def pcb_of_def fd_write_def write_reads_def fap_write_def)
  then have "sys_call_table (\<lambda>_. None) (env_dev env) (env_shell env) (env_beyond env) evs 4 (w32 1) B (w32 (int n)) e = Some (Ret (int n), evs, t)"
    using len(2) by (simp add: sys_call_table_def s32_of_nat)
  note c = DO_CALL_ret [OF this [unfolded e_def called_def]]
  have "user_store ?bs B s = Some (s\<lparr>ram := written (ram s) (phys k B) ?bs\<rparr>)" using buffer_store(2) [OF s] assms(4) by simp
  then have "ece391_write (ksys env depth B) 1 buf (int n) (evs, s) = Some (int n, evs, t\<lparr>iflag := iflag s\<rparr>)"
    using c assms(3) by (simp add: ksys_def with_bytes_def)
  moreover note k = same_kernel_beyond [OF t(5)]
  have "runs k depth B img a (evs, t\<lparr>iflag := iflag s\<rparr>)"
  proof (rule runs_keeps [OF e(1)])
    show "stack_ok (Suc k) (t\<lparr>iflag := iflag s\<rparr>)" using stack_ok_same [OF ok(1)] k by (simp add: stack_ok_iflag)
    show "on_screen (t\<lparr>iflag := iflag s\<rparr>)" using t(2) by (simp add: on_screen_def)
  qed (use k t(4) assms(4) in \<open>simp_all add: same_kernel_def\<close>)
  moreover have "abs_term (t\<lparr>iflag := iflag s\<rparr>) = fold aterm_put ?bs (abs_term s)"
    using t(3) e(5) assms(4) by (simp add: abs_term_def)
  moreover have "kfds k img (evs, t\<lparr>iflag := iflag s\<rparr>) = kfds k img (evs, s)" using k e(4) assms(4) by (intro kfds_same) simp
  moreover have "others_kept k e (t\<lparr>iflag := iflag s\<rparr>)" using t(4,6) k by (intro others_kept_same) (simp_all add: same_kernel_def)
  then have "others_kept k s (t\<lparr>iflag := iflag s\<rparr>)" by (rule others_kept_trans [OF called_kept [OF assms(1) lb, folded e_def]])
  ultimately show ?thesis by blast
qed

section \<open>Reading through descriptors\<close>

lemma table_sizes_ok: "stack_ok (Suc k) s \<Longrightarrow> k < length (curr_pcb s) \<and> length (file_desc_tb (curr_pcb s ! k)) = 8 \<and> length (args (curr_pcb s ! k)) = 128"
  by (simp add: stack_ok_def pcbs_ok_def pcb_ok_def fds_ok_def)

lemma kfds_set:
  assumes "stack_ok (Suc k) s" "i < 8" "curr_pcb t = (curr_pcb s)[k := set_fd i f (curr_pcb s ! k)]"
  shows "kfds k img (evs', t) = (kfds k img (evs, s))(int i := descriptor_of img (f (file_desc_tb (curr_pcb s ! k) ! i)))"
    "args (curr_pcb t ! k) = args (curr_pcb s ! k)"
  using table_sizes_ok [OF assms(1)] assms(2,3) by (auto simp: kfds_def fun_eq_iff set_fd_def nth_list_update)

text \<open>What the kinds of descriptors are in the table.\<close>

lemma kfds_File:
  assumes "kfds k img (evs, s) fd = File r"
  shows "0 \<le> fd \<and> fd < 8 \<and> (let f = file_desc_tb (curr_pcb s ! k) ! nat fd in
    flag f \<noteq> 0 \<and> f_op f = File_op \<and> inode_wf img (inode f) \<and> unat (file_position f) \<le> length (file_contents img (inode f)) \<and>
    r = drop (unat (file_position f)) (file_contents img (inode f)))"
  using assms by (auto simp: kfds_def descriptor_of_def Let_def split: if_splits)

lemma kfds_Dir:
  assumes "kfds k img (evs, s) fd = Dir nms"
  shows "0 \<le> fd \<and> fd < 8 \<and> (let f = file_desc_tb (curr_pcb s ! k) ! nat fd in
    flag f \<noteq> 0 \<and> f_op f = Dir_op \<and> file_position f \<le> boot_nent img \<and>
    nms = map (\<lambda>i. entry_name (boot_dirs img i)) [unat (file_position f)..<unat (boot_nent img)])"
  using assms by (auto simp: kfds_def descriptor_of_def Let_def split: if_splits)

text \<open>Reading through a descriptor, into the buffer \<open>buf\<close>.\<close>

lemma user_read:
  assumes "runs k depth B img a (evs, s)" "0 \<le> fd" "fd < 8" "fd \<noteq> 1" "length buf \<le> 4096" "0 \<le> n" "n < 2147483648"
  defines "e \<equiv> called k depth B buf s"
  assumes "flag (file_desc_tb (curr_pcb s ! k) ! nat fd) \<noteq> 0"
    and "fap_read (env_dev env) evs (f_op (file_desc_tb (curr_pcb s ! k) ! nat fd)) (nat fd) (vview e B) n e =
      Some (r, bs, rest, set_pcb k (set_fd (nat fd) (\<lambda>f. f\<lparr>file_position := g f\<rparr>)) e)" "length bs \<le> length buf"
  shows "\<exists>t. ece391_read (ksys env depth B) fd buf n (evs, s) = Some (r, bs @ drop (length bs) buf, rest, t) \<and>
    runs k depth B img a (rest, t) \<and> abs_term t = abs_term s \<and>
    kfds k img (rest, t) = (kfds k img (evs, s))(fd := descriptor_of img ((file_desc_tb (curr_pcb s ! k) ! nat fd)
      \<lparr>file_position := g (file_desc_tb (curr_pcb s ! k) ! nat fd)\<rparr>)) \<and> others_kept k s t"
proof -
  let ?P = "phys k B" and ?u = "set_pcb k (set_fd (nat fd) (\<lambda>f. f\<lparr>file_position := g f\<rparr>)) e"
  have s: "stack_ok (Suc k) s" "buffer_at B" using assms(1) by (simp_all add: runs_def)
  note k6 = runs_slot [OF assms(1)]
  note e = called_runs [OF assms(1,5), folded e_def]
  have ok: "stack_ok (Suc k) e" "on_screen e" using e(1) by (simp_all add: runs_def)
  have "fd_moved k (nat fd) e ?u" using fap_read_moves [OF e(2)] assms(10) e(4) by blast
  then have u: "stack_ok (Suc k) ?u" using stack_ok_moved [OF ok(1), of "nat fd" k ?u] assms(3) by simp
  define t where "t = ?u\<lparr>ram := written (written (ram s) ?P buf) ?P bs, iflag := iflag s\<rparr>"
  have "sys_read (env_dev env) evs fd B n e = Some (r, rest, ?u\<lparr>ram := written (written (ram s) ?P buf) ?P bs\<rparr>)"
    using assms(2-5,9,10,11) e(2-4) buffer_store(1) [OF u s(2), of bs]
    by (simp add: sys_read_def pcb_of_def Let_def set_pcb_def)
  moreover have "s32 (w32 fd) = fd" "s32 (w32 n) = n" using assms(2,3,6,7) by (simp_all add: s32_small)
  ultimately have "sys_call_table (\<lambda>_. None) (env_dev env) (env_shell env) (env_beyond env) evs 3 (w32 fd) B (w32 n) e =
      Some (Ret r, rest, ?u\<lparr>ram := written (written (ram s) ?P buf) ?P bs\<rparr>)"
    by (simp add: sys_call_table_def)
  note c = DO_CALL_ret [OF this [unfolded e_def called_def], folded called_def e_def]
  have st: "stack_ok (Suc k) t" using u by (simp add: t_def stack_ok_ram stack_ok_iflag)
  have "user_load t B (length buf) = bs @ drop (length bs) buf"
    using buffer_load [OF st s(2) assms(5)] written_over [OF assms(5,11)] by (simp add: t_def)
  then have "ece391_read (ksys env depth B) fd buf n (evs, s) = Some (r, bs @ drop (length bs) buf, rest, t)"
    using c buffer_store(2) [OF s assms(5)] by (simp add: ksys_def with_buffer_def with_bytes_def t_def)
  moreover have cp: "curr_pcb t = (curr_pcb s)[k := set_fd (nat fd) (\<lambda>f. f\<lparr>file_position := g f\<rparr>) (curr_pcb s ! k)]"
    using e(4) by (simp add: t_def set_pcb_def)
  have same: "screen_x t = screen_x s \<and> screen_y t = screen_y s \<and> boot t = boot s" by (simp add: t_def set_pcb_def e_def called_def syscall_entry_def)
  have mem: "ram t x = ram s x" if "\<not> in_range (program_frame k) 0x400000 x" for x
    using written_outside [OF k6 s(2) _ that] assms(5,11) by (simp add: t_def)
  have "runs k depth B img a (rest, t)"
    using assms(1) st
  proof (rule runs_keeps)
    show "on_screen t" using assms(1) same by (simp add: runs_def on_screen_def)
    show "args (curr_pcb t ! k) = args (curr_pcb s ! k)" using kfds_set(2) [OF s(1) _ cp] assms(3) by simp
  qed (use same mem in simp_all)
  moreover have "abs_term t = abs_term s" using same mem screen_not_frame [OF _ k6] by (intro abs_term_cong) simp_all
  moreover have "kb_state t = kb_state s" by (simp add: t_def set_pcb_def kb_state_def e_def called_def syscall_entry_def)
  then have "others_kept k s t" using same cp mem by (intro others_kept_update) simp_all
  ultimately show ?thesis using kfds_set(1) [OF s(1) _ cp, of img rest evs] assms(2,3) by auto
qed

lemma file_read_state:
  "get_pcb s = Some p \<Longrightarrow> file_read fd n s = Some (r, bs, t) \<Longrightarrow> fd \<le> 7 \<Longrightarrow>
     t = set_pcb p (set_fd fd (\<lambda>f. f\<lparr>file_position := file_position f + w32 r\<rparr>)) s"
  by (auto simp: file_read_def Let_def split: prod.splits)

lemma user_read_file:
  assumes "runs k depth B img a (evs, s)" "kfds k img (evs, s) fd = File r" "0 < n" "n \<le> length buf" "length buf \<le> 4096"
  shows "\<exists>t. ece391_read (ksys env depth B) fd buf (int n) (evs, s) =
      Some (int (length (take n r)), take n r @ drop (length (take n r)) buf, evs, t) \<and>
    runs k depth B img a (evs, t) \<and> abs_term t = abs_term s \<and> kfds k img (evs, t) = (kfds k img (evs, s))(fd := File (drop n r)) \<and>
    others_kept k s t"
proof -
  define f where "f = file_desc_tb (curr_pcb s ! k) ! nat fd"
  define bs where "bs = take n r"
  note fd = kfds_File [OF assms(2), folded f_def, unfolded Let_def]
  have s: "stack_ok (Suc k) s" using assms(1) by (simp add: runs_def)
  have fd1: "fd \<noteq> 1" using std_fd [OF s, of 1] fd by (auto simp: f_def)
  define e where "e = called k depth B buf s"
  note e = called_runs [OF assms(1,5), folded e_def]
  have im: "same_image img (fs e)" using e(1) by (simp add: runs_def)
  have c: "file_contents (fs e) (inode f) = file_contents img (inode f)" using file_contents_same [OF im] fd by simp
  have len: "length (file_contents img (inode f)) \<le> 1023 * 4096" using fd length_file_contents_wf by blast
  have nn: "inode f < boot_nnod (fs e)" using fd boot_same(2) [OF im] by (simp add: inode_wf_def)
  have n7: "nat fd \<le> 7" using fd by linarith
  have fe: "file_desc_tb (curr_pcb e ! k) ! nat fd = f" by (simp add: e(4) f_def)
  have "\<exists>t. file_read (nat fd) (int n) e = Some (int (length bs), bs, t)"
    using file_read_next [OF e(2), of "nat fd" "inode f" "unat (file_position f)" "int n", unfolded fe] n7 nn table_sizes_ok [OF s] fd c len assms(4,5)
    by (auto simp: e(4) bs_def)
  then have "file_read (nat fd) (int n) e =
      Some (int (length bs), bs, set_pcb k (set_fd (nat fd) (\<lambda>f. f\<lparr>file_position := file_position f + of_nat (length bs)\<rparr>)) e)"
    using file_read_state [OF e(2)] fd by fastforce
  then have "fap_read (env_dev env) evs (f_op f) (nat fd) (vview e B) (int n) e =
      Some (int (length bs), bs, evs, set_pcb k (set_fd (nat fd) (\<lambda>f. f\<lparr>file_position := file_position f + of_nat (length bs)\<rparr>)) e)"
    using fd by (simp add: fap_read_def)
  note t = user_read [OF assms(1) _ _ fd1 assms(5) _ _ _ this [unfolded e_def f_def], folded f_def]
  have l: "length bs \<le> n" "unat (file_position f) + length bs \<le> length (file_contents img (inode f))" using fd by (auto simp: bs_def)
  then have p: "unat (file_position f + of_nat (length bs)) = unat (file_position f) + length bs"
    using len by (simp add: unat_word_ariths unat_of_nat)
  have "drop (length bs) r = drop n r" by (cases "n \<le> length r") (simp_all add: bs_def)
  then have "descriptor_of img (f\<lparr>file_position := file_position f + of_nat (length bs)\<rparr>) = File (drop n r)"
    using fd p l(2) by (simp add: descriptor_of_def add.commute flip: drop_drop)
  then show ?thesis using t fd l(1) assms(3-5) by (simp add: bs_def)
qed

lemma user_read_dir:
  assumes "runs k depth B img a (evs, s)" "kfds k img (evs, s) fd = Dir nms" "32 \<le> length buf" "length buf \<le> 4096"
  shows "\<exists>t r. ece391_read (ksys env depth B) fd buf 32 (evs, s) =
      Some (int (length (case nms of [] \<Rightarrow> [] | nm # _ \<Rightarrow> nm)), (case nms of [] \<Rightarrow> [] | nm # _ \<Rightarrow> nm) @ r, evs, t) \<and>
    length ((case nms of [] \<Rightarrow> [] | nm # _ \<Rightarrow> nm) @ r) = length buf \<and>
    runs k depth B img a (evs, t) \<and> abs_term t = abs_term s \<and>
    (nms \<noteq> [] \<longrightarrow> kfds k img (evs, t) = (kfds k img (evs, s))(fd := Dir (tl nms))) \<and> others_kept k s t"
proof -
  define f where "f = file_desc_tb (curr_pcb s ! k) ! nat fd"
  define i where "i = unat (file_position f)"
  define nm where "nm = entry_name (boot_dirs img i)"
  note fd = kfds_Dir [OF assms(2), folded f_def, unfolded Let_def]
  have s: "stack_ok (Suc k) s" "image_wf img" using assms(1) by (simp_all add: runs_def)
  have fd1: "fd \<noteq> 1" using std_fd [OF s(1), of 1] fd by (auto simp: f_def)
  define e where "e = called k depth B buf s"
  note e = called_runs [OF assms(1,4), folded e_def]
  have im: "same_image img (fs e)" using e(1) by (simp add: runs_def)
  have i: "i \<le> unat (boot_nent img)" using fd by (simp add: i_def word_le_nat_alt)
  have nms: "nms = map (\<lambda>i. entry_name (boot_dirs img i)) [i..<unat (boot_nent img)]" using fd by (simp add: i_def)
  have nm: "(case nms of [] \<Rightarrow> [] | nm # _ \<Rightarrow> nm) = nm"
    using s(2) i by (auto simp: nm_def nms image_wf_def upt_conv_Cons le_less)
  have bs: "take 32 (nm @ [0]) = nm @ take (32 - length nm) [0]" "length nm \<le> 32" by (simp_all add: nm_def)
  have "dir_read (nat fd) 32 e = Some (int (length nm), take 32 (nm @ [0]), set_pcb k (set_fd (nat fd) (\<lambda>f. f\<lparr>file_position := file_position f + 1\<rparr>)) e)"
    using e(2) read_dentry_by_index_same [OF im s(2), of "file_position f"] fd
    by (simp add: dir_read_def pcb_of_def e(4) f_def [symmetric] i_def dir_copy_32 nm_def)
  then have "fap_read (env_dev env) evs (f_op f) (nat fd) (vview e B) 32 e =
      Some (int (length nm), take 32 (nm @ [0]), evs, set_pcb k (set_fd (nat fd) (\<lambda>f. f\<lparr>file_position := file_position f + 1\<rparr>)) e)"
    using fd by (simp add: fap_read_def)
  note t = user_read [OF assms(1) _ _ fd1 assms(4) _ _ _ this [unfolded e_def f_def], folded f_def]
  have "descriptor_of img (f\<lparr>file_position := file_position f + 1\<rparr>) = Dir (tl nms)" if "nms \<noteq> []"
  proof -
    have lt: "i < unat (boot_nent img)" using that by (auto simp: nms)
    moreover have "unat (boot_nent img) \<le> 62" using s(2) by (simp add: image_wf_def)
    ultimately have "unat (file_position f + 1) = Suc i" by (simp add: i_def unat_word_ariths)
    moreover have "tl nms = map (\<lambda>i. entry_name (boot_dirs img i)) [Suc i..<unat (boot_nent img)]" using lt by (simp add: nms upt_conv_Cons)
    ultimately show ?thesis using lt fd by (simp add: descriptor_of_def word_le_nat_alt)
  qed
  moreover define r where "r = take (32 - length nm) [0] @ drop (length (take 32 (nm @ [0]))) buf"
  then have "take 32 (nm @ [0]) @ drop (length (take 32 (nm @ [0]))) buf = nm @ r" using bs(1) by simp
  moreover have len: "length (take 32 (nm @ [0])) \<le> length buf" using assms(3) by simp
  then have "length (nm @ r) = length buf" using bs unfolding r_def by (auto simp: min_def)
  ultimately show ?thesis using t [OF _ _ _ _ _ len] fd unfolding nm by fastforce
qed

section \<open>Opening files\<close>

text \<open>What a name refers to in the image.\<close>

definition image_node :: "cptr \<Rightarrow> byte list \<Rightarrow> descriptor option" where
  "image_node img nm =
     map_option (\<lambda>d. if ft d = 0 then Device
         else if ft d = 1 then Dir (map (\<lambda>i. entry_name (boot_dirs img i)) [0..<unat (boot_nent img)])
         else File (file_contents img (ind d)))
       (snd (read_dentry_by_name img (list_view nm)))"

lemma cstr_take_buffer:
  assumes "0 \<in> set buf" "\<And>i. i < length buf \<Longrightarrow> p i = buf ! i"
  shows "cstr_take p n = cstr_take (list_view (cstr buf)) n"
proof -
  have "cstr_take p n = take n (cstr buf)"
  proof (cases "n \<le> length buf")
    case True
    then have "view_take p n = take n buf" using assms(2) by (intro nth_equalityI) simp_all
    then show ?thesis by (simp add: cstr_take_def cstr_def takeWhile_take_swap)
  next
    case False
    then have "view_take p n = buf @ map p [length buf..<n]" using assms(2) by (intro nth_equalityI) (simp_all add: nth_append)
    moreover have "length (cstr buf) \<le> n" using False length_takeWhile_le [of "\<lambda>b. b \<noteq> 0" buf] unfolding cstr_def by linarith
    ultimately show ?thesis using assms(1) by (auto simp: cstr_take_def cstr_def takeWhile_append)
  qed
  moreover have "cstr_take (list_view (cstr buf)) n = take n (cstr buf)"
    using cstr_nonzero [of buf] by (intro cstr_take_list) (auto dest: in_set_takeD)
  ultimately show ?thesis by simp
qed

lemma found_entry:
  assumes "image_wf img" "snd (read_dentry_by_name img fname) = Some d"
  shows "entry_wf img d"
proof -
  obtain j where "j < unat (boot_nent img)" "d = boot_dirs img j"
    using assms(2) by (auto simp: read_dentry_by_name_def dentry_search_find find_upt split: option.splits)
  then show ?thesis using assms(1) by (simp add: image_wf_def list_all_iff)
qed

lemma closed_fd:
  assumes "stack_ok (Suc k) s" "\<exists>fd \<in> {2..7}. kfds k img (evs, s) fd = Closed"
  shows "\<exists>i. free_fd (curr_pcb s ! k) = Some i"
proof -
  obtain fd where fd: "2 \<le> fd" "fd \<le> 7" "kfds k img (evs, s) fd = Closed" using assms(2) by auto
  then have "flag (file_desc_tb (curr_pcb s ! k) ! nat fd) = 0" by (auto simp: kfds_def descriptor_of_def split: if_splits)
  moreover have "nat fd \<in> set [2..<8]" using fd by auto
  ultimately have "find (\<lambda>i. flag (file_desc_tb (curr_pcb s ! k) ! i) = 0) [2..<8] \<noteq> None" unfolding find_None_iff by blast
  then show ?thesis by (auto simp: free_fd_def)
qed

lemma file_type: "x \<le> (2 :: u32) \<Longrightarrow> x = 0 \<or> x = 1 \<or> x = 2"
proof -
  assume "x \<le> 2"
  then have "unat x \<le> 2" by (simp add: word_le_nat_alt)
  then have "unat x = 0 \<or> unat x = 1 \<or> unat x = 2" by linarith
  then have "unat x \<in> {0, 1, 2}" by blast
  then have "x \<in> of_nat ` {0, 1, 2}" by (intro image_eqI [of _ _ "unat x"]) simp_all
  then show ?thesis by auto
qed

text \<open>The state that \<open>sys_open\<close> leaves, up to the fields of the clock.\<close>

lemma sys_open_found:
  assumes "vview e B = Some p" "snd (read_dentry_by_name (fs e) p) = Some d" "get_pcb e = Some k" "ft d \<le> 2" "vreads e B 32"
    and "free_fd (curr_pcb e ! k) = Some i"
  shows "\<exists>u g. sys_open B e = Some (int i, u) \<and> curr_pcb u = (curr_pcb e)[k := set_fd i g (curr_pcb e ! k)] \<and>
    (\<forall>f. flag (g f) = 1 \<and> file_position (g f) = 0 \<and> (ft d = 0 \<longrightarrow> f_op (g f) = Rtc_op) \<and> (ft d = 1 \<longrightarrow> f_op (g f) = Dir_op) \<and>
      (ft d = 2 \<longrightarrow> f_op (g f) = File_op \<and> inode (g f) = ind d)) \<and>
    ram u = ram e \<and> screen_x u = screen_x e \<and> screen_y u = screen_y e \<and> boot u = boot e \<and> kb_state u = kb_state e"
proof -
  obtain r where r: "read_dentry_by_name (fs e) p = (r, Some d)" using assms(2) by (cases "read_dentry_by_name (fs e) p") simp
  have rd: "vreads e B (search_reads (fs e) p 0)" by (rule vreads_mono [OF assms(5) search_reads_le])
  have "ft d = 0 \<or> ft d = 1 \<or> ft d = 2" by (rule file_type [OF assms(4)])
  then show ?thesis
  proof (elim disjE)
    assume "ft d = 0"
    then show ?thesis using assms r rd
      by (intro exI [of _ "snd (rtc_open (Some p) (set_pcb k (set_fd i (\<lambda>f. f\<lparr>f_op := Rtc_op, flag := 1, file_position := 0\<rparr>)) e))"]
          exI [of _ "\<lambda>f. f\<lparr>f_op := Rtc_op, flag := 1, file_position := 0\<rparr>"])
        (simp add: sys_open_def pcb_of_def Let_def set_pcb_def rtc_open_def kb_state_def)
  next
    assume "ft d = 1"
    then show ?thesis using assms r rd
      by (intro exI [of _ "set_pcb k (set_fd i (\<lambda>f. f\<lparr>f_op := Dir_op, flag := 1, file_position := 0\<rparr>)) e"]
          exI [of _ "\<lambda>f. f\<lparr>f_op := Dir_op, flag := 1, file_position := 0\<rparr>"])
        (simp add: sys_open_def pcb_of_def set_pcb_def kb_state_def)
  next
    assume "ft d = 2"
    then show ?thesis using assms r rd
      by (intro exI [of _ "set_pcb k (set_fd i (\<lambda>f. f\<lparr>f_op := File_op, flag := 1, file_position := 0, inode := ind d\<rparr>)) e"]
          exI [of _ "\<lambda>f. f\<lparr>f_op := File_op, flag := 1, file_position := 0, inode := ind d\<rparr>"])
        (simp add: sys_open_def pcb_of_def set_pcb_def kb_state_def)
  qed
qed

lemma user_open:
  assumes "runs k depth B img a (evs, s)" "0 \<in> set buf" "length buf \<le> 4096"
  defines "e \<equiv> called k depth B buf s"
  shows "\<exists>p. vview e B = Some p \<and> snd (read_dentry_by_name (fs e) p) = snd (read_dentry_by_name img (list_view (cstr buf)))"
    "vreads e B 32"
    "sys_open B e = Some (r, u) \<Longrightarrow> ece391_open (ksys env depth B) buf (evs, s) = Some (r, evs, u\<lparr>iflag := iflag s\<rparr>)"
proof -
  have s: "stack_ok (Suc k) s" "buffer_at B" using assms(1) by (simp_all add: runs_def)
  note e = called_runs [OF assms(1,3), folded e_def]
  have ok: "stack_ok (Suc k) e" "same_image img (fs e)" "image_wf img" using e(1) by (simp_all add: runs_def)
  obtain p where p: "vview e B = Some p" "\<forall>i < 4096. p i = ram e (phys k B + of_nat i)" using buffer_view [OF ok(1) s(2)] by blast
  have "cstr_take p 32 = cstr_take (list_view (cstr buf)) 32"
    using p(2) assms(3) by (intro cstr_take_buffer [OF assms(2)]) (simp add: e(3) written_at)
  then show "\<exists>p. vview e B = Some p \<and> snd (read_dentry_by_name (fs e) p) = snd (read_dentry_by_name img (list_view (cstr buf)))"
    using p(1) read_dentry_cong read_dentry_by_name_same [OF ok(2,3)] by metis
  show "vreads e B 32" by (rule buffer_reads [OF ok(1) s(2)]) simp
  assume "sys_open B e = Some (r, u)"
  then have "sys_call_table (\<lambda>_. None) (env_dev env) (env_shell env) (env_beyond env) evs 5 B 0 0 e = Some (Ret r, evs, u)"
    by (simp add: sys_call_table_def)
  note c = DO_CALL_ret [OF this [unfolded e_def called_def]]
  then show "ece391_open (ksys env depth B) buf (evs, s) = Some (r, evs, u\<lparr>iflag := iflag s\<rparr>)"
    using buffer_store(2) [OF s assms(3)] by (simp add: ksys_def with_bytes_def)
qed

lemma user_open_missing:
  assumes "runs k depth B img a (evs, s)" "0 \<in> set buf" "length buf \<le> 4096" "image_node img (cstr buf) = None"
  shows "\<exists>t. ece391_open (ksys env depth B) buf (evs, s) = Some (-1, evs, t) \<and> runs k depth B img a (evs, t) \<and>
    abs_term t = abs_term s \<and> kfds k img (evs, t) = kfds k img (evs, s) \<and> others_kept k s t"
proof -
  define e where "e = called k depth B buf s"
  note e = called_runs [OF assms(1,3), folded e_def] and op = user_open [OF assms(1-3), folded e_def]
  have "sys_open B e = Some (-1, e)"
    using op(1) assms(4) vreads_mono [OF op(2) search_reads_le]
    by (auto simp: sys_open_def image_node_def split: prod.splits option.splits)
  note t = op(3) [OF this]
  show ?thesis using t called_back [OF assms(1,3), folded e_def] by blast
qed

lemma user_open_at:
  assumes "runs k depth B img a (evs, s)" "0 \<in> set buf" "length buf \<le> 4096" "image_node img (cstr buf) = Some d"
    and i: "free_fd (curr_pcb s ! k) = Some i"
  shows "\<exists>t. ece391_open (ksys env depth B) buf (evs, s) = Some (int i, evs, t) \<and> runs k depth B img a (evs, t) \<and>
    abs_term t = abs_term s \<and> kfds k img (evs, t) = (kfds k img (evs, s))(int i := d) \<and> others_kept k s t"
proof -
  define e where "e = called k depth B buf s"
  have s: "stack_ok (Suc k) s" "image_wf img" using assms(1) by (simp_all add: runs_def)
  note e = called_runs [OF assms(1,3), folded e_def] and op = user_open [OF assms(1-3), folded e_def]
  have ok: "stack_ok (Suc k) e" using e(1) by (simp add: runs_def)
  obtain dn where dn: "snd (read_dentry_by_name img (list_view (cstr buf))) = Some dn" using assms(4) by (auto simp: image_node_def)
  have wf: "entry_wf img dn" by (rule found_entry [OF s(2) dn])
  obtain p where p: "vview e B = Some p" "snd (read_dentry_by_name (fs e) p) = Some dn" using op(1) dn by auto
  have i8: "i < 8" using free_fd_range [OF i] by blast
  obtain u g where u: "sys_open B e = Some (int i, u)" "curr_pcb u = (curr_pcb e)[k := set_fd i g (curr_pcb e ! k)]"
      "\<forall>f. flag (g f) = 1 \<and> file_position (g f) = 0 \<and> (ft dn = 0 \<longrightarrow> f_op (g f) = Rtc_op) \<and> (ft dn = 1 \<longrightarrow> f_op (g f) = Dir_op) \<and>
        (ft dn = 2 \<longrightarrow> f_op (g f) = File_op \<and> inode (g f) = ind dn)"
      "ram u = ram e \<and> screen_x u = screen_x e \<and> screen_y u = screen_y e \<and> boot u = boot e" "kb_state u = kb_state e"
    using sys_open_found [OF p e(2) _ op(2), of i] wf i e(4) by (auto simp: entry_wf_def)
  let ?t = "u\<lparr>iflag := iflag s\<rparr>"
  note t = op(3) [OF u(1)]
  have cp: "curr_pcb ?t = (curr_pcb s)[k := set_fd i g (curr_pcb s ! k)]" using u(2) e(4) by simp
  note fd = kfds_set [OF s(1) i8 cp]
  have "runs k depth B img a (evs, ?t)"
    using e(1)
  proof (rule runs_keeps)
    show "stack_ok (Suc k) ?t" using sys_open_ok [OF ok u(1)] by (simp add: stack_ok_iflag)
    show "on_screen ?t" using e(1) u(4) by (simp add: runs_def on_screen_def)
  qed (use u(4) fd(2) e(4) in simp_all)
  moreover have "abs_term ?t = abs_term s" using u(4) e(5) by (simp add: abs_term_def)
  moreover have "descriptor_of img (g f) = d" for f
  proof -
    consider "ft dn = 0" | "ft dn = 1" | "ft dn = 2" using file_type wf by (auto simp: entry_wf_def)
    then show ?thesis using assms(4) dn wf u(3) by cases (auto simp: image_node_def descriptor_of_def entry_wf_def)
  qed
  then have "kfds k img (evs, ?t) = (kfds k img (evs, s))(int i := d)" using fd(1) [of img evs evs] by simp
  moreover have "others_kept k e ?t" using cp e(4) u(4,5) by (intro others_kept_update) simp_all
  then have "others_kept k s ?t" using called_kept [OF assms(1,3), folded e_def] others_kept_trans by blast
  ultimately show ?thesis using t by auto
qed

lemma user_open_node:
  assumes "runs k depth B img a (evs, s)" "0 \<in> set buf" "length buf \<le> 4096" "image_node img (cstr buf) = Some d"
    and "\<exists>fd \<in> {2..7}. kfds k img (evs, s) fd = Closed"
  shows "\<exists>fd t. ece391_open (ksys env depth B) buf (evs, s) = Some (fd, evs, t) \<and> 2 \<le> fd \<and> runs k depth B img a (evs, t) \<and>
    abs_term t = abs_term s \<and> kfds k img (evs, t) = (kfds k img (evs, s))(fd := d) \<and> others_kept k s t"
proof -
  have "stack_ok (Suc k) s" using assms(1) by (simp add: runs_def)
  then obtain i where i: "free_fd (curr_pcb s ! k) = Some i" using closed_fd [OF _ assms(5)] by blast
  then have "2 \<le> i" using free_fd_range by blast
  then show ?thesis using user_open_at [OF assms(1-4) i, of env] by fastforce
qed

section \<open>Arguments\<close>

lemma args_buffer:
  assumes "length (args q) = 128" "cstr (args q) = a" "length a < 128"
  shows "\<exists>r. view_take (args_memory beyond q) 1024 = a @ 0 # r"
proof -
  let ?m = "args_memory beyond q"
  note m = args_memory_string [OF assms(1) assms(2) [unfolded cstr_def] assms(3), where beyond = beyond]
  have "take (Suc (length a)) (view_take ?m 1024) = a @ [0]"
    using m assms(3) by (intro nth_equalityI) (auto simp: nth_append is_cstring_def less_Suc_eq)
  then have "view_take ?m 1024 = (a @ [0]) @ drop (Suc (length a)) (view_take ?m 1024)"
    by (metis append_take_drop_id)
  then show ?thesis by auto
qed

lemma user_getargs:
  assumes "runs k depth B img a (evs, s)" "length buf = 1024"
  shows "\<exists>t r. ece391_getargs (ksys env depth B) buf 1024 (evs, s) =
      (if a = [] then Some (-1, buf, evs, t) else Some (0, a @ 0 # r, evs, t)) \<and> (a \<noteq> [] \<longrightarrow> length (a @ 0 # r) = length buf) \<and>
    runs k depth B img a (evs, t) \<and> abs_term t = abs_term s \<and> kfds k img (evs, t) = kfds k img (evs, s) \<and> others_kept k s t"
proof -
  let ?P = "phys k B" and ?m = "args_memory (env_beyond env) (curr_pcb s ! k)"
  define e where "e = called k depth B buf s"
  have s: "stack_ok (Suc k) s" "buffer_at B" "cstr (args (curr_pcb s ! k)) = a" "length a < 128" and l: "length buf \<le> 4096"
    using assms by (simp_all add: runs_def)
  note k6 = runs_slot [OF assms(1)]
  note e = called_runs [OF assms(1) l, folded e_def]
  have ok: "stack_ok (Suc k) e" using e(1) by (simp add: runs_def)
  define bs where "bs = (if a = [] then [] else view_take ?m 1024)"
  define u where "u = e\<lparr>ram := written (ram e) ?P bs\<rparr>"
  let ?t = "u\<lparr>iflag := iflag s\<rparr>"
  have lb: "length bs \<le> length buf" using assms(2) by (simp add: bs_def)
  have "B \<noteq> 0" using s(2) by (auto simp: buffer_at_def)
  then have "sys_getargs (env_beyond env) B 1024 e = Some (if a = [] then -1 else 0, u)"
    using getargs_string [OF e(2), of a B 1024] table_sizes_ok [OF s(1)] s(3,4) buffer_store(1) [OF ok s(2), of bs] e(4)
    by (auto simp: cstr_def bs_def u_def)
  moreover have "s32 (w32 1024) = 1024" by (rule s32_small) simp_all
  ultimately have "sys_call_table (\<lambda>_. None) (env_dev env) (env_shell env) (env_beyond env) evs 7 B (w32 1024) 0 e =
      Some (Ret (if a = [] then -1 else 0), evs, u)"
    by (simp add: sys_call_table_def)
  note c = DO_CALL_ret [OF this [unfolded e_def called_def]]
  have st: "stack_ok (Suc k) ?t" using ok by (simp add: u_def stack_ok_ram stack_ok_iflag)
  have "user_load ?t B (length buf) = bs @ drop (length bs) buf"
    using buffer_load [OF st s(2) l] written_over [OF l lb] by (simp add: u_def e(3))
  then have call: "ece391_getargs (ksys env depth B) buf 1024 (evs, s) = Some (if a = [] then -1 else 0, bs @ drop (length bs) buf, evs, ?t)"
    using c buffer_store(2) [OF s(1,2) l] by (simp add: ksys_def with_buffer_def with_bytes_def)
  have mem: "ram ?t x = ram e x" if "\<not> in_range (program_frame k) 0x400000 x" for x
    using written_outside [OF k6 s(2) _ that, of bs] lb l by (simp add: u_def)
  have same: "screen_x ?t = screen_x e \<and> screen_y ?t = screen_y e \<and> boot ?t = boot e \<and> curr_pcb ?t = curr_pcb e" by (simp add: u_def)
  have "runs k depth B img a (evs, ?t)"
    using e(1) st by (rule runs_keeps) (use same mem e(1) in \<open>simp_all add: runs_def on_screen_def\<close>)
  moreover have "abs_term ?t = abs_term e" using same mem screen_not_frame [OF _ k6] by (intro abs_term_cong) simp_all
  moreover have "kfds k img (evs, ?t) = kfds k img (evs, s)" using same e(4) by (intro kfds_same) simp
  moreover have "others_kept k e ?t" using same mem by (intro others_kept_same) (simp_all add: u_def)
  then have "others_kept k s ?t" using called_kept [OF assms(1) l, folded e_def] others_kept_trans by blast
  moreover obtain r where "a \<noteq> [] \<Longrightarrow> bs = a @ 0 # r"
    using args_buffer [OF _ s(3,4), of "env_beyond env"] table_sizes_ok [OF s(1)] by (auto simp: bs_def)
  moreover have "a \<noteq> [] \<Longrightarrow> length bs = length buf" using assms(2) by (simp add: bs_def)
  ultimately show ?thesis using call e(5) by (cases "a = []") (auto simp: bs_def)
qed

section \<open>The contract\<close>

interpretation kf: file_calls "ksys env depth B" "runs k depth B img a" "\<lambda>st. abs_term (snd st)" "fold aterm_put" "\<lambda>b. b \<noteq> 0x09"
  "kfds k img" "image_node img" a
  for env depth B k img a
proof (unfold_locales, goal_cases)
  case (3 st n buf)
  then show ?case using user_write [of k depth B img a "fst st" "snd st" n buf env] by (fastforce simp: list_all_iff)
next
  case (4 st fd r n buf)
  then show ?case using user_read_file [of k depth B img a "fst st" "snd st" fd r n buf env] by auto
next
  case (5 st fd nm nms buf)
  then show ?case using user_read_dir [of k depth B img a "fst st" "snd st" fd "nm # nms" buf env] by fastforce
next
  case (6 st fd buf)
  then show ?case using user_read_dir [of k depth B img a "fst st" "snd st" fd "[]" buf env] by fastforce
next
  case (7 st fd nms nm)
  then show ?case using kfds_Dir [of k img "fst st" "snd st" fd nms] by (auto simp: Let_def runs_def image_wf_def list_all_iff entry_wf_def)
next
  case (8 st buf d)
  then show ?case using user_open_node [of k depth B img a "fst st" "snd st" buf d env] by fastforce
next
  case (9 st buf)
  then show ?case using user_open_missing [of k depth B img a "fst st" "snd st" buf env] by fastforce
next
  case (10 st buf)
  then show ?case using user_getargs [of k depth B img a "fst st" "snd st" buf env] by fastforce
next
  case (11 st buf)
  then show ?case using user_getargs [of k depth B img a "fst st" "snd st" buf env] by fastforce
next
  case (12 st)
  then show ?case using cstr_nonzero by (auto simp: runs_def)
qed simp_all

section \<open>Concrete programs\<close>

text \<open>The first process of a kernel with the image \<open>g\<close> and the arguments \<open>as\<close>.\<close>

definition user_kernel :: "cptr \<Rightarrow> byte list \<Rightarrow> process_state" where
  "user_kernel g as = set_pcb 0 (\<lambda>p. p\<lparr>args := as @ replicate (128 - length as) 0\<rparr>)
     (running_kernel\<lparr>ram := (\<lambda>x. g (unat (x - 0x600000)))\<rparr>)"

lemma user_kernel_stack: "length as \<le> 128 \<Longrightarrow> stack_ok 1 (user_kernel g as)"
proof -
  assume l: "length as \<le> 128"
  have r: "stack_ok 1 running_kernel" by (rule running_kernel_ok)
  have "pcbs_ok 1 (curr_pcb (user_kernel g as))"
    unfolding user_kernel_def set_pcb_def
    using r l pcbs_ok_update [of 1 "curr_pcb running_kernel" 0] by (simp add: stack_ok_def) (simp add: pcb_ok_def)
  moreover have "mapped_top 1 (user_kernel g as) = mapped_top 1 running_kernel"
    by (intro mapped_top_cong) (simp add: same_kernel_def user_kernel_def set_pcb_def)
  ultimately show ?thesis using r by (simp add: stack_ok_def)
qed

lemma user_kernel_fields:
  "boot (user_kernel g as) = 0x600000" "screen_x (user_kernel g as) = 0" "screen_y (user_kernel g as) = 0"
  "ram (user_kernel g as) x = g (unat (x - 0x600000))" "args (curr_pcb (user_kernel g as) ! 0) = as @ replicate (128 - length as) 0"
proof -
  have r: "screen_x running_kernel = 0" "screen_y running_kernel = 0" "boot running_kernel = 0x600000" "length (curr_pcb running_kernel) = 6"
    by (simp_all add: running_kernel_def map_program_def Let_def page_init_def pageEnable_def spawnDir_def flushTLB_def chgDir_def
        tiny_kernel_def paging_state.defs blank_paging_def keyboard_state.defs idle_keyboard_def)
  show "boot (user_kernel g as) = 0x600000" "screen_x (user_kernel g as) = 0" "screen_y (user_kernel g as) = 0"
    "ram (user_kernel g as) x = g (unat (x - 0x600000))" "args (curr_pcb (user_kernel g as) ! 0) = as @ replicate (128 - length as) 0"
    using r by (simp_all add: user_kernel_def set_pcb_def)
qed

lemma user_kernel_runs:
  assumes "image_wf g" "image_size g \<le> 0x100000" "0 \<notin> set as" "length as < 128"
  shows "runs 0 64 0x8100000 g as (evs, user_kernel g as)"
proof -
  have "128 - length as = Suc (127 - length as)" using assms(4) by simp
  then have "cstr (as @ replicate (128 - length as) 0) = as" using assms(3) by (simp only: replicate_Suc) simp
  moreover have "image_home g 0x600000" using assms(2) by (simp add: image_home_def)
  moreover have "same_image g (fs (user_kernel g as))"
    using assms(2) by (simp add: same_image_def fs_def user_kernel_fields unat_of_nat)
  ultimately show ?thesis
    using user_kernel_stack [of as g] assms(1,4) by (simp add: runs_def on_screen_def user_kernel_fields buffer_at_def)
qed

lemma user_kernel_closed: "\<exists>fd \<in> {2..7}. kfds 0 img (evs, user_kernel g as) fd = Closed"
proof -
  have "flag (file_desc_tb (curr_pcb (user_kernel g as) ! 0) ! 2) = 0"
    using new_pcb_table [of blank_pcb 2 0 tiny_kernel] by (simp add: user_kernel_def set_pcb_def running_kernel_def blank_pcb_def)
  then show ?thesis by (intro bexI [of _ 2]) (simp_all add: kfds_def descriptor_of_def)
qed

lemma exe_image_low: "i < 64 \<or> 64 + length w \<le> i \<Longrightarrow> exe_image w i = exe_image [] i"
  by (auto simp: exe_image_def)

lemma exe_image_small: "length w < 32 \<Longrightarrow> image_size (exe_image w) = 12288"
  by (simp add: image_size_def boot_nnod_def boot_nblck_def load_le32_def exe_image_low [of _ w]) (simp add: exe_image_def)

lemma exe_image_wf:
  assumes "w \<noteq> []" "length w < 32" "0 \<notin> set w"
  shows "image_wf (exe_image w)"
proof -
  note f = exe_image_file [of "exe_image w" w, OF refl assms(2,3)]
  have low: "exe_image w i = exe_image [] i" if "i < 64 \<or> 96 \<le> i" for i using exe_image_low [of i w] that assms(2) by auto
  have "length (name (boot_dirs (exe_image w) 0)) = 32" by (simp add: boot_dirs_def Let_def)
  then have "view_take (list_view (name (boot_dirs (exe_image w) 0))) 32 = name (boot_dirs (exe_image w) 0)"
    using view_take_list_view [of "name (boot_dirs (exe_image w) 0)"] by (simp only:)
  then have nm: "entry_name (boot_dirs (exe_image w) 0) = w" using f(5) by (simp add: entry_name_def cstr_take_def)
  have "name (boot_dirs (exe_image w) 1) = replicate 32 0"
    by (rule nth_equalityI; simp add: boot_dirs_def Let_def low nth_Cons' del: upt_rec_numeral) (simp add: exe_image_def)
  moreover have "inode_wf (exe_image w) 0"
    by (auto simp: inode_wf_def boot_nnod_def boot_nblck_def inode_len_def inode_data_def inode_at_def BLKSIZE_def load_le32_def low)
      (auto simp: exe_image_def)
  ultimately show ?thesis
    using f(2,3,6) nm assms(1,2) by (simp add: image_wf_def entry_wf_def) (simp add: entry_name_def)
qed

text \<open>An image with a directory only, whose one entry is the directory itself.\<close>

definition dir_image :: cptr where
  "dir_image i = (if i = 0 \<or> i = 96 then 1 else if i = 64 then 0x2E else 0)"

lemma dir_image_small: "image_size dir_image = 4096"
  by (simp add: image_size_def boot_nnod_def boot_nblck_def load_le32_def dir_image_def)

lemma dir_image_fields:
  "boot_nent dir_image = 1" "name (boot_dirs dir_image 0) = 0x2E # replicate 31 0" "name (boot_dirs dir_image 1) = replicate 32 0"
  "ft (boot_dirs dir_image 0) = 1"
proof -
  show "boot_nent dir_image = 1" "ft (boot_dirs dir_image 0) = 1"
    by (simp_all add: boot_nent_def boot_dirs_def Let_def load_le32_def dir_image_def)
  show "name (boot_dirs dir_image 0) = 0x2E # replicate 31 0" "name (boot_dirs dir_image 1) = replicate 32 0"
    by (rule nth_equalityI; simp add: boot_dirs_def Let_def dir_image_def nth_Cons' del: upt_rec_numeral)+
qed

lemma dir_image_wf: "image_wf dir_image"
  using dir_image_fields by (simp add: image_wf_def entry_wf_def entry_name_def)

lemma dir_image_node: "image_node dir_image [0x2E] = Some (Dir [[0x2E]])"
proof -
  have "cstr_take (list_view [0x2E]) 32 = [0x2E :: byte]" by (subst cstr_take_list) simp_all
  moreover have "view_take (list_view (0x2E # replicate 31 0)) 32 = (0x2E # replicate 31 0 :: byte list)"
    using view_take_list_view [of "0x2E # replicate 31 0"] by simp
  then have "cstr_take (list_view (0x2E # replicate 31 0)) 32 = [0x2E :: byte]" by (simp add: cstr_take_def)
  ultimately show ?thesis
    using dir_image_fields
    by (simp add: image_node_def read_dentry_by_name_def dentry_search_find strncmp_zero_iff entry_name_def)
qed

section \<open>Properties\<close>

text \<open>C7. \<open>cat\<close> on the kernel: when a program runs (\<open>runs\<close>) with the name of a file as
  its argument and has a free descriptor, then \<open>cat\<close>, with each of its system calls made to the kernel,
  returns 0, and the screen has become what the console shows after the bytes of the file, in order and each once,
  however long the file is; the file must not contain tabs. The file system must have a well-formed image (theory
  \<open>Image\<close>; names of 1 to 32 bytes, known types, existing inodes and blocks, an unnamed entry behind the
  last, as the image of the sources has them) in the kernel's page; the cursor must be on the screen.\<close>

theorem cat_prints:
  assumes "runs k depth B img a (evs, s)" "a \<noteq> []" "image_node img a = Some (File c)" "0x09 \<notin> set c"
    and "\<exists>fd \<in> {2..7}. kfds k img (evs, s) fd = Closed" "length buf = 1024"
  shows "\<exists>evs' t. cat_main (ksys env depth B) buf (evs, s) = Some (0, evs', t) \<and> runs k depth B img a (evs', t) \<and>
    abs_term t = fold aterm_put c (abs_term s)"
  using kf.cat_copies [OF assms(1-3) _ assms(5,6)] assms(4) by (auto simp: list_all_iff)

theorem cat_prints_witness:
  "\<forall>env. \<exists>evs' t. cat_main (ksys env 64 0x8100000) (replicate 1024 0) ([], user_kernel (exe_image [0x61]) [0x61]) = Some (0, evs', t) \<and>
     abs_term t = fold aterm_put (check_exe @ replicate 20 0 @ [0, 0x80, 0x04, 0x08]) (abs_term (user_kernel (exe_image [0x61]) [0x61]))"
  (is "\<forall>env. ?P env")
proof
  fix env
  have "runs 0 64 0x8100000 (exe_image [0x61]) [0x61] ([], user_kernel (exe_image [0x61]) [0x61])"
    using exe_image_wf by (intro user_kernel_runs) (simp_all add: exe_image_small)
  moreover have "image_node (exe_image [0x61]) [0x61] = Some (File (check_exe @ replicate 20 0 @ [0, 0x80, 0x04, 0x08]))"
    using exe_image_file [of "exe_image [0x61]" "[0x61]"] by (simp add: image_node_def)
  moreover have "0x09 \<notin> set (check_exe @ replicate 20 0 @ [0, 0x80, 0x04, 0x08])" by (simp add: check_exe_def)
  ultimately show "?P env"
    using cat_prints [of 0 64 "0x8100000" "exe_image [0x61]" "[0x61]" "[]" "user_kernel (exe_image [0x61]) [0x61]" _ "replicate 1024 0" env]
      user_kernel_closed [of "exe_image [0x61]" "[]" "exe_image [0x61]" "[0x61]"] by auto
qed

text \<open>C18. Errors of \<open>cat\<close>: without an argument, or when no file has the name, it prints its
  message, opens nothing and returns 3 or 2. The file system must have a well-formed image (theory
  \<open>Image\<close>; names of 1 to 32 bytes, known types, existing inodes and blocks, an unnamed entry behind the
  last, as the image of the sources has them) in the kernel's page.\<close>

theorem cat_refuses:
  assumes "runs k depth B img a (evs, s)" "a = [] \<or> image_node img a = None" "length buf = 1024"
  shows "\<exists>evs' t. cat_main (ksys env depth B) buf (evs, s) = Some (if a = [] then 3 else 2, evs', t) \<and>
    kfds k img (evs', t) = kfds k img (evs, s) \<and>
    abs_term t = fold aterm_put (ascii (if a = [] then ''could not read arguments'' else ''file not found'') @ [0x0A]) (abs_term s)"
proof -
  have "list_all (\<lambda>b. b \<noteq> 0x09) (ascii ''could not read arguments'' @ ascii ''file not found'' @ [0x0A])"
    by (simp add: ascii_def)
  from kf.cat_fails [OF assms this, where env = env] show ?thesis by auto
qed

theorem cat_refuses_witness:
  "\<forall>env. \<exists>evs' t. cat_main (ksys env 64 0x8100000) (replicate 1024 0) ([], user_kernel (exe_image [0x61]) []) = Some (3, evs', t)"
  (is "\<forall>env. ?P env")
proof
  fix env
  have "runs 0 64 0x8100000 (exe_image [0x61]) [] ([], user_kernel (exe_image [0x61]) [])"
    using exe_image_wf by (intro user_kernel_runs) (simp_all add: exe_image_small)
  from cat_refuses [OF this, of "replicate 1024 0" env] show "?P env" by auto
qed

text \<open>C8. \<open>ls\<close> on the kernel lists the directory: it prints the names of all entries of the image
  in their order, each on a line of its own, and returns 0; the names must not contain tabs and a descriptor must be
  free. The file system must have a well-formed image (theory \<open>Image\<close>; names of 1 to 32 bytes, known
  types, existing inodes and blocks, an unnamed entry behind the last, as the image of the sources has them) in the
  kernel's page.\<close>

theorem ls_prints:
  assumes "runs k depth B img a (evs, s)" "image_node img [0x2E] = Some (Dir nms)" "0x09 \<notin> \<Union> (set ` set nms)"
    and "\<exists>fd \<in> {2..7}. kfds k img (evs, s) fd = Closed" "length buf = 33"
  shows "\<exists>evs' t. ls_main (ksys env depth B) buf (evs, s) = Some (0, evs', t) \<and> runs k depth B img a (evs', t) \<and>
    abs_term t = fold (\<lambda>nm. fold aterm_put (nm @ [0x0A])) nms (abs_term s)"
  using kf.ls_lists [OF assms(1,2) _ _ assms(4,5)] assms(3) by (auto simp: list_all_iff)


theorem ls_prints_witness:
  "\<forall>env. \<exists>evs' t. ls_main (ksys env 64 0x8100000) (replicate 33 0) ([], user_kernel dir_image []) = Some (0, evs', t) \<and>
     abs_term t = fold aterm_put [0x2E, 0x0A] (abs_term (user_kernel dir_image []))"
  (is "\<forall>env. ?P env")
proof
  fix env
  have "runs 0 64 0x8100000 dir_image [] ([], user_kernel dir_image [])"
    by (intro user_kernel_runs dir_image_wf) (simp_all add: dir_image_small)
  from ls_prints [OF this dir_image_node _ user_kernel_closed, of "replicate 33 0" env] show "?P env" by auto
qed

end
