(* ===== verification/Syserr.thy ===== *)
theory Syserr
  imports UserSpec
begin

text \<open>
  The program \<^verbatim>\<open>src/syscalls/ece391syserr.c\<close>, which tests how the system calls refuse wrong arguments,
  and what the calls have to promise for its tests to pass.
\<close>

section \<open>Definitions\<close>

definition NEG_FD :: int where "NEG_FD = -1073741823"
definition BIG_FD :: int where "BIG_FD = 1073741823"
definition BIG_NUM :: int where "BIG_NUM = 1073741823"
definition NEG_NUM :: int where "NEG_NUM = -1073741823"

text \<open>The message for a call that did not fail, and the message at the end of a test.\<close>

definition unexpected :: "'s usys \<Rightarrow> int \<Rightarrow> string \<Rightarrow> int \<Rightarrow> 's \<Rightarrow> (int \<times> 's) option" where
  "unexpected sys r msg fail s = (if -1 \<noteq> r then complain sys msg 2 s else Some (fail, s))"

definition verdict :: "'s usys \<Rightarrow> string \<Rightarrow> int \<Rightarrow> 's \<Rightarrow> (int \<times> 's) option" where
  "verdict sys test fail s = complain sys (test @ (if fail \<noteq> 0 then '': FAIL'' else '': PASS'')) fail s"

text \<open>The tests 1 and 2 differ in the descriptor only.\<close>

definition err_fd :: "'s usys \<Rightarrow> int \<Rightarrow> string \<Rightarrow> byte list \<Rightarrow> 's \<Rightarrow> (int \<times> 's) option" where
  "err_fd sys fd test buf s =
     do { (r, buf, s) \<leftarrow> ece391_read sys fd buf 31 s;
          (fail, s) \<leftarrow> unexpected sys r ''read fail'' 0 s;
          (r, s) \<leftarrow> ece391_write sys fd buf 31 s;
          (fail, s) \<leftarrow> unexpected sys r ''write fail'' fail s;
          (r, s) \<leftarrow> ece391_close sys fd s;
          (fail, s) \<leftarrow> unexpected sys r ''close fail'' fail s;
          verdict sys test fail s }"

definition err_neg_fd where "err_neg_fd sys buf s = err_fd sys NEG_FD ''err_neg_fd'' buf s"
definition err_big_fd where "err_big_fd sys buf s = err_fd sys BIG_FD ''err_big_fd'' buf s"

primrec open_lots :: "'s usys \<Rightarrow> nat \<Rightarrow> int \<Rightarrow> 's \<Rightarrow> (int \<times> 's) option" where
  "open_lots sys 0 cnt s = Some (cnt, s)"
| "open_lots sys (Suc n) cnt s =
     do { (r, s) \<leftarrow> ece391_open sys (lit ''.'') s;
          open_lots sys n (if r = -1 then cnt + 1 else cnt) s }"

fun close_fds :: "'s usys \<Rightarrow> int list \<Rightarrow> 's \<Rightarrow> 's option" where
  "close_fds sys [] s = Some s"
| "close_fds sys (i # is) s = do { (_, s) \<leftarrow> ece391_close sys i s; close_fds sys is s }"

definition err_open_lots :: "'s usys \<Rightarrow> 's \<Rightarrow> (int \<times> 's) option" where
  "err_open_lots sys s =
     do { (cnt, s) \<leftarrow> open_lots sys 7 0 s;
          s \<leftarrow> close_fds sys [2, 3, 4, 5, 6, 7] s;
          if cnt = 1 then complain sys ''err_open_lots: PASS'' 0 s
          else complain sys ''err_open_lots: FAIL'' 2 s }"

definition err_open :: "'s usys \<Rightarrow> 's \<Rightarrow> (int \<times> 's) option" where
  "err_open sys s =
     do { (r, s) \<leftarrow> ece391_open sys (lit ''helloo'') s;
          (fail, s) \<leftarrow> unexpected sys r (CHR 0x27 # ''helloo'' @ CHR 0x27 # '' fail'') 0 s;
          (r, s) \<leftarrow> ece391_open sys (lit ''shel'') s;
          (fail, s) \<leftarrow> unexpected sys r (CHR 0x27 # ''shel'' @ CHR 0x27 # '' fail'') fail s;
          (r, s) \<leftarrow> ece391_open sys (lit '''') s;
          (fail, s) \<leftarrow> unexpected sys r ''empty string fail'' fail s;
          verdict sys ''err_open'' fail s }"

fun close_all :: "'s usys \<Rightarrow> int list \<Rightarrow> int \<Rightarrow> 's \<Rightarrow> (int \<times> 's) option" where
  "close_all sys [] fail s = Some (fail, s)"
| "close_all sys (i # is) fail s =
     do { (r, s) \<leftarrow> ece391_close sys i s;
          (fail, s) \<leftarrow> unexpected sys r ''close unopened or invalid fd fail'' fail s;
          close_all sys is fail s }"

fun read_all :: "'s usys \<Rightarrow> int list \<Rightarrow> int \<Rightarrow> byte list \<Rightarrow> 's \<Rightarrow> (int \<times> byte list \<times> 's) option" where
  "read_all sys [] fail buf s = Some (fail, buf, s)"
| "read_all sys (i # is) fail buf s =
     do { (r, buf, s) \<leftarrow> ece391_read sys i buf 31 s;
          (fail, s) \<leftarrow> unexpected sys r ''read from unopened fd fail'' fail s;
          read_all sys is fail buf s }"

fun write_all :: "'s usys \<Rightarrow> int list \<Rightarrow> int \<Rightarrow> byte list \<Rightarrow> 's \<Rightarrow> (int \<times> 's) option" where
  "write_all sys [] fail buf s = Some (fail, s)"
| "write_all sys (i # is) fail buf s =
     do { (r, s) \<leftarrow> ece391_write sys i buf 31 s;
          (fail, s) \<leftarrow> unexpected sys r ''write to unopened fd fail'' fail s;
          write_all sys is fail buf s }"

definition err_unopened :: "'s usys \<Rightarrow> byte list \<Rightarrow> 's \<Rightarrow> (int \<times> 's) option" where
  "err_unopened sys buf s =
     do { (fail, s) \<leftarrow> close_all sys [0, 1, 2, 3, 4, 5, 6, 7] 0 s;
          (fail, buf, s) \<leftarrow> read_all sys [2, 3, 4, 5, 6, 7] fail buf s;
          (fail, s) \<leftarrow> write_all sys [2, 3, 4, 5, 6, 7] fail buf s;
          verdict sys ''err_unopened'' fail s }"

definition err_vidmap :: "'s usys \<Rightarrow> 's \<Rightarrow> (int \<times> 's) option" where
  "err_vidmap sys s =
     do { (r, s) \<leftarrow> ece391_vidmap sys 0x0 s;
          (fail, s) \<leftarrow> unexpected sys r ''Null pointer fail'' 0 s;
          (r, s) \<leftarrow> ece391_vidmap sys 0x400000 s;
          (fail, s) \<leftarrow> unexpected sys r ''Kernel pointer fail fail'' fail s;
          verdict sys ''err_vidmap'' fail s }"

definition err_stdin_out :: "'s usys \<Rightarrow> byte list \<Rightarrow> 's \<Rightarrow> (int \<times> 's) option" where
  "err_stdin_out sys buf s =
     do { (r, s) \<leftarrow> ece391_write sys 0 buf 31 s;
          (fail, s) \<leftarrow> unexpected sys r ''write to stdin fail'' 0 s;
          (r, buf, s) \<leftarrow> ece391_read sys 1 buf 31 s;
          (fail, s) \<leftarrow> unexpected sys r ''read from stdout fail'' fail s;
          verdict sys ''err_stdin_out'' fail s }"

definition err_syscall_num :: "'s usys \<Rightarrow> 's \<Rightarrow> (int \<times> 's) option" where
  "err_syscall_num sys s =
     do { (r, s) \<leftarrow> call_sys sys BIG_NUM s;
          (fail, s) \<leftarrow> unexpected sys r ''syscall 0 fail'' 0 s;
          (r, s) \<leftarrow> call_sys sys NEG_NUM s;
          (fail, s) \<leftarrow> unexpected sys r ''big num syscall fail'' fail s;
          (r, s) \<leftarrow> call_sys sys 0 s;
          (fail, s) \<leftarrow> unexpected sys r ''neg num syscall fail'' fail s;
          verdict sys ''err_syscall_num'' fail s }"

text \<open>The case 0 of \<open>main\<close>, all tests; \<open>buf\<close> stands for the arrays of the tests, which are not initialised.\<close>

definition err_all :: "'s usys \<Rightarrow> byte list \<Rightarrow> 's \<Rightarrow> (int \<times> 's) option" where
  "err_all sys buf s =
     do { (f1, s) \<leftarrow> err_neg_fd sys buf s;
          (f2, s) \<leftarrow> err_big_fd sys buf s;
          (f3, s) \<leftarrow> err_open_lots sys s;
          (f4, s) \<leftarrow> err_open sys s;
          (f5, s) \<leftarrow> err_unopened sys buf s;
          (f6, s) \<leftarrow> err_vidmap sys s;
          (f7, s) \<leftarrow> err_stdin_out sys buf s;
          (f8, s) \<leftarrow> err_syscall_num sys s;
          let fail = f1 + f2 + f3 + f4 + f5 + f6 + f7 + f8;
          s \<leftarrow> ece391_fdputs sys 1 (0x0A # litn (if fail \<noteq> 0 then ''Overall Tests: FAIL'' else ''Overall Tests: PASS'')) s;
          Some (fail, s) }"

definition syserr_main :: "'s usys \<Rightarrow> byte list \<Rightarrow> byte list \<Rightarrow> 's \<Rightarrow> (int \<times> 's) option" where
  "syserr_main sys line buf s =
     do { s \<leftarrow> ece391_fdputs sys 1 (lit ''Choose from tests 1-8. 0 to run all: '') s;
          (cnt, line, s) \<leftarrow> ece391_read sys 0 line 127 s;
          if cnt = -1 then complain sys ''Can't read test #'' 2 s
          else do {
            b \<leftarrow> element line 0;
            let sel = uint b - 0x30;
            if sel = 0 then err_all sys buf s
            else if sel = 1 then err_neg_fd sys buf s
            else if sel = 2 then err_big_fd sys buf s
            else if sel = 3 then err_open_lots sys s
            else if sel = 4 then err_open sys s
            else if sel = 5 then err_unopened sys buf s
            else if sel = 6 then err_vidmap sys s
            else if sel = 7 then err_stdin_out sys buf s
            else if sel = 8 then err_syscall_num sys s
            else do { s \<leftarrow> ece391_fdputs sys 1 (lit ''Invalid test number. Choose from tests 1-8 or 0'') s;
                      Some (0, s) } } }"

section \<open>What the tests rely on\<close>

text \<open>A call that is refused: it returns -1 and leaves everything as it was.\<close>

locale error_calls = file_calls sys ok shown out plain fds node argument
  for sys :: "'s usys" and ok :: "'s \<Rightarrow> bool" and shown :: "'s \<Rightarrow> 'o" and out :: "byte list \<Rightarrow> 'o \<Rightarrow> 'o"
    and plain :: "byte \<Rightarrow> bool" and fds :: "'s \<Rightarrow> int \<Rightarrow> descriptor" and node :: "byte list \<Rightarrow> descriptor option" and argument :: "byte list" +
  assumes read_refused: "ok s \<Longrightarrow> fd \<in> {NEG_FD, BIG_FD, 1} \<or> fd \<in> {2..7} \<and> fds s fd = Closed \<Longrightarrow> length buf = 32 \<Longrightarrow>
      \<exists>t. ece391_read sys fd buf 31 s = Some (-1, buf, t) \<and> ok t \<and> shown t = shown s \<and> fds t = fds s"
    and write_refused: "ok s \<Longrightarrow> fd \<in> {NEG_FD, BIG_FD, 0} \<or> fd \<in> {2..7} \<and> fds s fd = Closed \<Longrightarrow> length buf = 32 \<Longrightarrow>
      \<exists>t. ece391_write sys fd buf 31 s = Some (-1, t) \<and> ok t \<and> shown t = shown s \<and> fds t = fds s"
    and close_refused: "ok s \<Longrightarrow> fd \<in> {NEG_FD, BIG_FD, 0, 1} \<or> fd \<in> {2..7} \<and> fds s fd = Closed \<Longrightarrow>
      \<exists>t. ece391_close sys fd s = Some (-1, t) \<and> ok t \<and> shown t = shown s \<and> fds t = fds s"
    and close_closes: "ok s \<Longrightarrow> fd \<in> {2..7} \<Longrightarrow> fds s fd \<noteq> Closed \<Longrightarrow>
      \<exists>t. ece391_close sys fd s = Some (0, t) \<and> ok t \<and> shown t = shown s \<and> fds t = (fds s)(fd := Closed)"
    and open_lowest: "ok s \<Longrightarrow> 0 \<in> set buf \<Longrightarrow> length buf \<le> 4096 \<Longrightarrow> node (cstr buf) = Some d \<Longrightarrow> fd \<in> {2..7} \<Longrightarrow> fds s fd = Closed \<Longrightarrow>
      \<forall>j \<in> {2..<fd}. fds s j \<noteq> Closed \<Longrightarrow>
      \<exists>t. ece391_open sys buf s = Some (fd, t) \<and> ok t \<and> shown t = shown s \<and> fds t = (fds s)(fd := d)"
    and open_full: "ok s \<Longrightarrow> 0 \<in> set buf \<Longrightarrow> length buf \<le> 4096 \<Longrightarrow> node (cstr buf) = Some d \<Longrightarrow> \<forall>j \<in> {2..7}. fds s j \<noteq> Closed \<Longrightarrow>
      \<exists>t. ece391_open sys buf s = Some (-1, t) \<and> ok t \<and> shown t = shown s \<and> fds t = fds s"
    and vidmap_refused: "ok s \<Longrightarrow> p < 0x8000000 \<Longrightarrow> \<exists>t. ece391_vidmap sys p s = Some (-1, t) \<and> ok t \<and> shown t = shown s \<and> fds t = fds s"
    and number_refused: "ok s \<Longrightarrow> num \<in> {BIG_NUM, NEG_NUM, 0} \<Longrightarrow>
      \<exists>t. call_sys sys num s = Some (-1, t) \<and> ok t \<and> shown t = shown s \<and> fds t = fds s"
    and node_open: "node nm \<noteq> Some Closed"
    and plain_text: "b = 0x0A \<or> 0x20 \<le> b \<Longrightarrow> plain b"
begin

lemma unexpected_none: "unexpected sys (-1) msg fail s = Some (fail, s)"
  by (simp add: unexpected_def)

text \<open>A test that passes: it prints that, returns 0 and leaves the descriptors alone.\<close>

definition passes :: "('s \<Rightarrow> (int \<times> 's) option) \<Rightarrow> string \<Rightarrow> 's \<Rightarrow> bool" where
  "passes f test s \<longleftrightarrow> (\<exists>t. f s = Some (0, t) \<and> ok t \<and> fds t = fds s \<and> shown t = out (ascii (test @ '': PASS'') @ [0x0A]) (shown s))"

lemma printable: "list_all (\<lambda>b. 0x20 \<le> b) w \<Longrightarrow> 0 \<notin> set w \<and> list_all plain (w @ [0x0A])"
  using plain_text by (induction w) auto

lemma complain_passes:
  assumes "ok s" "list_all (\<lambda>b. 0x20 \<le> b) (ascii (test @ '': PASS''))" "length test < 100"
  shows "passes (complain sys (test @ '': PASS'') 0) test s"
  using complain_shows [OF assms(1), of "test @ '': PASS''" 0] printable [OF assms(2)] assms(3) by (auto simp: passes_def)

lemma verdict_passes:
  "ok t \<Longrightarrow> list_all (\<lambda>b. 0x20 \<le> b) (ascii (test @ '': PASS'')) \<Longrightarrow> length test < 100 \<Longrightarrow> shown t = shown s \<Longrightarrow> fds t = fds s \<Longrightarrow>
     f s = verdict sys test 0 t \<Longrightarrow> passes f test s"
  using complain_passes [of t test] by (auto simp: verdict_def passes_def)

lemma err_fd_passes:
  assumes "ok s" "fd = NEG_FD \<or> fd = BIG_FD" "length buf = 32" "list_all (\<lambda>b. 0x20 \<le> b) (ascii (test @ '': PASS''))" "length test < 100"
  shows "passes (err_fd sys fd test buf) test s"
proof -
  obtain t where t: "ece391_read sys fd buf 31 s = Some (-1, buf, t)" "ok t" "shown t = shown s" "fds t = fds s"
    using read_refused [OF assms(1) _ assms(3), of fd] assms(2) by auto
  obtain u where u: "ece391_write sys fd buf 31 t = Some (-1, u)" "ok u" "shown u = shown s" "fds u = fds s"
    using write_refused [OF t(2) _ assms(3), of fd] assms(2) t(3,4) by auto
  obtain v where v: "ece391_close sys fd u = Some (-1, v)" "ok v" "shown v = shown s" "fds v = fds s"
    using close_refused [OF u(2), of fd] assms(2) u(3,4) by auto
  show ?thesis using v(2) assms(4,5) v(3,4) by (rule verdict_passes) (simp add: err_fd_def t u v unexpected_none)
qed

subsection \<open>Opening too much\<close>

lemma open_lots_count:
  assumes "node [0x2E] = Some d"
  shows "ok s \<Longrightarrow> 2 \<le> fd \<Longrightarrow> fd \<le> 8 \<Longrightarrow> \<forall>j \<in> {2..<fd}. fds s j \<noteq> Closed \<Longrightarrow> \<forall>j \<in> {fd..7}. fds s j = Closed \<Longrightarrow>
     \<exists>t. open_lots sys n cnt s = Some (cnt + max 0 (int n - (8 - fd)), t) \<and> ok t \<and> shown t = shown s \<and>
       fds t = (\<lambda>j. if fd \<le> j \<and> j < 8 \<and> j < fd + int n then d else fds s j)"
proof (induction n arbitrary: fd cnt s)
  case 0
  then show ?case by (auto simp: fun_eq_iff)
next
  case (Suc n)
  have dot: "cstr (lit ''.'') = [0x2E]" "0 \<in> set (lit ''.'')" "length (lit ''.'') \<le> 4096" by (simp_all add: cstr_def lit_def ascii_def)
  have d: "d \<noteq> Closed" using node_open assms by metis
  show ?case
  proof (cases "fd = 8")
    case True
    then obtain t where t: "ece391_open sys (lit ''.'') s = Some (-1, t)" "ok t" "shown t = shown s" "fds t = fds s"
      using open_full [OF Suc.prems(1) dot(2,3), unfolded dot(1), OF assms] Suc.prems(4) by auto
    then show ?thesis using Suc.IH [OF t(2) Suc.prems(2,3), of "cnt + 1"] Suc.prems(4,5) True by (auto simp: fun_eq_iff)
  next
    case False
    then have fd: "fd \<in> {2..7}" "fds s fd = Closed" using Suc.prems(2,3,5) by auto
    obtain t where t: "ece391_open sys (lit ''.'') s = Some (fd, t)" "ok t" "shown t = shown s" "fds t = (fds s)(fd := d)"
      using open_lowest [OF Suc.prems(1) dot(2,3), unfolded dot(1), OF assms fd Suc.prems(4)] by auto
    have "\<forall>j \<in> {2..<fd + 1}. fds t j \<noteq> Closed" "\<forall>j \<in> {fd + 1..7}. fds t j = Closed"
      using Suc.prems(4,5) t(4) d by auto
    then obtain u where u: "open_lots sys n cnt t = Some (cnt + max 0 (int n - (8 - (fd + 1))), u)" "ok u" "shown u = shown t"
        "fds u = (\<lambda>j. if fd + 1 \<le> j \<and> j < 8 \<and> j < fd + 1 + int n then d else fds t j)"
      using Suc.IH [OF t(2), of "fd + 1" cnt] Suc.prems(2) fd(1) by auto
    then show ?thesis using t fd(1) by (auto simp: fun_eq_iff)
  qed
qed

lemma close_fds_closes:
  "ok s \<Longrightarrow> distinct is \<Longrightarrow> set is \<subseteq> {2..7} \<Longrightarrow> \<forall>i \<in> set is. fds s i \<noteq> Closed \<Longrightarrow>
     \<exists>t. close_fds sys is s = Some t \<and> ok t \<and> shown t = shown s \<and> fds t = (\<lambda>j. if j \<in> set is then Closed else fds s j)"
proof (induction "is" arbitrary: s)
  case (Cons i "is")
  then obtain t where t: "ece391_close sys i s = Some (0, t)" "ok t" "shown t = shown s" "fds t = (fds s)(i := Closed)"
    using close_closes [of s i] by auto
  have "\<forall>j \<in> set is. fds t j \<noteq> Closed" using Cons.prems(2,4) t(4) by auto
  then obtain u where "close_fds sys is t = Some u" "ok u" "shown u = shown t" "fds u = (\<lambda>j. if j \<in> set is then Closed else fds t j)"
    using Cons.IH [OF t(2)] Cons.prems(2,3) by auto
  then show ?case using t by (auto simp: fun_eq_iff)
qed simp

lemma err_open_lots_passes:
  assumes "ok s" "node [0x2E] = Some d" "\<forall>j \<in> {2..7}. fds s j = Closed"
  shows "passes (err_open_lots sys) ''err_open_lots'' s"
proof -
  have d: "d \<noteq> Closed" using node_open assms(2) by metis
  obtain t where t: "open_lots sys 7 0 s = Some (1, t)" "ok t" "shown t = shown s"
      "fds t = (\<lambda>j. if 2 \<le> j \<and> j < 8 \<and> j < 2 + int 7 then d else fds s j)"
    using open_lots_count [OF assms(2,1), of 2 7 0] assms(3) by auto
  obtain u where u: "close_fds sys [2, 3, 4, 5, 6, 7] t = Some u" "ok u" "shown u = shown s"
      "fds u = (\<lambda>j. if j \<in> set [2, 3, 4, 5, 6, 7] then Closed else fds t j)"
    using close_fds_closes [OF t(2), of "[2, 3, 4, 5, 6, 7]"] t(3,4) d by auto
  have "fds u = fds s" using assms(3) by (auto simp: u(4) t(4) fun_eq_iff)
  then show ?thesis
    using complain_passes [OF u(2), of "''err_open_lots''"] u(3) by (simp add: passes_def err_open_lots_def t(1) u(1) ascii_def del: close_fds.simps)
qed

subsection \<open>The other tests\<close>

lemma open_none: "ok s \<Longrightarrow> node (ascii w) = None \<Longrightarrow> 0 \<notin> set (ascii w) \<Longrightarrow> length w < 100 \<Longrightarrow>
    \<exists>t. ece391_open sys (lit w) s = Some (-1, t) \<and> ok t \<and> shown t = shown s \<and> fds t = fds s"
  using open_missing [of s "lit w"] by (simp add: lit_def)

lemma err_open_passes:
  assumes "ok s" "node (ascii ''helloo'') = None" "node (ascii ''shel'') = None" "node [] = None"
  shows "passes (err_open sys) ''err_open'' s"
proof -
  obtain t where t: "ece391_open sys (lit ''helloo'') s = Some (-1, t)" "ok t" "shown t = shown s" "fds t = fds s"
    using open_none [OF assms(1,2)] by (auto simp: ascii_def)
  obtain u where u: "ece391_open sys (lit ''shel'') t = Some (-1, u)" "ok u" "shown u = shown s" "fds u = fds s"
    using open_none [OF t(2) assms(3)] t(3,4) by (auto simp: ascii_def)
  obtain v where v: "ece391_open sys (lit []) u = Some (-1, v)" "ok v" "shown v = shown s" "fds v = fds s"
    using open_none [OF u(2), of "[]"] assms(4) u(3,4) by (auto simp: ascii_def)
  show ?thesis using v(2) _ _ v(3,4) by (rule verdict_passes) (simp_all add: err_open_def t u v unexpected_none ascii_def)
qed

lemma close_all_refused:
  "ok s \<Longrightarrow> \<forall>i \<in> set is. i \<in> {0, 1} \<or> i \<in> {2..7} \<and> fds s i = Closed \<Longrightarrow>
     \<exists>t. close_all sys is fail s = Some (fail, t) \<and> ok t \<and> shown t = shown s \<and> fds t = fds s"
proof (induction "is" arbitrary: s)
  case (Cons i "is")
  then obtain t where t: "ece391_close sys i s = Some (-1, t)" "ok t" "shown t = shown s" "fds t = fds s"
    using close_refused [of s i] by auto
  then show ?case using Cons.IH [OF t(2)] Cons.prems(2) by (simp add: unexpected_none)
qed simp

lemma read_all_refused:
  "ok s \<Longrightarrow> \<forall>i \<in> set is. i \<in> {2..7} \<and> fds s i = Closed \<Longrightarrow> length buf = 32 \<Longrightarrow>
     \<exists>t. read_all sys is fail buf s = Some (fail, buf, t) \<and> ok t \<and> shown t = shown s \<and> fds t = fds s"
proof (induction "is" arbitrary: s)
  case (Cons i "is")
  then obtain t where t: "ece391_read sys i buf 31 s = Some (-1, buf, t)" "ok t" "shown t = shown s" "fds t = fds s"
    using read_refused [of s i buf] by auto
  then show ?case using Cons.IH [OF t(2)] Cons.prems(2,3) by (simp add: unexpected_none)
qed simp

lemma write_all_refused:
  "ok s \<Longrightarrow> \<forall>i \<in> set is. i \<in> {2..7} \<and> fds s i = Closed \<Longrightarrow> length buf = 32 \<Longrightarrow>
     \<exists>t. write_all sys is fail buf s = Some (fail, t) \<and> ok t \<and> shown t = shown s \<and> fds t = fds s"
proof (induction "is" arbitrary: s)
  case (Cons i "is")
  then obtain t where t: "ece391_write sys i buf 31 s = Some (-1, t)" "ok t" "shown t = shown s" "fds t = fds s"
    using write_refused [of s i buf] by auto
  then show ?case using Cons.IH [OF t(2)] Cons.prems(2,3) by (simp add: unexpected_none)
qed simp

lemma err_unopened_passes:
  assumes "ok s" "\<forall>j \<in> {2..7}. fds s j = Closed" "length buf = 32"
  shows "passes (err_unopened sys buf) ''err_unopened'' s"
proof -
  obtain t where t: "close_all sys [0, 1, 2, 3, 4, 5, 6, 7] 0 s = Some (0, t)" "ok t" "shown t = shown s" "fds t = fds s"
    using close_all_refused [OF assms(1), of "[0, 1, 2, 3, 4, 5, 6, 7]" 0] assms(2) by auto
  obtain u where u: "read_all sys [2, 3, 4, 5, 6, 7] 0 buf t = Some (0, buf, u)" "ok u" "shown u = shown s" "fds u = fds s"
    using read_all_refused [OF t(2) _ assms(3), of "[2, 3, 4, 5, 6, 7]" 0] assms(2) t(3,4) by auto
  obtain v where v: "write_all sys [2, 3, 4, 5, 6, 7] 0 buf u = Some (0, v)" "ok v" "shown v = shown s" "fds v = fds s"
    using write_all_refused [OF u(2) _ assms(3), of "[2, 3, 4, 5, 6, 7]" 0] assms(2) u(3,4) by auto
  show ?thesis using v(2) _ _ v(3,4)
    by (rule verdict_passes) (simp_all add: err_unopened_def t(1) u(1) v(1) ascii_def del: close_all.simps read_all.simps write_all.simps)
qed

lemma err_vidmap_passes:
  assumes "ok s"
  shows "passes (err_vidmap sys) ''err_vidmap'' s"
proof -
  obtain t where t: "ece391_vidmap sys 0 s = Some (-1, t)" "ok t" "shown t = shown s" "fds t = fds s"
    using vidmap_refused [OF assms, of 0] by auto
  obtain u where u: "ece391_vidmap sys 0x400000 t = Some (-1, u)" "ok u" "shown u = shown s" "fds u = fds s"
    using vidmap_refused [OF t(2), of "0x400000"] t(3,4) by auto
  show ?thesis using u(2) _ _ u(3,4) by (rule verdict_passes) (simp_all add: err_vidmap_def t u unexpected_none ascii_def)
qed

lemma err_stdin_out_passes:
  assumes "ok s" "length buf = 32"
  shows "passes (err_stdin_out sys buf) ''err_stdin_out'' s"
proof -
  obtain t where t: "ece391_write sys 0 buf 31 s = Some (-1, t)" "ok t" "shown t = shown s" "fds t = fds s"
    using write_refused [OF assms(1) _ assms(2), of 0] by auto
  obtain u where u: "ece391_read sys 1 buf 31 t = Some (-1, buf, u)" "ok u" "shown u = shown s" "fds u = fds s"
    using read_refused [OF t(2) _ assms(2), of 1] t(3,4) by auto
  show ?thesis using u(2) _ _ u(3,4) by (rule verdict_passes) (simp_all add: err_stdin_out_def t u unexpected_none ascii_def)
qed

lemma err_syscall_num_passes:
  assumes "ok s"
  shows "passes (err_syscall_num sys) ''err_syscall_num'' s"
proof -
  obtain t where t: "call_sys sys BIG_NUM s = Some (-1, t)" "ok t" "shown t = shown s" "fds t = fds s"
    using number_refused [OF assms, of BIG_NUM] by auto
  obtain u where u: "call_sys sys NEG_NUM t = Some (-1, u)" "ok u" "shown u = shown s" "fds u = fds s"
    using number_refused [OF t(2), of NEG_NUM] t(3,4) by auto
  obtain v where v: "call_sys sys 0 u = Some (-1, v)" "ok v" "shown v = shown s" "fds v = fds s"
    using number_refused [OF u(2), of 0] u(3,4) by auto
  show ?thesis using v(2) _ _ v(3,4) by (rule verdict_passes) (simp_all add: err_syscall_num_def t u v unexpected_none ascii_def)
qed

subsection \<open>All tests\<close>

lemma passes_bind:
  assumes "passes f test s"
  obtains t where "f s = Some (0, t)" "ok t" "fds t = fds s" "shown t = out (ascii (test @ '': PASS'') @ [0x0A]) (shown s)"
  using assms by (auto simp: passes_def)

lemma err_all_passes:
  assumes "ok s" "node [0x2E] = Some d" "node (ascii ''helloo'') = None" "node (ascii ''shel'') = None" "node [] = None"
    and "\<forall>j \<in> {2..7}. fds s j = Closed" "length buf = 32"
  shows "\<exists>t. err_all sys buf s = Some (0, t) \<and> ok t \<and> fds t = fds s \<and>
    shown t = out (concat (map (\<lambda>test. ascii (test @ '': PASS'') @ [0x0A]) [''err_neg_fd'', ''err_big_fd'', ''err_open_lots'', ''err_open'',
      ''err_unopened'', ''err_vidmap'', ''err_stdin_out'', ''err_syscall_num'']) @ 0x0A # ascii ''Overall Tests: PASS'' @ [0x0A]) (shown s)"
proof -
  have "passes (err_neg_fd sys buf) ''err_neg_fd'' s"
    unfolding err_neg_fd_def by (rule err_fd_passes) (simp_all add: assms ascii_def)
  then obtain s1 where s1: "err_neg_fd sys buf s = Some (0, s1)" "ok s1" "fds s1 = fds s"
      "shown s1 = out (ascii (''err_neg_fd'' @ '': PASS'') @ [0x0A]) (shown s)" by (rule passes_bind)
  have "passes (err_big_fd sys buf) ''err_big_fd'' s1"
    unfolding err_big_fd_def by (rule err_fd_passes) (simp_all add: assms s1(2) ascii_def)
  then obtain s2 where s2: "err_big_fd sys buf s1 = Some (0, s2)" "ok s2" "fds s2 = fds s1"
      "shown s2 = out (ascii (''err_big_fd'' @ '': PASS'') @ [0x0A]) (shown s1)" by (rule passes_bind)
  obtain s3 where s3: "err_open_lots sys s2 = Some (0, s3)" "ok s3" "fds s3 = fds s2"
      "shown s3 = out (ascii (''err_open_lots'' @ '': PASS'') @ [0x0A]) (shown s2)"
    using err_open_lots_passes [OF s2(2) assms(2)] s1(3) s2(3) assms(6) by (auto elim: passes_bind)
  obtain s4 where s4: "err_open sys s3 = Some (0, s4)" "ok s4" "fds s4 = fds s3"
      "shown s4 = out (ascii (''err_open'' @ '': PASS'') @ [0x0A]) (shown s3)"
    using err_open_passes [OF s3(2) assms(3-5)] by (auto elim: passes_bind)
  obtain s5 where s5: "err_unopened sys buf s4 = Some (0, s5)" "ok s5" "fds s5 = fds s4"
      "shown s5 = out (ascii (''err_unopened'' @ '': PASS'') @ [0x0A]) (shown s4)"
    using err_unopened_passes [OF s4(2) _ assms(7)] s1(3) s2(3) s3(3) s4(3) assms(6) by (auto elim: passes_bind)
  obtain s6 where s6: "err_vidmap sys s5 = Some (0, s6)" "ok s6" "fds s6 = fds s5"
      "shown s6 = out (ascii (''err_vidmap'' @ '': PASS'') @ [0x0A]) (shown s5)"
    using err_vidmap_passes [OF s5(2)] by (auto elim: passes_bind)
  obtain s7 where s7: "err_stdin_out sys buf s6 = Some (0, s7)" "ok s7" "fds s7 = fds s6"
      "shown s7 = out (ascii (''err_stdin_out'' @ '': PASS'') @ [0x0A]) (shown s6)"
    using err_stdin_out_passes [OF s6(2) assms(7)] by (auto elim: passes_bind)
  obtain s8 where s8: "err_syscall_num sys s7 = Some (0, s8)" "ok s8" "fds s8 = fds s7"
      "shown s8 = out (ascii (''err_syscall_num'' @ '': PASS'') @ [0x0A]) (shown s7)"
    using err_syscall_num_passes [OF s7(2)] by (auto elim: passes_bind)
  have "list_all plain (0x0A # ascii ''Overall Tests: PASS'' @ [0x0A])" "0 \<notin> set (0x0A # ascii ''Overall Tests: PASS'' @ [0x0A])"
    using plain_text by (simp_all add: ascii_def)
  then obtain t where t: "ece391_fdputs sys 1 (0x0A # litn ''Overall Tests: PASS'') s8 = Some t" "ok t" "fds t = fds s8"
      "shown t = out (0x0A # ascii ''Overall Tests: PASS'' @ [0x0A]) (shown s8)"
    using fdputs_shows [OF s8(2), of "0x0A # ascii ''Overall Tests: PASS'' @ [0x0A]" "[]"] by (auto simp: litn_def)
  have "err_all sys buf s = Some (0, t)" by (simp add: err_all_def s1 s2 s3 s4 s5 s6 s7 s8 t(1))
  moreover have "fds t = fds s" by (simp only: t(3) s8(3) s7(3) s6(3) s5(3) s4(3) s3(3) s2(3) s1(3))
  moreover have "shown t = out (concat (map (\<lambda>test. ascii (test @ '': PASS'') @ [0x0A]) [''err_neg_fd'', ''err_big_fd'', ''err_open_lots'', ''err_open'',
      ''err_unopened'', ''err_vidmap'', ''err_stdin_out'', ''err_syscall_num'']) @ 0x0A # ascii ''Overall Tests: PASS'' @ [0x0A]) (shown s)"
    by (simp only: list.map concat.simps append_Nil2 out_append out_Nil t(4) s8(4) s7(4) s6(4) s5(4) s4(4) s3(4) s2(4) s1(4))
  ultimately show ?thesis using t(2) by blast
qed

end

end
