(* ===== verification/UserErrors.thy ===== *)
theory UserErrors
  imports UserKernel Syserr
begin

text \<open>
  How the kernel refuses: every call that \<^verbatim>\<open>src/syscalls/ece391syserr.c\<close> makes with wrong arguments
  returns -1 and leaves the screen and the descriptors of the program alone. So the kernel keeps
  the contract \<open>error_calls\<close>, and all tests of that program pass.
\<close>

section \<open>Refused calls\<close>

lemma refused:
  assumes "runs k depth B img a (evs, s)" "length bs \<le> 4096"
  defines "e \<equiv> called k depth B bs s"
  assumes "sys_call_table (\<lambda>_. None) (env_dev env) (env_shell env) (env_beyond env) evs nr ebx ecx edx e = Some (Ret (-1), evs, e)"
    and "nr \<in> {1, 2, 3, 4, 5, 6, 7, 8}"
  shows "\<exists>t. with_bytes bs B (DO_CALL env depth nr ebx ecx edx) (evs, s) = Some (-1, evs, t) \<and>
    user_load t B (length bs) = bs \<and> runs k depth B img a (evs, t) \<and> abs_term t = abs_term s \<and> kfds k img (evs, t) = kfds k img (evs, s)"
proof -
  let ?t = "e\<lparr>iflag := iflag s\<rparr>"
  have s: "stack_ok (Suc k) s" "buffer_at B" using assms(1) by (simp_all add: runs_def)
  note kept = called_back [OF assms(1,2), folded e_def]
  note c = DO_CALL_ret [OF assms(4) [unfolded e_def called_def] assms(5), folded called_def e_def]
  have "with_bytes bs B (DO_CALL env depth nr ebx ecx edx) (evs, s) = Some (-1, evs, ?t)"
    using c buffer_store(2) [OF s assms(2)] by (simp add: with_bytes_def)
  moreover have "stack_ok (Suc k) ?t" using kept by (simp add: runs_def)
  then have "user_load ?t B (length bs) = bs"
    using buffer_load [OF _ s(2) assms(2), of k ?t] called_runs(3) [OF assms(1,2), folded e_def] written_back [OF assms(2)] by simp
  ultimately show ?thesis using kept by blast
qed

lemma with_no_bytes: "with_bytes [] B f (evs, s) = f (evs, s)"
  by (simp add: with_bytes_def)

lemma Closed_flag: "kfds k img (evs, s) fd = Closed \<Longrightarrow> 0 \<le> fd \<and> fd < 8 \<and> flag (file_desc_tb (curr_pcb s ! k) ! nat fd) = 0"
  by (auto simp: kfds_def descriptor_of_def split: if_splits)

lemma open_flag: "0 \<le> fd \<Longrightarrow> fd < 8 \<Longrightarrow> kfds k img (evs, s) fd \<noteq> Closed \<Longrightarrow> flag (file_desc_tb (curr_pcb s ! k) ! nat fd) \<noteq> 0"
  by (auto simp: kfds_def descriptor_of_def)

text \<open>The numbers of the tests at the width of the registers.\<close>

lemma test_fds: "s32 (w32 NEG_FD) = NEG_FD" "s32 (w32 BIG_FD) = BIG_FD" "s32 (w32 0) = 0" "s32 (w32 1) = 1"
  by (rule s32_w32; simp add: NEG_FD_def BIG_FD_def)+

lemma table_fds: "2 \<le> fd \<Longrightarrow> fd \<le> 7 \<Longrightarrow> s32 (w32 fd) = fd"
  by (simp add: s32_small)

lemma refused_fd: "fd \<in> {NEG_FD, BIG_FD, 0, 1} \<or> fd \<in> {2..7} \<Longrightarrow> s32 (w32 fd) = fd"
  using test_fds table_fds by auto

lemma user_read_refused:
  assumes "runs k depth B img a (evs, s)" "fd \<in> {NEG_FD, BIG_FD, 1} \<or> fd \<in> {2..7} \<and> kfds k img (evs, s) fd = Closed" "length buf = 32"
  shows "\<exists>t. ece391_read (ksys env depth B) fd buf 31 (evs, s) = Some (-1, buf, evs, t) \<and>
    runs k depth B img a (evs, t) \<and> abs_term t = abs_term s \<and> kfds k img (evs, t) = kfds k img (evs, s)"
proof -
  define e where "e = called k depth B buf s"
  have l: "length buf \<le> 4096" using assms(3) by simp
  note e = called_runs [OF assms(1) l, folded e_def]
  have fd: "s32 (w32 fd) = fd" using assms(2) by (intro refused_fd) blast
  have "sys_read (env_dev env) evs fd B 31 e = Some (-1, evs, e)"
    using assms(2) e(2,4) Closed_flag [of k img evs s fd] by (auto simp: sys_read_def NEG_FD_def BIG_FD_def pcb_of_def)
  moreover have "s32 (w32 31) = 31" by (rule s32_small) simp_all
  ultimately have "sys_call_table (\<lambda>_. None) (env_dev env) (env_shell env) (env_beyond env) evs 3 (w32 fd) B (w32 31) e = Some (Ret (-1), evs, e)"
    using fd by (simp add: sys_call_table_def)
  from refused [OF assms(1) l this [unfolded e_def]] show ?thesis by (auto simp: ksys_def with_buffer_def)
qed

text \<open>
  The descriptor that \<open>sys_write\<close> reads for the numbers -1073741823 and 1073741823: the product with
  16 wraps around, so that the address stays close to the table, in the memory of the kernel.
\<close>

lemma stray_descriptor:
  assumes "stack_ok (Suc k) e" "fd = NEG_FD \<or> fd = BIG_FD"
  shows "\<exists>pa. page_walk e False False (curr_pcb_addr k + w32 (16 * fd + 12)) = Some pa"
proof -
  have k: "k < 6" "kernel_space e" using assms(1) by (simp_all add: stack_ok_def mapped_top_def)
  define d :: u32 where "d = w32 (16 * fd + 12)"
  have "d = 28 \<or> d = -4" using assms(2) by (auto simp: d_def NEG_FD_def BIG_FD_def)
  moreover have "k \<in> {0, 1, 2, 3, 4, 5}" using k(1) by auto
  ultimately have "0x400000 \<le> unat (curr_pcb_addr k + d) \<and> unat (curr_pcb_addr k + d) < 0x800000"
    by (auto simp: curr_pcb_addr_def fs_consts)
  moreover from this have "unat (curr_pcb_addr k + d) div 4194304 \<noteq> 32" by linarith
  ultimately show ?thesis
    using kernel_space_walk [OF k(2)] boot_space_ranges [of False "curr_pcb_addr k + d"] by (simp add: d_def)
qed

lemma user_write_refused:
  assumes "runs k depth B img a (evs, s)" "fd \<in> {NEG_FD, BIG_FD, 0} \<or> fd \<in> {2..7} \<and> kfds k img (evs, s) fd = Closed" "length buf = 32"
  shows "\<exists>t. ece391_write (ksys env depth B) fd buf 31 (evs, s) = Some (-1, evs, t) \<and>
    runs k depth B img a (evs, t) \<and> abs_term t = abs_term s \<and> kfds k img (evs, t) = kfds k img (evs, s)"
proof -
  define e where "e = called k depth B (take 31 buf) s"
  have l: "length (take 31 buf) \<le> 4096" by simp
  note e = called_runs [OF assms(1) l, folded e_def]
  have ok: "stack_ok (Suc k) e" using e(1) by (simp add: runs_def)
  have fd: "s32 (w32 fd) = fd" using assms(2) by (intro refused_fd) blast
  have "sys_write fd B 31 e = Some (-1, e)"
  proof (cases "fd = NEG_FD \<or> fd = BIG_FD")
    case True
    then have "fd < 0 \<or> fd > 7" by (auto simp: NEG_FD_def BIG_FD_def)
    then show ?thesis using stray_descriptor [OF ok True] e(2) by (auto simp: sys_write_def)
  next
    case False
    then show ?thesis
      using assms(2) e(2,4) Closed_flag [of k img evs s fd] std_fd [OF ok, of 0] by (auto simp: sys_write_def pcb_of_def)
  qed
  moreover have "s32 (w32 31) = 31" by (rule s32_small) simp_all
  ultimately have "sys_call_table (\<lambda>_. None) (env_dev env) (env_shell env) (env_beyond env) evs 4 (w32 fd) B (w32 31) e = Some (Ret (-1), evs, e)"
    using fd by (simp add: sys_call_table_def)
  from refused [OF assms(1) l this [unfolded e_def]] show ?thesis using assms(3) by (auto simp: ksys_def)
qed

text \<open>Calls without a pointer.\<close>

lemmas refused_call = refused [where bs = "[]", simplified with_no_bytes list.size, simplified]

lemma user_close_refused:
  assumes "runs k depth B img a (evs, s)" "fd \<in> {NEG_FD, BIG_FD, 0, 1} \<or> fd \<in> {2..7} \<and> kfds k img (evs, s) fd = Closed"
  shows "\<exists>t. ece391_close (ksys env depth B) fd (evs, s) = Some (-1, evs, t) \<and>
    runs k depth B img a (evs, t) \<and> abs_term t = abs_term s \<and> kfds k img (evs, t) = kfds k img (evs, s)"
proof -
  define e where "e = called k depth B [] s"
  note e = called_runs [OF assms(1), of "[]", folded e_def]
  have fd: "s32 (w32 fd) = fd" using assms(2) by (intro refused_fd) blast
  have "sys_close fd e = Some (-1, e)"
    using assms(2) e(2,4) Closed_flag [of k img evs s fd] by (auto simp: sys_close_def NEG_FD_def BIG_FD_def pcb_of_def)
  then have "sys_call_table (\<lambda>_. None) (env_dev env) (env_shell env) (env_beyond env) evs 6 (w32 fd) 0 0 e = Some (Ret (-1), evs, e)"
    using fd by (simp add: sys_call_table_def)
  from refused_call [OF assms(1) this [unfolded e_def]] show ?thesis by (auto simp: ksys_def)
qed

lemma user_vidmap_refused:
  assumes "runs k depth B img a (evs, s)" "p < 0x8000000"
  shows "\<exists>t. ece391_vidmap (ksys env depth B) p (evs, s) = Some (-1, evs, t) \<and>
    runs k depth B img a (evs, t) \<and> abs_term t = abs_term s \<and> kfds k img (evs, t) = kfds k img (evs, s)"
proof -
  have "sys_call_table (\<lambda>_. None) (env_dev env) (env_shell env) (env_beyond env) evs 8 p 0 0 e = Some (Ret (-1), evs, e)" for e
    using assms(2) by (simp add: sys_call_table_def sys_vidmap_def MB_128_def)
  from refused_call [OF assms(1) this] show ?thesis by (auto simp: ksys_def)
qed

lemma user_number_refused:
  assumes "runs k depth B img a (evs, s)" "num \<in> {BIG_NUM, NEG_NUM, 0}"
  shows "\<exists>t. call_sys (ksys env depth B) num (evs, s) = Some (-1, evs, t) \<and>
    runs k depth B img a (evs, t) \<and> abs_term t = abs_term s \<and> kfds k img (evs, t) = kfds k img (evs, s)"
proof -
  have "w32 num > 9 \<or> sint (w32 num) \<le> 0" using assms(2) by (auto simp: BIG_NUM_def NEG_NUM_def)
  then have "DO_CALL env depth (w32 num) 0 0 0 (evs, s) = Some (-1, evs, (called k depth B [] s)\<lparr>iflag := iflag s\<rparr>)"
    by (auto simp: DO_CALL_def syscall_wrapper_def syscall_exit_def called_def Let_def)
  then show ?thesis using called_back [OF assms(1), of "[]"] by (simp add: ksys_def)
qed

section \<open>Opening and closing\<close>

lemma user_close_closes:
  assumes "runs k depth B img a (evs, s)" "fd \<in> {2..7}" "kfds k img (evs, s) fd \<noteq> Closed"
  shows "\<exists>t. ece391_close (ksys env depth B) fd (evs, s) = Some (0, evs, t) \<and>
    runs k depth B img a (evs, t) \<and> abs_term t = abs_term s \<and> kfds k img (evs, t) = (kfds k img (evs, s))(fd := Closed)"
proof -
  define e where "e = called k depth B [] s"
  define u where "u = set_pcb k (set_fd (nat fd) (\<lambda>f. f\<lparr>flag := 0\<rparr>)) e"
  let ?t = "u\<lparr>iflag := iflag s\<rparr>"
  have s: "stack_ok (Suc k) s" using assms(1) by (simp add: runs_def)
  note e = called_runs [OF assms(1), of "[]", folded e_def]
  have ok: "stack_ok (Suc k) e" using e(1) by (simp add: runs_def)
  have fd: "s32 (w32 fd) = fd" "0 \<le> fd" "nat fd < 8" using assms(2) table_fds by auto
  have "sys_close fd e = Some (0, u)"
    using assms(2) e(2,4) open_flag [OF _ _ assms(3)] by (auto simp: sys_close_def pcb_of_def u_def)
  note st = sys_close_ok [OF ok this]
  have "sys_call_table (\<lambda>_. None) (env_dev env) (env_shell env) (env_beyond env) evs 6 (w32 fd) 0 0 e = Some (Ret 0, evs, u)"
    using fd \<open>sys_close fd e = Some (0, u)\<close> by (simp add: sys_call_table_def)
  note c = DO_CALL_ret [OF this [unfolded e_def called_def]]
  then have "ece391_close (ksys env depth B) fd (evs, s) = Some (0, evs, ?t)" by (simp add: ksys_def)
  moreover have cp: "curr_pcb ?t = (curr_pcb s)[k := set_fd (nat fd) (\<lambda>f. f\<lparr>flag := 0\<rparr>) (curr_pcb s ! k)]"
    using e(4) by (simp add: u_def set_pcb_def)
  note set = kfds_set [OF s fd(3) cp]
  have same: "ram ?t = ram e \<and> screen_x ?t = screen_x e \<and> screen_y ?t = screen_y e \<and> boot ?t = boot e"
    by (simp add: u_def set_pcb_def)
  have "runs k depth B img a (evs, ?t)"
    using e(1)
  proof (rule runs_keeps)
    show "stack_ok (Suc k) ?t" using st by (simp add: stack_ok_iflag)
    show "on_screen ?t" using e(1) same by (simp add: runs_def on_screen_def)
  qed (use same set(2) e(4) in simp_all)
  moreover have "abs_term ?t = abs_term s" using same e(5) by (simp add: abs_term_def)
  ultimately show ?thesis using set(1) [of img evs evs] fd(2) by (simp add: descriptor_of_def)
qed

lemma lowest_fd:
  assumes "stack_ok (Suc k) s" "fd \<in> {2..7}" "kfds k img (evs, s) fd = Closed" "\<forall>j \<in> {2..<fd}. kfds k img (evs, s) j \<noteq> Closed"
  shows "free_fd (curr_pcb s ! k) = Some (nat fd)"
proof -
  obtain i where i: "free_fd (curr_pcb s ! k) = Some i" using closed_fd [OF assms(1)] assms(2,3) by blast
  note r = free_fd_range [OF i]
  have f: "flag (file_desc_tb (curr_pcb s ! k) ! nat fd) = 0" using Closed_flag [OF assms(3)] by blast
  have "\<not> nat fd < i" using r f assms(2) by auto
  moreover have "\<not> i < nat fd"
  proof
    assume "i < nat fd"
    then have "kfds k img (evs, s) (int i) \<noteq> Closed" using r assms(4) by auto
    then show False using open_flag [of "int i" k img evs s] r by simp
  qed
  ultimately show ?thesis using i by simp
qed

lemma no_fd:
  assumes "\<forall>j \<in> {2..7}. kfds k img (evs, s) j \<noteq> Closed"
  shows "free_fd (curr_pcb s ! k) = None"
proof -
  have "flag (file_desc_tb (curr_pcb s ! k) ! j) \<noteq> 0" if "2 \<le> j" "j < 8" for j
    using open_flag [of "int j" k img evs s] assms that by auto
  then show ?thesis by (auto simp: free_fd_def find_None_iff)
qed

lemma user_open_full:
  assumes "runs k depth B img a (evs, s)" "0 \<in> set buf" "length buf \<le> 4096" "image_node img (cstr buf) = Some d"
    and "\<forall>j \<in> {2..7}. kfds k img (evs, s) j \<noteq> Closed"
  shows "\<exists>t. ece391_open (ksys env depth B) buf (evs, s) = Some (-1, evs, t) \<and> runs k depth B img a (evs, t) \<and>
    abs_term t = abs_term s \<and> kfds k img (evs, t) = kfds k img (evs, s)"
proof -
  define e where "e = called k depth B buf s"
  note e = called_runs [OF assms(1,3), folded e_def] and op = user_open [OF assms(1-3), folded e_def]
  have wf: "image_wf img" using assms(1) by (simp add: runs_def)
  obtain dn where dn: "snd (read_dentry_by_name img (list_view (cstr buf))) = Some dn" using assms(4) by (auto simp: image_node_def)
  have "ft dn = 0 \<or> ft dn = 1 \<or> ft dn = 2" using found_entry [OF wf dn] file_type by (auto simp: entry_wf_def)
  then have "sys_open B e = Some (-1, e)"
    using op(1) dn no_fd [OF assms(5)] e(2,4) vreads_mono [OF op(2) search_reads_le]
    by (auto simp: sys_open_def pcb_of_def split: prod.splits option.splits)
  note t = op(3) [OF this]
  show ?thesis using t called_back [OF assms(1,3), folded e_def] by blast
qed

section \<open>The contract\<close>

lemma image_node_open: "image_node img nm \<noteq> Some Closed"
  by (auto simp: image_node_def)

interpretation ke: error_calls "ksys env depth B" "runs k depth B img a" "\<lambda>st. abs_term (snd st)" "fold aterm_put" "\<lambda>b. b \<noteq> 0x09"
  "kfds k img" "image_node img" a
  for env depth B k img a
proof (unfold_locales, goal_cases)
  case (1 st fd buf)
  then show ?case using user_read_refused [of k depth B img a "fst st" "snd st" fd buf env] by fastforce
next
  case (2 st fd buf)
  then show ?case using user_write_refused [of k depth B img a "fst st" "snd st" fd buf env] by fastforce
next
  case (3 st fd)
  then show ?case using user_close_refused [of k depth B img a "fst st" "snd st" fd env] by fastforce
next
  case (4 st fd)
  then show ?case using user_close_closes [of k depth B img a "fst st" "snd st" fd env] by fastforce
next
  case (5 st buf d fd)
  have "stack_ok (Suc k) (snd st)" using 5(1) by (simp add: runs_def)
  from lowest_fd [OF this 5(5), of img "fst st"] 5(6,7) have "free_fd (curr_pcb (snd st) ! k) = Some (nat fd)" by simp
  then show ?case using user_open_at [of k depth B img a "fst st" "snd st" buf d "nat fd" env] 5(1-5) by fastforce
next
  case (6 st buf d)
  then show ?case using user_open_full [of k depth B img a "fst st" "snd st" buf d env] by fastforce
next
  case (7 st p)
  then show ?case using user_vidmap_refused [of k depth B img a "fst st" "snd st" p env] by fastforce
next
  case (8 st num)
  then show ?case using user_number_refused [of k depth B img a "fst st" "snd st" num env] by fastforce
next
  case (9 nm)
  show ?case by (rule image_node_open)
next
  case (10 b)
  then show ?case by (auto simp: word_le_nat_alt)
qed

text \<open>No entry of a well-formed image has the empty name.\<close>

lemma image_node_empty:
  assumes "image_wf img"
  shows "image_node img [] = None"
proof (rule ccontr)
  assume "image_node img [] \<noteq> None"
  then obtain j where j: "j < unat (boot_nent img)" "cstr_take (list_view []) 32 = cstr_take (list_view (name (boot_dirs img j))) 32"
    by (auto simp: image_node_def read_dentry_by_name_def dentry_search_find find_upt strncmp_zero_iff split: option.splits)
  have "cstr_take (list_view []) 32 = ([] :: byte list)" by (subst cstr_take_list) simp_all
  moreover have "cstr_take (list_view (name (boot_dirs img j))) 32 = entry_name (boot_dirs img j)"
    using view_take_list_view [of "name (boot_dirs img j)"] by (simp add: cstr_take_def entry_name_def)
  ultimately show False using assms j by (simp add: image_wf_def list_all_iff entry_wf_def)
qed

section \<open>Properties\<close>

text \<open>C17. The error tests of \<open>syserr\<close> pass on the kernel: when a program runs with no file open, on an image with the entry \<open>.\<close>
  and without the names \<open>helloo\<close> and \<open>shel\<close>, then each wrong call of the eight tests (descriptor numbers out of the range and not
  open, a seventh \<open>open\<close>, names that are not in the image, closing or reading the wrong standard descriptor, bad pointers for
  \<open>vidmap\<close>, bad numbers of calls) is refused with -1; the program prints that every test passed, returns 0 and leaves the
  descriptors as they were. The file system must have a well-formed image (theory \<open>Image\<close>; names of 1 to 32
  bytes, known types, existing inodes and blocks, an unnamed entry behind the last, as the image of the sources has them)
  in the kernel's page.\<close>

theorem syserr_passes:
  assumes "runs k depth B img a (evs, s)" "image_node img (ascii ''.'') \<noteq> None" "image_node img (ascii ''helloo'') = None"
    and "image_node img (ascii ''shel'') = None" "\<forall>fd \<in> {2..7}. kfds k img (evs, s) fd = Closed" "length buf = 32"
  shows "\<exists>evs' t. err_all (ksys env depth B) buf (evs, s) = Some (0, evs', t) \<and> runs k depth B img a (evs', t) \<and>
    kfds k img (evs', t) = kfds k img (evs, s) \<and>
    abs_term t = fold aterm_put (concat (map (\<lambda>test. ascii (test @ '': PASS'') @ [0x0A])
      [''err_neg_fd'', ''err_big_fd'', ''err_open_lots'', ''err_open'', ''err_unopened'', ''err_vidmap'', ''err_stdin_out'', ''err_syscall_num'']) @
      0x0A # ascii ''Overall Tests: PASS'' @ [0x0A]) (abs_term s)"
proof -
  have "image_wf img" using assms(1) by (simp add: runs_def)
  note none = image_node_empty [OF this]
  obtain d where "image_node img [0x2E] = Some d" using assms(2) by (auto simp: ascii_def)
  from ke.err_all_passes [OF assms(1) this assms(3,4) none assms(5,6), where env = env] show ?thesis by auto
qed

lemma user_kernel_fresh: "\<forall>fd \<in> {2..7}. kfds 0 img (evs, user_kernel g as) fd = Closed"
proof
  fix fd :: int
  assume "fd \<in> {2..7}"
  then have fd: "nat fd < 8" "\<not> nat fd < 2" "0 \<le> fd" "fd < 8" by auto
  have "flag (file_desc_tb (curr_pcb (user_kernel g as) ! 0) ! nat fd) = 0"
    using fd new_pcb_table [of blank_pcb "nat fd" 0 tiny_kernel]
    by (simp add: user_kernel_def set_pcb_def running_kernel_def blank_pcb_def blank_fd_def)
  then show "kfds 0 img (evs, user_kernel g as) fd = Closed" using fd by (simp add: kfds_def descriptor_of_def)
qed

lemma dir_image_other:
  assumes "0 \<notin> set nm" "length nm \<le> 32" "nm \<noteq> [0x2E]"
  shows "image_node dir_image nm = None"
proof -
  have "cstr_take (list_view nm) 32 = nm" using assms(1,2) by (subst cstr_take_list) simp_all
  moreover have "view_take (list_view (0x2E # replicate 31 0)) 32 = (0x2E # replicate 31 0 :: byte list)"
    using view_take_list_view [of "0x2E # replicate 31 0"] by simp
  then have "cstr_take (list_view (0x2E # replicate 31 0)) 32 = [0x2E :: byte]" by (simp add: cstr_take_def)
  ultimately show ?thesis
    using dir_image_fields assms(3)
    by (simp add: image_node_def read_dentry_by_name_def dentry_search_find strncmp_zero_iff)
qed

theorem syserr_passes_witness:
  "\<forall>env. \<exists>evs' t. err_all (ksys env 64 0x8100000) (replicate 32 0) ([], user_kernel dir_image []) = Some (0, evs', t)"
  (is "\<forall>env. ?P env")
proof
  fix env
  have r: "runs 0 64 0x8100000 dir_image [] ([], user_kernel dir_image [])"
    by (intro user_kernel_runs dir_image_wf) (simp_all add: dir_image_small)
  have "image_node dir_image (ascii ''.'') \<noteq> None" using dir_image_node by (simp add: ascii_def)
  moreover have "image_node dir_image (ascii ''helloo'') = None" "image_node dir_image (ascii ''shel'') = None"
    by (simp_all add: dir_image_other ascii_def)
  ultimately show "?P env" using syserr_passes [OF r _ _ _ user_kernel_fresh, of "replicate 32 0" env] by auto
qed

end
