(* ===== verification/Echo.thy ===== *)
theory Echo
  imports Terminal
begin

text \<open>
  What the user sees while a line is typed: the echo of \<^verbatim>\<open>src/student-distrib/keyboard.c\<close>, on the abstract console. The
  specification follows the abstract line editor of the theory \<open>Keyboard\<close>; a full line, its erasure and the clearing of
  the screen with Ctrl and L are included. Tabs are left out, because they take the cursor off the screen.
\<close>

section \<open>Specification\<close>

definition blank_aterm :: aterm where
  "blank_aterm = \<lparr>grid = cut (\<lambda>r c. 0x20), col = 0, row = 0\<rparr>"

text \<open>A character on top of the line \<open>l\<close>; the newline behind a line of 126 characters is shown twice.\<close>

definition echo_char :: "byte \<Rightarrow> byte list \<Rightarrow> aterm \<Rightarrow> aterm" where
  "echo_char c l t =
     (if c = 0x08 then (if l = [] then t else aterm_put c t)
      else if c = 0x0A \<and> length l = 126 then aterm_put c (aterm_put c t)
      else if c = 0x0A \<or> length l < 127 then aterm_put c t else t)"

definition echo_key :: "modifiers \<Rightarrow> byte \<Rightarrow> byte list \<Rightarrow> aterm \<Rightarrow> aterm" where
  "echo_key m sc l t =
     (if bit sc 7 \<or> sc \<in> {0x2A, 0x36, 0x3A, 0x1D, 0x38, 0x45, 0x46} then t
      else if m_ctrl m \<and> sc = 0x26 then blank_aterm
      else echo_char (key_char m sc) l t)"

text \<open>The screen after a line has been typed, and the interrupts and modifiers that are left.\<close>

fun typed_echo :: "irq list \<Rightarrow> modifiers \<Rightarrow> byte list \<Rightarrow> aterm \<Rightarrow> aterm" where
  "typed_echo [] m l t = t"
| "typed_echo (Rtc_irq # evs) m l t = typed_echo evs m l t"
| "typed_echo (Key_irq sc # evs) m l t =
     (if key_char m sc = 0x0A then echo_key m sc l t
      else typed_echo evs (mods_step sc m) (edit (key_char m sc) l) (echo_key m sc l t))"

fun typed_rest :: "irq list \<Rightarrow> modifiers \<Rightarrow> irq list \<times> modifiers" where
  "typed_rest [] m = ([], m)"
| "typed_rest (Rtc_irq # evs) m = typed_rest evs m"
| "typed_rest (Key_irq sc # evs) m =
     (if key_char m sc = 0x0A then (evs, mods_step sc m) else typed_rest evs (mods_step sc m))"

lemma typed_rest_suffix: "set (fst (typed_rest evs m)) \<subseteq> set evs"
  by (induction evs m rule: typed_rest.induct) (simp_all add: subset_insertI2)

section \<open>The screen under the handlers\<close>

text \<open>A step that keeps the cursor on the screen, shows \<open>f\<close> and stores nowhere else.\<close>

definition displays :: "'a console_state_scheme \<Rightarrow> (aterm \<Rightarrow> aterm) \<Rightarrow> 'a console_state_scheme \<Rightarrow> bool" where
  "displays s f t \<longleftrightarrow> on_screen t \<and> abs_term t = f (abs_term s) \<and> (\<forall>a. a \<notin> screen_bytes \<longrightarrow> ram t a = ram s a)"

lemma displays_putc: "on_screen s \<Longrightarrow> c \<noteq> 0x09 \<Longrightarrow> displays s (aterm_put c) (putc_term c s)"
  using fold_putc_term [of s "[c]"] by (simp add: displays_def)

lemma displays_trans: "displays s f t \<Longrightarrow> displays t g u \<Longrightarrow> displays s (\<lambda>x. g (f x)) u"
  by (simp add: displays_def)

lemma displays_same:
  assumes "displays s f t" "screen_x t' = screen_x t" "screen_y t' = screen_y t" "ram t' = ram t"
  shows "displays s f t'"
  using assms by (simp add: displays_def on_screen_def abs_term_def)

lemma displays_refl: "on_screen s \<Longrightarrow> displays s (\<lambda>x. x) s"
  by (simp add: displays_def)

text \<open>Enter behind 126 or 127 characters is shown once more when the line is passed on.\<close>

lemma displays_enter:
  assumes "displays s f v" "c \<noteq> 0x09" "t = (putc_term c v)\<lparr>enterpress := 1, keyboard_buffer_index := 0\<rparr>"
  shows "displays s (\<lambda>x. aterm_put c (f x)) t"
proof -
  have "on_screen v" using assms(1) by (simp add: displays_def)
  note v = displays_trans [OF assms(1) displays_putc [OF this assms(2)]]
  show ?thesis using displays_same [OF v] assms(3) by simp
qed

lemma keyboard_back_displays:
  assumes "on_screen s" "kb_ok s" "0x09 \<notin> set (kb_line s)" "keyboard_buffer_index s \<noteq> 0"
  shows "displays s (aterm_put 0x08) (keyboard_char 0x08 s)"
proof -
  let ?i = "keyboard_buffer_index s"
  have s: "length (keyboard_buffer s) = 128" "0 \<le> ?i" "?i \<le> 127" using assms(2) by (auto simp: kb_ok_def)
  have "kb_line s ! nat (?i - 1) \<in> set (kb_line s)" using assms(4) s by (intro nth_mem) (simp add: kb_line_def)
  then have "keyboard_buffer s ! nat (?i - 1) \<noteq> 0x09" using assms(3,4) s(2) by (auto simp: kb_line_def)
  then have "keyboard_char 0x08 s = (putc_term 0x08 s)\<lparr>keyboard_buffer_index := ?i - 1\<rparr>"
    using assms(4) by (simp add: keyboard_char_def Let_def)
  then show ?thesis using displays_same [OF displays_putc [OF assms(1), of "0x08"]] by simp
qed

lemma keyboard_char_displays:
  assumes "on_screen s" "kb_ok s" "0x09 \<notin> set (kb_line s)" "c \<noteq> 0x09"
  shows "displays s (echo_char c (kb_line s)) (keyboard_char c s)"
proof -
  let ?i = "keyboard_buffer_index s"
  have s: "length (keyboard_buffer s) = 128" "0 \<le> ?i" "?i \<le> 127" using assms(2) by (auto simp: kb_ok_def)
  have len: "length (kb_line s) = nat ?i" using s by (simp add: kb_line_def)
  note p = displays_putc [OF assms(1,4)]
  have f: "echo_char c (kb_line s) = (if c = 0x08 then (if ?i = 0 then (\<lambda>x. x) else aterm_put c)
      else if c = 0x0A \<and> ?i = 126 then (\<lambda>x. aterm_put c (aterm_put c x)) else if c = 0x0A \<or> ?i < 127 then aterm_put c else (\<lambda>x. x))"
    using s len by (auto simp: fun_eq_iff echo_char_def)
  consider "c = 0x08" | "c = 0x0A" "?i = 126" | "c = 0x0A" "?i = 127" | "c \<noteq> 0x08" "?i < 126 \<or> c \<noteq> 0x0A" using s(3) by linarith
  then show ?thesis
  proof cases
    case 2
    have "displays s (\<lambda>x. aterm_put c (aterm_put c x)) (keyboard_char c s)"
    proof (rule displays_enter [OF displays_same [OF p] assms(4)])
      show "keyboard_char c s = (putc_term c ((putc_term c s)\<lparr>keyboard_buffer := (keyboard_buffer s)[126 := c, 127 := c],
          keyboard_buffer_index := 128\<rparr>))\<lparr>enterpress := 1, keyboard_buffer_index := 0\<rparr>"
        using 2 by (simp add: keyboard_char_def Let_def KEYBOARD_BUFFER_SIZE_def)
    qed simp_all
    then show ?thesis unfolding f using 2 by simp
  next
    case 3
    have "displays s (\<lambda>x. aterm_put c x) (keyboard_char c s)"
    proof (rule displays_enter [OF displays_same [OF displays_refl [OF assms(1)]] assms(4)])
      show "keyboard_char c s = (putc_term c (s\<lparr>keyboard_buffer := (keyboard_buffer s)[127 := c],
          keyboard_buffer_index := 128\<rparr>))\<lparr>enterpress := 1, keyboard_buffer_index := 0\<rparr>"
        using 3 by (simp add: keyboard_char_def Let_def KEYBOARD_BUFFER_SIZE_def)
    qed simp_all
    then show ?thesis unfolding f using 3 by simp
  next
    case 1
    then show ?thesis unfolding f using keyboard_back_displays [OF assms(1-3)] displays_refl [OF assms(1)]
      by (cases "?i = 0") (simp_all add: keyboard_char_def Let_def)
  next
    case 4
    show ?thesis
    proof (cases "?i < 127")
      case True
      then show ?thesis unfolding f using 4 displays_same [OF p] by (auto simp: keyboard_char_def Let_def KEYBOARD_BUFFER_SIZE_def)
    next
      case False
      then show ?thesis unfolding f using 4 s(3) displays_refl [OF assms(1)] by (auto simp: keyboard_char_def Let_def KEYBOARD_BUFFER_SIZE_def)
    qed
  qed
qed

lemma scancode_lt: "\<not> bit sc 7 \<Longrightarrow> unat (sc :: byte) < 128"
proof (rule ccontr)
  assume a: "\<not> bit sc 7" "\<not> unat sc < 128"
  have "unat sc < 256" using unsigned_less [of sc, where ?'a = nat] by simp
  then have "unat sc div 128 = 1" using a(2) by simp
  then have "bit (unat sc) 7" by (simp add: bit_iff_odd)
  then show False using a(1) by (simp add: bit_unsigned_iff)
qed

lemma nth_unique: "zs = xs @ x # ys \<Longrightarrow> x \<notin> set xs \<Longrightarrow> x \<notin> set ys \<Longrightarrow> n < length zs \<Longrightarrow> zs ! n = x \<Longrightarrow> n = length xs"
  by (auto simp: nth_append nth_Cons' split: if_splits)

lemma key_char_tab:
  assumes "key_char m sc = 0x09"
  shows "sc = 0x0F"
proof -
  have "\<not> bit sc 7" "keymap ! unat sc = 0x09 \<or> keymap_upper ! unat sc = 0x09" using assms by (auto simp: key_char_def split: if_splits)
  moreover from this have "unat sc < length keymap" "unat sc < length keymap_upper" by (simp_all add: scancode_lt table_sizes)
  moreover have "keymap = take 15 keymap @ 0x09 # drop 16 keymap" "keymap_upper = take 15 keymap_upper @ 0x09 # drop 16 keymap_upper"
      "0x09 \<notin> set (take 15 keymap) \<union> set (drop 16 keymap) \<union> set (take 15 keymap_upper) \<union> set (drop 16 keymap_upper)"
      "length (take 15 keymap) = 15" "length (take 15 keymap_upper) = 15"
    by (simp_all add: keymap_entries keymap_upper_entries)
  ultimately have "unat sc = 15" using nth_unique by (metis UnCI)
  then show ?thesis by (simp add: word_unat_eq_iff)
qed

lemma keyboard_handler_displays:
  fixes s :: "'a keyboard_state_scheme"
  assumes "on_screen s" "kb_ok s" "0x09 \<notin> set (kb_line s)" "dev (io_log s) 0x60 \<noteq> 0x0F"
  shows "displays s (echo_key (abs_mods (key_status s)) (dev (io_log s) 0x60) (kb_line s)) (keyboard_handler dev s)"
proof -
  define sc where "sc = dev (io_log s) 0x60"
  define t where "t = snd (inb dev 0x60 s)"
  let ?m = "abs_mods (key_status s)"
  have "machine.more t = machine.more s" "ram t = ram s" by (simp_all add: t_def)
  note t = machine_more_kb [OF this(1)] this(2)
  have i: "inb dev KEYBOARD_DATA_PORT s = (sc, t)" by (simp add: t_def sc_def KEYBOARD_DATA_PORT_def inb_def Let_def)
  have r: "displays s (\<lambda>x. x) t" by (rule displays_same [OF displays_refl [OF assms(1)]]) (simp_all add: t)
  have on: "on_screen t" using r by (simp add: displays_def)
  have kb: "kb_ok t" "kb_line t = kb_line s" using assms(2) t by (simp_all add: kb_ok_def kb_line_def)
  define u where "u = (if sc AND 0x80 \<noteq> 0 then keyboard_released sc t else keyboard_pressed sc t)"
  have h: "keyboard_handler dev s = send_eoi KEYBOARD_IRQ u" by (simp add: keyboard_handler_def i u_def)
  have "displays t (echo_key ?m sc (kb_line s)) u"
  proof (cases "bit sc 7 \<or> sc \<in> {0x2A, 0x36, 0x3A, 0x1D, 0x38, 0x45, 0x46}")
    case True
    then have "screen_x u = screen_x t \<and> screen_y u = screen_y t \<and> ram u = ram t"
      by (auto simp: u_def and_flag keyboard_released_def keyboard_pressed_def)
    moreover have "echo_key ?m sc (kb_line s) = (\<lambda>x. x)" using True by (simp add: fun_eq_iff echo_key_def)
    ultimately show ?thesis using displays_same [OF displays_refl [OF on]] by simp
  next
    case False
    then have u: "u = (if bit (key_status t) 2 \<and> sc = 0x26 then clear_term t else keyboard_char (handle_standard_key (key_status t) sc) t)"
      by (auto simp: u_def and_flag keyboard_pressed_def)
    show ?thesis
    proof (cases "m_ctrl ?m \<and> sc = 0x26")
      case True
      then show ?thesis using False u t(3) clear_term_blank [where s = t] by (auto simp: displays_def echo_key_def blank_aterm_def)
    next
      case no: False
      then have c: "handle_standard_key (key_status t) sc = key_char ?m sc"
        using False t(3) by (auto simp: key_char_def handle_standard_key_select)
      have "key_char ?m sc \<noteq> 0x09" using key_char_tab assms(4) by (auto simp: sc_def)
      then have "displays t (echo_char (key_char ?m sc) (kb_line s)) u"
        using keyboard_char_displays [OF on kb(1)] assms(3) kb(2) u c no t(3) by auto
      moreover have "echo_key ?m sc (kb_line s) = echo_char (key_char ?m sc) (kb_line s)" using False no by (auto simp: fun_eq_iff echo_key_def)
      ultimately show ?thesis by simp
    qed
  qed
  note d = displays_trans [OF r this]
  have "displays s (echo_key ?m sc (kb_line s)) (keyboard_handler dev s)"
    unfolding h by (rule displays_same [OF d]) (simp_all add: machine_more_kb [OF send_eoi_frame(1)])
  then show ?thesis by (simp add: sc_def)
qed

section \<open>Typing a line\<close>

lemma isr_displays:
  assumes "on_screen s" "kb_ok s" "0x09 \<notin> set (kb_line s)" "e \<noteq> Key_irq 0x0F"
  shows "displays s (case e of Rtc_irq \<Rightarrow> (\<lambda>x. x) | Key_irq sc \<Rightarrow> echo_key (abs_mods (key_status s)) sc (kb_line s)) (isr dev e s)"
proof (cases e)
  case Rtc_irq
  have "screen_x (isr dev e s) = screen_x s" "screen_y (isr dev e s) = screen_y s" "ram (isr dev e s) = ram s"
    by (simp_all add: Rtc_irq isr_def handler_wrapper_def rtc_handler_def Let_def cli_def sti_def outb_def inb_def send_eoi_def)
  then show ?thesis using displays_same [OF displays_refl [OF assms(1)]] Rtc_irq by simp
next
  case (Key_irq sc)
  let ?d = "\<lambda>log p. if p = KEYBOARD_DATA_PORT then sc else dev log p" and ?s = "s\<lparr>iflag := False\<rparr>"
  have s: "on_screen ?s" "kb_ok ?s" "kb_line ?s = kb_line s" using assms(1,2) by (simp_all add: on_screen_def kb_ok_def kb_line_def)
  have "displays ?s (echo_key (abs_mods (key_status s)) sc (kb_line s)) (keyboard_handler ?d ?s)"
    using keyboard_handler_displays [OF s(1,2), of ?d] assms(3,4) s(3) Key_irq by (simp add: KEYBOARD_DATA_PORT_def)
  then show ?thesis using Key_irq
    by (simp add: displays_def on_screen_def abs_term_def isr_def handler_wrapper_def)
qed

lemma edit_no_tab: "0x09 \<notin> set l \<Longrightarrow> c \<noteq> 0x09 \<Longrightarrow> 0x09 \<notin> set (edit c l)"
  by (auto simp: edit_def dest: in_set_butlastD)

lemma spin_echo:
  assumes "iflag s" "enterpress s = 0" "kb_ok s" "on_screen s" "0x09 \<notin> set (kb_line s)" "Key_irq 0x0F \<notin> set evs"
    and "typed (List.map_filter scan_code evs) (abs_mods (key_status s)) (kb_line s) = Some line"
  shows "\<exists>rest t. spin (\<lambda>s. enterpress s \<noteq> 0) (isr dev) evs s = Some (rest, t) \<and>
    displays s (typed_echo evs (abs_mods (key_status s)) (kb_line s)) t \<and>
    (rest, abs_mods (key_status t)) = typed_rest evs (abs_mods (key_status s))"
  using assms
proof (induction evs arbitrary: s)
  case (Cons e evs)
  let ?m = "abs_mods (key_status s)" and ?u = "isr dev e s"
  have e: "e \<noteq> Key_irq 0x0F" "Key_irq 0x0F \<notin> set evs" using Cons.prems(6) by auto
  note d = isr_displays [OF Cons.prems(4,3,5) e(1), of dev]
  have on: "on_screen ?u" using d by (simp add: displays_def)
  have step: "spin (\<lambda>s. enterpress s \<noteq> 0) (isr dev) (e # evs) s = spin (\<lambda>s. enterpress s \<noteq> 0) (isr dev) evs ?u"
    using Cons.prems(1,2) by simp
  show ?case
  proof (cases e)
    case Rtc_irq
    have same: "keyboard_buffer ?u = keyboard_buffer s" "keyboard_buffer_index ?u = keyboard_buffer_index s" "key_status ?u = key_status s"
        "enterpress ?u = enterpress s" using keys.isr_no_key [of e dev s] Rtc_irq by simp_all
    then have kb: "kb_ok ?u" "kb_line ?u = kb_line s" using Cons.prems(3) by (simp_all add: kb_ok_def kb_line_def)
    obtain rest t where t: "spin (\<lambda>s. enterpress s \<noteq> 0) (isr dev) evs ?u = Some (rest, t)"
        "displays ?u (typed_echo evs ?m (kb_line s)) t" "(rest, abs_mods (key_status t)) = typed_rest evs ?m"
      using Cons.IH [of ?u] Cons.prems same kb on e(2) Rtc_irq by (auto simp: List.map_filter_def)
    then show ?thesis using step displays_trans [OF d t(2)] Rtc_irq by auto
  next
    case (Key_irq sc)
    then have sc: "scan_code e = Some sc" by simp
    note key = keys.key_step [OF sc Cons.prems(3), of dev]
    show ?thesis
    proof (cases "key_char ?m sc = 0x0A")
      case True
      then have "spin (\<lambda>s. enterpress s \<noteq> 0) (isr dev) (e # evs) s = Some (evs, ?u)" using step key(4) by (simp add: spin_now)
      then show ?thesis using d True key(2) Key_irq by auto
    next
      case False
      have "key_char ?m sc \<noteq> 0x09" using key_char_tab e(1) Key_irq by auto
      then have l: "0x09 \<notin> set (kb_line ?u)" using edit_no_tab [OF Cons.prems(5)] key(3) False by simp
      obtain rest t where t: "spin (\<lambda>s. enterpress s \<noteq> 0) (isr dev) evs ?u = Some (rest, t)"
          "displays ?u (typed_echo evs (mods_step sc ?m) (edit (key_char ?m sc) (kb_line s))) t"
          "(rest, abs_mods (key_status t)) = typed_rest evs (mods_step sc ?m)"
        using Cons.IH [of ?u] Cons.prems key False on l e(2) Key_irq by (auto simp: List.map_filter_def)
      then show ?thesis using step displays_trans [OF d t(2)] False Key_irq by auto
    qed
  qed
qed (simp add: List.map_filter_def)

text \<open>The driver waits for the first key of a line.\<close>

definition kb_ready :: "'a keyboard_state_scheme \<Rightarrow> bool" where
  "kb_ready s \<longleftrightarrow> enterpress s = 0 \<and> kb_ok s \<and> kb_line s = []"

lemma terminal_read_echo:
  assumes "kb_ready s" "on_screen s" "Key_irq 0x0F \<notin> set evs"
    and "typed (List.map_filter scan_code evs) (abs_mods (key_status s)) [] = Some line"
  shows "\<exists>rest t. terminal_read dev evs (Some buf) nbytes s = Some (int (length line), line, rest, t) \<and> kb_ready t \<and>
    displays s (typed_echo evs (abs_mods (key_status s)) []) t \<and> (rest, abs_mods (key_status t)) = typed_rest evs (abs_mods (key_status s))"
proof -
  have s: "enterpress s = 0" "kb_ok s" "kb_line s = []" using assms(1) by (simp_all add: kb_ready_def)
  obtain rest t where t: "terminal_read dev evs (Some buf) nbytes s = Some (int (length line), line, rest, t)" "kb_ok t" "kb_line t = []" "enterpress t = 0"
    using terminal_read_typed [OF s(1,2), of evs line dev buf nbytes] assms(4) s(3) by auto
  have st: "iflag (sti s)" "enterpress (sti s) = 0" "kb_ok (sti s)" "on_screen (sti s)" "kb_line (sti s) = []" "key_status (sti s) = key_status s"
    using s assms(2) by (simp_all add: sti_def kb_ok_def kb_line_def on_screen_def)
  obtain rest' u where u: "spin (\<lambda>s. enterpress s \<noteq> 0) (isr dev) evs (sti s) = Some (rest', u)"
      "displays (sti s) (typed_echo evs (abs_mods (key_status s)) []) u" "(rest', abs_mods (key_status u)) = typed_rest evs (abs_mods (key_status s))"
    using spin_echo [OF st(1-4), of evs line dev] assms(3,4) st(5,6) by auto
  have "rest' = rest" "t = cli (u\<lparr>keyboard_buffer := replicate 128 0, enterpress := 0\<rparr>)"
    using t(1) u(1) by (auto simp: terminal_read_def Let_def)
  then have "key_status t = key_status u" "displays s (typed_echo evs (abs_mods (key_status s)) []) t"
    using u(2) by (auto simp: displays_def on_screen_def abs_term_def cli_def sti_def)
  then show ?thesis using t u(3) \<open>rest' = rest\<close> by (auto simp: kb_ready_def)
qed

end
