(* ===== verification/LineSpec.thy ===== *)
theory LineSpec
  imports UserSpec
begin

text \<open>
  Programs that read lines from the keyboard: what they rely on, as a locale over the system calls, and what \<open>hello\<close>
  and \<open>shell\<close> then do. \<open>input\<close> is the pending input in a state; \<open>line\<close> gives its next line with the newline, \<open>echo\<close> what
  typing it does to what the user sees, and \<open>after\<close> the input behind it.
\<close>

section \<open>Sessions\<close>

primrec lines_typed :: "('k \<Rightarrow> byte list option) \<Rightarrow> ('k \<Rightarrow> 'k) \<Rightarrow> byte list list \<Rightarrow> 'k \<Rightarrow> bool" where
  "lines_typed line after [] k = True"
| "lines_typed line after (l # ls) k = (line k = Some (l @ [0x0A]) \<and> lines_typed line after ls (after k))"

text \<open>
  What the user sees of a session with the shell. \<open>command\<close> gives what a line does that is executed: the value that the
  call returns, and how what is shown changes until then.
\<close>

definition shell_report :: "(byte list \<Rightarrow> 'o \<Rightarrow> 'o) \<Rightarrow> int \<Rightarrow> 'o \<Rightarrow> 'o" where
  "shell_report out r v =
     (if r = -1 then out (ascii ''no such command'' @ [0x0A]) v
      else if r = 256 then out (ascii ''program terminated by exception'' @ [0x0A]) v
      else if r \<noteq> 0 then out (ascii ''program terminated abnormally'' @ [0x0A]) v
      else v)"

primrec shell_screen ::
  "('k \<Rightarrow> 'o \<Rightarrow> 'o) \<Rightarrow> ('k \<Rightarrow> 'k) \<Rightarrow> (byte list \<Rightarrow> 'o \<Rightarrow> 'o) \<Rightarrow> (byte list \<Rightarrow> (int \<times> ('o \<Rightarrow> 'o)) option) \<Rightarrow> byte list list \<Rightarrow> 'k \<Rightarrow> 'o \<Rightarrow> 'o" where
  "shell_screen echo after out command [] k v = v"
| "shell_screen echo after out command (l # ls) k v =
     (let v = echo k (out (ascii ''391OS> '') v);
          v = (if l = [] \<or> l = ascii ''exit'' then v
               else case command l of None \<Rightarrow> v | Some (r, f) \<Rightarrow> shell_report out r (f v))
      in shell_screen echo after out command ls (after k) v)"

text \<open>What the shell does with a command, and the rest of its session.\<close>

definition shell_command :: "'s usys \<Rightarrow> byte list \<Rightarrow> 's \<Rightarrow> (int \<times> 's) option" where
  "shell_command sys buf s =
     do { (rval, s) \<leftarrow> ece391_execute sys buf s;
          s \<leftarrow> (if rval = -1 then ece391_fdputs sys 1 (litn ''no such command'') s
               else if rval = 256 then ece391_fdputs sys 1 (litn ''program terminated by exception'') s
               else if rval \<noteq> 0 then ece391_fdputs sys 1 (litn ''program terminated abnormally'') s
               else Some s);
          shell_loop sys buf s }"

definition printable :: "string \<Rightarrow> bool" where
  "printable x \<longleftrightarrow> x \<noteq> [] \<and> length x \<le> 1000 \<and> list_all (\<lambda>b. 0x20 \<le> b) (ascii x)"

lemma printable_texts:
  "printable ''Hi, what's your name? ''" "printable ''Hello, ''" "printable ''391OS> ''" "printable ''no such command''"
  "printable ''Starting 391 Shell''" "printable ''program terminated by exception''" "printable ''program terminated abnormally''"
  by (simp_all add: printable_def ascii_def)

lemma exit_text: "0 \<notin> set (ascii ''exit'')" "ascii ''exit'' \<noteq> []"
  by (simp_all add: ascii_def)

lemma assign_behind: "length w < length buf \<Longrightarrow> assign (w @ drop (length w) buf) (int (length w)) 0 = Some (w @ 0 # drop (Suc (length w)) buf)"
  by (simp add: assign_def list_update_append Cons_nth_drop_Suc [symmetric])

section \<open>The contract\<close>

locale line_calls = output_calls sys ok shown out plain fds
  for sys :: "'s usys" and ok :: "'s \<Rightarrow> bool" and shown :: "'s \<Rightarrow> 'o" and out :: "byte list \<Rightarrow> 'o \<Rightarrow> 'o"
    and plain :: "byte \<Rightarrow> bool" and fds :: "'s \<Rightarrow> int \<Rightarrow> 'd" +
  fixes input :: "'s \<Rightarrow> 'k" and line :: "'k \<Rightarrow> byte list option" and echo :: "'k \<Rightarrow> 'o \<Rightarrow> 'o" and after :: "'k \<Rightarrow> 'k"
    and command :: "byte list \<Rightarrow> (int \<times> ('o \<Rightarrow> 'o)) option"
  assumes write_input: "ok s \<Longrightarrow> 0 < n \<Longrightarrow> n \<le> length buf \<Longrightarrow> length buf \<le> 4096 \<Longrightarrow> list_all plain (take n buf) \<Longrightarrow>
      ece391_write sys 1 buf (int n) s = Some (r, t) \<Longrightarrow> input t = input s"
    and read_line: "ok s \<Longrightarrow> line (input s) = Some w \<Longrightarrow> 128 \<le> length buf \<Longrightarrow> length buf \<le> 4096 \<Longrightarrow>
      \<exists>t. ece391_read sys 0 buf 1023 s = Some (int (length w), w @ drop (length w) buf, t) \<and> ok t \<and>
        shown t = echo (input s) (shown s) \<and> fds t = fds s \<and> input t = after (input s)"
    and line_form: "ok s \<Longrightarrow> line (input s) = Some w \<Longrightarrow>
      \<exists>l. w = l @ [0x0A] \<and> length l \<le> 127 \<and> 0 \<notin> set l \<and> 0x0A \<notin> set l \<and> list_all plain w"
    and execute_command: "ok s \<Longrightarrow> command l = Some (v, f) \<Longrightarrow> l \<noteq> [] \<Longrightarrow> length l \<le> 127 \<Longrightarrow> 0 \<notin> set l \<Longrightarrow> 0x0A \<notin> set l \<Longrightarrow>
      33 \<le> length (l @ 0 # q) \<Longrightarrow> length (l @ 0 # q) \<le> 4096 \<Longrightarrow> last (0 # q) \<noteq> 0x20 \<Longrightarrow>
      \<exists>t. ece391_execute sys (l @ 0 # q) s = Some (v, t) \<and> ok t \<and> shown t = f (shown s) \<and> fds t = fds s \<and> input t = input s"
    and plain_letter: "0x0A = b \<or> 0x20 \<le> b \<Longrightarrow> plain b"
begin

lemma puts_shows:
  assumes "ok s" "w \<noteq> []" "0 \<notin> set w" "list_all plain w" "length (w @ 0 # r) \<le> 4096"
  shows "\<exists>t. ece391_fdputs sys 1 (w @ 0 # r) s = Some t \<and> ok t \<and> shown t = out w (shown s) \<and> fds t = fds s \<and> input t = input s"
  using write_shows [OF assms(1), of "length w" "w @ 0 # r"] write_input [OF assms(1), of "length w" "w @ 0 # r"] assms(2-5)
  by (auto simp: fdputs_string)

text \<open>A literal, and one with a newline behind it.\<close>

lemma lit_shows:
  assumes "ok s" "printable x"
  shows "\<exists>t. ece391_fdputs sys 1 (lit x) s = Some t \<and> ok t \<and> shown t = out (ascii x) (shown s) \<and> fds t = fds s \<and> input t = input s"
    "\<exists>t. ece391_fdputs sys 1 (litn x) s = Some t \<and> ok t \<and> shown t = out (ascii x @ [0x0A]) (shown s) \<and> fds t = fds s \<and> input t = input s"
proof -
  have x: "0 \<notin> set (ascii x)" "list_all plain (ascii x)" "plain 0x0A" "ascii x \<noteq> []" "length (ascii x) \<le> 1000"
    using assms(2) plain_letter by (auto simp: printable_def list_all_iff ascii_def)
  show "\<exists>t. ece391_fdputs sys 1 (lit x) s = Some t \<and> ok t \<and> shown t = out (ascii x) (shown s) \<and> fds t = fds s \<and> input t = input s"
    unfolding lit_def using x by (intro puts_shows [OF assms(1)]) simp_all
  have "ascii x @ [0x0A, 0] = (ascii x @ [0x0A]) @ [0]" by simp
  then show "\<exists>t. ece391_fdputs sys 1 (litn x) s = Some t \<and> ok t \<and> shown t = out (ascii x @ [0x0A]) (shown s) \<and> fds t = fds s \<and> input t = input s"
    unfolding litn_def using puts_shows [OF assms(1), of "ascii x @ [0x0A]" "[]"] x by simp
qed

subsection \<open>hello\<close>

lemma hello_greets:
  assumes "ok s" "line (input s) = Some w" "length buf = 1024"
  shows "\<exists>t. hello_main sys buf s = Some (0, t) \<and> ok t \<and> fds t = fds s \<and> input t = after (input s) \<and>
    shown t = out (ascii ''Hello, '' @ w) (echo (input s) (out (ascii ''Hi, what's your name? '') (shown s)))"
proof -
  define x y where "x = ''Hi, what's your name? ''" and "y = ''Hello, ''"
  have xy: "printable x" "printable y" by (simp_all add: x_def y_def printable_texts)
  obtain s1 where s1: "ece391_fdputs sys 1 (lit x) s = Some s1" "ok s1" "shown s1 = out (ascii x) (shown s)" "fds s1 = fds s" "input s1 = input s"
    using lit_shows(1) [OF assms(1) xy(1)] by blast
  obtain l where l: "w = l @ [0x0A]" "length l \<le> 127" "0 \<notin> set l" "list_all plain w" using line_form [OF assms(1,2)] by auto
  obtain s2 where s2: "ece391_read sys 0 buf 1023 s1 = Some (int (length w), w @ drop (length w) buf, s2)" "ok s2"
      "shown s2 = echo (input s) (shown s1)" "fds s2 = fds s" "input s2 = after (input s)"
    using read_line [OF s1(2), of w buf] assms(2,3) s1(4,5) by auto
  have b: "assign (w @ drop (length w) buf) (int (length w)) 0 = Some (w @ 0 # drop (Suc (length w)) buf)"
    using l(1,2) assms(3) by (intro assign_behind) simp
  obtain s3 where s3: "ece391_fdputs sys 1 (lit y) s2 = Some s3" "ok s3" "shown s3 = out (ascii y) (shown s2)" "fds s3 = fds s" "input s3 = after (input s)"
    using lit_shows(1) [OF s2(2) xy(2)] s2(4,5) by auto
  have "0 \<notin> set w" "w \<noteq> []" "length (w @ 0 # drop (Suc (length w)) buf) \<le> 4096" using l assms(3) by auto
  then obtain s4 where s4: "ece391_fdputs sys 1 (w @ 0 # drop (Suc (length w)) buf) s3 = Some s4" "ok s4"
      "shown s4 = out w (shown s3)" "fds s4 = fds s" "input s4 = after (input s)"
    using puts_shows [OF s3(2)] l(4) s3(4,5) by metis
  have "hello_main sys buf s = Some (0, s4)" using s1(1) s2(1) b s3(1) s4(1) l(1) by (simp add: hello_main_def x_def y_def)
  moreover have "shown s4 = out (ascii y @ w) (echo (input s) (out (ascii x) (shown s)))"
    by (simp only: s4(3) s3(3) s2(3) s1(3) out_append)
  ultimately show ?thesis using s4 by (auto simp: x_def y_def)
qed

subsection \<open>shell\<close>

text \<open>One round of the loop, up to the comparison with \<open>exit\<close>.\<close>

lemma shell_prompt:
  assumes "ok s" "line (input s) = Some (l @ [0x0A])" "length buf = 1024"
  shows "\<exists>t r. length l \<le> 127 \<and> 0 \<notin> set l \<and> 0x0A \<notin> set l \<and> length (l @ 0 # r) = 1024 \<and> last (0 # r) = last buf \<and> ok t \<and>
    shown t = echo (input s) (out (ascii ''391OS> '') (shown s)) \<and> fds t = fds s \<and> input t = after (input s) \<and>
    shell_loop sys buf s = (if l = ascii ''exit'' then Some (0, t) else if l = [] then shell_loop sys (l @ 0 # r) t
      else shell_command sys (l @ 0 # r) t)"
proof -
  define x r where "x = ''391OS> ''" and "r = drop (Suc (length l)) buf"
  have px: "printable x" by (simp add: x_def printable_texts)
  obtain s1 where s1: "ece391_fdputs sys 1 (lit x) s = Some s1" "ok s1" "shown s1 = out (ascii x) (shown s)" "fds s1 = fds s" "input s1 = input s"
    using lit_shows(1) [OF assms(1) px] by blast
  have l: "length l \<le> 127" "0 \<notin> set l" "0x0A \<notin> set l" using line_form [OF assms(1,2)] by auto
  let ?b = "l @ 0x0A # r"
  obtain s2 where s2: "ece391_read sys 0 buf 1023 s1 = Some (int (length l) + 1, ?b, s2)" "ok s2"
      "shown s2 = echo (input s) (shown s1)" "fds s2 = fds s" "input s2 = after (input s)"
    using read_line [OF s1(2), of "l @ [0x0A]" buf] assms(2,3) s1(4,5) by (auto simp: r_def add.commute)
  have e: "element ?b (int (length l)) = Some 0x0A" by (simp add: element_def)
  have a: "assign ?b (int (length l)) 0 = Some (l @ 0 # r)" by (simp add: assign_def)
  obtain c where c: "ece391_strcmp (l @ 0 # r) (lit ''exit'') = Some c" "c = 0 \<longleftrightarrow> l = ascii ''exit''"
    using ece391_strcmp_iff [OF l(2) exit_text(1), of r "[]"] unfolding lit_def by blast
  have z: "(l @ 0 # r) ! 0 = 0 \<longleftrightarrow> l = []" using l(2) by (cases l) auto
  have "shell_loop sys buf s = (if l = ascii ''exit'' then Some (0, s2) else if l = [] then shell_loop sys (l @ 0 # r) s2
      else shell_command sys (l @ 0 # r) s2)"
    unfolding c(2) [symmetric] using s1(1) s2(1) e a c(1) z by (subst shell_loop.simps) (simp add: x_def shell_command_def)
  moreover have "length (l @ 0 # r) = 1024" "last (0 # r) = last buf" using l(1) assms(3) by (simp_all add: r_def)
  moreover have "shown s2 = echo (input s) (out (ascii ''391OS> '') (shown s))" using s2(3) s1(3) by (simp only: x_def)
  ultimately show ?thesis using l s2(2,4,5) by (intro exI [of _ s2] exI [of _ r] conjI)
qed

text \<open>The message behind a command.\<close>

lemma shell_command_returns:
  assumes "ok s" "command l = Some (v, f)" "l \<noteq> []" "length l \<le> 127" "0 \<notin> set l" "0x0A \<notin> set l"
    and "33 \<le> length (l @ 0 # r)" "length (l @ 0 # r) \<le> 4096" "last (0 # r) \<noteq> 0x20"
  shows "\<exists>u. shell_command sys (l @ 0 # r) s = shell_loop sys (l @ 0 # r) u \<and> ok u \<and> shown u = shell_report out v (f (shown s)) \<and>
    fds u = fds s \<and> input u = input s"
proof -
  obtain t where t: "ece391_execute sys (l @ 0 # r) s = Some (v, t)" "ok t" "shown t = f (shown s)" "fds t = fds s" "input t = input s"
    using execute_command [OF assms] by blast
  let ?say = "\<lambda>x. \<exists>u. ece391_fdputs sys 1 (litn x) t = Some u \<and> ok u \<and> shown u = out (ascii x @ [0x0A]) (shown t) \<and> fds u = fds t \<and> input u = input t"
  have say: "?say ''no such command''" "?say ''program terminated by exception''" "?say ''program terminated abnormally''"
    by (rule lit_shows(2) [OF t(2)], rule printable_texts)+
  consider "v = -1" | "v = 256" | "v \<noteq> -1" "v \<noteq> 256" "v \<noteq> 0" | "v = 0" by blast
  then show ?thesis
  proof cases
    case 1
    then show ?thesis using t say(1) by (auto simp: shell_command_def shell_report_def)
  next
    case 2
    then show ?thesis using t say(2) by (auto simp: shell_command_def shell_report_def)
  next
    case 3
    then show ?thesis using t say(3) by (auto simp: shell_command_def shell_report_def)
  next
    case 4
    then show ?thesis using t by (auto simp: shell_command_def shell_report_def)
  qed
qed

lemma shell_session_loop:
  assumes "ok s" "lines_typed line after (ls @ [ascii ''exit'']) (input s)" "list_all (\<lambda>l. l = [] \<or> l \<noteq> ascii ''exit'' \<and> command l \<noteq> None) ls"
    and "length buf = 1024" "last buf \<noteq> 0x20"
  shows "\<exists>t. shell_loop sys buf s = Some (0, t) \<and> ok t \<and> fds t = fds s \<and>
    input t = (after ^^ Suc (length ls)) (input s) \<and> shown t = shell_screen echo after out command (ls @ [ascii ''exit'']) (input s) (shown s)"
  using assms
proof (induction ls arbitrary: s buf)
  case Nil
  obtain t where t: "ok t" "shown t = echo (input s) (out (ascii ''391OS> '') (shown s))" "fds t = fds s" "input t = after (input s)"
      "shell_loop sys buf s = Some (0, t)"
    using shell_prompt [OF Nil.prems(1), of "ascii ''exit''" buf] Nil.prems(2,4) by auto
  then show ?case by auto
next
  case (Cons l ls)
  have l: "line (input s) = Some (l @ [0x0A])" "lines_typed line after (ls @ [ascii ''exit'']) (after (input s))" using Cons.prems(2) by simp_all
  have ne: "l \<noteq> ascii ''exit''" "l \<noteq> [] \<Longrightarrow> command l \<noteq> None" using Cons.prems(3) exit_text(2) by auto
  have ls: "list_all (\<lambda>l. l = [] \<or> l \<noteq> ascii ''exit'' \<and> command l \<noteq> None) ls" using Cons.prems(3) by simp
  obtain t r where t: "0 \<notin> set l" "0x0A \<notin> set l" "length (l @ 0 # r) = 1024" "ok t"
      "shown t = echo (input s) (out (ascii ''391OS> '') (shown s))" "fds t = fds s" "input t = after (input s)"
      "shell_loop sys buf s = (if l = [] then shell_loop sys (l @ 0 # r) t
        else shell_command sys (l @ 0 # r) t)" "last (0 # r) = last buf" "length l \<le> 127"
    using shell_prompt [OF Cons.prems(1) l(1) Cons.prems(4)] unfolding if_not_P [OF ne(1)] by blast
  let ?v = "\<lambda>v. if l = [] then v else case command l of None \<Rightarrow> v | Some (r, f) \<Rightarrow> shell_report out r (f v)"
  have "\<exists>u. shell_loop sys buf s = shell_loop sys (l @ 0 # r) u \<and> ok u \<and> fds u = fds s \<and> input u = after (input s) \<and> shown u = ?v (shown t)"
  proof (cases "l = []")
    case True
    then show ?thesis using t by auto
  next
    case False
    obtain q f where qf: "command l = Some (q, f)" using ne(2) [OF False] by auto
    have "33 \<le> length (l @ 0 # r)" "length (l @ 0 # r) \<le> 4096" "last (0 # r) \<noteq> 0x20" using t(3,9) Cons.prems(5) by simp_all
    from shell_command_returns [OF t(4) qf False t(10,1,2) this] obtain u where
        "shell_command sys (l @ 0 # r) t = shell_loop sys (l @ 0 # r) u" "ok u" "shown u = shell_report out q (f (shown t))" "fds u = fds t" "input u = input t"
      by blast
    then show ?thesis using t(6-8) False qf by auto
  qed
  then obtain u where u: "shell_loop sys buf s = shell_loop sys (l @ 0 # r) u" "ok u" "fds u = fds s" "input u = after (input s)"
      "shown u = ?v (shown t)" by blast
  have "lines_typed line after (ls @ [ascii ''exit'']) (input u)" "last (l @ 0 # r) \<noteq> 0x20" using l(2) u(4) t(9) Cons.prems(5) by (simp_all del: last.simps)
  from Cons.IH [OF u(2) this(1) ls t(3) this(2)] obtain v where v: "shell_loop sys (l @ 0 # r) u = Some (0, v)" "ok v" "fds v = fds u"
      "input v = (after ^^ Suc (length ls)) (input u)" "shown v = shell_screen echo after out command (ls @ [ascii ''exit'']) (input u) (shown u)" by blast
  have "shown v = shell_screen echo after out command ((l # ls) @ [ascii ''exit'']) (input s) (shown s)"
    unfolding v(5) u(4,5) t(5) using ne(1) by (simp add: Let_def)
  moreover have "input v = (after ^^ Suc (length (l # ls))) (input s)" using v(4) u(4) by (simp add: funpow_swap1)
  ultimately show ?case using u(1,3) v(1-3) by auto
qed

lemma shell_session:
  assumes "ok s" "lines_typed line after (ls @ [ascii ''exit'']) (input s)" "list_all (\<lambda>l. l = [] \<or> l \<noteq> ascii ''exit'' \<and> command l \<noteq> None) ls"
    and "length buf = 1024" "last buf \<noteq> 0x20"
  shows "\<exists>t. shell_main sys buf s = Some (0, t) \<and> ok t \<and> fds t = fds s \<and> input t = (after ^^ Suc (length ls)) (input s) \<and>
    shown t = shell_screen echo after out command (ls @ [ascii ''exit'']) (input s) (out (ascii ''Starting 391 Shell'' @ [0x0A]) (shown s))"
proof -
  obtain u where u: "ece391_fdputs sys 1 (litn ''Starting 391 Shell'') s = Some u" "ok u"
      "shown u = out (ascii ''Starting 391 Shell'' @ [0x0A]) (shown s)" "fds u = fds s" "input u = input s"
    using lit_shows(2) [OF assms(1) printable_texts(5)] by blast
  have "lines_typed line after (ls @ [ascii ''exit'']) (input u)" using assms(2) u(5) by simp
  from shell_session_loop [OF u(2) this assms(3-5)] show ?thesis using u(1,3-5) by (simp add: shell_main_def)
qed

end

end
