(* ===== verification/UserInput.thy ===== *)
theory UserInput
  imports UserErrors LineSpec Echo
begin

text \<open>
  Programs that read from the keyboard, on the kernel: \<open>sys_read\<close> of descriptor 0 returns the line that is typed while
  the program waits, and the console echoes it. A command line that names no executable is refused by \<open>sys_execute\<close>.
  With the former, \<open>hello\<close> is shown to run its session on the kernel; both are used for the sessions of the shell.
\<close>

section \<open>Reading a line\<close>

lemma kb_ready_state: "kb_state t = kb_state s \<Longrightarrow> kb_ready t = kb_ready s \<and> key_status t = key_status s"
  by (simp add: kb_state_def kb_ready_def kb_ok_def kb_line_def)

lemma typed_length: "typed scs m [] = Some w \<Longrightarrow> \<exists>l. w = l @ [0x0A] \<and> length l \<le> 127 \<and> (\<forall>b \<in> set l. b \<noteq> 0 \<and> b \<noteq> 0x08 \<and> b \<noteq> 0x0A)"
  using typed_line [of scs m "[]" w] by simp

lemma typed_no_tab:
  "0x09 \<notin> set l \<Longrightarrow> Key_irq 0x0F \<notin> set evs \<Longrightarrow> typed (List.map_filter scan_code evs) m l = Some w \<Longrightarrow> 0x09 \<notin> set w"
proof (induction evs arbitrary: m l)
  case (Cons e evs)
  show ?case
  proof (cases e)
    case (Key_irq sc)
    have "key_char m sc \<noteq> 0x09" using key_char_tab Cons.prems(2) Key_irq by auto
    then have "0x09 \<notin> set (edit (key_char m sc) l)" using edit_no_tab [OF Cons.prems(1)] by blast
    then show ?thesis using Cons Key_irq by (auto simp: List.map_filter_def split: if_splits)
  qed (use Cons in \<open>simp add: List.map_filter_def\<close>)
qed (simp add: List.map_filter_def)

text \<open>What a program finds in its buffer when the kernel has stored \<open>w\<close> there and changed the screen.\<close>

lemma buffer_filled:
  assumes "stack_ok (Suc k) t" "buffer_at B" "k < 6" "length buf \<le> 4096" "length w \<le> length buf"
    and "ram t = written m (phys k B) w" "\<And>x. x \<notin> screen_bytes \<Longrightarrow> m x = written m0 (phys k B) buf x"
  shows "user_load t B (length buf) = w @ drop (length w) buf"
proof -
  let ?P = "phys k B"
  have "written m ?P w (?P + of_nat i) = written (written m0 ?P buf) ?P w (?P + of_nat i)" if "i < 4096" for i
  proof -
    have "in_range (program_frame k) 0x400000 (?P + of_nat i)"
      using assms(2) that by (intro user_in_frame [of B 4096]) (simp_all add: buffer_at_def in_range_def unat_of_nat)
    then have "?P + of_nat i \<notin> screen_bytes" using screen_not_frame [OF _ assms(3)] by blast
    then show ?thesis using assms(4,5,7) that by (simp add: written_at)
  qed
  then have "map (\<lambda>i. written m ?P w (?P + of_nat i)) [0..<length buf] = map (\<lambda>i. written (written m0 ?P buf) ?P w (?P + of_nat i)) [0..<length buf]"
    using assms(4) by (intro map_cong) auto
  then show ?thesis using buffer_load [OF assms(1,2,4)] written_over [OF assms(4), of w m0 ?P] assms(5,6) by simp
qed

lemma user_read_line:
  assumes "runs k depth B img a (evs, s)" "kb_ready s" "Key_irq 0x0F \<notin> set evs" "128 \<le> length buf" "length buf \<le> 4096"
    and "typed (List.map_filter scan_code evs) (abs_mods (key_status s)) [] = Some w"
  shows "\<exists>rest t. ece391_read (ksys env depth B) 0 buf 1023 (evs, s) = Some (int (length w), w @ drop (length w) buf, rest, t) \<and>
    runs k depth B img a (rest, t) \<and> abs_term t = typed_echo evs (abs_mods (key_status s)) [] (abs_term s) \<and>
    kfds k img (rest, t) = kfds k img (evs, s) \<and> kb_ready t \<and> boot t = boot s \<and>
    (rest, abs_mods (key_status t)) = typed_rest evs (abs_mods (key_status s))"
proof -
  let ?P = "phys k B" and ?m = "abs_mods (key_status s)"
  define e where "e = called k depth B buf s"
  have s: "stack_ok (Suc k) s" "buffer_at B" using assms(1) by (simp_all add: runs_def)
  note k6 = runs_slot [OF assms(1)]
  note e = called_runs [OF assms(1,5), folded e_def]
  have ok: "stack_ok (Suc k) e" "on_screen e" using e(1) by (simp_all add: runs_def)
  have kb: "kb_ready e" "key_status e = key_status s"
    using assms(2) kb_ready_state [of e s] by (simp_all add: kb_state_def e_def called_def syscall_entry_def)
  have w: "length w \<le> 128" using typed_length [OF assms(6)] by auto
  obtain p where p: "vview e B = Some p" using buffer_view [OF ok(1) s(2)] by blast
  obtain rest u where u: "terminal_read (env_dev env) evs (Some p) 1023 e = Some (int (length w), w, rest, u)" "kb_ready u"
      "displays e (typed_echo evs ?m []) u" "(rest, abs_mods (key_status u)) = typed_rest evs ?m"
    using terminal_read_echo [OF kb(1) ok(2) assms(3), of w "env_dev env" p 1023] assms(6) kb(2) by auto
  note k = same_kernel_beyond [OF terminal_read_beyond [OF u(1)]]
  have uok: "stack_ok (Suc k) u" using stack_ok_same [OF ok(1)] k by blast
  define t where "t = u\<lparr>ram := written (ram u) ?P w, iflag := iflag s\<rparr>"
  have "sys_read (env_dev env) evs 0 B 1023 e = Some (int (length w), rest, u\<lparr>ram := written (ram u) ?P w\<rparr>)"
    using std_fd [OF ok(1), of 0] e(2) p u(1) buffer_store(1) [OF uok s(2), of w] w
    by (simp add: sys_read_def pcb_of_def Let_def fap_read_def)
  moreover have "s32 (w32 1023) = 1023" "s32 (w32 0) = 0" by (simp_all add: s32_small)
  ultimately have "sys_call_table (\<lambda>_. None) (env_dev env) (env_shell env) (env_beyond env) evs 3 (w32 0) B (w32 1023) e =
      Some (Ret (int (length w)), rest, u\<lparr>ram := written (ram u) ?P w\<rparr>)"
    by (simp add: sys_call_table_def)
  note c = DO_CALL_ret [OF this [unfolded e_def called_def], folded called_def e_def]
  have tok: "stack_ok (Suc k) t" using uok by (simp add: t_def stack_ok_ram stack_ok_iflag)
  have far: "ram u x = written (ram s) ?P buf x" if "x \<notin> screen_bytes" for x using u(3) that e(3) by (simp add: displays_def)
  have "user_load t B (length buf) = w @ drop (length w) buf"
    using buffer_filled [OF tok s(2) k6 assms(5) _ _ far] w assms(4) by (simp add: t_def)
  then have call: "ece391_read (ksys env depth B) 0 buf 1023 (evs, s) = Some (int (length w), w @ drop (length w) buf, rest, t)"
    using c buffer_store(2) [OF s assms(5)] by (simp add: ksys_def with_buffer_def with_bytes_def t_def)
  have near: "ram t x = ram u x" if "\<not> in_range (program_frame k) 0x400000 x" for x
    using written_outside [OF k6 s(2) _ that] w by (simp add: t_def)
  have same: "screen_x t = screen_x u \<and> screen_y t = screen_y u \<and> boot t = boot s \<and> curr_pcb t = curr_pcb s"
    using k e(4) by (simp add: t_def same_kernel_def e_def called_def syscall_entry_def)
  have "runs k depth B img a (rest, t)"
    using assms(1) tok
  proof (rule runs_keeps)
    show "on_screen t" using u(3) same by (simp add: displays_def on_screen_def)
    fix x
    assume x: "x \<notin> screen_bytes" "\<not> in_range (program_frame k) 0x400000 x"
    then show "ram t x = ram s x" using near far written_outside [OF k6 s(2) assms(5)] by simp
  qed (use same in simp_all)
  moreover have "abs_term t = abs_term u" using same near screen_not_frame [OF _ k6] by (intro abs_term_cong) simp_all
  then have "abs_term t = typed_echo evs ?m [] (abs_term s)" using u(3) e(5) by (simp add: displays_def)
  moreover have "kfds k img (rest, t) = kfds k img (evs, s)" using same by (intro kfds_same) simp
  moreover have "kb_ready t" "key_status t = key_status u" using u(2) kb_ready_state [of t u] by (simp_all add: t_def kb_state_def)
  ultimately show ?thesis using call u(4) same by auto
qed

section \<open>Refused commands\<close>

text \<open>The name that \<open>sys_execute\<close> looks up for a line.\<close>

definition first_word :: "byte list \<Rightarrow> byte list" where
  "first_word l = takeWhile (\<lambda>b. b \<noteq> 0x20) (take 32 l)"

lemma takeWhile_both: "takeWhile P (takeWhile Q xs) = takeWhile (\<lambda>x. P x \<and> Q x) xs"
  by (induction xs) auto

lemma takeWhile_zeros: "takeWhile (\<lambda>b. b \<noteq> 0) (xs @ replicate n (0 :: byte)) = takeWhile (\<lambda>b. b \<noteq> 0) xs"
  by (induction xs) (simp_all add: takeWhile_replicate)

lemma cmd_scan_takeWhile:
  "i \<le> 32 \<Longrightarrow> cmd_scan c i = i + length (takeWhile (\<lambda>b. b \<noteq> 0x0A \<and> b \<noteq> 0x20) (map c [i..<32]))"
proof (induction c i rule: cmd_scan.induct)
  case (1 c i)
  then show ?case by (subst cmd_scan.simps) (cases "i = 32"; auto simp: upt_conv_Cons simp del: upt_rec_numeral)
qed

lemma command_name_word:
  assumes "\<And>i. i < length (l @ 0 # q) \<Longrightarrow> c i = (l @ 0 # q) ! i" "33 \<le> length (l @ 0 # q)" "0 \<notin> set l" "0x0A \<notin> set l"
  shows "cstr_take (list_view (command_name c)) 32 = first_word l"
proof -
  define i where "i = cmd_scan c 0"
  let ?P = "\<lambda>b :: byte. b \<noteq> 0x0A \<and> b \<noteq> 0x20"
  have v: "map c [0..<32] = take 32 (l @ 0 # q)" using assms(1,2) by (intro nth_equalityI) (simp_all del: upt_rec_numeral take_append)
  have i: "i = length (takeWhile ?P (take 32 (l @ 0 # q)))" "i \<le> 32"
    using cmd_scan_takeWhile [of 0 c] cmd_scan_le [of 0 c] by (simp_all add: i_def v del: upt_rec_numeral)
  have "view_take c i = take i (map c [0..<32])" using i(2) by (simp add: view_take_def take_map del: upt_rec_numeral)
  then have "view_take c i = takeWhile ?P (take 32 (l @ 0 # q))" unfolding v i(1) by (simp only: takeWhile_eq_take [symmetric])
  then have "command_name c = takeWhile ?P (take 32 (l @ 0 # q)) @ replicate (32 - i) 0" "length (command_name c) = 32"
    using i by (simp_all add: command_name_def i_def [symmetric] MAX_CMD_LEN_def Let_def del: take_append)
  then have "cstr_take (list_view (command_name c)) 32 = takeWhile (\<lambda>b. b \<noteq> 0) (takeWhile ?P (take 32 (l @ 0 # q)) @ replicate (32 - i) 0)"
    using view_take_list_view [of "command_name c"] by (simp add: cstr_take_def)
  also have "\<dots> = takeWhile (\<lambda>b. b \<noteq> 0) (takeWhile ?P (take 32 (l @ 0 # q)))" by (rule takeWhile_zeros)
  also have "\<dots> = takeWhile (\<lambda>b. b \<noteq> 0 \<and> ?P b) (take 32 (l @ 0 # q))" by (rule takeWhile_both)
  also have "\<dots> = takeWhile (\<lambda>b. b \<noteq> 0 \<and> ?P b) (take 32 l)"
    by (cases "32 \<le> length l") (auto simp: takeWhile_append take_Cons' takeWhile_eq_all_conv [THEN iffD2])
  also have "\<dots> = first_word l"
    unfolding first_word_def using assms(3,4) by (intro takeWhile_cong) (auto dest: in_set_takeD)
  finally show ?thesis .
qed

lemma command_args_end:
  assumes "c n \<noteq> 0x20" "32 \<le> n"
  shows "\<exists>as. command_args c = Some as" "command_reads c \<le> max 129 (n + 1)"
proof -
  define m where "m = (LEAST j. cmd_scan c 0 \<le> j \<and> c j \<noteq> 0x20)"
  have *: "cmd_scan c 0 \<le> n \<and> c n \<noteq> 0x20" using assms cmd_scan_le [of 0 c] by simp
  then have "cmd_scan c 0 \<le> m \<and> c m \<noteq> 0x20" unfolding m_def by (rule LeastI)
  moreover have "c j = 0x20" if "cmd_scan c 0 \<le> j" "j < m" for j using not_less_Least [of j] that by (auto simp: m_def)
  ultimately have sk: "skip_spaces c (cmd_scan c 0) = Some m" by (intro skip_spaces_stop) auto
  then show "\<exists>as. command_args c = Some as" by (simp add: command_args_def Let_def)
  have "m \<le> n" unfolding m_def using * by (rule Least_le)
  moreover have "m + arg_scan c m 0 \<le> max 128 m" using arg_scan_le [of 0 c m] arg_scan_stop [of m 0 c] by (cases "m \<le> 128") auto
  moreover have "cmd_scan c 0 \<le> 32" using cmd_scan_le by simp
  ultimately show "command_reads c \<le> max 129 (n + 1)" using assms(2) by (simp add: command_reads_def Let_def sk max_def split: if_splits)
qed

text \<open>A line that names no executable file of the image.\<close>

definition no_command :: "cptr \<Rightarrow> byte list \<Rightarrow> bool" where
  "no_command img l \<longleftrightarrow> first_word l \<noteq> [] \<and> take 4 (first_word l) \<noteq> ascii ''quit'' \<and>
     (case image_node img (first_word l) of Some (File c) \<Rightarrow> take 4 c \<noteq> check_exe | _ \<Rightarrow> True)"

text \<open>What the kernel makes of a command: \<open>p\<close> are the bytes that it sees.\<close>

lemma called_command:
  assumes "runs k depth B img a (evs, s)" "0 \<notin> set l" "0x0A \<notin> set l" "33 \<le> length (l @ 0 # q)"
    and "length (l @ 0 # q) \<le> 4096" "last (0 # q) \<noteq> 0x20"
  shows "\<exists>p as. vview (called k depth B (l @ 0 # q) s) B = Some p \<and> (\<forall>i < length (l @ 0 # q). p i = (l @ 0 # q) ! i) \<and>
    cstr_take (list_view (command_name p)) 32 = first_word l \<and> command_args p = Some as \<and>
    vreads (called k depth B (l @ 0 # q) s) B (command_reads p)"
proof -
  let ?b = "l @ 0 # q"
  let ?e = "called k depth B ?b s"
  have B: "buffer_at B" using assms(1) by (simp add: runs_def)
  note e = called_runs [OF assms(1,5)]
  have ok: "stack_ok (Suc k) ?e" using e(1) by (simp add: runs_def)
  then obtain p where p: "vview ?e B = Some p" "\<forall>i < 4096. p i = ram ?e (phys k B + of_nat i)" using buffer_view B by blast
  have b: "p i = ?b ! i" if "i < length ?b" for i using p(2) that assms(5) by (simp add: e(3) written_at)
  have w: "cstr_take (list_view (command_name p)) 32 = first_word l" using command_name_word [OF b assms(4,2,3)] .
  have "p (length ?b - 1) \<noteq> 0x20" using b [of "length ?b - 1"] assms(6) last_conv_nth [of ?b] by (simp del: last.simps)
  moreover have "32 \<le> length ?b - 1" using assms(4) by linarith
  ultimately have c: "\<exists>as. command_args p = Some as" "command_reads p \<le> max 129 (length ?b - 1 + 1)"
    using command_args_end [of p "length ?b - 1"] by blast+
  have "command_reads p \<le> 4096" using c(2) assms(5) by (simp add: max_def split: if_splits)
  then have "vreads ?e B (command_reads p)" by (rule buffer_reads [OF ok B])
  then show ?thesis using p(1) b c(1) w by blast
qed

text \<open>The entry of the image behind a file, as the kernel finds it.\<close>

lemma called_entry:
  assumes "runs k depth B img a (evs, e)"
  shows "read_dentry_by_name (fs e) x = read_dentry_by_name img x"
    and "snd (read_dentry_by_name img x) = Some d \<Longrightarrow> ft d = 2 \<Longrightarrow> file_contents (fs e) (ind d) = file_contents img (ind d)"
proof -
  have i: "same_image img (fs e)" "image_wf img" using assms by (simp_all add: runs_def)
  show "read_dentry_by_name (fs e) x = read_dentry_by_name img x" by (rule read_dentry_by_name_same [OF i])
  show "snd (read_dentry_by_name img x) = Some d \<Longrightarrow> ft d = 2 \<Longrightarrow> file_contents (fs e) (ind d) = file_contents img (ind d)"
    using found_entry [OF i(2)] file_contents_same [OF i(1)] by (simp add: entry_wf_def)
qed

lemma user_execute_refused:
  assumes "runs k depth B img a (evs, s)" "no_command img l" "0 \<notin> set l" "0x0A \<notin> set l" "33 \<le> length (l @ 0 # q)"
    and "length (l @ 0 # q) \<le> 4096" "last (0 # q) \<noteq> 0x20"
  shows "\<exists>t. syscall_wrapper (\<lambda>_. None) (env_dev env) (env_shell env) (env_beyond env) depth evs 2 B 0 0
      (s\<lparr>ram := written (ram s) (phys k B) (l @ 0 # q)\<rparr>) = Some (Ret (-1), evs, t) \<and> runs k depth B img a (evs, t) \<and>
    abs_term t = abs_term s \<and> kfds k img (evs, t) = kfds k img (evs, s) \<and> others_kept k s t"
proof -
  let ?b = "l @ 0 # q" and ?w = "first_word l"
  define e where "e = called k depth B ?b s"
  obtain p as where p: "vview e B = Some p" "cstr_take (list_view (command_name p)) 32 = ?w" "command_args p = Some as"
      "vreads e B (command_reads p)"
    using called_command [OF assms(1,3-7)] unfolding e_def by blast
  note e = called_runs [OF assms(1,6), folded e_def]
  have pk: "pcbs_ok (Suc k) (curr_pcb e)" "Suc k \<le> 6" using e(1) by (simp_all add: runs_def stack_ok_def)
  have "execute_with h p e = Some (Ret (-1), e)" for h
  proof (cases "snd (read_dentry_by_name img (list_view ?w))")
    case (Some d)
    then show ?thesis
      using execute_named [OF p(2) _ _ p(3) pk, of h] assms(2) called_entry(2) [OF e(1) Some]
      by (auto simp: no_command_def image_node_def called_entry(1) [OF e(1)])
  qed (use execute_named [OF p(2) _ _ p(3) pk, of h] assms(2) in \<open>simp add: no_command_def called_entry(1) [OF e(1)]\<close>)
  then have "syscall_wrapper (\<lambda>_. None) (env_dev env) (env_shell env) (env_beyond env) depth evs 2 B 0 0 (s\<lparr>ram := written (ram s) (phys k B) ?b\<rparr>) =
      Some (Ret (-1), evs, e\<lparr>iflag := iflag s\<rparr>)"
    using p(1,4) by (simp add: syscall_wrapper_def Let_def syscall_exit_def sys_call_table_def sys_execute_def called_def [symmetric] e_def [symmetric])
  then show ?thesis using called_back [OF assms(1,6), folded e_def] by blast
qed

section \<open>The contract\<close>

text \<open>The states in which a program waits for input, and the input: the interrupts to come and the modifier keys that are down.\<close>

definition listens :: "nat \<Rightarrow> u32 \<Rightarrow> u32 \<Rightarrow> cptr \<Rightarrow> byte list \<Rightarrow> 'a running \<Rightarrow> bool" where
  "listens k depth B img a st \<longleftrightarrow> runs k depth B img a st \<and> kb_ready (snd st) \<and> Key_irq 0x0F \<notin> set (fst st)"

definition keys_input :: "'a running \<Rightarrow> irq list \<times> modifiers" where
  "keys_input st = (fst st, abs_mods (key_status (snd st)))"

definition next_line :: "irq list \<times> modifiers \<Rightarrow> byte list option" where
  "next_line = (\<lambda>(evs, m). typed (List.map_filter scan_code evs) m [])"

definition line_echo :: "irq list \<times> modifiers \<Rightarrow> aterm \<Rightarrow> aterm" where
  "line_echo = (\<lambda>(evs, m). typed_echo evs m [])"

definition next_input :: "irq list \<times> modifiers \<Rightarrow> irq list \<times> modifiers" where
  "next_input = (\<lambda>(evs, m). typed_rest evs m)"

lemma listens_write:
  assumes "listens k depth B img a st" "0 < n" "n \<le> length buf" "length buf \<le> 4096" "list_all (\<lambda>b. b \<noteq> 0x09) (take n buf)"
  shows "\<exists>t. ece391_write (ksys env depth B) 1 buf (int n) st = Some (int n, t) \<and> listens k depth B img a t \<and>
    abs_term (snd t) = fold aterm_put (take n buf) (abs_term (snd st)) \<and> kfds k img t = kfds k img st \<and> keys_input t = keys_input st \<and>
    boot (snd t) = boot (snd st)"
proof -
  obtain evs s where st: "st = (evs, s)" by fastforce
  obtain t where "ece391_write (ksys env depth B) 1 buf (int n) (evs, s) = Some (int n, evs, t)" "runs k depth B img a (evs, t)"
      "abs_term t = fold aterm_put (take n buf) (abs_term s)" "kfds k img (evs, t) = kfds k img (evs, s)" "kb_state t = kb_state s"
      "boot t = boot s"
    using user_write [of k depth B img a evs s n buf env] assms by (auto simp: st listens_def list_all_iff others_kept_def)
  then show ?thesis using kb_ready_state [of t s] assms(1) by (auto simp: st listens_def keys_input_def)
qed

lemma listens_read:
  assumes "listens k depth B img a st" "next_line (keys_input st) = Some w" "128 \<le> length buf" "length buf \<le> 4096"
  shows "\<exists>t. ece391_read (ksys env depth B) 0 buf 1023 st = Some (int (length w), w @ drop (length w) buf, t) \<and> listens k depth B img a t \<and>
    abs_term (snd t) = line_echo (keys_input st) (abs_term (snd st)) \<and> kfds k img t = kfds k img st \<and>
    keys_input t = next_input (keys_input st) \<and> boot (snd t) = boot (snd st)"
proof -
  obtain evs s where st: "st = (evs, s)" by fastforce
  obtain rest t where t: "ece391_read (ksys env depth B) 0 buf 1023 (evs, s) = Some (int (length w), w @ drop (length w) buf, rest, t)"
      "runs k depth B img a (rest, t)" "abs_term t = typed_echo evs (abs_mods (key_status s)) [] (abs_term s)"
      "kfds k img (rest, t) = kfds k img (evs, s)" "kb_ready t" "boot t = boot s"
      "(rest, abs_mods (key_status t)) = typed_rest evs (abs_mods (key_status s))"
    using user_read_line [of k depth B img a evs s buf w env] assms by (auto simp: st listens_def next_line_def keys_input_def)
  then have "rest = fst (typed_rest evs (abs_mods (key_status s)))" by (metis fst_conv)
  then have "Key_irq 0x0F \<notin> set rest" using typed_rest_suffix [of evs "abs_mods (key_status s)"] assms(1) by (auto simp: st listens_def)
  then show ?thesis using t by (auto simp: st listens_def keys_input_def line_echo_def next_input_def)
qed

lemma listens_line:
  assumes "listens k depth B img a st" "next_line (keys_input st) = Some w"
  shows "\<exists>l. w = l @ [0x0A] \<and> length l \<le> 127 \<and> 0 \<notin> set l \<and> 0x0A \<notin> set l \<and> list_all (\<lambda>b. b \<noteq> 0x09) w"
proof -
  have t: "typed (List.map_filter scan_code (fst st)) (abs_mods (key_status (snd st))) [] = Some w" "Key_irq 0x0F \<notin> set (fst st)"
    using assms by (simp_all add: listens_def next_line_def keys_input_def)
  have "0x09 \<notin> set w" using typed_no_tab [OF _ t(2,1)] by simp
  then have "list_all (\<lambda>b. b \<noteq> 0x09) w" by (auto simp: list_all_iff)
  then show ?thesis using typed_length [OF t(1)] by blast
qed

text \<open>The commands that are refused.\<close>

definition refused_commands :: "cptr \<Rightarrow> byte list \<Rightarrow> (int \<times> (aterm \<Rightarrow> aterm)) option" where
  "refused_commands img l = (if no_command img l then Some (-1, \<lambda>v. v) else None)"

interpretation kl: line_calls "ksys env depth B" "listens k depth B img a" "\<lambda>st. abs_term (snd st)" "fold aterm_put" "\<lambda>b. b \<noteq> 0x09"
  "kfds k img" keys_input next_line line_echo next_input "refused_commands img"
  for env depth B k img a
proof (unfold_locales, goal_cases)
  case (3 st n buf)
  then show ?case using listens_write [of k depth B img a st n buf env] by blast
next
  case (4 st n buf r t)
  then show ?case using listens_write [of k depth B img a st n buf env] by auto
next
  case (5 st w buf)
  then show ?case using listens_read [of k depth B img a st w buf env] by blast
next
  case (6 st w)
  then show ?case by (rule listens_line)
next
  case (7 st l v f q)
  then have c: "no_command img l" "v = -1" "f = (\<lambda>v. v)" by (simp_all add: refused_commands_def split: if_splits)
  obtain evs s where st: "st = (evs, s)" by fastforce
  have r: "runs k depth B img a (evs, s)" using 7(1) by (simp add: st listens_def)
  obtain t where t: "syscall_wrapper (\<lambda>_. None) (env_dev env) (env_shell env) (env_beyond env) depth evs 2 B 0 0
        (s\<lparr>ram := written (ram s) (phys k B) (l @ 0 # q)\<rparr>) = Some (Ret (-1), evs, t)"
      "runs k depth B img a (evs, t)" "abs_term t = abs_term s" "kfds k img (evs, t) = kfds k img (evs, s)" "kb_state t = kb_state s"
    using user_execute_refused [OF r c(1) 7(5-9), of env] by (auto simp: others_kept_def)
  have "ece391_execute (ksys env depth B) (l @ 0 # q) (evs, s) = Some (-1, evs, t)"
    using buffer_store(2) [OF _ _ 7(8), of k s B] r t(1) by (simp add: runs_def ksys_def with_bytes_def DO_CALL_def)
  then show ?case using t(2-5) kb_ready_state [of t s] 7(1) c(2,3) by (auto simp: st listens_def keys_input_def)
qed auto

section \<open>A concrete terminal\<close>

lemma user_kernel_keyboard: "kb_ready (user_kernel g as)" "abs_mods (key_status (user_kernel g as)) =
    \<lparr>m_shift = False, m_caps = False, m_ctrl = False, m_alt = False, m_num = False, m_scroll = False\<rparr>"
proof -
  have "kb_state running_kernel = kb_state idle_keyboard"
    by (simp add: kb_state_def running_kernel_def map_program_def Let_def page_init_def pageEnable_def spawnDir_def flushTLB_def chgDir_def
        tiny_kernel_def paging_state.defs blank_paging_def keyboard_state.defs idle_keyboard_def)
  then have kb: "kb_state (user_kernel g as) = kb_state idle_keyboard" by (simp add: user_kernel_def set_pcb_def kb_state_def)
  then show "abs_mods (key_status (user_kernel g as)) =
      \<lparr>m_shift = False, m_caps = False, m_ctrl = False, m_alt = False, m_num = False, m_scroll = False\<rparr>"
    by (simp add: kb_state_def idle_keyboard_def abs_mods_def)
  have "kb_ready idle_keyboard" by (simp add: kb_ready_def kb_ok_def kb_line_def idle_keyboard_def)
  then show "kb_ready (user_kernel g as)" using kb by (simp add: kb_state_def kb_ready_def kb_ok_def kb_line_def)
qed

lemma user_kernel_listens: "Key_irq 0x0F \<notin> set evs \<Longrightarrow> listens 0 64 0x8100000 dir_image [] (evs, user_kernel dir_image [])"
  using user_kernel_runs [OF dir_image_wf, of "[]" evs] user_kernel_keyboard(1) by (simp add: listens_def dir_image_small)

section \<open>Properties\<close>

text \<open>C10. \<open>hello\<close> on the kernel: when a line is typed while the program runs, with corrections,
  modifier keys and ticks of the clock in between, \<open>hello\<close> reads that line and returns 0. The user sees
  the question, the echo of the typing, and the greeting with the line; the descriptors are unchanged and the keys
  behind the line are left. The Tab key must not be among the keys to come, and the keyboard driver must be ready for
  a line (\<open>listens\<close>). The file system must have a well-formed image (theory \<open>Image\<close>; names
  of 1 to 32 bytes, known types, existing inodes and blocks, an unnamed entry behind the last, as the image of the
  sources has them) in the kernel's page.\<close>

theorem hello_on_kernel:
  assumes "listens k depth B img a st" "next_line (keys_input st) = Some w" "length buf = 1024"
  shows "\<exists>t. hello_main (ksys env depth B) buf st = Some (0, t) \<and> listens k depth B img a t \<and> kfds k img t = kfds k img st \<and>
    keys_input t = next_input (keys_input st) \<and>
    abs_term (snd t) = fold aterm_put (ascii ''Hello, '' @ w)
      (line_echo (keys_input st) (fold aterm_put (ascii ''Hi, what's your name? '') (abs_term (snd st))))"
  by (rule kl.hello_greets [OF assms])

text \<open>The name Hi, typed with a wrong character that is erased, and a key that is pressed behind the line.\<close>

theorem hello_on_kernel_witness:
  "\<forall>env. \<exists>t. hello_main (ksys env 64 0x8100000) (replicate 1024 0)
     ([Key_irq 0x2A, Key_irq 0x23, Key_irq 0xAA, Rtc_irq, Key_irq 0x17, Key_irq 0x2D, Key_irq 0x0E, Key_irq 0x1C, Key_irq 0x1E],
      user_kernel dir_image []) = Some (0, t) \<and> fst t = [Key_irq 0x1E] \<and> kb_ready (snd t)"
  (is "\<forall>env. ?P env")
proof
  fix env
  let ?evs = "[Key_irq 0x2A, Key_irq 0x23, Key_irq 0xAA, Rtc_irq, Key_irq 0x17, Key_irq 0x2D, Key_irq 0x0E, Key_irq 0x1C, Key_irq 0x1E]"
  let ?st = "(?evs, user_kernel dir_image [])"
  have "next_line (keys_input ?st) = Some (ascii ''Hi'' @ [0x0A])" "fst (next_input (keys_input ?st)) = [Key_irq 0x1E]"
    by (simp_all add: keys_input_def next_line_def next_input_def user_kernel_keyboard List.map_filter_def key_char_def mods_step_def edit_def is_letter_def
        keymap_entries keymap_upper_entries nth_append ascii_def flip: and_flag(6))
  then show "?P env"
    using hello_on_kernel [OF user_kernel_listens, of ?evs "ascii ''Hi'' @ [0x0A]" "replicate 1024 0" env]
    by (auto simp: listens_def keys_input_def dest: arg_cong [of _ _ fst])
qed

end
