(* ===== verification/Session.thy ===== *)
theory Session
  imports UserInput
begin

text \<open>
  Programs that run programs: a call of \<open>ece391_execute\<close> that succeeds suspends the caller, runs the new program from its
  entry, which is \<^verbatim>\<open>_start\<close> of \<^verbatim>\<open>src/syscalls/ece391syscall.S\<close>, and returns its status when it halts. With the
  processes of the kernel nested in this way, a session of the shell is shown in which the user runs programs.
\<close>

section \<open>Programs as processes\<close>

type_synonym 's program = "'s usys \<Rightarrow> 's \<Rightarrow> (int \<times> 's) option"

text \<open>\<^verbatim>\<open>_start\<close> calls \<open>main\<close> and halts with its value; the halt resumes the process that executed this one.\<close>

definition start_main :: "kernel_env \<Rightarrow> u32 \<Rightarrow> ('a running \<Rightarrow> (int \<times> 'a running) option) \<Rightarrow> 'a running \<Rightarrow> (int \<times> 'a running) option" where
  "start_main env depth main st =
     (case main st of
        None \<Rightarrow> None
      | Some (eax, evs, s) \<Rightarrow>
          (case syscall_wrapper (\<lambda>_. None) (env_dev env) (env_shell env) (env_beyond env) depth evs 1 (w32 eax) 0 0 s of
             Some (Resume r, rest, t) \<Rightarrow> Some (r, rest, t)
           | _ \<Rightarrow> None))"

text \<open>
  The call of \<open>ece391_execute\<close>. \<open>progs\<close> gives the program that the file of a name is the executable of, and \<open>lower\<close> the
  system calls that it makes. A command that ends the caller itself, which is \<^verbatim>\<open>quit\<close>, does not return.
\<close>

definition execute_call ::
  "kernel_env \<Rightarrow> u32 \<Rightarrow> u32 \<Rightarrow> (byte list \<Rightarrow> 'a running program option) \<Rightarrow> 'a running usys \<Rightarrow> byte list \<Rightarrow> 'a running \<Rightarrow> (int \<times> 'a running) option" where
  "execute_call env depth B progs lower command =
     with_bytes command B (\<lambda>(evs, s).
       (case syscall_wrapper (\<lambda>_. None) (env_dev env) (env_shell env) (env_beyond env) depth evs 2 B 0 0 s of
          Some (Ret r, rest, t) \<Rightarrow> Some (r, rest, t)
        | Some (Enter entry sp, rest, t) \<Rightarrow>
            (case progs (first_word (cstr command)) of
               None \<Rightarrow> None
             | Some main \<Rightarrow> start_main env depth (main lower) (rest, t))
        | _ \<Rightarrow> None))"

text \<open>
  The system calls with \<open>n\<close> levels of programs above the caller. The kernel has six processes, so that at most five
  levels can be entered.
\<close>

primrec nsys :: "kernel_env \<Rightarrow> u32 \<Rightarrow> u32 \<Rightarrow> (byte list \<Rightarrow> 'a running program option) \<Rightarrow> nat \<Rightarrow> 'a running usys" where
  "nsys env depth B progs 0 = ksys env depth B"
| "nsys env depth B progs (Suc n) = (ksys env depth B)\<lparr>ece391_execute := execute_call env depth B progs (nsys env depth B progs n)\<rparr>"

text \<open>The programs of \<^verbatim>\<open>src/syscalls/Makefile\<close> that need arrays only; \<open>stk\<close> is what their arrays hold at the start.\<close>

definition user_programs :: "byte list \<Rightarrow> byte list \<Rightarrow> 's program option" where
  "user_programs stk w =
     (if w = ascii ''cat'' then Some (\<lambda>sys. cat_main sys stk)
      else if w = ascii ''ls'' then Some (\<lambda>sys. ls_main sys (take 33 stk))
      else if w = ascii ''hello'' then Some (\<lambda>sys. hello_main sys stk)
      else if w = ascii ''shell'' then Some (\<lambda>sys. shell_main sys stk)
      else if w = ascii ''counter'' then Some (\<lambda>sys. counter_main sys stk)
      else if w = ascii ''testprint'' then Some testprint_main
      else if w = ascii ''pingpong'' then Some pingpong_main
      else None)"

text \<open>The last stub, which no program calls; its number is beyond those that the kernel admits.\<close>

definition ece391_sigreturn :: "kernel_env \<Rightarrow> u32 \<Rightarrow> 'a running \<Rightarrow> (int \<times> 'a running) option" where
  "ece391_sigreturn env depth = DO_CALL env depth 10 0 0 0"

lemma sigreturn_refused: "ece391_sigreturn env depth (evs, s) = Some (-1, evs, (syscall_entry depth s)\<lparr>iflag := iflag s\<rparr>)"
  by (simp add: ece391_sigreturn_def DO_CALL_def syscall_wrapper_def syscall_exit_def Let_def)

lemma nsys_calls [simp]:
  "ece391_read (nsys env depth B progs n) = ece391_read (ksys env depth B)"
  "ece391_write (nsys env depth B progs n) = ece391_write (ksys env depth B)"
  "ece391_open (nsys env depth B progs n) = ece391_open (ksys env depth B)"
  "ece391_close (nsys env depth B progs n) = ece391_close (ksys env depth B)"
  "ece391_getargs (nsys env depth B progs n) = ece391_getargs (ksys env depth B)"
  by (cases n; simp)+

section \<open>The start of a program\<close>

text \<open>The arguments in a line: what follows the first word and the spaces behind it.\<close>

definition line_args :: "byte list \<Rightarrow> byte list" where
  "line_args l = dropWhile (\<lambda>b. b = 0x20) (dropWhile (\<lambda>b. b \<noteq> 0x20) l)"

lemma first_word_short: "length (first_word l) < 32 \<Longrightarrow> first_word l = takeWhile (\<lambda>b. b \<noteq> 0x20) l"
  by (simp add: first_word_def takeWhile_of_take)

lemma line_parts:
  assumes "length (first_word l) < 32" "line_args l \<noteq> []"
  shows "\<exists>n. l = first_word l @ replicate n 0x20 @ line_args l \<and> 0 < n \<and> hd (line_args l) \<noteq> 0x20"
proof -
  let ?r = "dropWhile (\<lambda>b. b \<noteq> 0x20) l"
  let ?t = "takeWhile (\<lambda>b. b = 0x20) ?r"
  have "replicate (length ?t) 0x20 = ?t" by (rule replicate_length_same) (auto dest: set_takeWhileD)
  then have r: "?r = replicate (length ?t) 0x20 @ line_args l" by (metis line_args_def takeWhile_dropWhile_id)
  have ne: "?r \<noteq> []" using assms(2) unfolding line_args_def by (metis dropWhile.simps(1))
  then have "hd ?r = 0x20" using hd_dropWhile [OF ne] by simp
  then have "0 < length ?t" using ne by (cases ?r) auto
  moreover have "hd (line_args l) \<noteq> 0x20" using assms(2) hd_dropWhile [of "\<lambda>b. b = 0x20" ?r] by (simp add: line_args_def)
  moreover have "l = first_word l @ replicate (length ?t) 0x20 @ line_args l"
    unfolding r [symmetric] first_word_short [OF assms(1)] by simp
  ultimately show ?thesis by blast
qed

lemma line_command:
  assumes "\<And>i. i < length (l @ 0 # q) \<Longrightarrow> c i = (l @ 0 # q) ! i" "0 \<notin> set l" "0x0A \<notin> set l" "length l \<le> 128"
    and "first_word l \<noteq> []" "length (first_word l) < 32" "line_args l \<noteq> []"
  shows "command_args c = Some (line_args l @ replicate (128 - length (line_args l)) 0)" "length (line_args l) < 128"
proof -
  obtain n where n: "l = first_word l @ replicate n 0x20 @ line_args l" "0 < n" "hd (line_args l) \<noteq> 0x20"
    using line_parts [OF assms(6,7)] by blast
  have len: "length l = length (first_word l) + n + length (line_args l)" by (subst n(1)) simp
  have "set (first_word l) \<union> set (line_args l) \<subseteq> set l" by (subst (3) n(1)) auto
  moreover have "0x20 \<notin> set (first_word l)" by (auto simp: first_word_def dest: set_takeWhileD)
  moreover have "view_take c (length (first_word l) + n + length (line_args l) + 1) = first_word l @ replicate n 0x20 @ line_args l @ [0]"
  proof -
    have "view_take c (length l + 1) = l @ [0]" using assms(1) by (intro nth_equalityI) (auto simp: nth_append less_Suc_eq)
    then show ?thesis unfolding len [symmetric] by (subst (asm) (2) n(1)) simp
  qed
  ultimately have "command_line c (first_word l) n (line_args l) 0"
    using assms(2-7) n(2,3) len by (auto simp: command_line_def)
  then show "command_args c = Some (line_args l @ replicate (128 - length (line_args l)) 0)" by (rule command_line_parse(2))
  show "length (line_args l) < 128" using len n(2) assms(4) by linarith
qed

lemma cstr_strcpy_args: "cstr (strcpy_args as old) = cstr as"
proof -
  have "takeWhile (\<lambda>b. b \<noteq> 0) (takeWhile (\<lambda>b. b \<noteq> 0) as @ 0 # xs) = takeWhile (\<lambda>b. b \<noteq> 0) as" for xs
    by (subst takeWhile_append2) (auto dest: set_takeWhileD)
  then show ?thesis by (simp add: strcpy_args_def cstr_def Let_def)
qed

lemma cstr_shorter: "length as = 128 \<Longrightarrow> as ! 127 = 0 \<Longrightarrow> length (cstr as) < 128"
proof -
  assume a: "length as = 128" "as ! 127 = 0"
  have "length (cstr as) \<noteq> 128"
  proof
    assume "length (cstr as) = 128"
    then have "cstr as = as" using a(1) takeWhile_eq_take [of "\<lambda>b. b \<noteq> 0" as] by (simp add: cstr_def)
    then show False using cstr_nonzero [of as] a nth_mem [of 127 as] by simp
  qed
  then show ?thesis using length_takeWhile_le [of "\<lambda>b. b \<noteq> 0" as] a(1) by (simp add: cstr_def)
qed

text \<open>What the start of a process leaves alone, and the descriptor 2 of the new process, which is closed.\<close>

lemma start_program_rest:
  assumes "start_program as nd entry k s = Some (out, t)" "k < length (curr_pcb s)" "length (file_desc_tb (curr_pcb s ! k)) = 8"
  shows "screen_x t = screen_x s \<and> screen_y t = screen_y s \<and> boot t = boot s \<and> kb_state t = kb_state s"
    "flag (file_desc_tb (curr_pcb t ! k) ! 2) = 0"
proof -
  define w where "w = map_program (of_nat k) (set_pcb k (\<lambda>p. p\<lparr>args := strcpy_args as (args p)\<rparr>) s)"
  from assms(1) obtain u where
      u0: "vstore (snd (read_data (fs w) nd 0 KERNEL_STACK_BOTTOM)) (MB_128 + PROC_OFFSET) w = Some u"
    and t: "t = (set_pcb k (new_pcb k u) u)\<lparr>tss_ss0 := KERNEL_DS, tss_esp0 := MB_8 - of_nat k * KB_8 - 4, iflag := True\<rparr>"
    by (auto simp: start_program_def Let_def w_def split: option.splits)
  obtain m where u: "u = w\<lparr>ram := m\<rparr>" using vstore_ram [OF u0] by blast
  show "screen_x t = screen_x s \<and> screen_y t = screen_y s \<and> boot t = boot s \<and> kb_state t = kb_state s"
    by (simp add: t u w_def set_pcb_def kb_state_def map_program_entry flushTLB_def chgDir_def)
  show "flag (file_desc_tb (curr_pcb t ! k) ! 2) = 0"
    using assms(2,3) new_pcb_table [of "curr_pcb u ! k" 2 k u] by (simp add: t u w_def set_pcb_def)
qed

text \<open>A file that fits into the page of a program is stored in the frame of its process.\<close>

lemma loaded_outside:
  assumes "length c \<le> 0x3B8000" "\<not> in_range (program_frame k) 0x400000 x"
  shows "written m (program_frame k + PROC_OFFSET) c x = m x"
proof -
  have "phys k 0x8048000 = program_frame k + PROC_OFFSET" by (simp add: phys_def PROC_OFFSET_def)
  then have "\<not> in_range (program_frame k + PROC_OFFSET) (length c) x"
    using user_in_frame [of "0x8048000" "length c" k x] assms by auto
  then show ?thesis by (simp add: written_def)
qed

lemma program_starts:
  assumes "stack_ok (Suc k) e" "get_pcb e = Some k" "Suc k < 6" "length (file_contents (fs e) nd) \<le> 0x3B8000" "command_args p = Some as"
  shows "\<exists>t. start_program as nd entry (Suc k) e = Some (Enter entry (MB_132 - 4), t) \<and> stack_ok (Suc (Suc k)) t \<and>
    cstr (args (curr_pcb t ! Suc k)) = cstr as \<and> flag (file_desc_tb (curr_pcb t ! Suc k) ! 2) = 0 \<and>
    others_kept (Suc k) e t \<and> screen_x t = screen_x e \<and> screen_y t = screen_y e \<and>
    (\<forall>x. \<not> in_range (program_frame (Suc k)) 0x400000 x \<longrightarrow> ram t x = ram e x)"
proof -
  have k: "pcbs_ok (Suc k) (curr_pcb e)" "kernel_space e" "length (curr_pcb e) = 6" "length (file_desc_tb (curr_pcb e ! Suc k)) = 8"
    using assms(1,3) by (auto simp: stack_ok_def mapped_top_def pcbs_ok_def pcb_ok_def fds_ok_def)
  have esp: "in_stack k (esp e)" using assms(2) by (simp add: get_pcb_in_stack)
  obtain t where t: "start_program as nd entry (Suc k) e = Some (Enter entry (MB_132 - 4), t)"
      "ram t = written (ram e) (program_frame (Suc k) + PROC_OFFSET) (file_contents (fs e) nd)"
    using start_program_loads [OF k(2) assms(3,4)] by blast
  have "stack_ok (Suc (Suc k)) t"
    using start_program_ok [OF k(1) assms(3) k(2) _ _ _ t(1)] esp command_args_ok [OF assms(5)] by simp
  moreover obtain q where q: "curr_pcb t = (curr_pcb e)[Suc k := q]" "args q = strcpy_args as (args (curr_pcb e ! Suc k))"
    using start_program_pcb [OF t(1)] k(3) assms(3) by auto
  then have "cstr (args (curr_pcb t ! Suc k)) = cstr as" using k(3) assms(3) by (simp add: cstr_strcpy_args)
  moreover note r = start_program_rest [OF t(1) _ k(4)]
  have mem: "ram t x = ram e x" if "\<not> in_range (program_frame (Suc k)) 0x400000 x" for x
    unfolding t(2) by (rule loaded_outside [OF assms(4) that])
  moreover have "others_kept (Suc k) e t" using r k(3) assms(3) q(1) mem by (intro others_kept_update) simp_all
  ultimately show ?thesis using t(1) r k(3) assms(3) by auto
qed

text \<open>A line that names an executable of the image.\<close>

definition executable :: "cptr \<Rightarrow> byte list \<Rightarrow> bool" where
  "executable img w \<longleftrightarrow> w \<noteq> [] \<and> take 4 w \<noteq> ascii ''quit'' \<and>
     (case image_node img w of Some (File c) \<Rightarrow> take 4 c = check_exe \<and> length c \<le> 0x3B8000 | _ \<Rightarrow> False)"

lemma executable_entry:
  assumes "runs k depth B img a (evs, e)" "executable img w"
  shows "\<exists>d. snd (read_dentry_by_name (fs e) (list_view w)) = Some d \<and> ft d = 2 \<and> take 4 (file_contents (fs e) (ind d)) = check_exe \<and>
    length (file_contents (fs e) (ind d)) \<le> 0x3B8000"
proof -
  obtain d where d: "snd (read_dentry_by_name img (list_view w)) = Some d" "ft d \<noteq> 0" "ft d \<noteq> 1"
      "take 4 (file_contents img (ind d)) = check_exe" "length (file_contents img (ind d)) \<le> 0x3B8000"
    using assms(2) by (auto simp: executable_def image_node_def split: option.splits if_splits)
  have "image_wf img" using assms(1) by (simp add: runs_def)
  then have "ft d = 2" using found_entry [OF _ d(1)] file_type d(2,3) by (auto simp: entry_wf_def)
  then show ?thesis using d called_entry [OF assms(1)] by simp
qed

lemma execute_enters:
  assumes "runs k depth B img a (evs, s)" "executable img (first_word l)" "Suc k < 6" "image_home img (boot s)"
    and "0 \<notin> set l" "0x0A \<notin> set l" "33 \<le> length (l @ 0 # q)" "length (l @ 0 # q) \<le> 4096" "last (0 # q) \<noteq> 0x20"
  shows "\<exists>entry sp a' t. syscall_wrapper (\<lambda>_. None) (env_dev env) (env_shell env) (env_beyond env) depth evs 2 B 0 0
      (s\<lparr>ram := written (ram s) (phys k B) (l @ 0 # q)\<rparr>) = Some (Enter entry sp, evs, t) \<and>
    runs (Suc k) depth B img a' (evs, t) \<and> (\<exists>fd \<in> {2..7}. kfds (Suc k) img (evs, t) fd = Closed) \<and>
    (length l \<le> 128 \<and> length (first_word l) < 32 \<and> line_args l \<noteq> [] \<longrightarrow> a' = line_args l) \<and>
    others_kept (Suc k) (called k depth B (l @ 0 # q) s) t \<and> abs_term t = abs_term s"
proof -
  let ?b = "l @ 0 # q" and ?w = "first_word l"
  define e where "e = called k depth B ?b s"
  obtain p as where p: "vview e B = Some p" "\<forall>i < length ?b. p i = ?b ! i"
      "cstr_take (list_view (command_name p)) 32 = ?w" "command_args p = Some as"
      "vreads e B (command_reads p)"
    using called_command [OF assms(1,5-9)] unfolding e_def by blast
  note e = called_runs [OF assms(1,8), folded e_def]
  have ok: "stack_ok (Suc k) e" "pcbs_ok (Suc k) (curr_pcb e)" "Suc k \<le> 6" using e(1) by (simp_all add: runs_def stack_ok_def)
  obtain d where d: "snd (read_dentry_by_name (fs e) (list_view ?w)) = Some d" "ft d = 2" "take 4 (file_contents (fs e) (ind d)) = check_exe"
      "length (file_contents (fs e) (ind d)) \<le> 0x3B8000"
    using executable_entry [OF e(1) assms(2)] by blast
  let ?entry = "load_le32 (list_view (file_contents (fs e) (ind d))) 24"
  obtain t where t: "start_program as (ind d) ?entry (Suc k) e = Some (Enter ?entry (MB_132 - 4), t)" "stack_ok (Suc (Suc k)) t"
      "cstr (args (curr_pcb t ! Suc k)) = cstr as" "flag (file_desc_tb (curr_pcb t ! Suc k) ! 2) = 0" "others_kept (Suc k) e t"
      "screen_x t = screen_x e \<and> screen_y t = screen_y e" "\<forall>x. \<not> in_range (program_frame (Suc k)) 0x400000 x \<longrightarrow> ram t x = ram e x"
    using program_starts [OF ok(1) e(2) assms(3) d(4) p(4)] by blast
  have "execute_with h p e = Some (Enter ?entry (MB_132 - 4), t)" for h
    using execute_named [OF p(3) _ _ p(4) ok(2,3), of h] assms(2,3) d(1-3) t(1) by (simp add: executable_def)
  then have "syscall_wrapper (\<lambda>_. None) (env_dev env) (env_shell env) (env_beyond env) depth evs 2 B 0 0 (s\<lparr>ram := written (ram s) (phys k B) ?b\<rparr>) =
      Some (Enter ?entry (MB_132 - 4), evs, t)"
    using p(1,5) by (simp add: syscall_wrapper_def Let_def syscall_exit_def sys_call_table_def sys_execute_def called_def [symmetric] e_def [symmetric])
  moreover have boot: "boot t = boot e" "boot e = boot s" using t(5) by (simp_all add: others_kept_def e_def called_def syscall_entry_def)
  have "runs (Suc k) depth B img (cstr as) (evs, t)"
  proof -
    have "fs t i = fs e i" if "i < image_size img" for i using image_home_apart(2) [OF assms(4) that assms(3)] t(7) boot by (simp add: fs_def)
    then have "same_image img (fs t)" using e(1) by (simp add: runs_def same_image_def)
    then show ?thesis
      using e(1) t(2,3,6) boot assms(4) cstr_shorter [of as] command_args_ok [OF p(4)] by (simp add: runs_def on_screen_def)
  qed
  moreover have "kfds (Suc k) img (evs, t) 2 = Closed" using t(4) by (simp add: kfds_def descriptor_of_def)
  then have "\<exists>fd \<in> {2..7}. kfds (Suc k) img (evs, t) fd = Closed" by (intro bexI [of _ 2]) simp_all
  moreover have "cstr as = line_args l" if "length l \<le> 128" "length ?w < 32" "line_args l \<noteq> []"
  proof -
    have "?w \<noteq> []" using assms(2) by (simp add: executable_def)
    then have "as = line_args l @ replicate (128 - length (line_args l)) 0" using line_command(1) [of l q p] p(2,4) assms(5,6) that by simp
    moreover have "0 \<notin> set (line_args l)" using assms(5) by (auto simp: line_args_def dest!: set_dropWhileD)
    then have "takeWhile (\<lambda>b. b \<noteq> 0) (line_args l) = line_args l" by (auto simp: takeWhile_eq_all_conv)
    ultimately show ?thesis by (simp add: cstr_def takeWhile_zeros)
  qed
  moreover have "abs_term t = abs_term s"
    using t(6,7) screen_not_frame [OF _ assms(3)] e(5) abs_term_cong [of t e] by simp
  ultimately show ?thesis using t(5) unfolding e_def by blast
qed

section \<open>The end of a program\<close>

lemma halt_return_rest:
  "halt_return p status s = Some (out, t) \<Longrightarrow>
     ram t = ram s \<and> screen_x t = screen_x s \<and> screen_y t = screen_y s \<and> boot t = boot s \<and> kb_state t = kb_state s"
  by (auto simp: halt_return_def Let_def kb_state_def map_program_entry flushTLB_def chgDir_def)

lemma halt_resumes:
  assumes "runs (Suc k) depth B img a (evs, u)"
  shows "\<exists>v. syscall_wrapper (\<lambda>_. None) (env_dev env) (env_shell env) (env_beyond env) depth evs 1 ebx 0 0 u =
      Some (Resume (sint (ucast ebx :: byte)), evs, v) \<and> stack_ok (Suc k) v \<and> others_kept (Suc k) u v \<and>
    ram v = ram u \<and> screen_x v = screen_x u \<and> screen_y v = screen_y u"
proof -
  let ?e = "syscall_entry depth u" and ?s = "ucast ebx :: byte"
  have u: "stack_ok (Suc (Suc k)) u" "unat depth \<le> 8188" using assms by (simp_all add: runs_def)
  have ok: "stack_ok (Suc (Suc k)) ?e" "get_pcb ?e = Some (Suc k)" using u(1) entry_slot [OF u] by (simp_all add: stack_ok_entry)
  have q: "length (curr_pcb ?e) = 6" "parent_pid (curr_pcb ?e ! Suc k) = of_nat (Suc k) - 1" "Suc k < 6"
    using ok(1) by (auto simp: stack_ok_def pcbs_ok_def pcb_ok_def)
  obtain v where v: "sys_halt (env_shell env) ?s ?e = Some (Resume (sint ?s), v)"
      "curr_pcb v = (curr_pcb ?e)[Suc k := halt_close (curr_pcb ?e ! Suc k)]"
    using halt_to_parent [OF ok(2) _ q(1,2), of "env_shell env" ?s] by blast
  have "stack_ok (Suc k) v" using sys_halt_cases [OF ok v(1)] by simp
  moreover have "parent_pid (pcb_of (set_pcb (Suc k) halt_close ?e) (Suc k)) \<noteq> - 1"
  proof -
    have "(of_nat k :: u32) \<noteq> - 1"
    proof
      assume "(of_nat k :: u32) = - 1"
      then have "(of_nat (Suc k) :: u32) = 0" by simp
      then have "unat (of_nat (Suc k) :: u32) = 0" by (simp only: unat_0)
      then show False using q(3) by (simp add: unat_of_nat del: of_nat_Suc)
    qed
    then show ?thesis using q by (simp add: pcb_of_def set_pcb_def halt_close_eq set_fd_def)
  qed
  then have "halt_return (Suc k) ?s (set_pcb (Suc k) halt_close ?e) = Some (Resume (sint ?s), v)"
    using v(1) ok(2) by (simp add: sys_halt_def Let_def)
  note r = halt_return_rest [OF this]
  have "others_kept (Suc k) u (v\<lparr>iflag := True\<rparr>)"
    using r v(2) by (intro others_kept_update) (simp_all add: set_pcb_def syscall_entry_def kb_state_def)
  moreover have "syscall_wrapper (\<lambda>_. None) (env_dev env) (env_shell env) (env_beyond env) depth evs 1 ebx 0 0 u =
      Some (Resume (sint ?s), evs, v\<lparr>iflag := True\<rparr>)"
    using v(1) by (simp add: syscall_wrapper_def sys_call_table_def syscall_exit_def Let_def)
  ultimately show ?thesis using r by (intro exI [of _ "v\<lparr>iflag := True\<rparr>"]) (simp add: stack_ok_iflag set_pcb_def syscall_entry_def)
qed

section \<open>A program and its caller\<close>

text \<open>
  What a program does when it is started with the arguments \<open>a\<close>: it returns \<open>r\<close>, the screen changes by \<open>f\<close>, and
  everything that belongs to other processes stays as it is.
\<close>

definition program_does ::
  "('a running \<Rightarrow> (int \<times> 'a running) option) \<Rightarrow> nat \<Rightarrow> u32 \<Rightarrow> u32 \<Rightarrow> cptr \<Rightarrow> byte list \<Rightarrow> int \<Rightarrow> (aterm \<Rightarrow> aterm) \<Rightarrow> bool" where
  "program_does main k depth B img a r f \<longleftrightarrow>
     (\<forall>evs s. runs k depth B img a (evs, s) \<and> (\<exists>fd \<in> {2..7}. kfds k img (evs, s) fd = Closed) \<longrightarrow>
       (\<exists>t. main (evs, s) = Some (r, evs, t) \<and> runs k depth B img a (evs, t) \<and> others_kept k s t \<and> abs_term t = f (abs_term s)))"

lemma program_returns:
  assumes "program_does main (Suc k) depth B img a' r f" "runs (Suc k) depth B img a' (evs, s)"
    and "\<exists>fd \<in> {2..7}. kfds (Suc k) img (evs, s) fd = Closed"
  shows "\<exists>t. start_main env depth main (evs, s) = Some (sint (ucast (w32 r) :: byte), evs, t) \<and> stack_ok (Suc k) t \<and>
    on_screen t \<and> same_image img (fs t) \<and> others_kept (Suc k) s t \<and> abs_term t = f (abs_term s)"
proof -
  obtain u where u: "main (evs, s) = Some (r, evs, u)" "runs (Suc k) depth B img a' (evs, u)" "others_kept (Suc k) s u"
      "abs_term u = f (abs_term s)"
    using assms unfolding program_does_def by blast
  obtain t where t: "syscall_wrapper (\<lambda>_. None) (env_dev env) (env_shell env) (env_beyond env) depth evs 1 (w32 r) 0 0 u =
      Some (Resume (sint (ucast (w32 r) :: byte)), evs, t)" "stack_ok (Suc k) t" "others_kept (Suc k) u t"
      "ram t = ram u" "screen_x t = screen_x u" "screen_y t = screen_y u"
    using halt_resumes [OF u(2), of env "w32 r"] by blast
  have "start_main env depth main (evs, s) = Some (sint (ucast (w32 r) :: byte), evs, t)" using u(1) t(1) by (simp add: start_main_def)
  moreover have "abs_term t = f (abs_term s)" using u(4) t(4-6) by (simp add: abs_term_def)
  moreover have "on_screen t" "same_image img (fs t)" using u(2) t(3-6) by (simp_all add: runs_def on_screen_def fs_def others_kept_def)
  ultimately show ?thesis using t(2) others_kept_trans [OF u(3) t(3)] by blast
qed

text \<open>The caller goes on as after any other call: its arguments, its descriptors and the keyboard are as they were.\<close>

lemma execute_returns:
  assumes "runs k depth B img a (evs, s)" "executable img (first_word l)" "Suc k < 6" "image_home img (boot s)"
    and "0 \<notin> set l" "0x0A \<notin> set l" "33 \<le> length (l @ 0 # q)" "length (l @ 0 # q) \<le> 4096" "last (0 # q) \<noteq> 0x20"
    and "progs (first_word l) = Some main"
    and "\<And>a'. length l \<le> 128 \<and> length (first_word l) < 32 \<and> line_args l \<noteq> [] \<longrightarrow> a' = line_args l \<Longrightarrow>
      program_does (main lower) (Suc k) depth B img a' r f"
  shows "\<exists>t. execute_call env depth B progs lower (l @ 0 # q) (evs, s) = Some (sint (ucast (w32 r) :: byte), evs, t) \<and>
    runs k depth B img a (evs, t) \<and> abs_term t = f (abs_term s) \<and> kfds k img (evs, t) = kfds k img (evs, s) \<and>
    kb_state t = kb_state s \<and> boot t = boot s"
proof -
  let ?b = "l @ 0 # q"
  define e where "e = called k depth B ?b s"
  obtain entry sp a' u where u: "syscall_wrapper (\<lambda>_. None) (env_dev env) (env_shell env) (env_beyond env) depth evs 2 B 0 0
        (s\<lparr>ram := written (ram s) (phys k B) ?b\<rparr>) = Some (Enter entry sp, evs, u)"
      "runs (Suc k) depth B img a' (evs, u)" "\<exists>fd \<in> {2..7}. kfds (Suc k) img (evs, u) fd = Closed"
      "length l \<le> 128 \<and> length (first_word l) < 32 \<and> line_args l \<noteq> [] \<longrightarrow> a' = line_args l"
      "others_kept (Suc k) e u" "abs_term u = abs_term s"
    using execute_enters [OF assms(1-9), of env] unfolding e_def by blast
  obtain t where t: "start_main env depth (main lower) (evs, u) = Some (sint (ucast (w32 r) :: byte), evs, t)" "stack_ok (Suc k) t"
      "on_screen t" "same_image img (fs t)" "others_kept (Suc k) u t" "abs_term t = f (abs_term u)"
    using program_returns [OF assms(11) [OF u(4)] u(2,3), of env] by blast
  have kept: "others_kept (Suc k) e t" by (rule others_kept_trans [OF u(5) t(5)])
  then have same: "kb_state t = kb_state s" "boot t = boot s" "curr_pcb t ! k = curr_pcb s ! k"
    by (simp_all add: others_kept_def e_def called_def syscall_entry_def kb_state_def)
  have "first_word (cstr ?b) = first_word l" using assms(5) by simp
  then have "execute_call env depth B progs lower ?b (evs, s) = Some (sint (ucast (w32 r) :: byte), evs, t)"
    using buffer_store(2) [OF _ _ assms(8), of k s B] assms(1,10) u(1) t(1) by (simp add: execute_call_def with_bytes_def runs_def)
  moreover have "runs k depth B img a (evs, t)" using assms(1) t(2-4) same by (simp add: runs_def)
  moreover have "kfds k img (evs, t) = kfds k img (evs, s)" using same(3) by (simp add: kfds_def fun_eq_iff)
  ultimately show ?thesis using t(6) u(6) same(1,2) by auto
qed

section \<open>Programs above the caller\<close>

text \<open>
  The states of a program since its start in \<open>(evs, s)\<close>; the calls in them satisfy the laws for files, so that
  what \<open>cat\<close> and \<open>ls\<close> do there follows as for a program alone.
\<close>

definition started :: "nat \<Rightarrow> u32 \<Rightarrow> u32 \<Rightarrow> cptr \<Rightarrow> byte list \<Rightarrow> irq list \<Rightarrow> 'a process_state_scheme \<Rightarrow> 'a running \<Rightarrow> bool" where
  "started k depth B img a evs s st \<longleftrightarrow> runs k depth B img a st \<and> fst st = evs \<and> others_kept k s (snd st)"

lemma started_step: "started k depth B img a evs s (evs', t) \<Longrightarrow> runs k depth B img a (evs', u) \<Longrightarrow> others_kept k t u \<Longrightarrow> started k depth B img a evs s (evs', u)"
  by (auto simp: started_def intro: others_kept_trans)

lemma startedE:
  assumes "started k depth B img a evs s st"
  obtains t where "st = (evs, t)" "runs k depth B img a (evs, t)" "started k depth B img a evs s (evs, t)"
  using assms by (cases st) (auto simp: started_def)

interpretation kc: file_calls "nsys env depth B progs n" "started k depth B img a evs s" "\<lambda>st. abs_term (snd st)" "fold aterm_put"
  "\<lambda>b. b \<noteq> 0x09" "kfds k img" "image_node img" a
  for env depth B progs n k img a evs s
proof (unfold_locales, goal_cases)
  case (3 st m buf)
  obtain t where t: "st = (evs, t)" "runs k depth B img a (evs, t)" "started k depth B img a evs s (evs, t)" using 3(1) by (rule startedE)
  then show ?case using user_write [OF t(2), of m buf env] 3 by (fastforce simp: list_all_iff intro: started_step)
next
  case (4 st fd r m buf)
  obtain t where t: "st = (evs, t)" "runs k depth B img a (evs, t)" "started k depth B img a evs s (evs, t)" using 4(1) by (rule startedE)
  then show ?case using user_read_file [OF t(2), of fd r m buf env] 4 by (fastforce intro: started_step)
next
  case (5 st fd nm nms buf)
  obtain t where t: "st = (evs, t)" "runs k depth B img a (evs, t)" "started k depth B img a evs s (evs, t)" using 5(1) by (rule startedE)
  then show ?case using user_read_dir [OF t(2), of fd "nm # nms" buf env] 5 by (fastforce intro: started_step)
next
  case (6 st fd buf)
  obtain t where t: "st = (evs, t)" "runs k depth B img a (evs, t)" "started k depth B img a evs s (evs, t)" using 6(1) by (rule startedE)
  then show ?case using user_read_dir [OF t(2), of fd "[]" buf env] 6 by (fastforce intro: started_step)
next
  case (7 st fd nms nm)
  obtain t where t: "st = (evs, t)" "runs k depth B img a (evs, t)" using 7(1) by (rule startedE)
  then show ?case using kf.dir_names [OF t(2), of fd nms nm] 7(2,3) by simp
next
  case (8 st buf d)
  obtain t where t: "st = (evs, t)" "runs k depth B img a (evs, t)" "started k depth B img a evs s (evs, t)" using 8(1) by (rule startedE)
  then show ?case using user_open_node [OF t(2), of buf d env] 8 by (fastforce intro: started_step)
next
  case (9 st buf)
  obtain t where t: "st = (evs, t)" "runs k depth B img a (evs, t)" "started k depth B img a evs s (evs, t)" using 9(1) by (rule startedE)
  then show ?case using user_open_missing [OF t(2), of buf env] 9 by (fastforce intro: started_step)
next
  case (10 st buf)
  obtain t where t: "st = (evs, t)" "runs k depth B img a (evs, t)" "started k depth B img a evs s (evs, t)" using 10(1) by (rule startedE)
  then show ?case using user_getargs [OF t(2), of buf env] 10 by (fastforce intro: started_step)
next
  case (11 st buf)
  obtain t where t: "st = (evs, t)" "runs k depth B img a (evs, t)" "started k depth B img a evs s (evs, t)" using 11(1) by (rule startedE)
  then show ?case using user_getargs [OF t(2), of buf env] 11 by (fastforce intro: started_step)
next
  case (12 st)
  then show ?case using cstr_nonzero by (auto simp: started_def runs_def)
qed simp_all

lemma program_doesI:
  assumes "\<And>evs s. started k depth B img a evs s (evs, s) \<Longrightarrow> \<exists>fd \<in> {2..7}. kfds k img (evs, s) fd = Closed \<Longrightarrow>
    \<exists>t. main (evs, s) = Some (r, t) \<and> started k depth B img a evs s t \<and> abs_term (snd t) = f (abs_term s)"
  shows "program_does main k depth B img a r f"
  unfolding program_does_def
proof (intro allI impI, elim conjE)
  fix evs and s :: "'a process_state_scheme"
  assume s: "runs k depth B img a (evs, s)" "\<exists>fd \<in> {2..7}. kfds k img (evs, s) fd = Closed"
  then have "started k depth B img a evs s (evs, s)" by (simp add: started_def)
  then show "\<exists>t. main (evs, s) = Some (r, evs, t) \<and> runs k depth B img a (evs, t) \<and> others_kept k s t \<and> abs_term t = f (abs_term s)"
    using assms [OF _ s(2)] by (auto simp: started_def)
qed

lemma cat_does:
  assumes "a \<noteq> []" "length stk = 1024"
  shows "image_node img a = Some (File c) \<Longrightarrow> 0x09 \<notin> set c \<Longrightarrow>
      program_does (cat_main (nsys env depth B progs n) stk) k depth B img a 0 (fold aterm_put c)"
    and "image_node img a = None \<Longrightarrow>
      program_does (cat_main (nsys env depth B progs n) stk) k depth B img a 2 (fold aterm_put (ascii ''file not found'' @ [0x0A]))"
proof -
  show "program_does (cat_main (nsys env depth B progs n) stk) k depth B img a 0 (fold aterm_put c)"
    if c: "image_node img a = Some (File c)" "0x09 \<notin> set c"
  proof (rule program_doesI)
    fix evs and s :: "'a process_state_scheme"
    assume s: "started k depth B img a evs s (evs, s)" "\<exists>fd \<in> {2..7}. kfds k img (evs, s) fd = Closed"
    have "list_all (\<lambda>b. b \<noteq> 0x09) c" using c(2) by (auto simp: list_all_iff)
    from kc.cat_copies [OF s(1) assms(1) c(1) this s(2) assms(2), of env progs n]
    show "\<exists>t. cat_main (nsys env depth B progs n) stk (evs, s) = Some (0, t) \<and> started k depth B img a evs s t \<and>
      abs_term (snd t) = fold aterm_put c (abs_term s)" by simp
  qed
  show "program_does (cat_main (nsys env depth B progs n) stk) k depth B img a 2 (fold aterm_put (ascii ''file not found'' @ [0x0A]))"
    if c: "image_node img a = None"
  proof (rule program_doesI)
    fix evs and s :: "'a process_state_scheme"
    assume s: "started k depth B img a evs s (evs, s)"
    have "list_all (\<lambda>b. b \<noteq> 0x09) (ascii ''could not read arguments'' @ ascii ''file not found'' @ [0x0A])"
      by (simp add: ascii_def)
    from kc.cat_fails [OF s disjI2 [OF c] assms(2) this, of env progs n]
    show "\<exists>t. cat_main (nsys env depth B progs n) stk (evs, s) = Some (2, t) \<and> started k depth B img a evs s t \<and>
      abs_term (snd t) = fold aterm_put (ascii ''file not found'' @ [0x0A]) (abs_term s)" using assms(1) by auto
  qed
qed

lemma ls_does:
  assumes "image_node img [0x2E] = Some (Dir nms)" "0x09 \<notin> \<Union> (set ` set nms)" "length stk = 33"
  shows "program_does (ls_main (nsys env depth B progs n) stk) k depth B img a 0 (fold (\<lambda>nm. fold aterm_put (nm @ [0x0A])) nms)"
proof (rule program_doesI)
  fix evs and s :: "'a process_state_scheme"
  assume s: "started k depth B img a evs s (evs, s)" "\<exists>fd \<in> {2..7}. kfds k img (evs, s) fd = Closed"
  have "list_all (list_all (\<lambda>b. b \<noteq> 0x09)) nms" using assms(2) by (auto simp: list_all_iff)
  from kc.ls_lists [OF s(1) assms(1) this _ s(2) assms(3), of env progs n]
  show "\<exists>t. ls_main (nsys env depth B progs n) stk (evs, s) = Some (0, t) \<and> started k depth B img a evs s t \<and>
      abs_term (snd t) = fold (\<lambda>nm. fold aterm_put (nm @ [0x0A])) nms (abs_term s)" by simp
qed

lemma testprint_does:
  "program_does (testprint_main (nsys env depth B progs n)) k depth B img a 0
     (fold aterm_put (ascii ''Hello, if this ran, the program was correct. Yay!'' @ [0x0A]))"
proof (rule program_doesI)
  let ?m = "''Hello, if this ran, the program was correct. Yay!''"
  fix evs and s :: "'a process_state_scheme"
  assume s: "started k depth B img a evs s (evs, s)"
  have "0 \<notin> set (ascii ?m)" "list_all (\<lambda>b. b \<noteq> 0x09) (ascii ?m @ [0x0A])" "length ?m \<le> 1000"
    by (simp_all add: ascii_def)
  from kc.complain_shows [OF s this, of env progs n 0]
  show "\<exists>t. testprint_main (nsys env depth B progs n) (evs, s) = Some (0, t) \<and> started k depth B img a evs s t \<and>
      abs_term (snd t) = fold aterm_put (ascii ?m @ [0x0A]) (abs_term s)" by (auto simp: testprint_main_def)
qed

section \<open>Commands of the shell\<close>

text \<open>
  What a line does, as far as it is specified: the value that \<open>ece391_execute\<close> returns and the change of the screen until
  then. Without arguments the kernel gives a program what it finds in the buffer behind the line, so that \<open>cat\<close> is
  specified with a name only; \<open>ls\<close> and \<open>testprint\<close> do not look at their arguments.
\<close>

definition image_command :: "cptr \<Rightarrow> byte list \<Rightarrow> (int \<times> (aterm \<Rightarrow> aterm)) option" where
  "image_command img l =
     (let w = first_word l; a = line_args l in
      if no_command img l then Some (-1, \<lambda>v. v)
      else if \<not> executable img w then None
      else if w = ascii ''cat'' \<and> a \<noteq> [] then
        (case image_node img a of
           None \<Rightarrow> Some (2, fold aterm_put (ascii ''file not found'' @ [0x0A]))
         | Some (File c) \<Rightarrow> if 0x09 \<in> set c then None else Some (0, fold aterm_put c)
         | _ \<Rightarrow> None)
      else if w = ascii ''ls'' then
        (case image_node img [0x2E] of
           Some (Dir nms) \<Rightarrow> if 0x09 \<in> \<Union> (set ` set nms) then None else Some (0, fold (\<lambda>nm. fold aterm_put (nm @ [0x0A])) nms)
         | _ \<Rightarrow> None)
      else if w = ascii ''testprint'' then Some (0, fold aterm_put (ascii ''Hello, if this ran, the program was correct. Yay!'' @ [0x0A]))
      else None)"

lemma program_names:
  "ascii ''cat'' \<noteq> ascii ''ls''" "ascii ''testprint'' \<noteq> ascii ''cat''" "ascii ''testprint'' \<noteq> ascii ''ls''" "length (ascii ''cat'') = 3"
  "ascii ''testprint'' \<noteq> ascii ''hello''" "ascii ''testprint'' \<noteq> ascii ''shell''" "ascii ''testprint'' \<noteq> ascii ''counter''"
  by (simp_all add: ascii_def)

text \<open>Each of them is a program whose effect is the specified one, started with the arguments that the kernel finds.\<close>

lemma image_command_cases:
  assumes "image_command img l = Some (v, f)" "\<not> no_command img l" "length stk = 1024" "length l \<le> 127"
  shows "executable img (first_word l) \<and> (\<exists>main r. user_programs stk (first_word l) = Some main \<and> v = sint (ucast (w32 r) :: byte) \<and>
    (\<forall>a. (length l \<le> 128 \<and> length (first_word l) < 32 \<and> line_args l \<noteq> [] \<longrightarrow> a = line_args l) \<longrightarrow>
      program_does (main (nsys env depth B progs n)) k depth B img a r f))"
proof -
  let ?w = "first_word l" and ?a = "line_args l" and ?s = "nsys env depth B progs n"
  have x: "executable img ?w" using assms(1,2) by (auto simp: image_command_def Let_def split: if_splits)
  have v: "sint (ucast (w32 0) :: byte) = 0" "sint (ucast (w32 2) :: byte) = 2" by simp_all
  consider "?w = ascii ''cat''" "?a \<noteq> []" | "?w = ascii ''ls''" | "?w = ascii ''testprint''"
    using assms(1,2) by (auto simp: image_command_def Let_def split: if_splits)
  then show ?thesis
  proof cases
    case 1
    have "length ?w < 32" using 1(1) program_names(4) by simp
    moreover have "(\<exists>c. image_node img ?a = Some (File c) \<and> 0x09 \<notin> set c \<and> v = 0 \<and> f = fold aterm_put c) \<or>
        image_node img ?a = None \<and> v = 2 \<and> f = fold aterm_put (ascii ''file not found'' @ [0x0A])"
      using assms(1,2) x 1 by (auto simp: image_command_def Let_def split: option.splits descriptor.splits if_splits)
    ultimately show ?thesis
      using x 1 v assms(3,4) cat_does [OF 1(2) assms(3), where env = env and depth = depth and B = B and progs = progs and n = n and k = k and img = img]
      by (auto simp: user_programs_def intro!: exI [of _ v])
  next
    case 2
    then obtain nms where "image_node img [0x2E] = Some (Dir nms)" "0x09 \<notin> \<Union> (set ` set nms)" "v = 0" "f = fold (\<lambda>nm. fold aterm_put (nm @ [0x0A])) nms"
      using assms(1,2) x program_names(1) by (auto simp: image_command_def Let_def split: option.splits descriptor.splits if_splits)
    then show ?thesis
      using x 2 v program_names(1) assms(3) ls_does [of img nms "take 33 stk", where env = env and depth = depth and B = B and progs = progs and n = n and k = k]
      by (auto simp: user_programs_def intro!: exI [of _ 0])
  next
    case 3
    then have "v = 0" "f = fold aterm_put (ascii ''Hello, if this ran, the program was correct. Yay!'' @ [0x0A])"
      using assms(1,2) x program_names by (auto simp: image_command_def Let_def)
    then show ?thesis
      using x 3 v(1) program_names testprint_does [where env = env and depth = depth and B = B and progs = progs and n = n and k = k and img = img]
      by (auto simp: user_programs_def intro!: exI [of _ 0])
  qed
qed

section \<open>The contract\<close>

text \<open>The states of a shell that can start programs.\<close>

definition hosts :: "nat \<Rightarrow> u32 \<Rightarrow> u32 \<Rightarrow> cptr \<Rightarrow> byte list \<Rightarrow> 'a running \<Rightarrow> bool" where
  "hosts k depth B img a st \<longleftrightarrow> listens k depth B img a st \<and> Suc k < 6"

text \<open>A command in such a state, refused or run.\<close>

lemma hosts_execute:
  fixes st :: "'a running"
  assumes "hosts k depth B img a st" "image_command img l = Some (v, f)" "length l \<le> 127" "0 \<notin> set l" "0x0A \<notin> set l"
    and "33 \<le> length (l @ 0 # q)" "length (l @ 0 # q) \<le> 4096" "last (0 # q) \<noteq> 0x20" "length stk = 1024"
  shows "\<exists>t. execute_call env depth B (user_programs stk) (nsys env depth B (user_programs stk) n) (l @ 0 # q) st = Some (v, t) \<and>
    hosts k depth B img a t \<and> abs_term (snd t) = f (abs_term (snd st)) \<and> kfds k img t = kfds k img st \<and> keys_input t = keys_input st"
proof -
  let ?x = "execute_call env depth B (user_programs stk) (nsys env depth B (user_programs stk) n) (l @ 0 # q)"
  obtain evs s where st: "st = (evs, s)" by fastforce
  have s: "runs k depth B img a (evs, s)" "Suc k < 6" "image_home img (boot s)" using assms(1) by (simp_all add: st hosts_def listens_def runs_def)
  have "\<exists>t. ?x (evs, s) = Some (v, evs, t) \<and> runs k depth B img a (evs, t) \<and> abs_term t = f (abs_term s) \<and>
      kfds k img (evs, t) = kfds k img (evs, s) \<and> kb_state t = kb_state s \<and> boot t = boot s"
  proof (cases "no_command img l")
    case True
    obtain t where t: "syscall_wrapper (\<lambda>_. None) (env_dev env) (env_shell env) (env_beyond env) depth evs 2 B 0 0
          (s\<lparr>ram := written (ram s) (phys k B) (l @ 0 # q)\<rparr>) = Some (Ret (-1), evs, t)"
        "runs k depth B img a (evs, t)" "abs_term t = abs_term s" "kfds k img (evs, t) = kfds k img (evs, s)" "others_kept k s t"
      using user_execute_refused [OF s(1) True assms(4-8), of env] by blast
    then have "?x (evs, s) = Some (-1, evs, t)"
      using buffer_store(2) [OF _ _ assms(7), of k s B] s(1) by (simp add: execute_call_def with_bytes_def runs_def)
    moreover have "v = -1" "f = (\<lambda>v. v)" using assms(2) True by (simp_all add: image_command_def)
    ultimately show ?thesis using t(2-5) by (auto simp: others_kept_def)
  next
    case False
    obtain main :: "'a running program" and r where m: "executable img (first_word l)" "user_programs stk (first_word l) = Some main" "v = sint (ucast (w32 r) :: byte)"
        "\<And>a'. length l \<le> 128 \<and> length (first_word l) < 32 \<and> line_args l \<noteq> [] \<longrightarrow> a' = line_args l \<Longrightarrow>
          program_does (main (nsys env depth B (user_programs stk) n)) (Suc k) depth B img a' r f"
      using image_command_cases [OF assms(2) False assms(9,3), of env depth B "user_programs stk" n "Suc k"] by blast
    show ?thesis unfolding m(3) by (rule execute_returns [OF s(1) m(1) s(2,3) assms(4-8)], rule m(2), rule m(4))
  qed
  then obtain t where t: "?x (evs, s) = Some (v, evs, t)" "runs k depth B img a (evs, t)" "abs_term t = f (abs_term s)"
      "kfds k img (evs, t) = kfds k img (evs, s)" "kb_state t = kb_state s" "boot t = boot s" by blast
  have "hosts k depth B img a (evs, t)" "keys_input (evs, t) = keys_input (evs, s)"
    using assms(1) t(2,6) kb_ready_state [OF t(5)] by (simp_all add: st hosts_def listens_def keys_input_def)
  then show ?thesis using t(1,3,4) by (intro exI [of _ "(evs, t)"]) (simp add: st)
qed

interpretation kn: line_calls "nsys env depth B (user_programs stk) (Suc n)" "\<lambda>st. hosts k depth B img a st \<and> length stk = 1024"
  "\<lambda>st. abs_term (snd st)" "fold aterm_put" "\<lambda>b. b \<noteq> 0x09" "kfds k img" keys_input next_line line_echo next_input "image_command img"
  for env depth B stk n k img a
proof (unfold_locales, goal_cases)
  case (3 st m buf)
  then show ?case using listens_write [of k depth B img a st m buf env] by (auto simp: hosts_def)
next
  case (4 st m buf r t)
  then show ?case using listens_write [of k depth B img a st m buf env] by (auto simp: hosts_def)
next
  case (5 st w buf)
  then show ?case using listens_read [of k depth B img a st w buf env] by (auto simp: hosts_def)
next
  case (6 st w)
  then show ?case using listens_line [of k depth B img a st w] by (simp add: hosts_def)
next
  case (7 st l v f q)
  then show ?case using hosts_execute [of k depth B img a st l v f q stk env n] by simp
qed auto

section \<open>A concrete session\<close>

lemma cat_image:
  defines "img \<equiv> exe_image (ascii ''cat'')"
  shows "image_wf img" "image_size img = 12288" "image_node img (ascii ''cat'') = Some (File (check_exe @ replicate 20 0 @ [0, 0x80, 0x04, 0x08]))"
    "image_node img [0x78] = None"
proof -
  have w: "ascii ''cat'' = [0x63, 0x61, 0x74]" by (simp add: ascii_def)
  note f = exe_image_file [of "exe_image (ascii ''cat'')" "ascii ''cat''", OF refl, folded img_def]
  show "image_wf img" "image_size img = 12288" unfolding img_def by (intro exe_image_wf exe_image_small; simp add: w)+
  show "image_node img (ascii ''cat'') = Some (File (check_exe @ replicate 20 0 @ [0, 0x80, 0x04, 0x08]))"
    using f(1,2,3,4) by (simp add: w image_node_def)
  have "cstr_take (list_view [0x78]) 32 = [0x78 :: byte]" by (subst cstr_take_list) simp_all
  then show "image_node img [0x78] = None"
    using f(5,6) by (simp add: w image_node_def read_dentry_by_name_def dentry_search_find strncmp_zero_iff)
qed

lemma cat_image_commands:
  defines "img \<equiv> exe_image (ascii ''cat'')"
  shows "image_command img (ascii ''cat cat'') = Some (0, fold aterm_put (check_exe @ replicate 20 0 @ [0, 0x80, 0x04, 0x08]))"
    "image_command img (ascii ''cat x'') = Some (2, fold aterm_put (ascii ''file not found'' @ [0x0A]))"
proof -
  note i = cat_image [folded img_def]
  have w: "ascii ''cat'' = [0x63, 0x61, 0x74]" by (simp add: ascii_def)
  have p: "first_word (ascii ''cat cat'') = ascii ''cat''" "line_args (ascii ''cat cat'') = ascii ''cat''"
      "first_word (ascii ''cat x'') = ascii ''cat''" "line_args (ascii ''cat x'') = [0x78]"
    by (simp_all add: ascii_def first_word_def line_args_def)
  have m: "take 4 (check_exe @ replicate 20 0 @ [0, 0x80, 0x04, 0x08]) = check_exe" "0x09 \<notin> set (check_exe @ replicate 20 0 @ [0, 0x80, 0x04, 0x08])"
      "length (check_exe @ replicate 20 0 @ [0, 0x80, 0x04, 0x08]) \<le> 0x3B8000"
    by (simp_all add: check_exe_def)
  have q: "take 4 (ascii ''cat'') \<noteq> ascii ''quit''" "ascii ''cat'' \<noteq> []" by (simp_all add: ascii_def)
  have x: "executable img (ascii ''cat'')" unfolding executable_def i(3) option.case descriptor.case using q m(1,3) by blast
  have n: "\<not> no_command img (ascii ''cat cat'')" "\<not> no_command img (ascii ''cat x'')"
    unfolding no_command_def p i(3) option.case descriptor.case using m(1) by blast+
  show "image_command img (ascii ''cat cat'') = Some (0, fold aterm_put (check_exe @ replicate 20 0 @ [0, 0x80, 0x04, 0x08]))"
    unfolding image_command_def Let_def p i(3) option.case descriptor.case using n(1) x q(2) m(2) by (simp only: if_True if_False simp_thms)
  show "image_command img (ascii ''cat x'') = Some (2, fold aterm_put (ascii ''file not found'' @ [0x0A]))"
    unfolding image_command_def Let_def p i(4) option.case using n(2) x by simp
qed

text \<open>The keys of the lines, without modifiers, with any interrupts behind them.\<close>

lemma keys_typed:
  fixes r :: "irq list"
  defines "m \<equiv> \<lparr>m_shift = False, m_caps = False, m_ctrl = False, m_alt = False, m_num = False, m_scroll = False\<rparr>"
  shows "next_line (map Key_irq [0x2E, 0x1E, 0x14, 0x39, 0x2E, 0x1E, 0x14, 0x1C] @ r, m) = Some (ascii ''cat cat'' @ [0x0A])"
    "next_line (map Key_irq [0x2E, 0x1E, 0x14, 0x39, 0x2D, 0x1C] @ r, m) = Some (ascii ''cat x'' @ [0x0A])"
    "next_line (map Key_irq [0x12, 0x2D, 0x17, 0x14, 0x1C] @ r, m) = Some (ascii ''exit'' @ [0x0A])"
    "next_line (map Key_irq [0x1C] @ r, m) = Some [0x0A]"
  by (simp_all add: m_def next_line_def List.map_filter_def key_char_def mods_step_def edit_def is_letter_def
      keymap_entries keymap_upper_entries nth_append ascii_def flip: and_flag(6))

lemma keys_behind:
  fixes r :: "irq list"
  defines "m \<equiv> \<lparr>m_shift = False, m_caps = False, m_ctrl = False, m_alt = False, m_num = False, m_scroll = False\<rparr>"
  shows "next_input (map Key_irq [0x2E, 0x1E, 0x14, 0x39, 0x2E, 0x1E, 0x14, 0x1C] @ r, m) = (r, m)"
    "next_input (map Key_irq [0x2E, 0x1E, 0x14, 0x39, 0x2D, 0x1C] @ r, m) = (r, m)"
    "next_input (map Key_irq [0x12, 0x2D, 0x17, 0x14, 0x1C] @ r, m) = (r, m)"
    "next_input (map Key_irq [0x1C] @ r, m) = (r, m)"
  by (simp_all add: m_def next_input_def mods_step_def key_char_def is_letter_def keymap_entries keymap_upper_entries flip: and_flag(6))

section \<open>Properties\<close>

text \<open>C9. A session with the shell on the kernel, in which the user runs programs. The lines that are typed are
  empty, or name no executable file, or run \<open>cat\<close> with a name, \<open>ls\<close> or
  \<open>testprint\<close>, and the last one is \<^verbatim>\<open>exit\<close>. Then the shell returns 0, and the
  user has seen, line by line, the prompt, the echo of the typing, the output of the program, which the kernel loads,
  enters and ends as a process above the shell, and the message of the shell on its status. After the session the
  shell has its arguments and descriptors as before, and the keys behind the last line are left. The last byte of the
  buffer must not be a space, since \<open>sys_execute\<close> looks for arguments behind the end of the line; the Tab
  key must not be among the keys to come (\<open>listens\<close>), and no more than four processes may run below the
  shell. The file system must have a well-formed image (theory \<open>Image\<close>; names of 1 to 32 bytes, known
  types, existing inodes and blocks, an unnamed entry behind the last, as the image of the sources has them) in the
  kernel's page.\<close>

theorem session_on_kernel:
  assumes "hosts k depth B img a st" "lines_typed next_line next_input (ls @ [ascii ''exit'']) (keys_input st)"
    and "list_all (\<lambda>l. l = [] \<or> l \<noteq> ascii ''exit'' \<and> image_command img l \<noteq> None) ls"
    and "length buf = 1024" "last buf \<noteq> 0x20" "length stk = 1024"
  shows "\<exists>t. shell_main (nsys env depth B (user_programs stk) (Suc n)) buf st = Some (0, t) \<and> hosts k depth B img a t \<and>
    kfds k img t = kfds k img st \<and> keys_input t = (next_input ^^ Suc (length ls)) (keys_input st) \<and>
    abs_term (snd t) = shell_screen line_echo next_input (fold aterm_put) (image_command img) (ls @ [ascii ''exit'']) (keys_input st)
      (fold aterm_put (ascii ''Starting 391 Shell'' @ [0x0A]) (abs_term (snd st)))"
  using kn.shell_session [OF conjI [OF assms(1,6)] assms(2-5), of env n] by blast

text \<open>The lines cat cat, an empty line, cat x and exit; the file cat is the only one.\<close>

theorem session_on_kernel_witness:
  "\<forall>env. \<exists>t. shell_main (nsys env 64 0x8100000 (user_programs (replicate 1024 0)) 1) (replicate 1024 0)
     (map Key_irq [0x2E, 0x1E, 0x14, 0x39, 0x2E, 0x1E, 0x14, 0x1C] @ map Key_irq [0x1C] @ map Key_irq [0x2E, 0x1E, 0x14, 0x39, 0x2D, 0x1C] @
        map Key_irq [0x12, 0x2D, 0x17, 0x14, 0x1C] @ [Key_irq 0x1E],
      user_kernel (exe_image (ascii ''cat'')) []) = Some (0, t) \<and> fst t = [Key_irq 0x1E]"
  (is "\<forall>env. ?P env")
proof
  fix env
  let ?img = "exe_image (ascii ''cat'')"
  define ks where "ks = map Key_irq [0x2E, 0x1E, 0x14, 0x39, 0x2E, 0x1E, 0x14, 0x1C] @ map Key_irq [0x1C] @
    map Key_irq [0x2E, 0x1E, 0x14, 0x39, 0x2D, 0x1C] @ map Key_irq [0x12, 0x2D, 0x17, 0x14, 0x1C] @ [Key_irq 0x1E]"
  let ?st = "(ks, user_kernel ?img [])"
  let ?ls = "[ascii ''cat cat'', [], ascii ''cat x'']"
  have "runs 0 64 0x8100000 ?img [] ?st" using cat_image(1,2) by (intro user_kernel_runs) simp_all
  moreover have "Key_irq 0x0F \<notin> set ks" by (simp add: ks_def)
  ultimately have h: "hosts 0 64 0x8100000 ?img [] ?st"
    using user_kernel_keyboard(1) [of ?img "[]"] by (simp add: hosts_def listens_def)
  have l: "lines_typed next_line next_input (?ls @ [ascii ''exit'']) (keys_input ?st)"
    unfolding keys_input_def fst_conv snd_conv user_kernel_keyboard ks_def by (simp only: append_Cons append_Nil lines_typed.simps keys_typed keys_behind simp_thms)
  have r: "fst ((next_input ^^ Suc (length ?ls)) (keys_input ?st)) = [Key_irq 0x1E]"
    unfolding keys_input_def fst_conv snd_conv user_kernel_keyboard ks_def list.size funpow.simps comp_def
    by (simp only: add_0_right add_Suc_right funpow.simps comp_def id_apply keys_behind fst_conv)
  have "ascii ''cat cat'' \<noteq> ascii ''exit''" "ascii ''cat x'' \<noteq> ascii ''exit''" by (simp_all add: ascii_def)
  then have c: "list_all (\<lambda>l. l = [] \<or> l \<noteq> ascii ''exit'' \<and> image_command ?img l \<noteq> None) ?ls" using cat_image_commands by simp
  have b: "length (replicate 1024 0) = 1024" "last (replicate 1024 (0 :: byte)) \<noteq> 0x20" by simp_all
  obtain t where t: "shell_main (nsys env 64 0x8100000 (user_programs (replicate 1024 0)) (Suc 0)) (replicate 1024 0) ?st = Some (0, t)"
      "keys_input t = (next_input ^^ Suc (length ?ls)) (keys_input ?st)"
    using session_on_kernel [OF h l c _ b(2), of "replicate 1024 0" env 0] by auto
  have "fst t = [Key_irq 0x1E]" using r unfolding t(2) [symmetric] by (simp add: keys_input_def)
  then show "?P env" using t(1) unfolding ks_def One_nat_def by blast
qed

end
