(* ===== verification/Blink.thy ===== *)
theory Blink
  imports UserLib
begin

text \<open>
  The blinking characters of \<^verbatim>\<open>src/fish/blink.S\<close>, with the allocator of \<^verbatim>\<open>src/fish/fish.c\<close>: a linked list of structures in
  the static array \<^verbatim>\<open>blink_array\<close>, from which the calls of \<open>mp1_ioctl\<close> add and remove, and which \<open>mp1_rtc_tasklet\<close> walks
  at each tick of the clock.

  A pointer into the array is its index, NULL is \<open>None\<close>; following another pointer is \<open>None\<close>, as is a walk that does not
  end. The store to the video memory is the parameter \<open>poke\<close>. The list is specified by the sequence of its entries
  without the pointers; the locale \<open>screen_memory\<close> says what is needed of \<open>poke\<close>.
\<close>

section \<open>Definitions\<close>

record blinker =
  location :: u16
  on_char :: byte
  off_char :: byte
  on_length :: u16
  off_length :: u16
  countdown :: u16
  status :: u16

record blink = blinker +
  next_blink :: "nat option"

record blinks =
  blink_array :: "blink list"
  mp1_list_head :: "nat option"

type_synonym 's poke = "nat \<Rightarrow> byte \<Rightarrow> 's \<Rightarrow> 's option"

definition no_blink :: blink where
  "no_blink = \<lparr>location = 0, on_char = 0, off_char = 0, on_length = 0, off_length = 0, countdown = 0, status = 0, next_blink = None\<rparr>"

definition mp1_malloc :: "blinks \<Rightarrow> nat option" where
  "mp1_malloc bl = find (\<lambda>i. location (blink_array bl ! i) = 0) [0..<80 * 25]"

definition mp1_free :: "nat \<Rightarrow> blinks \<Rightarrow> blinks" where
  "mp1_free i bl = bl\<lparr>blink_array := (blink_array bl)[i := no_blink]\<rparr>"

definition deref :: "blink list \<Rightarrow> nat \<Rightarrow> blink option" where
  "deref arr i = (if i < length arr then Some (arr ! i) else None)"

subsection \<open>The tasklet\<close>

text \<open>An entry at a tick: the counter is compared as a signed number; the second part is the byte to show, if any.\<close>

definition tasklet_entry :: "'a blinker_scheme \<Rightarrow> 'a blinker_scheme \<times> (nat \<times> byte) option" where
  "tasklet_entry b =
     (let b = b\<lparr>countdown := countdown b - 1\<rparr> in
      if sint (countdown b) > 0 then (b, None)
      else let eax = 2 * unat (location b);
               (cl, dx) = (if status b AND 1 \<noteq> 0 then (off_char b, off_length b) else (on_char b, on_length b))
           in (b\<lparr>countdown := dx, status := status b XOR 1\<rparr>, Some (eax, cl)))"

definition poke_opt :: "'s poke \<Rightarrow> (nat \<times> byte) option \<Rightarrow> 's \<Rightarrow> 's option" where
  "poke_opt poke p s = (case p of None \<Rightarrow> Some s | Some (off, c) \<Rightarrow> poke off c s)"

partial_function (option) tasklet_loop :: "'s poke \<Rightarrow> nat option \<Rightarrow> blink list \<Rightarrow> 's \<Rightarrow> (blink list \<times> 's) option" where
  "tasklet_loop poke ebx arr s =
     (case ebx of
        None \<Rightarrow> Some (arr, s)
      | Some i \<Rightarrow>
          do { b \<leftarrow> deref arr i;
               let (b, p) = tasklet_entry b;
               s \<leftarrow> poke_opt poke p s;
               tasklet_loop poke (next_blink b) (arr[i := b]) s })"

definition mp1_rtc_tasklet :: "'s poke \<Rightarrow> blinks \<Rightarrow> 's \<Rightarrow> (blinks \<times> 's) option" where
  "mp1_rtc_tasklet poke bl s =
     map_option (\<lambda>(arr, s). (bl\<lparr>blink_array := arr\<rparr>, s)) (tasklet_loop poke (mp1_list_head bl) (blink_array bl) s)"

subsection \<open>The calls of mp1_ioctl\<close>

partial_function (option) find_loop :: "blink list \<Rightarrow> u16 \<Rightarrow> nat option \<Rightarrow> nat option option" where
  "find_loop arr ax ebx =
     (case ebx of
        None \<Rightarrow> Some None
      | Some i \<Rightarrow> do { b \<leftarrow> deref arr i; if location b = ax then Some (Some i) else find_loop arr ax (next_blink b) })"

definition mp1_find_helper :: "u32 \<Rightarrow> blinks \<Rightarrow> nat option option" where
  "mp1_find_helper arg bl = find_loop (blink_array bl) (ucast arg) (mp1_list_head bl)"

definition mp1_ioctl_add :: "'s poke \<Rightarrow> blink \<Rightarrow> blinks \<Rightarrow> 's \<Rightarrow> (int \<times> blinks \<times> 's) option" where
  "mp1_ioctl_add poke arg bl s =
     (if location arg \<ge> 80 * 25 then Some (-1, bl, s)
      else let b = arg\<lparr>status := 1, countdown := on_length arg\<rparr> in
        case mp1_malloc bl of
          None \<Rightarrow> Some (-1, bl, s)
        | Some i \<Rightarrow>
            let b = b\<lparr>next_blink := mp1_list_head bl\<rparr>;
                bl = bl\<lparr>blink_array := (blink_array bl)[i := b], mp1_list_head := Some i\<rparr>
            in do { s \<leftarrow> poke (2 * unat (location b)) (on_char b) s; Some (0, bl, s) })"

text \<open>The pointers of which one points to the entry that is removed: the head, or the pointer in an entry.\<close>

datatype slot = Head | Next nat

primrec slot_get :: "blinks \<Rightarrow> slot \<Rightarrow> nat option option" where
  "slot_get bl Head = Some (mp1_list_head bl)"
| "slot_get bl (Next j) = map_option next_blink (deref (blink_array bl) j)"

primrec slot_set :: "slot \<Rightarrow> nat option \<Rightarrow> blinks \<Rightarrow> blinks" where
  "slot_set Head p bl = bl\<lparr>mp1_list_head := p\<rparr>"
| "slot_set (Next j) p bl = bl\<lparr>blink_array := (blink_array bl)[j := (blink_array bl ! j)\<lparr>next_blink := p\<rparr>]\<rparr>"

partial_function (option) remove_find_prev :: "blinks \<Rightarrow> nat \<Rightarrow> slot \<Rightarrow> slot option" where
  "remove_find_prev bl eax edx =
     do { p \<leftarrow> slot_get bl edx;
          if p = Some eax then Some edx
          else do { j \<leftarrow> p; remove_find_prev bl eax (Next j) } }"

definition mp1_ioctl_remove :: "u32 \<Rightarrow> blinks \<Rightarrow> (int \<times> blinks) option" where
  "mp1_ioctl_remove arg bl =
     do { eax \<leftarrow> mp1_find_helper arg bl;
          case eax of
            None \<Rightarrow> Some (-1, bl)
          | Some i \<Rightarrow>
              do { edx \<leftarrow> remove_find_prev bl i Head;
                   b \<leftarrow> deref (blink_array bl) i;
                   Some (0, mp1_free i (slot_set edx (next_blink b) bl)) } }"

text \<open>
  \<^verbatim>\<open>testb\<close> clears the overflow flag and sets the sign flag to the top bit of its result; the conditional
  move then takes the other character when the two flags differ.
\<close>

definition sync_char :: "'a blinker_scheme \<Rightarrow> byte" where
  "sync_char b =
     (let sf = bit ((ucast (status b) :: byte) AND 0x1) 7; overflow = False
      in if sf \<noteq> overflow then on_char b else off_char b)"

definition mp1_ioctl_sync :: "'s poke \<Rightarrow> u32 \<Rightarrow> blinks \<Rightarrow> 's \<Rightarrow> (int \<times> blinks \<times> 's) option" where
  "mp1_ioctl_sync poke arg bl s =
     do { esi \<leftarrow> mp1_find_helper (drop_bit 16 arg) bl;
          case esi of
            None \<Rightarrow> Some (-1, bl, s)
          | Some i \<Rightarrow>
              do { edi \<leftarrow> mp1_find_helper (arg AND 0xFFFF) bl;
                   case edi of
                     None \<Rightarrow> Some (-1, bl, s)
                   | Some j \<Rightarrow>
                       do { a \<leftarrow> deref (blink_array bl) i;
                            b \<leftarrow> deref (blink_array bl) j;
                            let b = b\<lparr>on_length := on_length a, off_length := off_length a, countdown := countdown a, status := status a\<rparr>;
                            s \<leftarrow> poke (2 * unat (location b)) (sync_char b) s;
                            Some (0, bl\<lparr>blink_array := (blink_array bl)[j := b]\<rparr>, s) } } }"

definition mp1_ioctl_find :: "blink \<Rightarrow> blinks \<Rightarrow> (int \<times> blink) option" where
  "mp1_ioctl_find arg bl =
     do { eax \<leftarrow> mp1_find_helper (ucast (location arg)) bl;
          case eax of
            None \<Rightarrow> Some (-1, arg)
          | Some i \<Rightarrow> do { b \<leftarrow> deref (blink_array bl) i; Some (0, b) } }"

text \<open>The argument of \<open>mp1_ioctl\<close> is a number or the address of a structure, given by its contents.\<close>

datatype ioctl_arg = Number u32 | Struct blink

definition mp1_ioctl :: "'s poke \<Rightarrow> ioctl_arg \<Rightarrow> nat \<Rightarrow> blinks \<Rightarrow> 's \<Rightarrow> (int \<times> ioctl_arg \<times> blinks \<times> 's) option" where
  "mp1_ioctl poke arg cmd bl s =
     (case arg of
        Struct b \<Rightarrow>
          if cmd = 0 then do { (r, bl, s) \<leftarrow> mp1_ioctl_add poke b bl s; Some (r, arg, bl, s) }
          else if cmd = 2 then do { (r, b) \<leftarrow> mp1_ioctl_find b bl; Some (r, Struct b, bl, s) }
          else None
      | Number n \<Rightarrow>
          if cmd = 1 then do { (r, bl) \<leftarrow> mp1_ioctl_remove n bl; Some (r, arg, bl, s) }
          else if cmd = 3 then do { (r, bl, s) \<leftarrow> mp1_ioctl_sync poke n bl s; Some (r, arg, bl, s) }
          else None)"

section \<open>The list in the array\<close>

text \<open>The indices on the way from a pointer to the end.\<close>

fun chain :: "blink list \<Rightarrow> nat option \<Rightarrow> nat list \<Rightarrow> bool" where
  "chain arr p [] \<longleftrightarrow> p = None"
| "chain arr p (i # is) \<longleftrightarrow> p = Some i \<and> i < length arr \<and> chain arr (next_blink (arr ! i)) is"

text \<open>
  The invariant: the head leads to the end along the entries \<open>is\<close>, each once, and exactly these have a location, which
  is on the screen. The specification: the list of these entries without their pointers.
\<close>

definition blinks_at :: "nat list \<Rightarrow> blinks \<Rightarrow> bool" where
  "blinks_at is bl \<longleftrightarrow> length (blink_array bl) = 80 * 25 \<and> chain (blink_array bl) (mp1_list_head bl) is \<and> distinct is \<and>
     (\<forall>i < 80 * 25. location (blink_array bl ! i) \<noteq> 0 \<longleftrightarrow> i \<in> set is) \<and> (\<forall>i \<in> set is. location (blink_array bl ! i) < 80 * 25)"

definition shows_list :: "blinks \<Rightarrow> blinker list \<Rightarrow> bool" where
  "shows_list bl L \<longleftrightarrow> (\<exists>is. blinks_at is bl \<and> L = map (\<lambda>i. blinker.truncate (blink_array bl ! i)) is)"

lemma chain_update [simp]: "j \<notin> set is \<Longrightarrow> chain (arr[j := b]) p is = chain arr p is"
  by (induction "is" arbitrary: p) auto

lemma chain_bound: "chain arr p is \<Longrightarrow> i \<in> set is \<Longrightarrow> i < length arr"
  by (induction "is" arbitrary: p) auto

lemma chain_same_next:
  "(\<And>i. i \<in> set is \<Longrightarrow> next_blink (arr' ! i) = next_blink (arr ! i)) \<Longrightarrow> length arr' = length arr \<Longrightarrow> chain arr' p is = chain arr p is"
  by (induction "is" arbitrary: p) auto

lemma chain_unique: "chain arr p is \<Longrightarrow> chain arr p js \<Longrightarrow> is = js"
  by (induction "is" arbitrary: p js) (auto elim: chain.elims)

lemma find_loop_chain: "chain arr p is \<Longrightarrow> find_loop arr ax p = Some (find (\<lambda>i. location (arr ! i) = ax) is)"
  by (induction "is" arbitrary: p) (simp_all add: find_loop.simps deref_def)

lemma find_Some_split: "find P xs = Some x \<Longrightarrow> \<exists>ys zs. xs = ys @ x # zs \<and> P x \<and> (\<forall>y \<in> set ys. \<not> P y)"
proof (induction xs)
  case (Cons a xs)
  then show ?case
  proof (cases "P a")
    case True
    then show ?thesis using Cons.prems by (intro exI [of _ "[]"] exI [of _ xs]) simp
  next
    case False
    then obtain ys zs where "xs = ys @ x # zs" "P x" "\<forall>y \<in> set ys. \<not> P y" using Cons by auto
    then show ?thesis using False by (intro exI [of _ "a # ys"] exI [of _ zs]) simp
  qed
qed simp

lemma truncate_fields [simp]:
  "location (blinker.truncate b) = location b" "on_char (blinker.truncate b) = on_char b" "off_char (blinker.truncate b) = off_char b"
  "on_length (blinker.truncate b) = on_length b" "off_length (blinker.truncate b) = off_length b"
  "countdown (blinker.truncate b) = countdown b" "status (blinker.truncate b) = status b"
  by (simp_all add: blinker.truncate_def)

lemma truncate_updates [simp]:
  "blinker.truncate (b\<lparr>next_blink := p\<rparr>) = blinker.truncate b"
  "blinker.truncate (b\<lparr>countdown := x\<rparr>) = (blinker.truncate b)\<lparr>countdown := x\<rparr>"
  "blinker.truncate (b\<lparr>status := x\<rparr>) = (blinker.truncate b)\<lparr>status := x\<rparr>"
  "blinker.truncate (b\<lparr>on_length := x\<rparr>) = (blinker.truncate b)\<lparr>on_length := x\<rparr>"
  "blinker.truncate (b\<lparr>off_length := x\<rparr>) = (blinker.truncate b)\<lparr>off_length := x\<rparr>"
  by (simp_all add: blinker.truncate_def)

text \<open>The first entry with a location, in the array and in the specification.\<close>

lemma found_blink:
  assumes "blinks_at is bl"
  shows "mp1_find_helper arg bl = Some (find (\<lambda>i. location (blink_array bl ! i) = ucast arg) is)"
    "find (\<lambda>i. location (blink_array bl ! i) = ucast arg) is = None \<longleftrightarrow>
      ucast arg \<notin> location ` set (map (\<lambda>i. blinker.truncate (blink_array bl ! i)) is)"
  using assms find_loop_chain by (simp add: mp1_find_helper_def blinks_at_def) (auto simp: find_None_iff image_iff)

section \<open>Specification\<close>

text \<open>
  A tick of the list. An entry is lit while its status is odd. While its counter is from 2 to 0x8000
  it counts down and nothing else happens; otherwise it changes over: a lit entry goes out, shows its
  second character and counts the second length next, and a dark one is lit, shows the first
  character and counts the first length.
\<close>

definition counts_on :: "blinker \<Rightarrow> bool" where
  "counts_on b \<longleftrightarrow> 2 \<le> unat (countdown b) \<and> unat (countdown b) \<le> 0x8000"

definition tick_entry :: "blinker \<Rightarrow> blinker" where
  "tick_entry b =
     (if counts_on b then b\<lparr>countdown := of_nat (unat (countdown b) - 1)\<rparr>
      else if odd (unat (status b)) then b\<lparr>status := of_nat (unat (status b) - 1), countdown := off_length b\<rparr>
      else b\<lparr>status := of_nat (unat (status b) + 1), countdown := on_length b\<rparr>)"

definition tick :: "blinker list \<Rightarrow> blinker list" where
  "tick L = map tick_entry L"

primrec tick_screen :: "blinker list \<Rightarrow> (nat \<Rightarrow> byte) \<Rightarrow> nat \<Rightarrow> byte" where
  "tick_screen [] v = v"
| "tick_screen (b # L) v =
     tick_screen L
       (if counts_on b then v
        else v(2 * unat (location b) := (if odd (unat (status b)) then off_char b else on_char b)))"

definition show_at :: "(nat \<times> byte) option \<Rightarrow> (nat \<Rightarrow> byte) \<Rightarrow> nat \<Rightarrow> byte" where
  "show_at p v = (case p of None \<Rightarrow> v | Some (off, c) \<Rightarrow> v(off := c))"

definition remove_blink :: "u16 \<Rightarrow> blinker list \<Rightarrow> blinker list" where
  "remove_blink loc L = takeWhile (\<lambda>b. location b \<noteq> loc) L @ tl (dropWhile (\<lambda>b. location b \<noteq> loc) L)"

definition new_blink :: "blinker \<Rightarrow> blinker" where
  "new_blink b = b\<lparr>status := 1, countdown := on_length b\<rparr>"

definition find_blink :: "u16 \<Rightarrow> blinker list \<Rightarrow> blinker option" where
  "find_blink loc L = find (\<lambda>b. location b = loc) L"

definition sync_blink :: "blinker \<Rightarrow> blinker \<Rightarrow> blinker" where
  "sync_blink a b = b\<lparr>on_length := on_length a, off_length := off_length a, countdown := countdown a, status := status a\<rparr>"

definition update_blink :: "u16 \<Rightarrow> (blinker \<Rightarrow> blinker) \<Rightarrow> blinker list \<Rightarrow> blinker list" where
  "update_blink loc f L = takeWhile (\<lambda>b. location b \<noteq> loc) L @
     (case dropWhile (\<lambda>b. location b \<noteq> loc) L of [] \<Rightarrow> [] | b # bs \<Rightarrow> f b # bs)"

lemma find_map: "find P (map f xs) = map_option f (find (\<lambda>x. P (f x)) xs)"
  by (induction xs) simp_all

text \<open>The conditional move of the synchronisation is never taken.\<close>

lemma sync_char_off: "sync_char b = off_char b"
  by (simp add: sync_char_def bit_simps flip: bit_numeral_iff)

text \<open>The code's entry at a tick is the one of the specification.\<close>

lemma sint16_pos: "0 < sint (w :: u16) \<longleftrightarrow> 0 < unat w \<and> unat w < 0x8000"
proof -
  have "bit w 15 \<longleftrightarrow> bit (unat w) 15" by (simp add: bit_unsigned_iff)
  also have "\<dots> \<longleftrightarrow> odd (unat w div 2 ^ 15)" by (simp only: bit_iff_odd)
  also have "\<dots> \<longleftrightarrow> 0x8000 \<le> unat w"
  proof -
    have "unat w < 65536" using unsigned_less [of w, where 'a = nat] by simp
    then have "unat w div 0x8000 = (if 0x8000 \<le> unat w then 1 else 0)" by (auto intro: div_nat_eqI)
    then show ?thesis by simp
  qed
  finally have "sint w < 0 \<longleftrightarrow> 0x8000 \<le> unat w" using bit_last_iff [of w] by simp
  moreover have "sint w = 0 \<longleftrightarrow> unat w = 0" by (metis signed_eq_0_iff unat_eq_zero)
  ultimately show ?thesis by linarith
qed

lemma counts_on_iff: "counts_on b \<longleftrightarrow> 0 < sint (countdown b - 1)"
proof (cases "countdown b = 0")
  case True
  then show ?thesis by (simp add: counts_on_def)
next
  case False
  then have "unat (countdown b - 1) = unat (countdown b) - 1" by (rule unat_minus_one)
  then show ?thesis unfolding sint16_pos counts_on_def by auto
qed

lemma status_flip:
  fixes w :: u16
  shows "w AND 1 \<noteq> 0 \<longleftrightarrow> odd (unat w)"
    "w XOR 1 = (if odd (unat w) then of_nat (unat w - 1) else of_nat (unat w + 1))"
proof -
  have "bit (unat w) 0 \<longleftrightarrow> bit w 0" by (simp only: bit_unsigned_iff possible_bit_nat simp_thms)
  then have e: "odd w \<longleftrightarrow> odd (unat w)" by (simp only: bit_0)
  show "w AND 1 \<noteq> 0 \<longleftrightarrow> odd (unat w)" unfolding e [symmetric] by (simp add: and_one_eq odd_iff_mod_2_eq_one)
  show "w XOR 1 = (if odd (unat w) then of_nat (unat w - 1) else of_nat (unat w + 1))"
    using e by (cases "odd (unat w)") (simp_all add: xor_one_eq of_nat_diff Suc_leI odd_pos)
qed

lemma tick_entry_code: "tick_entry b = fst (tasklet_entry b)"
proof (cases "counts_on b")
  case True
  then have "of_nat (unat (countdown b) - 1) = countdown b - 1" by (simp add: counts_on_def of_nat_diff)
  then show ?thesis using True by (simp add: tick_entry_def tasklet_entry_def Let_def counts_on_iff)
next
  case False
  then show ?thesis using status_flip [of "status b"] by (simp add: tick_entry_def tasklet_entry_def Let_def counts_on_iff)
qed

lemma tick_code: "tick L = map (\<lambda>b. fst (tasklet_entry b)) L"
  by (simp add: tick_def tick_entry_code)

lemma tick_screen_code: "tick_screen L v = fold (\<lambda>b. show_at (snd (tasklet_entry b))) L v"
proof (induction L arbitrary: v)
  case (Cons b L)
  have "show_at (snd (tasklet_entry b)) v = (if counts_on b then v
      else v(2 * unat (location b) := (if odd (unat (status b)) then off_char b else on_char b)))"
    using status_flip(1) [of "status b"] by (simp add: tasklet_entry_def Let_def counts_on_iff show_at_def)
  then show ?case using Cons.IH by simp
qed simp

lemma tasklet_entry_truncate:
  fixes b :: blink
  shows "fst (tasklet_entry (blinker.truncate b)) = blinker.truncate (fst (tasklet_entry b))"
    "snd (tasklet_entry (blinker.truncate b)) = snd (tasklet_entry b)"
  by (simp_all add: tasklet_entry_def Let_def)

lemma tasklet_entry_keeps [simp]:
  "next_blink (fst (tasklet_entry b)) = next_blink b" "location (fst (tasklet_entry b')) = location b'"
  by (simp_all add: tasklet_entry_def Let_def)

lemma tasklet_entry_poke: "snd (tasklet_entry b) = Some (off, c) \<Longrightarrow> off = 2 * unat (location b)"
  by (simp add: tasklet_entry_def Let_def split: if_splits prod.splits)

lemma location_on_screen: "location b < 80 * 25 \<Longrightarrow> 2 * unat (location b) < 4000"
  by (simp add: word_less_nat_alt)

subsection \<open>Allocation and removal\<close>

lemma malloc_free:
  assumes "blinks_at is bl"
  shows "length is < 2000 \<Longrightarrow> \<exists>i. mp1_malloc bl = Some i \<and> i < 2000 \<and> i \<notin> set is"
    "length is = 2000 \<Longrightarrow> mp1_malloc bl = None"
proof -
  have "is": "distinct is" "set is \<subseteq> {0..<2000}" "\<forall>i < 2000. location (blink_array bl ! i) = 0 \<longleftrightarrow> i \<notin> set is"
    using assms chain_bound by (force simp: blinks_at_def)+
  have "card (set is) = length is" using "is"(1) by (rule distinct_card)
  show "length is = 2000 \<Longrightarrow> mp1_malloc bl = None"
  proof -
    assume "length is = 2000"
    then have "set is = {0..<2000}" using "is"(2) \<open>card (set is) = length is\<close> by (intro card_subset_eq) simp_all
    then show ?thesis using "is"(3) by (simp add: mp1_malloc_def find_None_iff del: upt_rec_numeral)
  qed
  assume l: "length is < 2000"
  have "\<exists>i \<in> {0..<2000}. i \<notin> set is"
  proof (rule ccontr)
    assume "\<not> ?thesis"
    then have "{0..<2000} \<subseteq> set is" by blast
    then have "card {0..<2000 :: nat} \<le> card (set is)" by (intro card_mono) simp_all
    then show False using l \<open>card (set is) = length is\<close> by simp
  qed
  then have "mp1_malloc bl \<noteq> None" using "is"(3) by (auto simp: mp1_malloc_def find_None_iff simp del: upt_rec_numeral)
  then show "\<exists>i. mp1_malloc bl = Some i \<and> i < 2000 \<and> i \<notin> set is"
    using "is"(3) by (auto simp: mp1_malloc_def find_Some_iff simp del: upt_rec_numeral)
qed

lemma remove_find_prev_chain:
  "slot_get bl edx = Some p \<Longrightarrow> chain (blink_array bl) p (ys @ i # zs) \<Longrightarrow> i \<notin> set ys \<Longrightarrow>
     remove_find_prev bl i edx = Some (if ys = [] then edx else Next (last ys))"
proof (induction ys arbitrary: p edx)
  case Nil
  then show ?case by (subst remove_find_prev.simps) simp
next
  case (Cons y ys)
  have "slot_get bl (Next y) = Some (next_blink (blink_array bl ! y))" using Cons.prems(2) by (simp add: deref_def)
  moreover have "p = Some y" "chain (blink_array bl) (next_blink (blink_array bl ! y)) (ys @ i # zs)" "i \<noteq> y" "i \<notin> set ys"
    using Cons.prems(2,3) by auto
  ultimately show ?case using Cons.IH [of "Next y"] Cons.prems(1) by (subst remove_find_prev.simps) auto
qed

lemma chain_skip:
  "chain arr p (ys @ i # zs) \<Longrightarrow> distinct (ys @ i # zs) \<Longrightarrow> ys \<noteq> [] \<Longrightarrow>
     chain (arr[last ys := (arr ! last ys)\<lparr>next_blink := next_blink (arr ! i)\<rparr>]) p (ys @ zs)"
proof (induction ys arbitrary: p)
  case (Cons y ys)
  show ?case
  proof (cases "ys = []")
    case False
    moreover from this have "last ys \<noteq> y" using Cons.prems(2) by auto
    ultimately show ?thesis using Cons by simp
  qed (use Cons.prems in simp)
qed simp

lemma remove_first:
  assumes "is = ys @ i # zs" "\<forall>y \<in> set ys. location (arr ! y) \<noteq> loc" "location (arr ! i) = loc"
  shows "remove_blink loc (map (\<lambda>i. blinker.truncate (arr ! i)) is) = map (\<lambda>i. blinker.truncate (arr ! i)) (ys @ zs)"
  using assms by (simp add: remove_blink_def takeWhile_append dropWhile_append)

lemma mp1_ioctl_remove_removes:
  assumes "shows_list bl L"
  shows "ucast arg \<in> location ` set L \<Longrightarrow> \<exists>bl'. mp1_ioctl_remove arg bl = Some (0, bl') \<and> shows_list bl' (remove_blink (ucast arg) L)"
    "ucast arg \<notin> location ` set L \<Longrightarrow> mp1_ioctl_remove arg bl = Some (-1, bl)"
proof -
  obtain "is" where bl: "blinks_at is bl" and L: "L = map (\<lambda>i. blinker.truncate (blink_array bl ! i)) is"
    using assms(1) by (auto simp: shows_list_def)
  note found = found_blink [OF bl, of arg, folded L]
  show "ucast arg \<notin> location ` set L \<Longrightarrow> mp1_ioctl_remove arg bl = Some (-1, bl)" using found by (simp add: mp1_ioctl_remove_def)
  assume "ucast arg \<in> location ` set L"
  then obtain i where i: "find (\<lambda>i. location (blink_array bl ! i) = ucast arg) is = Some i" using found(2) by auto
  then obtain ys zs where "is": "is = ys @ i # zs" "location (blink_array bl ! i) = ucast arg" "\<forall>y \<in> set ys. location (blink_array bl ! y) \<noteq> ucast arg"
    using find_Some_split by fast
  have b: "chain (blink_array bl) (mp1_list_head bl) (ys @ i # zs)" "distinct (ys @ i # zs)" "length (blink_array bl) = 2000"
    using bl "is"(1) by (simp_all add: blinks_at_def)
  have edx: "remove_find_prev bl i Head = Some (if ys = [] then Head else Next (last ys))"
    using remove_find_prev_chain [of bl Head _ ys i zs] b(1,2) by simp
  have lt: "i < 2000" using chain_bound [OF b(1), of i] b(3) by simp
  let ?bl = "mp1_free i (slot_set (if ys = [] then Head else Next (last ys)) (next_blink (blink_array bl ! i)) bl)"
  have "mp1_ioctl_remove arg bl = Some (0, ?bl)" using found(1) i edx lt b(3) by (simp add: mp1_ioctl_remove_def deref_def)
  moreover have c: "chain (blink_array ?bl) (mp1_list_head ?bl) (ys @ zs)"
  proof (cases "ys = []")
    case False
    have "i \<notin> set (ys @ zs)" using b(2) by auto
    then show ?thesis using chain_skip [OF b(1,2) False] False by (simp add: mp1_free_def)
  qed (use b(1,2) in \<open>simp add: mp1_free_def\<close>)
  have nth: "blinker.truncate (blink_array ?bl ! j) = (if j = i then blinker.truncate no_blink else blinker.truncate (blink_array bl ! j))" if "j < 2000" for j
    using that lt b(3) by (cases "j = last ys") (auto simp: mp1_free_def nth_list_update)
  have loc: "location (blink_array ?bl ! j) = (if j = i then 0 else location (blink_array bl ! j))" if "j < 2000" for j
    using arg_cong [OF nth [OF that], of location] by (simp add: no_blink_def split: if_splits)
  have len: "length (blink_array ?bl) = 2000" using b(3) by (simp add: mp1_free_def)
  have bound: "\<forall>j \<in> set (ys @ zs). j < 2000 \<and> j \<noteq> i" using chain_bound [OF c] len b(2) by auto
  have "blinks_at (ys @ zs) ?bl"
    using bl "is"(1) c len loc bound b(2) by (auto simp: blinks_at_def)
  moreover have "remove_blink (ucast arg) L = map (\<lambda>i. blinker.truncate (blink_array ?bl ! i)) (ys @ zs)"
    using remove_first [OF "is"(1,3,2)] nth bound by (simp add: L)
  ultimately show "\<exists>bl'. mp1_ioctl_remove arg bl = Some (0, bl') \<and> shows_list bl' (remove_blink (ucast arg) L)"
    by (auto simp: shows_list_def)
qed

text \<open>Ticks in a row.\<close>

primrec tasklets :: "'s poke \<Rightarrow> nat \<Rightarrow> blinks \<Rightarrow> 's \<Rightarrow> (blinks \<times> 's) option" where
  "tasklets poke 0 bl s = Some (bl, s)"
| "tasklets poke (Suc n) bl s = do { (bl, s) \<leftarrow> tasklets poke n bl s; mp1_rtc_tasklet poke bl s }"

definition tick_both :: "blinker list \<times> (nat \<Rightarrow> byte) \<Rightarrow> blinker list \<times> (nat \<Rightarrow> byte)" where
  "tick_both x = (tick (fst x), tick_screen (fst x) (snd x))"

lemma fst_ticks: "fst ((tick_both ^^ n) (L, v)) = (tick ^^ n) L"
  by (induction n) (simp_all add: tick_both_def)

lemma snd_ticks: "snd ((tick_both ^^ Suc n) (L, v)) = tick_screen ((tick ^^ n) L) (snd ((tick_both ^^ n) (L, v)))"
  by (simp only: funpow.simps o_apply tick_both_def [of "(tick_both ^^ n) (L, v)"] snd_conv fst_ticks)

text \<open>What the list needs of the video memory: a byte stored on the screen is there, and the others stay.\<close>

locale screen_memory =
  fixes poke :: "'s poke" and ok :: "'s \<Rightarrow> bool" and vid :: "'s \<Rightarrow> nat \<Rightarrow> byte"
  assumes poke_shows: "ok s \<Longrightarrow> off < 4000 \<Longrightarrow> \<exists>t. poke off c s = Some t \<and> ok t \<and> vid t = (vid s)(off := c)"
begin

lemma poke_opt_shows:
  assumes "ok s" "location b < 80 * 25"
  shows "\<exists>t. poke_opt poke (snd (tasklet_entry b)) s = Some t \<and> ok t \<and> vid t = show_at (snd (tasklet_entry b)) (vid s)"
proof (cases "snd (tasklet_entry b)")
  case None
  then show ?thesis using assms by (simp add: poke_opt_def show_at_def)
next
  case (Some p)
  then obtain off c where p: "snd (tasklet_entry b) = Some (off, c)" by (cases p) simp
  then have "off < 4000" using tasklet_entry_poke location_on_screen assms(2) by metis
  then show ?thesis using poke_shows [OF assms(1)] p by (simp add: poke_opt_def show_at_def)
qed

lemma tasklet_loop_chain:
  assumes "chain arr p is" "distinct is" "\<forall>i \<in> set is. location (arr ! i) < 80 * 25" "ok s"
  shows "\<exists>arr' t. tasklet_loop poke p arr s = Some (arr', t) \<and> ok t \<and> length arr' = length arr \<and>
    (\<forall>i. arr' ! i = (if i \<in> set is then fst (tasklet_entry (arr ! i)) else arr ! i)) \<and>
    vid t = fold (\<lambda>i. show_at (snd (tasklet_entry (arr ! i)))) is (vid s)"
  using assms
proof (induction "is" arbitrary: arr p s)
  case Nil
  then show ?case by (simp add: tasklet_loop.simps)
next
  case (Cons i "is")
  let ?b = "fst (tasklet_entry (arr ! i))" and ?arr = "arr[i := fst (tasklet_entry (arr ! i))]"
  obtain u where u: "poke_opt poke (snd (tasklet_entry (arr ! i))) s = Some u" "ok u"
      "vid u = show_at (snd (tasklet_entry (arr ! i))) (vid s)"
    using poke_opt_shows [OF Cons.prems(4), of "arr ! i"] Cons.prems(3) by auto
  have ch: "p = Some i" "i < length arr" "chain ?arr (next_blink ?b) is" using Cons.prems(1,2) by simp_all
  have same: "?arr ! j = arr ! j" if "j \<in> set is" for j
    using that Cons.prems(2) by (intro nth_list_update_neq) auto
  obtain arr' t where t: "tasklet_loop poke (next_blink ?b) ?arr u = Some (arr', t)" "ok t" "length arr' = length ?arr"
      "\<forall>j. arr' ! j = (if j \<in> set is then fst (tasklet_entry (?arr ! j)) else ?arr ! j)"
      "vid t = fold (\<lambda>i. show_at (snd (tasklet_entry (?arr ! i)))) is (vid u)"
    using Cons.IH [OF ch(3) _ _ u(2)] Cons.prems(2,3) same by auto
  have "tasklet_loop poke p arr s = Some (arr', t)"
    using ch(1,2) u(1) t(1) by (subst tasklet_loop.simps) (simp add: deref_def split_beta)
  moreover have "arr' ! j = (if j \<in> set (i # is) then fst (tasklet_entry (arr ! j)) else arr ! j)" for j
    using t(4) same Cons.prems(2) ch(2) by (auto simp: nth_list_update)
  moreover have "vid t = fold (\<lambda>i. show_at (snd (tasklet_entry (arr ! i)))) (i # is) (vid s)"
    using same unfolding t(5) u(3) by (simp cong: fold_cong)
  ultimately show ?case using t(2,3) by auto
qed

lemma tasklet_ticks:
  assumes "shows_list bl L" "ok s"
  shows "\<exists>bl' t. mp1_rtc_tasklet poke bl s = Some (bl', t) \<and> ok t \<and> shows_list bl' (tick L) \<and> vid t = tick_screen L (vid s)"
proof -
  obtain "is" where bl: "blinks_at is bl" and L: "L = map (\<lambda>i. blinker.truncate (blink_array bl ! i)) is"
    using assms(1) by (auto simp: shows_list_def)
  have b: "chain (blink_array bl) (mp1_list_head bl) is" "distinct is" "\<forall>i \<in> set is. location (blink_array bl ! i) < 80 * 25"
    using bl by (auto simp: blinks_at_def)
  obtain arr t where t: "tasklet_loop poke (mp1_list_head bl) (blink_array bl) s = Some (arr, t)" "ok t" "length arr = length (blink_array bl)"
      "\<forall>i. arr ! i = (if i \<in> set is then fst (tasklet_entry (blink_array bl ! i)) else blink_array bl ! i)"
      "vid t = fold (\<lambda>i. show_at (snd (tasklet_entry (blink_array bl ! i)))) is (vid s)"
    using tasklet_loop_chain [OF b assms(2)] by blast
  have "chain arr (mp1_list_head bl) is" using b(1) t(3,4) chain_same_next [of "is" arr "blink_array bl"] by simp
  then have "blinks_at is (bl\<lparr>blink_array := arr\<rparr>)" using bl t(3,4) by (auto simp: blinks_at_def)
  then have "shows_list (bl\<lparr>blink_array := arr\<rparr>) (tick L)"
    using t(4) by (auto simp: shows_list_def L tick_code tasklet_entry_truncate)
  moreover have "vid t = tick_screen L (vid s)"
    by (simp add: t(5) tick_screen_code L fold_map comp_def tasklet_entry_truncate)
  ultimately show ?thesis using t(1,2) by (simp add: mp1_rtc_tasklet_def)
qed

lemma mp1_ioctl_add_adds:
  assumes "shows_list bl L" "ok s" "location arg \<noteq> 0" "location arg < 2000" "length L < 2000"
  shows "\<exists>bl' t. mp1_ioctl_add poke arg bl s = Some (0, bl', t) \<and> ok t \<and> shows_list bl' (new_blink (blinker.truncate arg) # L) \<and>
    vid t = (vid s)(2 * unat (location arg) := on_char arg)"
proof -
  obtain "is" where bl: "blinks_at is bl" and L: "L = map (\<lambda>i. blinker.truncate (blink_array bl ! i)) is"
    using assms(1) by (auto simp: shows_list_def)
  obtain i where i: "mp1_malloc bl = Some i" "i < 2000" "i \<notin> set is" using malloc_free(1) [OF bl] assms(5) L by auto
  obtain t where t: "poke (2 * unat (location arg)) (on_char arg) s = Some t" "ok t" "vid t = (vid s)(2 * unat (location arg) := on_char arg)"
    using poke_shows [OF assms(2) location_on_screen, of arg] assms(4) by auto
  let ?b = "arg\<lparr>status := 1, countdown := on_length arg, next_blink := mp1_list_head bl\<rparr>"
  let ?bl = "bl\<lparr>blink_array := (blink_array bl)[i := ?b], mp1_list_head := Some i\<rparr>"
  have "mp1_ioctl_add poke arg bl s = Some (0, ?bl, t)" using i(1) t(1) assms(4) by (simp add: mp1_ioctl_add_def)
  moreover have at: "blinks_at (i # is) ?bl"
    using bl i assms(3,4) by (auto simp: blinks_at_def nth_list_update)
  have "map (\<lambda>j. blinker.truncate (blink_array ?bl ! j)) (i # is) = new_blink (blinker.truncate arg) # L"
    using bl i by (auto simp: L new_blink_def blinks_at_def nth_list_update)
  then have "shows_list ?bl (new_blink (blinker.truncate arg) # L)" unfolding shows_list_def by (intro exI [of _ "i # is"] conjI at) (rule sym)
  ultimately show ?thesis using t by blast
qed

lemma mp1_ioctl_add_fails:
  assumes "shows_list bl L" "2000 \<le> location arg \<or> length L = 2000"
  shows "mp1_ioctl_add poke arg bl s = Some (-1, bl, s)"
  using assms malloc_free(2) by (auto simp: shows_list_def mp1_ioctl_add_def)

lemma mp1_ioctl_sync_syncs:
  assumes "shows_list bl L" "ok s" "find_blink (ucast (drop_bit 16 arg)) L = Some a" "find_blink (ucast (arg AND 0xFFFF)) L = Some b"
  shows "\<exists>bl' t. mp1_ioctl_sync poke arg bl s = Some (0, bl', t) \<and> ok t \<and>
    shows_list bl' (update_blink (location b) (sync_blink a) L) \<and> vid t = (vid s)(2 * unat (location b) := off_char b)"
proof -
  obtain "is" where bl: "blinks_at is bl" and L: "L = map (\<lambda>i. blinker.truncate (blink_array bl ! i)) is"
    using assms(1) by (auto simp: shows_list_def)
  obtain i where i: "find (\<lambda>i. location (blink_array bl ! i) = ucast (drop_bit 16 arg)) is = Some i" "a = blinker.truncate (blink_array bl ! i)"
    using assms(3) by (auto simp: find_blink_def L find_map)
  obtain j where j: "find (\<lambda>i. location (blink_array bl ! i) = ucast (arg AND 0xFFFF)) is = Some j" "b = blinker.truncate (blink_array bl ! j)"
    using assms(4) by (auto simp: find_blink_def L find_map)
  obtain ys zs where "is": "is = ys @ j # zs" "location (blink_array bl ! j) = ucast (arg AND 0xFFFF)"
      "\<forall>y \<in> set ys. location (blink_array bl ! y) \<noteq> ucast (arg AND 0xFFFF)"
    using find_Some_split [OF j(1)] by blast
  have iin: "i \<in> set is" using find_Some_split [OF i(1)] by auto
  have lt: "i < length (blink_array bl)" "j < length (blink_array bl)" using chain_bound [of "blink_array bl" _ "is"] bl iin "is"(1) by (auto simp: blinks_at_def)
  let ?b = "(blink_array bl ! j)\<lparr>on_length := on_length a, off_length := off_length a, countdown := countdown a, status := status a\<rparr>"
  let ?bl = "bl\<lparr>blink_array := (blink_array bl)[j := ?b]\<rparr>"
  have "2 * unat (location ?b) < 4000" using bl "is"(1) location_on_screen [of "blink_array bl ! j"] by (simp add: blinks_at_def)
  then obtain t where t: "poke (2 * unat (location ?b)) (sync_char ?b) s = Some t" "ok t" "vid t = (vid s)(2 * unat (location ?b) := sync_char ?b)"
    using poke_shows [OF assms(2)] by blast
  have "mp1_ioctl_sync poke arg bl s = Some (0, ?bl, t)"
    using found_blink(1) [OF bl] i j lt t(1) by (simp add: mp1_ioctl_sync_def deref_def)
  moreover have at: "blinks_at is ?bl"
    using bl lt chain_same_next [of "is" "(blink_array bl)[j := ?b]" "blink_array bl"] by (auto simp: blinks_at_def nth_list_update)
  have "update_blink (location b) (sync_blink a) L = map (\<lambda>i. blinker.truncate (blink_array ?bl ! i)) is"
    using bl "is" lt j(2) by (auto simp: L update_blink_def sync_blink_def takeWhile_append dropWhile_append blinks_at_def nth_list_update)
  then have "shows_list ?bl (update_blink (location b) (sync_blink a) L)" using at by (auto simp: shows_list_def)
  moreover have "vid t = (vid s)(2 * unat (location b) := off_char b)" using t(3) j(2) by (simp add: sync_char_off)
  ultimately show ?thesis using t(2) by blast
qed

lemma tasklets_tick:
  assumes "shows_list bl L" "ok s"
  shows "\<exists>bl' t. tasklets poke n bl s = Some (bl', t) \<and> ok t \<and> shows_list bl' ((tick ^^ n) L) \<and>
    vid t = snd ((tick_both ^^ n) (L, vid s))"
proof (induction n)
  case (Suc n)
  then obtain bl' t where t: "tasklets poke n bl s = Some (bl', t)" "ok t" "shows_list bl' ((tick ^^ n) L)"
      "vid t = snd ((tick_both ^^ n) (L, vid s))" by blast
  then show ?case using tasklet_ticks [OF t(3,2)] by (auto simp: snd_ticks simp del: funpow.simps) (simp_all add: t)
qed (use assms in simp)

end

section \<open>The schedule of a character\<close>

text \<open>The state of an entry \<open>k\<close> ticks into its period.\<close>

definition at_phase :: "blinker \<Rightarrow> nat \<Rightarrow> blinker" where
  "at_phase b k =
     b\<lparr>status := if k < unat (on_length b) then 1 else 0,
       countdown := of_nat (if k < unat (on_length b) then unat (on_length b) - k else unat (on_length b) + unat (off_length b) - k)\<rparr>"

definition blink_char :: "blinker \<Rightarrow> nat \<Rightarrow> byte" where
  "blink_char b n = (if n mod (unat (on_length b) + unat (off_length b)) < unat (on_length b) then on_char b else off_char b)"

definition lengths_ok :: "blinker \<Rightarrow> bool" where
  "lengths_ok b \<longleftrightarrow> 0 < on_length b \<and> on_length b < 0x8000 \<and> 0 < off_length b \<and> off_length b < 0x8000"

lemma lengths_bounds:
  "lengths_ok b \<Longrightarrow> 0 < unat (on_length b) \<and> unat (on_length b) < 0x8000 \<and> 0 < unat (off_length b) \<and> unat (off_length b) < 0x8000"
  by (simp add: lengths_ok_def word_less_nat_alt unat_gt_0)

lemma count_down:
  assumes "0 < m" "m < 0x8000"
  shows "(of_nat m - 1 :: u16) = of_nat (m - 1)" "0 < sint (of_nat m - 1 :: u16) \<longleftrightarrow> 1 < m"
proof -
  show e: "(of_nat m - 1 :: u16) = of_nat (m - 1)" using assms(1) by (simp add: of_nat_diff)
  have "sint (of_nat (m - 1) :: u16) = int (m - 1)"
    using assms(2) by (simp add: sint_uint uint_nat unat_of_nat signed_take_bit_int_eq_self take_bit_nat_eq_self)
  then show "0 < sint (of_nat m - 1 :: u16) \<longleftrightarrow> 1 < m" unfolding e using assms(1) by auto
qed

lemma at_phase_fields:
  "location (at_phase b k) = location b" "on_char (at_phase b k) = on_char b" "off_char (at_phase b k) = off_char b"
  "on_length (at_phase b k) = on_length b" "off_length (at_phase b k) = off_length b"
  "status (at_phase b k) = (if k < unat (on_length b) then 1 else 0)"
  "countdown (at_phase b k) = of_nat (if k < unat (on_length b) then unat (on_length b) - k else unat (on_length b) + unat (off_length b) - k)"
  unfolding at_phase_def by (cases b, simp only: blinker.simps)+

lemma at_phase_update:
  assumes "x = (if j < unat (on_length b) then 1 else 0)"
    and "y = of_nat (if j < unat (on_length b) then unat (on_length b) - j else unat (on_length b) + unat (off_length b) - j)"
  shows "(at_phase b k)\<lparr>countdown := y, status := x\<rparr> = at_phase b j"
  unfolding at_phase_def assms by (cases b) (simp only: blinker.simps)

text \<open>One tick of an entry whose counter is positive.\<close>

lemma tasklet_entry_count:
  assumes "0 < m" "m < 0x8000" "countdown x = of_nat m" "status x = (if P then 1 else 0)"
  shows "tasklet_entry x = (if 1 < m then (x\<lparr>countdown := of_nat (m - 1), status := if P then 1 else 0\<rparr>, None)
      else if P then (x\<lparr>countdown := off_length x, status := 0\<rparr>, Some (2 * unat (location x), off_char x))
      else (x\<lparr>countdown := on_length x, status := 1\<rparr>, Some (2 * unat (location x), on_char x)))"
proof (cases "1 < m")
  case True
  then have "0 < sint (countdown x - 1)" "countdown x - 1 = of_nat (m - 1)" using count_down [OF assms(1,2)] assms(3) by simp_all
  moreover have "x\<lparr>countdown := c, status := status x\<rparr> = x\<lparr>countdown := c\<rparr>" for c by (cases x) simp
  ultimately show ?thesis using True assms(4) by (simp add: tasklet_entry_def Let_def del: of_nat_diff)
next
  case False
  then have "\<not> 0 < sint (countdown x - 1)" using count_down [OF assms(1,2)] assms(3) by simp
  then show ?thesis using False assms(4) by (simp add: tasklet_entry_def Let_def)
qed

text \<open>One tick in a period, and what it shows.\<close>

lemma tasklet_entry_phase:
  fixes b k
  defines "on \<equiv> unat (on_length b)" and "off \<equiv> unat (off_length b)"
  assumes "lengths_ok b" "k < on + off"
  shows "tasklet_entry (at_phase b k) = (at_phase b (Suc k mod (on + off)),
      if Suc k = on then Some (2 * unat (location b), off_char b)
       else if Suc k = on + off then Some (2 * unat (location b), on_char b) else None)"
proof -
  define m where "m = (if k < on then on - k else on + off - k)"
  have l: "0 < on" "on < 0x8000" "0 < off" "off < 0x8000"
    using lengths_bounds [OF assms(3)] by (simp_all add: on_def off_def)
  have m: "0 < m" "m < 0x8000" using l assms(4) by (auto simp: m_def)
  have cd: "countdown (at_phase b k) = of_nat m" "status (at_phase b k) = (if k < on then 1 else 0)"
    by (simp_all only: at_phase_fields m_def on_def off_def)
  note e = tasklet_entry_count [OF m cd, unfolded at_phase_fields(1-5)]
  note up = at_phase_update [where b = b, folded on_def off_def]
  consider "Suc k < on" | "Suc k = on" | "on \<le> k" "Suc k < on + off" | "on \<le> k" "Suc k = on + off"
    using assms(4) by linarith
  then show ?thesis
  proof cases
    case 1
    then have "1 < m" "m - 1 = on - Suc k" "Suc k mod (on + off) = Suc k" "k < on" by (simp_all add: m_def)
    then show ?thesis using e up [of _ "Suc k" _ k] 1 by simp
  next
    case 2
    then have "m = 1" "k < on" "Suc k mod (on + off) = Suc k" "on + off - Suc k = off" using l by (simp_all add: m_def)
    then show ?thesis using e up [of _ "Suc k" _ k] 2 by (simp add: off_def)
  next
    case 3
    then have "1 < m" "m - 1 = on + off - Suc k" "Suc k mod (on + off) = Suc k" "\<not> k < on" by (simp_all add: m_def)
    then show ?thesis using e up [of _ "Suc k" _ k] 3 by simp
  next
    case 4
    then have "m = 1" "\<not> k < on" "Suc k mod (on + off) = 0" "Suc k \<noteq> on" using l by (simp_all add: m_def)
    then show ?thesis using e up [of _ 0 _ k] 4 l by (simp add: on_def)
  qed
qed

lemma new_blink_phase: "lengths_ok b \<Longrightarrow> new_blink b = at_phase b 0"
  using lengths_bounds [of b] by (cases b) (simp add: new_blink_def at_phase_def)

lemma tick_phase:
  assumes "lengths_ok b"
  shows "(tick ^^ n) (at_phase b 0 # L) = at_phase b (n mod (unat (on_length b) + unat (off_length b))) # (tick ^^ n) L"
proof (induction n)
  case (Suc n)
  have "0 < unat (on_length b)" using lengths_bounds [OF assms] by blast
  then have "n mod (unat (on_length b) + unat (off_length b)) < unat (on_length b) + unat (off_length b)" by (intro mod_less_divisor) simp
  from tasklet_entry_phase [OF assms this] show ?case using Suc by (simp add: tick_code mod_Suc_eq)
qed simp

lemma tick_locations: "location ` set ((tick ^^ n) L) = location ` set L"
proof (induction n)
  case (Suc n)
  have "location ` set (tick M) = location ` set M" for M by (auto simp: tick_code image_image)
  then show ?case using Suc by simp
qed simp

lemma tick_screen_other: "loc \<notin> location ` set L \<Longrightarrow> tick_screen L v (2 * unat loc) = v (2 * unat loc)"
proof (induction L arbitrary: v)
  case (Cons b L)
  have "unat (location b) \<noteq> unat loc" using Cons.prems by (auto simp: word_unat_eq_iff)
  then have "show_at (snd (tasklet_entry b)) v (2 * unat loc) = v (2 * unat loc)"
    using tasklet_entry_poke [of b] by (auto simp: show_at_def split: option.split)
  then show ?case using Cons by (simp add: tick_screen_code)
qed (simp add: tick_screen_code)

lemma phase_char:
  fixes b n
  defines "on \<equiv> unat (on_length b)" and "off \<equiv> unat (off_length b)"
  assumes "lengths_ok b" "v (2 * unat (location b)) = blink_char b n"
  shows "show_at (snd (tasklet_entry (at_phase b (n mod (on + off))))) v (2 * unat (location b)) = blink_char b (Suc n)"
proof -
  have l: "0 < on" "0 < off" using lengths_bounds [OF assms(3)] by (simp_all add: on_def off_def)
  define k where "k = n mod (on + off)"
  have k: "k < on + off" using l by (simp add: k_def)
  have s: "Suc n mod (on + off) = (if Suc k = on + off then 0 else Suc k)" by (simp add: k_def mod_Suc)
  show ?thesis
    using assms(4) l tasklet_entry_phase [OF assms(3), folded on_def off_def, OF k] s
    unfolding k_def [symmetric] blink_char_def on_def [symmetric] off_def [symmetric] by (auto simp: show_at_def)
qed

lemma ticks_char:
  assumes "lengths_ok b" "location b \<notin> location ` set L" "v (2 * unat (location b)) = on_char b"
  shows "snd ((tick_both ^^ n) (at_phase b 0 # L, v)) (2 * unat (location b)) = blink_char b n"
proof (induction n)
  case 0
  then show ?case using assms lengths_bounds [OF assms(1)] by (simp add: blink_char_def)
next
  case (Suc n)
  let ?v = "snd ((tick_both ^^ n) (at_phase b 0 # L, v))"
  have "tick_screen ((tick ^^ n) (at_phase b 0 # L)) ?v (2 * unat (location b)) = blink_char b (Suc n)"
    unfolding tick_phase [OF assms(1)]
    using phase_char [where v = ?v, OF assms(1) Suc] tick_screen_other [of "location b" "(tick ^^ n) L"] assms(2) tick_locations [of n L]
    by (simp add: tick_screen_code)
  then show ?case by (simp only: snd_ticks)
qed

context screen_memory
begin

lemma added_blinks:
  assumes "shows_list bl L" "ok s" "location arg \<noteq> 0" "location arg < 2000" "length L < 2000"
    and "lengths_ok (blinker.truncate arg)" "location arg \<notin> location ` set L"
  shows "\<exists>bl1 s1 bl2 s2. mp1_ioctl_add poke arg bl s = Some (0, bl1, s1) \<and> tasklets poke n bl1 s1 = Some (bl2, s2) \<and> ok s2 \<and>
    vid s2 (2 * unat (location arg)) = blink_char (blinker.truncate arg) n"
proof -
  let ?b = "blinker.truncate arg"
  obtain bl1 s1 where a: "mp1_ioctl_add poke arg bl s = Some (0, bl1, s1)" "ok s1" "shows_list bl1 (new_blink ?b # L)"
      "vid s1 = (vid s)(2 * unat (location arg) := on_char arg)"
    using mp1_ioctl_add_adds [OF assms(1-5)] by blast
  obtain bl2 s2 where t: "tasklets poke n bl1 s1 = Some (bl2, s2)" "ok s2" "vid s2 = snd ((tick_both ^^ n) (new_blink ?b # L, vid s1))"
    using tasklets_tick [OF a(3,2)] by blast
  have "vid s2 (2 * unat (location arg)) = blink_char ?b n"
    using ticks_char [OF assms(6), of L "vid s1" n] assms(7) a(4) t(3) new_blink_phase [OF assms(6)] by simp
  then show ?thesis using a(1) t by blast
qed

end

section \<open>Where the list is lost\<close>

text \<open>
  The allocator takes an entry with the location 0 for free, but 0 is a location of the screen. After a character has been
  added there, the next one gets the same entry, whose pointer then leads back to itself: the tasklet runs forever.
\<close>

lemma tasklet_loop_cycle:
  "i < length arr \<Longrightarrow> next_blink (arr ! i) = Some i \<Longrightarrow> tasklet_loop poke (Some i) arr s = None"
proof (rule ccontr)
  assume a: "i < length arr" "next_blink (arr ! i) = Some i" "tasklet_loop poke (Some i) arr s \<noteq> None"
  then obtain y where "tasklet_loop poke (Some i) arr s = Some y" by blast
  then have "\<not> (Some i = Some i \<and> i < length arr \<and> next_blink (arr ! i) = Some i)"
    by (rule tasklet_loop.raw_induct [where P = "\<lambda>poke p arr s y. \<not> (p = Some i \<and> i < length arr \<and> next_blink (arr ! i) = Some i)", rotated])
      (fastforce simp: deref_def split_beta Option.bind_eq_Some_conv)
  then show False using a by simp
qed

lemma blink_zero_lost:
  assumes "blink_array bl = replicate 2000 no_blink" "location a = 0" "location b < 2000" "poke 0 (on_char a) s = Some s1"
    and "poke (2 * unat (location b)) (on_char b) s1 = Some s2"
  shows "\<exists>bl1 bl2. mp1_ioctl_add poke a bl s = Some (0, bl1, s1) \<and> mp1_ioctl_add poke b bl1 s1 = Some (0, bl2, s2) \<and>
    mp1_rtc_tasklet poke bl2 s2 = None"
proof -
  have m: "mp1_malloc bl' = Some 0" if "location (blink_array bl' ! 0) = 0" for bl'
    unfolding mp1_malloc_def using that by (subst upt_conv_Cons) (simp_all del: upt_rec_numeral)
  define arr where "arr = blink_array bl"
  have l: "length arr = 2000" "location (arr ! 0) = 0" by (simp_all only: arr_def assms(1) length_replicate) (simp add: no_blink_def)
  define bl1 where "bl1 = bl\<lparr>blink_array := arr[0 := a\<lparr>status := 1, countdown := on_length a, next_blink := mp1_list_head bl\<rparr>], mp1_list_head := Some 0\<rparr>"
  define bl2 where "bl2 = bl1\<lparr>blink_array := (blink_array bl1)[0 := b\<lparr>status := 1, countdown := on_length b, next_blink := Some 0\<rparr>], mp1_list_head := Some 0\<rparr>"
  have h: "mp1_list_head bl1 = Some 0" "location (blink_array bl1 ! 0) = 0" "length (blink_array bl1) = 2000" using l(1) assms(2) by (simp_all add: bl1_def)
  have "mp1_ioctl_add poke a bl s = Some (0, bl1, s1)"
    using m [of bl] l(2) assms(2,4) by (simp add: mp1_ioctl_add_def bl1_def arr_def)
  moreover have "mp1_ioctl_add poke b bl1 s1 = Some (0, bl2, s2)"
    using m [OF h(2)] h(1) assms(3,5) by (simp add: mp1_ioctl_add_def bl2_def)
  moreover have "tasklet_loop poke (Some 0) (blink_array bl2) s2 = None"
    using h(3) by (intro tasklet_loop_cycle) (simp_all add: bl2_def)
  then have "mp1_rtc_tasklet poke bl2 s2 = None" by (simp add: mp1_rtc_tasklet_def bl2_def)
  ultimately show ?thesis by blast
qed

end
