(* ===== verification/Fish.thy ===== *)
theory Fish
  imports Blink UserProgs
begin

text \<open>
  The program \<^verbatim>\<open>src/fish/fish.c\<close>: it maps the video memory, turns the two frames of a picture into blinking characters and
  lets them blink at the pace of the clock.

  Besides the system calls the program loads and stores in its own memory: the record \<open>umem\<close>. The address of the variable
  \<^verbatim>\<open>vmem_base_addr\<close>, in which \<open>ece391_vidmap\<close> leaves the address of the video memory, is the parameter \<open>V\<close>.
\<close>

section \<open>Definitions\<close>

record 's umem =
  load32 :: "u32 \<Rightarrow> 's \<Rightarrow> u32"
  store8 :: "u32 \<Rightarrow> byte \<Rightarrow> 's \<Rightarrow> 's option"

definition mp1_poke :: "'s umem \<Rightarrow> u32 \<Rightarrow> 's poke" where
  "mp1_poke mem V eax cl s = store8 mem (load32 mem V s + of_nat eax) cl s"

definition mp1_set_video_mode :: "'s usys \<Rightarrow> 's umem \<Rightarrow> u32 \<Rightarrow> 's \<Rightarrow> (u32 \<times> 's) option" where
  "mp1_set_video_mode sys mem V s =
     do { (r, s) \<leftarrow> ece391_vidmap sys V s;
          if r = -1 then Some (0, s) else Some (load32 mem V s, s) }"

subsection \<open>The frames\<close>

text \<open>The next character of a frame; at the end of a line or of the file it stays a newline.\<close>

definition frame_char :: "'s usys \<Rightarrow> int \<Rightarrow> byte \<Rightarrow> bool \<Rightarrow> 's \<Rightarrow> (byte \<times> bool \<times> 's) option" where
  "frame_char sys fd c eof s =
     (if c \<noteq> 0x0A then
        do { (num_bytes, buf, s) \<leftarrow> ece391_read sys fd [c] 1 s;
             c \<leftarrow> element buf 0;
             Some (if num_bytes = 0 then (0x0A, True, s) else (c, eof, s)) }
      else Some (c, eof, s))"

definition frame_blink :: "byte \<Rightarrow> byte \<Rightarrow> nat \<Rightarrow> nat \<Rightarrow> blink" where
  "frame_blink c0 c1 row col =
     no_blink\<lparr>on_length := 15, off_length := 15, on_char := if c0 = 0x0A then 0x20 else c0,
       off_char := if c1 = 0x0A then 0x20 else c1, location := of_nat (row * 80 + col + 40)\<rparr>"

text \<open>The inner loop, one row of both frames.\<close>

partial_function (option) frame_row ::
  "'s usys \<Rightarrow> 's poke \<Rightarrow> int \<Rightarrow> int \<Rightarrow> nat \<Rightarrow> nat \<Rightarrow> byte \<Rightarrow> byte \<Rightarrow> bool \<Rightarrow> bool \<Rightarrow> blinks \<Rightarrow> 's \<Rightarrow>
     (bool \<times> bool \<times> blinks \<times> 's) option" where
  "frame_row sys poke fd0 fd1 row col c0 c1 eof0 eof1 bl s =
     do { (c0, eof0, s) \<leftarrow> frame_char sys fd0 c0 eof0 s;
          (c1, eof1, s) \<leftarrow> frame_char sys fd1 c1 eof1 s;
          if c0 = 0x0A \<and> c1 = 0x0A then Some (eof0, eof1, bl, s)
          else do {
            (bl, s) \<leftarrow> (if (c0 \<noteq> 0x20 \<and> c0 \<noteq> 0x0A) \<or> (c1 \<noteq> 0x20 \<and> c1 \<noteq> 0x0A)
              then do { (_, _, bl, s) \<leftarrow> mp1_ioctl poke (Struct (frame_blink c0 c1 row col)) 0 bl s; Some (bl, s) }
              else Some (bl, s));
            frame_row sys poke fd0 fd1 row (col + 1) c0 c1 eof0 eof1 bl s } }"

definition frame_close :: "'s usys \<Rightarrow> int \<Rightarrow> bool \<Rightarrow> 's \<Rightarrow> (byte \<times> 's) option" where
  "frame_close sys fd eof s =
     (if eof then do { (_, s) \<leftarrow> ece391_close sys fd s; Some (0x0A, s) } else Some (0x30, s))"

partial_function (option) frame_rows ::
  "'s usys \<Rightarrow> 's poke \<Rightarrow> int \<Rightarrow> int \<Rightarrow> nat \<Rightarrow> byte \<Rightarrow> byte \<Rightarrow> bool \<Rightarrow> bool \<Rightarrow> blinks \<Rightarrow> 's \<Rightarrow> (blinks \<times> 's) option" where
  "frame_rows sys poke fd0 fd1 row c0 c1 eof0 eof1 bl s =
     (if \<not> eof0 \<or> \<not> eof1 then
        do { (eof0, eof1, bl, s) \<leftarrow> frame_row sys poke fd0 fd1 row 0 c0 c1 eof0 eof1 bl s;
             (c0, s) \<leftarrow> frame_close sys fd0 eof0 s;
             (c1, s) \<leftarrow> frame_close sys fd1 eof1 s;
             frame_rows sys poke fd0 fd1 (row + 1) c0 c1 eof0 eof1 bl s }
      else Some (bl, s))"

text \<open>A call of \<^verbatim>\<open>ece391_halt\<close> ends the program: \<open>Inl\<close> with its status.\<close>

definition add_frames ::
  "'s usys \<Rightarrow> 's poke \<Rightarrow> byte list \<Rightarrow> byte list \<Rightarrow> blinks \<Rightarrow> 's \<Rightarrow> (int \<times> 's + blinks \<times> 's) option" where
  "add_frames sys poke f0 f1 bl s =
     do { (fd0, s) \<leftarrow> ece391_open sys f0 s;
          if fd0 < 0 then Some (Inl (-1, s))
          else do { (fd1, s) \<leftarrow> ece391_open sys f1 s;
                    if fd1 < 0 then Some (Inl (-1, s))
                    else map_option Inr (frame_rows sys poke fd0 fd1 0 0x30 0x30 False False bl s) } }"

subsection \<open>The program\<close>

primrec fish_wait :: "'s usys \<Rightarrow> 's poke \<Rightarrow> int \<Rightarrow> nat \<Rightarrow> blinks \<Rightarrow> 's \<Rightarrow> (blinks \<times> 's) option" where
  "fish_wait sys poke rtc_fd 0 bl s = Some (bl, s)"
| "fish_wait sys poke rtc_fd (Suc n) bl s =
     do { (_, _, s) \<leftarrow> ece391_read sys rtc_fd (replicate 4 0) 4 s;
          (bl, s) \<leftarrow> mp1_rtc_tasklet poke bl s;
          fish_wait sys poke rtc_fd n bl s }"

definition fish_struct :: blink where
  "fish_struct = no_blink\<lparr>on_char := 0x49, off_char := 0x4D, on_length := 7, off_length := 6, location := 6 * 80 + 60\<rparr>"

definition no_blinks :: blinks where
  "no_blinks = \<lparr>blink_array = replicate (80 * 25) no_blink, mp1_list_head = None\<rparr>"

definition fish_main :: "'s usys \<Rightarrow> 's umem \<Rightarrow> u32 \<Rightarrow> 's \<Rightarrow> (int \<times> 's) option" where
  "fish_main sys mem V s =
     (let poke = mp1_poke mem V in
      do { (vm, s) \<leftarrow> mp1_set_video_mode sys mem V s;
           if vm = 0 then Some (-1, s)
           else do {
             (rtc_fd, s) \<leftarrow> ece391_open sys (lit ''rtc'') s;
             r \<leftarrow> add_frames sys poke (lit ''frame0.txt'') (lit ''frame1.txt'') no_blinks s;
             case r of
               Inl halted \<Rightarrow> Some halted
             | Inr (bl, s) \<Rightarrow>
                 do { (_, s) \<leftarrow> ece391_write sys rtc_fd [32, 0, 0, 0] 4 s;
                      (bl, s) \<leftarrow> fish_wait sys poke rtc_fd 100 bl s;
                      (_, _, bl, s) \<leftarrow> mp1_ioctl poke (Struct fish_struct) 0 bl s;
                      (bl, s) \<leftarrow> fish_wait sys poke rtc_fd 100 bl s;
                      (_, _, bl, s) \<leftarrow> mp1_ioctl poke (Number (push_bit 16 40 OR (6 * 80 + 60))) 3 bl s;
                      (bl, s) \<leftarrow> fish_wait sys poke rtc_fd 100 bl s;
                      (_, _, bl, s) \<leftarrow> mp1_ioctl poke (Number (6 * 80 + 60)) 1 bl s;
                      (bl, s) \<leftarrow> fish_wait sys poke rtc_fd 100 bl s;
                      (_, s) \<leftarrow> ece391_close sys rtc_fd s;
                      Some (0, s) } } })"

lemma no_blinks_shows: "shows_list no_blinks []"
  by (simp add: shows_list_def blinks_at_def no_blinks_def no_blink_def)

end
