(* ===== verification/BlinkBytes.thy ===== *)
theory BlinkBytes
  imports Fish Process
begin

text \<open>
  The structures of \<^verbatim>\<open>src/fish/blink.h\<close> as bytes in memory, with the loops of \<^verbatim>\<open>src/fish/fish.c\<close> that clear and copy them. The
  theory \<open>Blink\<close> clears and copies whole structures; here this is shown to be what the loops do. The array lies at the
  address \<open>base\<close>, 16 bytes for each structure.
\<close>

section \<open>Definitions\<close>

definition ece391_memset :: "mem \<Rightarrow> u32 \<Rightarrow> byte \<Rightarrow> int \<Rightarrow> mem" where
  "ece391_memset m memory c n = fold (\<lambda>i m. m(memory + of_nat i := c)) [0..<nat n] m"

definition ece391_memcpy :: "mem \<Rightarrow> u32 \<Rightarrow> u32 \<Rightarrow> int \<Rightarrow> int \<times> mem" where
  "ece391_memcpy m dest src n = (0, fold (\<lambda>i m. m(dest + of_nat i := m (src + of_nat i))) [0..<nat n] m)"

definition blink_pointer :: "u32 \<Rightarrow> nat option \<Rightarrow> u32" where
  "blink_pointer base p = (case p of None \<Rightarrow> 0 | Some i \<Rightarrow> base + of_nat (16 * i))"

definition blink_bytes :: "u32 \<Rightarrow> blink \<Rightarrow> byte list" where
  "blink_bytes base b =
     le16_bytes (location b) @ [on_char b, off_char b] @ le16_bytes (on_length b) @ le16_bytes (off_length b) @
     le16_bytes (countdown b) @ le16_bytes (status b) @ le32_bytes (blink_pointer base (next_blink b))"

definition blink_at :: "u32 \<Rightarrow> mem \<Rightarrow> u32 \<Rightarrow> blink \<Rightarrow> bool" where
  "blink_at base m a b \<longleftrightarrow> view_take (view m a) 16 = blink_bytes base b"

text \<open>The array in memory.\<close>

definition array_at :: "u32 \<Rightarrow> mem \<Rightarrow> blink list \<Rightarrow> bool" where
  "array_at base m arr \<longleftrightarrow> (\<forall>i < length arr. blink_at base m (base + of_nat (16 * i)) (arr ! i))"

section \<open>The loops\<close>

lemma length_blink_bytes [simp]: "length (blink_bytes base b) = 16"
  by (simp add: blink_bytes_def)

lemma memset_written: "n < 4294967296 \<Longrightarrow> ece391_memset m p c (int n) = written m p (replicate n c)"
proof (induction n)
  case (Suc n)
  then have "written m p (replicate (Suc n) c) = (written m p (replicate n c))(p + of_nat n := c)"
    using written_snoc [of "replicate n c" m p c] by (simp add: replicate_append_same)
  then show ?case using Suc by (simp add: ece391_memset_def nat_add_distrib)
qed (simp add: ece391_memset_def)

lemma memcpy_written:
  assumes "\<And>i j. i < n \<Longrightarrow> j < n \<Longrightarrow> s + of_nat i \<noteq> d + of_nat j" "n < 4294967296"
  shows "ece391_memcpy m d s (int n) = (0, written m d (view_take (view m s) n))"
  using assms
proof (induction n)
  case (Suc n)
  let ?m = "written m d (view_take (view m s) n)"
  have "\<not> in_range d n (s + of_nat n)"
  proof
    assume "in_range d n (s + of_nat n)"
    then have "s + of_nat n = d + of_nat (unat (s + of_nat n - d))" "unat (s + of_nat n - d) < n" by (simp_all add: in_range_def)
    then show False using Suc.prems(1) [of n "unat (s + of_nat n - d)"] by auto
  qed
  then have "?m (s + of_nat n) = m (s + of_nat n)" by (simp add: written_def view_take_def)
  moreover have "view_take (view m s) (Suc n) = view_take (view m s) n @ [m (s + of_nat n)]" by (simp add: view_take_def view_def)
  moreover have "length (view_take (view m s) n) = n" by simp
  ultimately have "?m(d + of_nat n := ?m (s + of_nat n)) = written m d (view_take (view m s) (Suc n))"
    using written_snoc [of "view_take (view m s) n" m d "m (s + of_nat n)"] Suc.prems(2) by simp
  moreover have "ece391_memcpy m d s (int n) = (0, ?m)" using Suc.prems by (intro Suc.IH) simp_all
  ultimately show ?case by (simp add: ece391_memcpy_def nat_add_distrib view_def)
qed (simp add: ece391_memcpy_def view_take_def)

section \<open>Structures\<close>

lemma no_blink_bytes: "blink_bytes base no_blink = replicate 16 0"
  by (simp add: blink_bytes_def no_blink_def blink_pointer_def le16_bytes_def le32_bytes_def numeral_eq_Suc)

lemma blink_at_written: "blink_at base (written m a (blink_bytes base b)) a b"
  using view_written [of "blink_bytes base b" m a] by (simp add: blink_at_def)

lemma blink_at_other:
  assumes "\<And>j. j < 16 \<Longrightarrow> \<not> in_range p (length bs) (a + of_nat j)"
  shows "blink_at base (written m p bs) a b = blink_at base m a b"
proof -
  have "view_take (view (written m p bs) a) 16 = view_take (view m a) 16"
    using assms by (intro nth_equalityI) (simp_all add: view_take_def view_def written_def del: upt_rec_numeral)
  then show ?thesis by (simp add: blink_at_def)
qed

lemma slots_apart:
  assumes "i < 2000" "k < 2000" "i \<noteq> k" "j < 16"
  shows "\<not> in_range (base + of_nat (16 * k)) 16 (base + of_nat (16 * i) + of_nat j)"
proof
  assume "in_range (base + of_nat (16 * k)) 16 (base + of_nat (16 * i) + of_nat j)"
  then have "unat (of_nat (16 * i) + of_nat j - of_nat (16 * k) :: u32) < 16" by (simp add: in_range_def algebra_simps)
  moreover have "of_nat (16 * i) + of_nat j = (of_nat (16 * i + j) :: u32)" by simp
  ultimately have "unat (of_nat (16 * i + j) - of_nat (16 * k) :: u32) < 16" by (simp only:)
  then show False
    using assms by (cases "i < k") (auto simp: unat_minus_if unat_of_nat simp del: of_nat_add of_nat_mult)
qed

lemma array_at_update:
  assumes "array_at base m arr" "length arr = 2000" "i < 2000"
  shows "array_at base (written m (base + of_nat (16 * i)) (blink_bytes base b)) (arr[i := b])"
  unfolding array_at_def
proof (intro allI impI)
  fix k
  assume "k < length (arr[i := b])"
  then have k: "k < 2000" using assms(2) by simp
  show "blink_at base (written m (base + of_nat (16 * i)) (blink_bytes base b)) (base + of_nat (16 * k)) (arr[i := b] ! k)"
  proof (cases "k = i")
    case True
    then show ?thesis using blink_at_written assms(2,3) by simp
  next
    case False
    then have "blink_at base (written m (base + of_nat (16 * i)) (blink_bytes base b)) (base + of_nat (16 * k)) (arr ! k) =
        blink_at base m (base + of_nat (16 * k)) (arr ! k)"
      using slots_apart [OF k assms(3) False, of _ base] by (intro blink_at_other) (simp del: of_nat_mult)
    then show ?thesis using assms(1,2) k False by (simp add: array_at_def)
  qed
qed

text \<open>The loops on the array in memory do what the operations on the records do.\<close>

theorem mp1_free_bytes:
  assumes "array_at base m (blink_array bl)" "length (blink_array bl) = 2000" "i < 2000"
  shows "array_at base (ece391_memset m (base + of_nat (16 * i)) 0 16) (blink_array (mp1_free i bl))"
  using array_at_update [OF assms, of no_blink] memset_written [of 16 m "base + of_nat (16 * i)" 0]
  by (simp add: mp1_free_def no_blink_bytes del: of_nat_mult)

theorem copy_blink_bytes:
  assumes "array_at base m arr" "length arr = 2000" "i < 2000" "blink_at base m src b"
    and "\<And>j k. j < 16 \<Longrightarrow> k < 16 \<Longrightarrow> src + of_nat j \<noteq> base + of_nat (16 * i) + of_nat k"
  shows "\<exists>m'. ece391_memcpy m (base + of_nat (16 * i)) src 16 = (0, m') \<and> array_at base m' (arr[i := b])"
  using memcpy_written [of 16 src "base + of_nat (16 * i)" m] array_at_update [OF assms(1-3), of b] assms(4,5)
  by (simp add: blink_at_def del: of_nat_mult)

end
