(* ===== verification/FishKernel.thy ===== *)
theory FishKernel
  imports Fish UserErrors
begin

text \<open>
  The blinking characters of \<^verbatim>\<open>src/fish\<close> on the kernel: \<open>sys_vidmap\<close> gives the program the address at which the page tables
  show it the video memory, and a byte that the program stores there is on the screen. So the kernel keeps the
  contract \<open>screen_memory\<close>, and what the list of the program shows can be seen.
\<close>

section \<open>Memory of the program\<close>

definition kmem :: "'a running umem" where
  "kmem = \<lparr>load32 = (\<lambda>a st. load_le32 (list_view (user_load (snd st) a 4)) 0),
     store8 = (\<lambda>a b st. map_option (\<lambda>s. (fst st, s)) (user_store [b] a (snd st)))\<rparr>"

definition pointer_at :: "u32 \<Rightarrow> bool" where
  "pointer_at V \<longleftrightarrow> 0x8000000 \<le> unat V \<and> unat V + 4 \<le> 0x8400000"

definition VIDMAP :: u32 where "VIDMAP = 0x84B8000"

lemma vidmap_walk:
  assumes "stack_ok (Suc k) s" "off < 0x8000"
  shows "page_walk s True wr (VIDMAP + of_nat off) = Some (VIDEO + of_nat off)"
proof -
  have k: "kernel_space s" using assms(1) by (simp add: stack_ok_def mapped_top_def)
  have u: "unat (VIDMAP + of_nat off) = 0x84B8000 + off" using assms(2) by (simp add: VIDMAP_def unat_word_ariths unat_of_nat)
  then have "unat (VIDMAP + of_nat off) div 4194304 = 33" using assms(2) by simp
  then show ?thesis
    using kernel_space_walk [OF k, of "VIDMAP + of_nat off" True wr] boot_space_ranges [of True "VIDMAP + of_nat off"] u assms(2)
    by (simp add: VIDMAP_def VIDEO_def)
qed

lemma pointer_load:
  assumes "stack_ok (Suc k) s" "pointer_at V"
  shows "load32 kmem V (evs, s) = load_le32 (list_view (map (\<lambda>i. ram s (phys k V + of_nat i)) [0..<4])) 0"
proof -
  have "user_load s V 4 = map (\<lambda>i. ram s (phys k V + of_nat i)) [0..<4]"
    using user_walk [OF assms(1), of V] assms(2) by (simp add: user_load_def pointer_at_def del: upt_rec_numeral)
  then show ?thesis by (simp add: kmem_def del: upt_rec_numeral)
qed

text \<open>A pointer in the page of the program does not lie on the screen.\<close>

lemma pointer_off_screen:
  assumes "k < 6" "pointer_at V" "i < 4"
  shows "phys k V + of_nat i \<notin> screen_bytes"
proof -
  have "in_range (phys k V) 4 (phys k V + of_nat i)" using assms(3) by (simp add: in_range_def unat_of_nat)
  then have "in_range (program_frame k) 0x400000 (phys k V + of_nat i)" using user_in_frame [of V 4] assms(2) by (simp add: pointer_at_def)
  then show ?thesis using screen_not_frame [OF _ assms(1)] by blast
qed

section \<open>Mapping the video memory\<close>

lemma user_vidmap:
  assumes "runs k depth B img a (evs, s)" "pointer_at V"
  shows "\<exists>t. ece391_vidmap (ksys env depth B) V (evs, s) = Some (0, evs, t) \<and> runs k depth B img a (evs, t) \<and>
    load32 kmem V (evs, t) = VIDMAP \<and> abs_term t = abs_term s \<and> kfds k img (evs, t) = kfds k img (evs, s) \<and>
    (\<forall>x. \<not> in_range (phys k V) 4 x \<longrightarrow> ram t x = ram s x)"
proof -
  define e where "e = called k depth B [] s"
  define bs where "bs = le32_bytes (MB_4 * 33 + 0xB8000)"
  define u where "u = e\<lparr>ram := written (ram e) (phys k V) bs\<rparr>"
  let ?t = "u\<lparr>iflag := iflag s\<rparr>"
  note e = called_runs [OF assms(1), of "[]", folded e_def] and k6 = runs_slot [OF assms(1)]
  have ok: "stack_ok (Suc k) e" using e(1) by (simp add: runs_def)
  have bs: "bs = [0, 0x80, 0x4B, 0x08]" by (simp add: bs_def le32_bytes_def MB_4_def)
  then have lb: "length bs = 4" by simp
  have "vstore bs V e = Some u"
    unfolding u_def using user_walk [OF ok] phys_not_kernel [OF k6] assms(2)
    by (intro vstore_linear) (simp_all add: bs pointer_at_def)
  moreover have "V \<ge> MB_128" "V \<le> MB_132" using assms(2) by (simp_all add: pointer_at_def MB_128_def MB_132_def word_le_nat_alt)
  ultimately have "sys_vidmap V e = Some (0, u)" by (simp add: sys_vidmap_def bs_def not_less [symmetric])
  then have "sys_call_table (\<lambda>_. None) (env_dev env) (env_shell env) (env_beyond env) evs 8 V 0 0 e = Some (Ret 0, evs, u)"
    by (simp add: sys_call_table_def)
  note c = DO_CALL_ret [OF this [unfolded e_def called_def]]
  then have call: "ece391_vidmap (ksys env depth B) V (evs, s) = Some (0, evs, ?t)" by (simp add: ksys_def)
  have st: "stack_ok (Suc k) ?t" using ok by (simp add: u_def stack_ok_ram stack_ok_iflag)
  have mem: "ram ?t x = ram s x" if "\<not> in_range (phys k V) 4 x" for x
    using that e(3) by (simp add: u_def written_def lb)
  have frame: "\<not> in_range (phys k V) 4 x" if "\<not> in_range (program_frame k) 0x400000 x" for x
    using user_in_frame [of V 4] assms(2) that by (auto simp: pointer_at_def)
  have "map (\<lambda>i. ram ?t (phys k V + of_nat i)) [0..<4] = bs"
    using written_back [of bs "ram e" "phys k V"] by (simp add: u_def lb del: upt_rec_numeral)
  then have "load32 kmem V (evs, ?t) = VIDMAP"
    using pointer_load [OF st assms(2)] by (simp add: bs load_le32_def list_view_def VIDMAP_def del: upt_rec_numeral)
  moreover have same: "screen_x ?t = screen_x e \<and> screen_y ?t = screen_y e \<and> boot ?t = boot e \<and> curr_pcb ?t = curr_pcb e" by (simp add: u_def)
  have "runs k depth B img a (evs, ?t)"
    using e(1) st by (rule runs_keeps) (use same mem frame e(1,3) in \<open>simp_all add: runs_def on_screen_def\<close>)
  moreover have "abs_term ?t = abs_term e"
    using same mem e(3) frame screen_not_frame [OF _ k6] by (intro abs_term_cong) simp_all
  moreover have "kfds k img (evs, ?t) = kfds k img (evs, s)" using same e(4) by (intro kfds_same) simp
  ultimately show ?thesis using call mem e(5) by auto
qed

section \<open>The screen of the program\<close>

text \<open>
  The states that differ from \<open>s0\<close>, in which the video memory has been mapped, on the screen only; and the bytes of the screen.
\<close>

definition screen_only :: "nat \<Rightarrow> u32 \<Rightarrow> 'a running \<Rightarrow> 'a running \<Rightarrow> bool" where
  "screen_only k V s0 st \<longleftrightarrow> stack_ok (Suc k) (snd s0) \<and> pointer_at V \<and> load32 kmem V s0 = VIDMAP \<and> fst st = fst s0 \<and>
     (\<exists>m. snd st = (snd s0)\<lparr>ram := m\<rparr> \<and> (\<forall>x. x \<notin> screen_bytes \<longrightarrow> m x = ram (snd s0) x))"

definition screen_byte :: "'a running \<Rightarrow> nat \<Rightarrow> byte" where
  "screen_byte st i = (if i < 4000 then ram (snd st) (VIDEO + of_nat i) else 0)"

lemma screen_bytes_nat: "i < 4000 \<Longrightarrow> VIDEO + of_nat i \<in> screen_bytes"
  unfolding screen_bytes_def by (intro image_eqI [of _ _ "int i"]) (simp_all add: vaddr_def)

lemma poke_on_kernel:
  assumes "screen_only k V s0 st" "off < 4000"
  shows "\<exists>t. mp1_poke kmem V off c st = Some t \<and> screen_only k V s0 t \<and> screen_byte t = (screen_byte st)(off := c)"
proof -
  obtain m where m: "snd st = (snd s0)\<lparr>ram := m\<rparr>" "\<forall>x. x \<notin> screen_bytes \<longrightarrow> m x = ram (snd s0) x" and
    s0: "stack_ok (Suc k) (snd s0)" "pointer_at V" "load32 kmem V s0 = VIDMAP" "fst st = fst s0"
    using assms(1) by (auto simp: screen_only_def)
  have k6: "k < 6" using s0(1) by (simp add: stack_ok_def)
  have ok: "stack_ok (Suc k) (snd st)" using s0(1) by (simp add: m(1) stack_ok_ram)
  have "map (\<lambda>i. ram (snd st) (phys k V + of_nat i)) [0..<4] = map (\<lambda>i. ram (snd s0) (phys k V + of_nat i)) [0..<4]"
    using m pointer_off_screen [OF k6 s0(2)] by (simp del: upt_rec_numeral)
  then have "load32 kmem V st = VIDMAP"
    using pointer_load [OF ok s0(2), of "fst st"] pointer_load [OF s0(1,2), of "fst s0"] s0(3) by (simp only: prod.collapse)
  then have poke: "mp1_poke kmem V off c st = Some (fst st, (snd st)\<lparr>ram := (ram (snd st))(VIDEO + of_nat off := c)\<rparr>)"
    using vidmap_walk [OF ok, of off True] assms(2) by (simp add: mp1_poke_def kmem_def)
  let ?t = "(fst st, (snd st)\<lparr>ram := (ram (snd st))(VIDEO + of_nat off := c)\<rparr>)"
  have "screen_only k V s0 ?t"
    using s0 m screen_bytes_nat [OF assms(2)] by (auto simp: screen_only_def)
  moreover have "VIDEO + of_nat i = VIDEO + of_nat off \<longleftrightarrow> i = off" if "i < 4000" for i
    using that assms(2) by (simp add: word_of_nat_eq_iff take_bit_nat_eq_self)
  then have "screen_byte ?t = (screen_byte st)(off := c)" using assms(2) by (auto simp: screen_byte_def fun_eq_iff)
  ultimately show ?thesis using poke by blast
qed

interpretation ks: screen_memory "mp1_poke kmem V" "screen_only k V s0" screen_byte for k V s0
  by unfold_locales (rule poke_on_kernel)

section \<open>Properties\<close>

text \<open>C12. Blinking characters on the kernel: a program maps the video memory and, with command 0 of
  \<open>mp1_ioctl\<close>, adds a character with the lengths \<open>on\<close> and \<open>off\<close> at a location
  on the screen other than 0 that no other character of its list has. Both calls return 0, \<open>n\<close> ticks of
  the list end, and then the screen shows the first character at that location when \<open>n\<close> is within the
  first \<open>on\<close> ticks of a period of \<open>on + off\<close>, the second one otherwise. The list changes
  nothing in the machine but bytes of the screen. Both lengths must be from 1 to 0x7FFF, and there must be room in the
  list. The file system must have a well-formed image (theory \<open>Image\<close>; names of 1 to 32 bytes, known
  types, existing inodes and blocks, an unnamed entry behind the last, as the image of the sources has them) in the
  kernel's page.\<close>

theorem blink_on_screen:
  assumes "runs k depth B img a (evs, s)" "pointer_at V" "shows_list bl L" "length L < 2000"
    and "location c \<noteq> 0" "location c < 2000" "location c \<notin> location ` set L" "lengths_ok (blinker.truncate c)"
  shows "\<exists>t bl1 t1 bl2 t2. ece391_vidmap (ksys env depth B) V (evs, s) = Some (0, evs, t) \<and>
    mp1_ioctl (mp1_poke kmem V) (Struct c) 0 bl (evs, t) = Some (0, Struct c, bl1, t1) \<and>
    tasklets (mp1_poke kmem V) n bl1 t1 = Some (bl2, evs, t2) \<and>
    ram t2 (VIDEO + of_nat (2 * unat (location c))) =
      (if n mod (unat (on_length c) + unat (off_length c)) < unat (on_length c) then on_char c else off_char c) \<and>
    (\<exists>m. t2 = t\<lparr>ram := m\<rparr> \<and> (\<forall>x. x \<notin> screen_bytes \<longrightarrow> m x = ram t x))"
proof -
  obtain t where t: "ece391_vidmap (ksys env depth B) V (evs, s) = Some (0, evs, t)" "runs k depth B img a (evs, t)" "load32 kmem V (evs, t) = VIDMAP"
    using user_vidmap [OF assms(1,2)] by blast
  have "\<exists>m. t = t\<lparr>ram := m\<rparr> \<and> (\<forall>x. x \<notin> screen_bytes \<longrightarrow> m x = ram t x)" by (intro exI [of _ "ram t"]) simp
  then have "screen_only k V (evs, t) (evs, t)" using t assms(2) by (simp add: screen_only_def runs_def)
  then obtain bl1 t1 bl2 t2 where b: "mp1_ioctl_add (mp1_poke kmem V) c bl (evs, t) = Some (0, bl1, t1)"
      "tasklets (mp1_poke kmem V) n bl1 t1 = Some (bl2, t2)" "screen_only k V (evs, t) t2"
      "screen_byte t2 (2 * unat (location c)) = blink_char (blinker.truncate c) n"
    using ks.added_blinks [OF assms(3), of k V "(evs, t)" "(evs, t)" c n] assms(4-8) by auto
  have "2 * unat (location c) < 4000" using assms(6) location_on_screen [of c] by simp
  then have "ram (snd t2) (VIDEO + of_nat (2 * unat (location c))) = blink_char (blinker.truncate c) n" using b(4) by (simp add: screen_byte_def)
  moreover have "fst t2 = evs" "\<exists>m. snd t2 = t\<lparr>ram := m\<rparr> \<and> (\<forall>x. x \<notin> screen_bytes \<longrightarrow> m x = ram t x)"
    using b(3) by (auto simp: screen_only_def)
  moreover have "t2 = (evs, snd t2)" using \<open>fst t2 = evs\<close> by (metis prod.collapse)
  moreover have "mp1_ioctl (mp1_poke kmem V) (Struct c) 0 bl (evs, t) = Some (0, Struct c, bl1, t1)"
    using b(1) by (simp add: mp1_ioctl_def)
  ultimately show ?thesis using t(1) b(2) unfolding blink_char_def truncate_fields by metis
qed

theorem blink_on_screen_witness:
  "\<forall>env. \<exists>t bl1 t1 bl2 t2. ece391_vidmap (ksys env 64 0x8100000) 0x8200000 ([], user_kernel dir_image []) = Some (0, [], t) \<and>
    mp1_ioctl (mp1_poke kmem 0x8200000) (Struct fish_struct) 0 no_blinks ([], t) = Some (0, Struct fish_struct, bl1, t1) \<and>
    tasklets (mp1_poke kmem 0x8200000) 20 bl1 t1 = Some (bl2, [], t2) \<and> ram t2 (VIDEO + of_nat 1080) = 0x4D"
  (is "\<forall>env. ?P env")
proof
  fix env
  have r: "runs 0 64 0x8100000 dir_image [] ([], user_kernel dir_image [])"
    by (intro user_kernel_runs dir_image_wf) (simp_all add: dir_image_small)
  have f: "location fish_struct = 540" "on_length fish_struct = 7" "off_length fish_struct = 6" "off_char fish_struct = 0x4D"
    by (simp_all add: fish_struct_def)
  have "pointer_at 0x8200000" "lengths_ok (blinker.truncate fish_struct)" by (simp_all add: pointer_at_def lengths_ok_def f)
  then show "?P env" using blink_on_screen [OF r _ no_blinks_shows, of "0x8200000" fish_struct env 20] f by auto
qed

text \<open>C11. The tasklet implements its specification on the kernel: for a well-formed list it ends; every entry whose counter is
  from 2 to 0x8000 has counted down by one, every other one has changed over, a lit one to the second length and a dark one to the
  first; the list stays well-formed; and the screen is the old one with the second character of the entries that went out and the
  first of those that were lit, in the order of the list.\<close>

theorem tasklet_refines:
  assumes "screen_only k V s0 st" "shows_list bl L"
  shows "\<exists>bl' st'. mp1_rtc_tasklet (mp1_poke kmem V) bl st = Some (bl', st') \<and> screen_only k V s0 st' \<and> shows_list bl' (tick L) \<and>
    screen_byte st' = tick_screen L (screen_byte st)"
  using ks.tasklet_ticks [OF assms(2,1)] by blast

lemma user_kernel_mapped:
  fixes env :: kernel_env
  obtains t where "screen_only 0 0x8200000 ([], t) ([], t :: process_state)"
proof -
  have r: "runs 0 64 0x8100000 dir_image [] ([], user_kernel dir_image [])"
    by (intro user_kernel_runs dir_image_wf) (simp_all add: dir_image_small)
  have p: "pointer_at 0x8200000" by (simp add: pointer_at_def)
  obtain t :: process_state where t: "runs 0 64 0x8100000 dir_image [] ([], t)" "load32 kmem 0x8200000 ([], t) = VIDMAP"
    using user_vidmap [OF r p, of env] by blast
  have "\<exists>m. t = t\<lparr>ram := m\<rparr> \<and> (\<forall>x. x \<notin> screen_bytes \<longrightarrow> m x = ram t x)" by (intro exI [of _ "ram t"]) simp
  then show ?thesis using t p that [of t] by (simp add: screen_only_def runs_def)
qed

definition fish_last :: blinker where
  "fish_last = \<lparr>location = 540, on_char = 0x49, off_char = 0x4D, on_length = 7, off_length = 6, countdown = 1, status = 1\<rparr>"

definition fish_last_list :: blinks where
  "fish_last_list = \<lparr>blink_array = blinker.extend fish_last \<lparr>next_blink = None\<rparr> # replicate 1999 no_blink, mp1_list_head = Some 0\<rparr>"

lemma fish_last_shows: "shows_list fish_last_list [fish_last]"
  unfolding shows_list_def
proof (intro exI [of _ "[0]"] conjI)
  show "blinks_at [0] fish_last_list"
    by (auto simp: blinks_at_def fish_last_list_def fish_last_def no_blink_def blinker.defs nth_Cons')
  show "[fish_last] = map (\<lambda>i. blinker.truncate (blink_array fish_last_list ! i)) [0]"
    by (simp add: fish_last_list_def fish_last_def blinker.defs)
qed

text \<open>A list with one lit entry that is at its end: it goes out, and the screen shows its second character.\<close>

theorem tasklet_refines_witness:
  "\<exists>(t :: process_state) bl bl' st'. shows_list bl [fish_last] \<and>
     mp1_rtc_tasklet (mp1_poke kmem 0x8200000) bl ([], t) = Some (bl', st') \<and>
     shows_list bl' [fish_last\<lparr>status := 0, countdown := 6\<rparr>] \<and> screen_byte st' 1080 = 0x4D"
proof -
  obtain t :: process_state where t: "screen_only 0 0x8200000 ([], t) ([], t)" by (rule user_kernel_mapped)
  have bl: "shows_list fish_last_list [fish_last]" by (rule fish_last_shows)
  have "tick [fish_last] = [fish_last\<lparr>status := 0, countdown := 6\<rparr>]" "\<And>v. tick_screen [fish_last] v 1080 = 0x4D"
    by (simp_all add: tick_def tick_entry_def counts_on_def fish_last_def)
  with tasklet_refines [OF t bl] bl show ?thesis by (metis (full_types))
qed

text \<open>C13. Removing undoes adding: a character that was added can be removed by its location, both calls return
  0, and the list is the one before; a location that no entry has is refused with -1 and nothing changes.\<close>

theorem blink_add_remove:
  assumes "screen_only k V s0 st" "shows_list bl L" "length L < 2000" "location c \<noteq> 0" "location c < 2000"
    and "ucast arg \<notin> location ` set L"
  shows "\<exists>bl1 st1 bl2. mp1_ioctl_add (mp1_poke kmem V) c bl st = Some (0, bl1, st1) \<and>
    mp1_ioctl_remove (ucast (location c)) bl1 = Some (0, bl2) \<and> shows_list bl2 L \<and> mp1_ioctl_remove arg bl = Some (-1, bl)"
proof -
  obtain bl1 st1 where a: "mp1_ioctl_add (mp1_poke kmem V) c bl st = Some (0, bl1, st1)" "shows_list bl1 (new_blink (blinker.truncate c) # L)"
    using ks.mp1_ioctl_add_adds [OF assms(2,1,4,5,3)] by blast
  have u: "ucast (ucast (location c) :: u32) = location c" by (rule bit_word_eqI) (simp add: bit_simps)
  have "remove_blink (location c) (new_blink (blinker.truncate c) # L) = L" by (simp add: remove_blink_def new_blink_def)
  then obtain bl2 where "mp1_ioctl_remove (ucast (location c)) bl1 = Some (0, bl2)" "shows_list bl2 L"
    using mp1_ioctl_remove_removes(1) [OF a(2), of "ucast (location c)"] by (auto simp: u new_blink_def)
  then show ?thesis using a(1) mp1_ioctl_remove_removes(2) [OF assms(2,6)] by blast
qed

theorem blink_add_remove_witness:
  "\<exists>(t :: process_state) bl1 st1 bl2. mp1_ioctl_add (mp1_poke kmem 0x8200000) fish_struct no_blinks ([], t) = Some (0, bl1, st1) \<and>
    mp1_ioctl_remove (ucast (location fish_struct)) bl1 = Some (0, bl2) \<and> shows_list bl2 []"
proof -
  obtain t :: process_state where t: "screen_only 0 0x8200000 ([], t) ([], t)" by (rule user_kernel_mapped)
  from blink_add_remove [OF t no_blinks_shows, of fish_struct 7] show ?thesis by (auto simp: fish_struct_def)
qed

end
