(* ===== verification/Sigtest.thy ===== *)
theory Sigtest
  imports FishKernel
begin

text \<open>
  The program \<^verbatim>\<open>src/syscalls/ece391sigtest.c\<close>, which tests signals: it stores through a NULL pointer, and its handler of
  the fault lets the pointer point to a variable. The kernel has no signals; there the store ends the program.

  The pointer \<^verbatim>\<open>badbuf\<close> is an argument of the main function: its value when the store is made, which is 0 unless a
  handler has run; \<open>charbuf\<close>, \<open>badbuf_addr\<close> and \<open>signum_addr\<close> are the addresses of the variables.
\<close>

section \<open>Definitions\<close>

definition SEGFAULT :: int where "SEGFAULT = 1"
definition ALARM :: int where "ALARM = 3"

definition sigtest_install :: "'s usys \<Rightarrow> byte \<Rightarrow> 's \<Rightarrow> 's option" where
  "sigtest_install sys c s =
     (if c = 0x31 then
        do { s \<leftarrow> ece391_fdputs sys 1 (litn ''Installing signal handlers'') s;
             (_, s) \<leftarrow> ece391_set_handler sys SEGFAULT s;
             (_, s) \<leftarrow> ece391_set_handler sys ALARM s;
             Some s }
      else Some s)"

definition sigtest_greet :: "'s usys \<Rightarrow> 's umem \<Rightarrow> u32 \<Rightarrow> u32 \<Rightarrow> byte list \<Rightarrow> int \<Rightarrow> 's \<Rightarrow> (int \<times> 's) option" where
  "sigtest_greet sys mem badbuf charbuf buf cnt s =
     do { s \<leftarrow> store8 mem badbuf 1 s;
          buf \<leftarrow> assign buf cnt 0;
          s \<leftarrow> ece391_fdputs sys 1 (lit ''Hello, '') s;
          s \<leftarrow> ece391_fdputs sys 1 buf s;
          s \<leftarrow> ece391_fdputs sys 1 (if load32 mem charbuf s AND 0xFF = 1 then litn ''success'' else litn ''failure'') s;
          Some (0, s) }"

definition sigtest_main :: "'s usys \<Rightarrow> 's umem \<Rightarrow> u32 \<Rightarrow> u32 \<Rightarrow> byte list \<Rightarrow> 's \<Rightarrow> (int \<times> 's) option" where
  "sigtest_main sys mem badbuf charbuf buf s =
     do { (r, buf, s) \<leftarrow> ece391_getargs sys buf 1024 s;
          if 0 \<noteq> r then complain sys ''could not read argument'' 3 s
          else do {
            c \<leftarrow> element buf 0;
            s \<leftarrow> sigtest_install sys c s;
            s \<leftarrow> ece391_fdputs sys 1 (lit ''Hi, what's your name? '') s;
            (cnt, buf, s) \<leftarrow> ece391_read sys 0 buf 1023 s;
            if cnt = -1 then complain sys ''Can't read name from keyboard.'' 3 s
            else sigtest_greet sys mem badbuf charbuf buf cnt s } }"

text \<open>The switch over the number of the signal, in both handlers.\<close>

definition put_signum :: "'s usys \<Rightarrow> int \<Rightarrow> 's \<Rightarrow> 's option" where
  "put_signum sys signum s =
     ece391_fdputs sys 1 (if signum = 0 then litn ''0'' else if signum = 1 then litn ''1'' else if signum = 2 then litn ''2''
       else if signum = 3 then litn ''3'' else litn ''invalid'') s"

definition store32 :: "'s umem \<Rightarrow> u32 \<Rightarrow> u32 \<Rightarrow> 's \<Rightarrow> 's option" where
  "store32 mem a v s =
     do { s \<leftarrow> store8 mem a (ucast v) s;
          s \<leftarrow> store8 mem (a + 1) (ucast (drop_bit 8 v)) s;
          s \<leftarrow> store8 mem (a + 2) (ucast (drop_bit 16 v)) s;
          store8 mem (a + 3) (ucast (drop_bit 24 v)) s }"

definition segfault_sighandler :: "'s usys \<Rightarrow> 's umem \<Rightarrow> u32 \<Rightarrow> u32 \<Rightarrow> u32 \<Rightarrow> int \<Rightarrow> 's \<Rightarrow> 's option" where
  "segfault_sighandler sys mem badbuf_addr charbuf signum_addr signum s =
     do { s \<leftarrow> ece391_fdputs sys 1 (lit ''Segfault signal handler called, signum: '') s;
          s \<leftarrow> put_signum sys signum s;
          s \<leftarrow> ece391_fdputs sys 1 (litn ''Press enter to continue...'') s;
          (_, _, s) \<leftarrow> ece391_read sys 0 [0] 1 s;
          s \<leftarrow> store32 mem badbuf_addr charbuf s;
          let eax = signum_addr + 4 * 7;
          s \<leftarrow> store32 mem eax charbuf s;
          ece391_fdputs sys 1 (litn ''Signal handler returning'') s }"

definition alarm_sighandler :: "'s usys \<Rightarrow> int \<Rightarrow> 's \<Rightarrow> 's option" where
  "alarm_sighandler sys signum s =
     do { s \<leftarrow> ece391_fdputs sys 1 (lit ''Alarm signal handler called, signum: '') s;
          put_signum sys signum s }"

section \<open>What every call keeps\<close>

text \<open>A contract for programs of which nothing is known but that their calls keep a property of the state.\<close>

locale keeping_calls =
  fixes sys :: "'s usys" and ok :: "'s \<Rightarrow> bool"
  assumes getargs_keeps: "ok s \<Longrightarrow> ece391_getargs sys buf n s = Some (r, buf', t) \<Longrightarrow> ok t"
    and read_keeps: "ok s \<Longrightarrow> ece391_read sys fd buf n s = Some (r, buf', t) \<Longrightarrow> ok t"
    and write_keeps: "ok s \<Longrightarrow> ece391_write sys fd buf n s = Some (r, t) \<Longrightarrow> ok t"
    and handler_keeps: "ok s \<Longrightarrow> ece391_set_handler sys n s = Some (r, t) \<Longrightarrow> ok t"
begin

lemma fdputs_keeps: "ok s \<Longrightarrow> ece391_fdputs sys fd bs s = Some t \<Longrightarrow> ok t"
  using write_keeps by (auto simp: ece391_fdputs_def split: bind_splits)

lemma complain_result: "complain sys msg r s = Some (q, t) \<Longrightarrow> q = r"
  by (auto simp: complain_def split: bind_splits)

lemma install_keeps: "ok s \<Longrightarrow> sigtest_install sys c s = Some t \<Longrightarrow> ok t"
  unfolding sigtest_install_def
  by (auto split: bind_splits if_splits dest!: handler_keeps [rotated] fdputs_keeps [rotated])

text \<open>When no good state allows the store, the program does not get beyond it.\<close>

lemma sigtest_stops:
  assumes "\<And>s. ok s \<Longrightarrow> store8 mem p 1 s = None" "ok s" "sigtest_main sys mem p q buf s = Some (r, t)"
  shows "r = 3"
proof -
  define hi m1 m2 where "hi = lit ''Hi, what's your name? ''" and "m1 = ''could not read argument''" and "m2 = ''Can't read name from keyboard.''"
  have greet: "ok u \<Longrightarrow> sigtest_greet sys mem p q b cnt u = None" for b cnt u using assms(1) by (simp add: sigtest_greet_def)
  show ?thesis
    using assms(3) unfolding sigtest_main_def hi_def [symmetric] m1_def [symmetric] m2_def [symmetric]
    by (auto split: bind_splits if_splits simp: greet
        dest!: getargs_keeps [OF assms(2)] install_keeps [rotated] fdputs_keeps [rotated] read_keeps [rotated]) (rule complain_result, assumption)+
qed

end

section \<open>On the kernel\<close>

lemma user_store_keeps: "user_store bs a s = Some t \<Longrightarrow> stack_ok k s \<Longrightarrow> stack_ok k t"
  by (induction bs arbitrary: a s) (auto simp: stack_ok_ram split: option.splits)

lemma DO_CALL_keeps:
  assumes "stack_ok k (snd st)" "unat depth \<le> 8188" "DO_CALL env depth nr ebx ecx edx st = Some (r, t)"
  shows "stack_ok k (snd t)"
proof -
  have c: "syscall_wrapper (\<lambda>_. None) (env_dev env) (env_shell env) (env_beyond env) depth (fst st) nr ebx ecx edx (snd st) = Some (Ret r, t)"
    using assms(3) by (auto simp: DO_CALL_def split: option.splits outcome.splits prod.splits)
  have "nr \<noteq> 9"
  proof
    assume "nr = 9"
    then show False using c by (simp add: syscall_wrapper_def sys_call_table_def syscall_exit_def Let_def)
  qed
  from syscall_step [OF assms(1,2) this, of "\<lambda>_. None" "env_dev env" "env_shell env" "env_beyond env" "fst st" ebx ecx edx "Ret r" "fst t" "snd t"] c
  show ?thesis by (simp add: outcome_ok_def)
qed

lemma with_bytes_keeps:
  assumes "stack_ok k (snd st)" "unat depth \<le> 8188" "with_bytes bs B (DO_CALL env depth nr ebx ecx edx) st = Some (r, t)"
  shows "stack_ok k (snd t)"
  using assms DO_CALL_keeps [of k _ depth env nr ebx ecx edx r t] user_store_keeps by (fastforce simp: with_bytes_def split: option.splits)

interpretation kk: keeping_calls "ksys env depth B" "\<lambda>st. stack_ok k (snd st) \<and> unat depth \<le> 8188" for env depth B k
  by unfold_locales (auto simp: ksys_def with_buffer_def split: if_splits dest: with_bytes_keeps [rotated -1] DO_CALL_keeps [rotated -1])

text \<open>The first page is not mapped, so that a program cannot store through a NULL pointer.\<close>

lemma null_store_faults: "stack_ok (Suc k) (snd st) \<Longrightarrow> store8 kmem 0 b st = None"
proof -
  assume "stack_ok (Suc k) (snd st)"
  then have "kernel_space (snd st)" by (simp add: stack_ok_def mapped_top_def)
  then have "page_walk (snd st) True True 0 = None" using kernel_space_walk [of "snd st" 0 True True] boot_space_ranges [of True 0] by simp
  then show ?thesis by (simp add: kmem_def)
qed

text \<open>\<open>sigtest\<close> on the kernel: whatever its arguments and its input are, it does not return except with its error code 3;
  the store through NULL, which is the point of the test, is never passed.\<close>

theorem sigtest_never_passes:
  assumes "runs k depth B img a st" "sigtest_main (ksys env depth B) kmem 0 ch buf st = Some (r, t)"
  shows "r = 3"
  using kk.sigtest_stops [of "Suc k" depth kmem 0 st env B ch buf r t] null_store_faults assms by (auto simp: runs_def)

end
