(* ===== verification/Emulate.thy ===== *)
theory Emulate
  imports UserLib
begin

text \<open>
  The system calls under Linux, \<^verbatim>\<open>src/syscalls/ece391emulate.c\<close> (\<^verbatim>\<open>src/fish/ece391emulate.c\<close> is the same file), with which
  the programs can be tried without the kernel. What the file uses of Linux and of its C library is the record \<open>linux\<close>,
  on states of any type; the state \<open>emu\<close> adds the variables of the file. Arrays are lists as in the theory \<open>UserLib\<close>:
  an access outside of an array is \<open>None\<close>.
\<close>

section \<open>Definitions\<close>

text \<open>
  Linux: a system call gives the value that it leaves in EAX; \<open>lx_execv\<close> is the status with which the program ends, or
  \<open>None\<close> when it cannot be started; \<open>lx_readdir\<close> gives the array with the name of the next entry.
\<close>

record 's linux =
  lx_read :: "int \<Rightarrow> byte list \<Rightarrow> int \<Rightarrow> 's \<Rightarrow> u32 \<times> byte list \<times> 's"
  lx_write :: "int \<Rightarrow> byte list \<Rightarrow> int \<Rightarrow> 's \<Rightarrow> u32 \<times> 's"
  lx_close :: "int \<Rightarrow> 's \<Rightarrow> u32 \<times> 's"
  lx_open :: "byte list \<Rightarrow> 's \<Rightarrow> u32 \<times> 's"
  lx_fork :: "'s \<Rightarrow> bool \<times> 's"
  lx_execv :: "byte list \<Rightarrow> byte list list \<Rightarrow> 's \<Rightarrow> (u32 \<times> 's) option"
  lx_opendir :: "byte list \<Rightarrow> 's \<Rightarrow> nat option \<times> 's"
  lx_readdir :: "nat \<Rightarrow> 's \<Rightarrow> byte list option \<times> 's"
  lx_closedir :: "nat \<Rightarrow> 's \<Rightarrow> 's"
  lx_open_device :: "byte list \<Rightarrow> 's \<Rightarrow> int \<times> 's"
  lx_mmap :: "int \<Rightarrow> 's \<Rightarrow> u32 option \<times> 's"

record 's emu =
  dir_fd :: int
  dir :: "nat option"
  mem_fd :: int
  start_argv :: "byte list list"
  linux_state :: 's

text \<open>The end of the macro \<open>DO_CALL\<close>: the error codes of Linux become -1.\<close>

definition linux_result :: "u32 \<Rightarrow> int" where
  "linux_result eax = (if eax \<le> 0xFFFFC000 then s32 eax else -1)"

subsection \<open>ece391_execute\<close>

text \<open>Copying a string into an array, from index \<open>i\<close> on.\<close>

primrec strcpy_into :: "byte list \<Rightarrow> int \<Rightarrow> byte list \<Rightarrow> byte list option" where
  "strcpy_into buf i [] = None"
| "strcpy_into buf i (b # src) =
     do { buf \<leftarrow> assign buf i b;
          if 0 \<noteq> b then strcpy_into buf (i + 1) src else Some buf }"

partial_function (option) scan_word :: "byte list \<Rightarrow> int \<Rightarrow> int option" where
  "scan_word buf i =
     do { c \<leftarrow> element buf i;
          if 0 \<noteq> c \<and> 0x20 \<noteq> c \<and> 0x0A \<noteq> c then scan_word buf (i + 1) else Some i }"

partial_function (option) scan_blanks :: "byte list \<Rightarrow> int \<Rightarrow> int option" where
  "scan_blanks buf i = do { c \<leftarrow> element buf i; if 0x20 = c then scan_blanks buf (i + 1) else Some i }"

text \<open>The array \<^verbatim>\<open>args\<close> has 1024 elements: the indices of the strings in \<open>buf\<close>.\<close>

partial_function (option) scan_args :: "byte list \<Rightarrow> int \<Rightarrow> int list \<Rightarrow> (byte list \<times> int list) option" where
  "scan_args buf i args =
     do { i \<leftarrow> scan_blanks buf i;
          c \<leftarrow> element buf i;
          if 0 = c \<or> 0x0A = c then do { buf \<leftarrow> assign buf i 0; Some (buf, args) }
          else if length args \<ge> 1024 then None
          else do { j \<leftarrow> scan_word buf i;
                    d \<leftarrow> element buf j;
                    if 0 \<noteq> d then do { buf \<leftarrow> assign buf j 0; scan_args buf (j + 1) (args @ [i]) }
                    else scan_args buf j (args @ [i]) } }"

definition scan_command :: "byte list \<Rightarrow> byte list \<Rightarrow> (byte list \<times> int list) option" where
  "scan_command buf command =
     do { buf \<leftarrow> assign buf 0 0x2E;
          buf \<leftarrow> assign buf 1 0x2F;
          buf \<leftarrow> strcpy_into buf 2 command;
          i \<leftarrow> scan_word buf 2;
          c \<leftarrow> element buf i;
          (buf, args) \<leftarrow> (if 0 \<noteq> c then do { buf \<leftarrow> assign buf i 0; scan_args buf (i + 1) [0] } else Some (buf, [0]));
          if length args \<ge> 1024 then None else Some (buf, args) }"

text \<open>The status of a process that has ended: its exit code, or the signal that ended it.\<close>

definition exit_value :: "u32 \<Rightarrow> int" where
  "exit_value st =
     (if st AND 0x7F = 0 then uint (drop_bit 8 st AND 0xFF)
      else if 9 = st AND 0x7F then -1
      else 256)"

definition emu_execute :: "'s linux \<Rightarrow> byte list \<Rightarrow> byte list \<Rightarrow> 's emu \<Rightarrow> (int \<times> 's emu) option" where
  "emu_execute lx buf command e =
     do { n \<leftarrow> ece391_strlen command;
          if 1023 < n then Some (-1, e)
          else do {
            (buf, args) \<leftarrow> scan_command buf command;
            let (forked, s) = lx_fork lx (linux_state e);
            if \<not> forked then None
            else let (st, s) = (case lx_execv lx (cstr buf) (map (\<lambda>i. cstr (drop (nat i) buf)) args) s of
                       None \<Rightarrow> (9, s) | Some r \<Rightarrow> r)
                 in Some (exit_value st, e\<lparr>linux_state := s\<rparr>) } }"

subsection \<open>The other calls\<close>

definition emu_open :: "'s linux \<Rightarrow> byte list \<Rightarrow> 's emu \<Rightarrow> (int \<times> 's emu) option" where
  "emu_open lx filename e =
     do { c \<leftarrow> ece391_strcmp filename (lit ''.'');
          Some (if 0 = c then
              let (d, s) = lx_opendir lx (ascii ''.'') (linux_state e);
                  (fd, s) = lx_open_device lx (ascii ''/dev/null'') s
              in (fd, e\<lparr>dir := d, dir_fd := fd, linux_state := s\<rparr>)
            else let (rval, s) = lx_open lx (cstr filename) (linux_state e)
              in (linux_result rval, e\<lparr>linux_state := s\<rparr>)) }"

text \<open>The arguments from \<^verbatim>\<open>argv[idx]\<close> on, stored at index \<open>p\<close> of the buffer.\<close>

fun emu_getargs_loop :: "byte list list \<Rightarrow> byte list \<Rightarrow> int \<Rightarrow> int \<Rightarrow> (int \<times> byte list) option" where
  "emu_getargs_loop [] buf p nbytes =
     (if nbytes < 1 then Some (-1, buf) else do { buf \<leftarrow> assign buf p 0; Some (0, buf) })"
| "emu_getargs_loop (a # as) buf p nbytes =
     do { len \<leftarrow> ece391_strlen a;
          if int len > nbytes then Some (-1, buf)
          else do {
            buf \<leftarrow> strcpy_into buf p a;
            let p = p + int len;
            let nbytes = nbytes - int len;
            if as = [] then emu_getargs_loop [] buf p nbytes
            else if nbytes < 1 then Some (-1, buf)
            else do { buf \<leftarrow> assign buf p 0x20; emu_getargs_loop as buf (p + 1) (nbytes - 1) } } }"

definition emu_getargs :: "byte list \<Rightarrow> int \<Rightarrow> 's emu \<Rightarrow> (int \<times> byte list \<times> 's emu) option" where
  "emu_getargs buf nbytes e =
     map_option (\<lambda>(r, buf). (r, buf, e)) (emu_getargs_loop (drop 1 (start_argv e)) buf 0 nbytes)"

text \<open>The second component is the address that is stored for the caller, if any.\<close>

definition emu_vidmap :: "'s linux \<Rightarrow> 's emu \<Rightarrow> int \<times> u32 option \<times> 's emu" where
  "emu_vidmap lx e =
     (let e = (if mem_fd e = -1 then let (fd, s) = lx_open_device lx (ascii ''/dev/mem'') (linux_state e)
            in e\<lparr>mem_fd := fd, linux_state := s\<rparr> else e);
          (image, s) = lx_mmap lx (mem_fd e) (linux_state e);
          e = e\<lparr>linux_state := s\<rparr>
      in case image of None \<Rightarrow> (-1, None, e) | Some a \<Rightarrow> (0, Some (a + 0xB8000), e))"

function name_pad :: "byte list \<Rightarrow> int \<Rightarrow> int \<Rightarrow> (int \<times> byte list) option" where
  "name_pad buf cnt nbytes =
     (if nbytes > cnt \<and> 32 > cnt then do { buf \<leftarrow> assign buf cnt 0; name_pad buf (cnt + 1) nbytes }
      else Some (cnt, buf))"
  by auto
termination by (relation "measure (\<lambda>(buf, cnt, n). nat (32 - cnt))") auto

declare name_pad.simps [simp del]

primrec name_copy :: "byte list \<Rightarrow> byte list \<Rightarrow> int \<Rightarrow> int \<Rightarrow> (int \<times> byte list) option" where
  "name_copy [] buf cnt nbytes = None"
| "name_copy (c # from) buf cnt nbytes =
     (if 0 \<noteq> c then
        do { buf \<leftarrow> assign buf cnt c;
             let cnt = cnt + 1;
             if cnt = nbytes then Some (nbytes, buf)
             else if 32 = cnt then Some (32, buf)
             else name_copy from buf cnt nbytes }
      else name_pad buf cnt nbytes)"

definition emu_read :: "'s linux \<Rightarrow> int \<Rightarrow> byte list \<Rightarrow> int \<Rightarrow> 's emu \<Rightarrow> (int \<times> byte list \<times> 's emu) option" where
  "emu_read lx fd buf nbytes e =
     (case (if dir_fd e \<noteq> fd then None else dir e) of
        None \<Rightarrow> let (r, buf, s) = lx_read lx fd buf nbytes (linux_state e)
          in Some (linux_result r, buf, e\<lparr>linux_state := s\<rparr>)
      | Some d \<Rightarrow>
          let (de, s) = lx_readdir lx d (linux_state e); e = e\<lparr>linux_state := s\<rparr>
          in case de of
               None \<Rightarrow> Some (0, buf, e)
             | Some from \<Rightarrow> map_option (\<lambda>(r, buf). (r, buf, e)) (name_copy from buf 0 nbytes))"

definition emu_write :: "'s linux \<Rightarrow> int \<Rightarrow> byte list \<Rightarrow> int \<Rightarrow> 's emu \<Rightarrow> (int \<times> 's emu) option" where
  "emu_write lx fd buf nbytes e =
     (if dir e = None \<or> dir_fd e \<noteq> fd then
        let (r, s) = lx_write lx fd buf nbytes (linux_state e) in Some (linux_result r, e\<lparr>linux_state := s\<rparr>)
      else Some (-1, e))"

definition emu_close :: "'s linux \<Rightarrow> int \<Rightarrow> 's emu \<Rightarrow> (int \<times> 's emu) option" where
  "emu_close lx fd e =
     (case (if dir_fd e \<noteq> fd then None else dir e) of
        None \<Rightarrow> let (r, s) = lx_close lx fd (linux_state e) in Some (linux_result r, e\<lparr>linux_state := s\<rparr>)
      | Some d \<Rightarrow>
          let s = lx_closedir lx d (linux_state e);
              (_, s) = lx_close lx (dir_fd e) s
          in Some (0, e\<lparr>dir := None, dir_fd := -1, linux_state := s\<rparr>))"

section \<open>Specification\<close>

text \<open>The words of a text: a newline separates words as a space does, and ends the text where a word would begin.\<close>

definition in_word :: "byte \<Rightarrow> bool" where
  "in_word c \<longleftrightarrow> c \<noteq> 0x20 \<and> c \<noteq> 0x0A"

function text_words :: "byte list \<Rightarrow> byte list list" where
  "text_words w =
     (case dropWhile (\<lambda>c. c = 0x20) w of
        [] \<Rightarrow> []
      | c # cs \<Rightarrow>
          if c = 0x0A then []
          else takeWhile in_word (c # cs) # text_words (drop 1 (dropWhile in_word (c # cs))))"
  by auto
termination
proof (relation "measure length")
  fix w c cs
  assume a: "dropWhile (\<lambda>c. c = 0x20) w = c # cs" "c \<noteq> (0x0A :: byte)"
  have "length (c # cs) \<le> length w" unfolding a(1) [symmetric] by (rule length_dropWhile_le)
  moreover have "in_word c" using a hd_dropWhile [of "\<lambda>c. c = 0x20" w] by (auto simp: in_word_def)
  then have "length (dropWhile in_word (c # cs)) \<le> length cs" by (simp add: length_dropWhile_le)
  ultimately show "(drop 1 (dropWhile in_word (c # cs)), w) \<in> measure length" by simp
qed simp

declare text_words.simps [simp del]

lemma text_words_cases:
  "dropWhile (\<lambda>c. c = 0x20) w = [] \<Longrightarrow> text_words w = []"
  "dropWhile (\<lambda>c. c = 0x20) w = 0x0A # cs \<Longrightarrow> text_words w = []"
  "dropWhile (\<lambda>c. c = 0x20) w = c # cs \<Longrightarrow> c \<noteq> 0x0A \<Longrightarrow>
     text_words w = takeWhile in_word (c # cs) # text_words (drop 1 (dropWhile in_word (c # cs)))"
  by (subst text_words.simps, simp del: dropWhile_eq_Nil_conv)+

definition command_words :: "byte list \<Rightarrow> byte list list" where
  "command_words w =
     ([0x2E, 0x2F] @ takeWhile in_word w) # text_words (drop 1 (dropWhile in_word w))"

fun join_words :: "byte list list \<Rightarrow> byte list" where
  "join_words [] = []"
| "join_words [w] = w"
| "join_words (w # ws) = w @ 0x20 # join_words ws"

section \<open>Parsing a command\<close>

lemma element_at: "element (xs @ c # ys) (int (length xs)) = Some c"
  by (simp add: element_def)

lemma assign_at: "assign (xs @ c # ys) (int (length xs)) b = Some (xs @ b # ys)"
  by (simp add: assign_def)

lemma strcpy_into_string:
  "0 \<notin> set w \<Longrightarrow> length old = Suc (length w) \<Longrightarrow> strcpy_into (xs @ old @ ys) (int (length xs)) (w @ 0 # r) = Some (xs @ (w @ [0]) @ ys)"
proof (induction w arbitrary: xs old)
  case Nil
  then show ?case by (cases old) (simp_all add: assign_at)
next
  case (Cons b w)
  obtain c old' where o: "old = c # old'" "length old' = Suc (length w)" using Cons.prems(2) by (cases old) auto
  have "strcpy_into ((xs @ [b]) @ old' @ ys) (int (length (xs @ [b]))) (w @ 0 # r) = Some ((xs @ [b]) @ (w @ [0]) @ ys)"
    using Cons.prems o(2) by (intro Cons.IH) auto
  then show ?case using Cons.prems(1) o(1) by (auto simp: assign_at ac_simps)
qed

lemma scan_word_at:
  "list_all in_word w \<Longrightarrow> 0 \<notin> set w \<Longrightarrow> \<not> in_word c \<or> c = 0 \<Longrightarrow> scan_word (xs @ w @ c # ys) (int (length xs)) = Some (int (length xs + length w))"
proof (induction w arbitrary: xs)
  case Nil
  then show ?case by (subst scan_word.simps) (auto simp: element_at in_word_def)
next
  case (Cons b w)
  have "scan_word ((xs @ [b]) @ w @ c # ys) (int (length (xs @ [b]))) = Some (int (length (xs @ [b]) + length w))"
    using Cons.prems by (intro Cons.IH) auto
  then show ?case using Cons.prems by (subst scan_word.simps) (auto simp: element_at in_word_def ac_simps)
qed

lemma scan_blanks_at:
  "c \<noteq> 0x20 \<Longrightarrow> scan_blanks (xs @ replicate n 0x20 @ c # ys) (int (length xs)) = Some (int (length xs + n))"
proof (induction n arbitrary: xs)
  case 0
  then show ?case by (subst scan_blanks.simps) (simp add: element_at)
next
  case (Suc n)
  have "scan_blanks ((xs @ [0x20]) @ replicate n 0x20 @ c # ys) (int (length (xs @ [0x20]))) = Some (int (length (xs @ [0x20]) + n))"
    by (intro Suc.IH Suc.prems)
  then show ?case by (subst scan_blanks.simps) (simp add: element_at ac_simps)
qed

lemma blanks_split: "\<exists>n. w = replicate n c @ dropWhile (\<lambda>b. b = c) w"
proof -
  have "takeWhile (\<lambda>b. b = c) w = replicate (length (takeWhile (\<lambda>b. b = c) w)) c"
    by (rule replicate_length_same [symmetric]) (auto dest: set_takeWhileD)
  then show ?thesis by (metis takeWhile_dropWhile_id)
qed

text \<open>
  The loop over the arguments: what lies before the current position stays, and the strings at the new indices are the
  words of the text.
\<close>

definition strings_at :: "byte list \<Rightarrow> int list \<Rightarrow> byte list list" where
  "strings_at buf is = map (\<lambda>i. cstr (drop (nat i) buf)) is"

lemma at_words:
  "element (xs @ us @ c # ys) (int (length xs + length us)) = Some c"
  "assign (xs @ us @ c # ys) (int (length xs + length us)) b = Some (xs @ us @ b # ys)"
  using element_at [of "xs @ us" c ys] assign_at [of "xs @ us" c ys b] by simp_all

lemma scan_args_stop:
  assumes "c = 0 \<or> c = 0x0A"
  shows "scan_args (xs @ replicate n 0x20 @ c # ys) (int (length xs)) args = Some (xs @ replicate n 0x20 @ 0 # ys, args)"
proof -
  have "c \<noteq> 0x20" using assms by auto
  then show ?thesis
    using assms scan_blanks_at [of c xs n ys] at_words(1) [of xs "replicate n 0x20" c ys] at_words(2) [of xs "replicate n 0x20" c ys 0]
    by (subst scan_args.simps) (auto simp del: of_nat_add)
qed

lemma scan_args_step:
  assumes "t \<noteq> []" "list_all in_word t" "0 \<notin> set t" "c = 0 \<or> \<not> in_word c" "length args < 1024"
  shows "scan_args (xs @ replicate n 0x20 @ t @ c # ys) (int (length xs)) args =
    (if c = 0 then scan_args (xs @ replicate n 0x20 @ t @ c # ys) (int (length xs + n + length t)) (args @ [int (length xs + n)])
     else scan_args (xs @ replicate n 0x20 @ t @ 0 # ys) (int (length xs + n + length t + 1)) (args @ [int (length xs + n)]))"
proof -
  obtain b t' where t: "t = b # t'" "b \<noteq> 0" "b \<noteq> 0x20" "b \<noteq> 0x0A" using assms(1-3) by (cases t) (auto simp: in_word_def)
  let ?b = "xs @ replicate n 0x20 @ t @ c # ys"
  define i j where "i = int (length xs + n)" and "j = int (length xs + n + length t)"
  have "scan_blanks ?b (int (length xs)) = Some i" using scan_blanks_at [OF t(3), of xs n "t' @ c # ys"] by (simp add: t(1) i_def)
  moreover have "element ?b i = Some b" using at_words(1) [of xs "replicate n 0x20" b "t' @ c # ys"] by (simp add: t(1) i_def)
  moreover have "scan_word ?b i = Some j"
    using scan_word_at [OF assms(2,3), of c "xs @ replicate n 0x20" ys] assms(4) by (auto simp: i_def j_def)
  moreover have "element ?b j = Some c" "assign ?b j 0 = Some (xs @ replicate n 0x20 @ t @ 0 # ys)"
    using at_words(1) [of xs "replicate n 0x20 @ t" c ys] at_words(2) [of xs "replicate n 0x20 @ t" c ys 0] by (simp_all add: j_def add.assoc)
  ultimately have "scan_args ?b (int (length xs)) args =
      (if c = 0 then scan_args ?b j (args @ [i]) else scan_args (xs @ replicate n 0x20 @ t @ 0 # ys) (j + 1) (args @ [i]))"
    using t(2,4) assms(5) by (subst scan_args.simps) (auto simp del: of_nat_add)
  then show ?thesis by (simp only: i_def j_def of_nat_add of_nat_1)
qed

text \<open>The string at the index of a word, whatever happens behind it.\<close>

lemma string_at_word: "0 \<notin> set t \<Longrightarrow> cstr (drop (nat (int (length xs))) (xs @ t @ 0 # ys)) = t"
  by simp

text \<open>The first word of a command, when the rest of it is scanned as it should be.\<close>

lemma scan_args_next:
  assumes w: "w = replicate n 0x20 @ t @ d" and t: "t \<noteq> []" "list_all in_word t" "0 \<notin> set t" "0 \<notin> set d"
    and d: "d = [] \<or> \<not> in_word (hd d)" and len: "length args < 1024"
    and IH: "\<And>us i. \<exists>q is. length q = length (drop 1 d) \<and> scan_args (us @ drop 1 d @ 0 # ys) (int (length us)) (args @ [i]) =
          Some (us @ q @ 0 # ys, (args @ [i]) @ is) \<and> strings_at (us @ q @ 0 # ys) is = text_words (drop 1 d)"
  shows "\<exists>q is. length q = length w \<and> scan_args (xs @ w @ 0 # ys) (int (length xs)) args = Some (xs @ q @ 0 # ys, args @ is) \<and>
       strings_at (xs @ q @ 0 # ys) is = t # text_words (drop 1 d)"
proof (cases d)
  let ?i = "int (length xs + n)"
  case Nil
  let ?us = "xs @ replicate n 0x20 @ t"
  have "scan_args (xs @ w @ 0 # ys) (int (length xs)) args = scan_args (?us @ [] @ 0 # ys) (int (length ?us)) (args @ [?i])"
    using scan_args_step [OF t(1-3) _ len, of 0 xs n ys] Nil by (simp add: w ac_simps)
  moreover have "text_words [] = []" by (simp add: text_words_cases(1))
  ultimately show ?thesis
    using scan_args_stop [of 0 ?us 0 ys "args @ [?i]"] Nil string_at_word [OF t(3), of "xs @ replicate n 0x20" ys]
    by (intro exI [of _ w] exI [of _ "[?i]"]) (simp add: strings_at_def w)
next
  let ?i = "int (length xs + n)"
  case (Cons b d')
  let ?us = "xs @ replicate n 0x20 @ t @ [0]"
  have b: "\<not> in_word b" "b \<noteq> 0" using d Cons t(4) by auto
  obtain q "is" where q: "length q = length d'" "scan_args (?us @ d' @ 0 # ys) (int (length ?us)) (args @ [?i]) =
      Some (?us @ q @ 0 # ys, (args @ [?i]) @ is)" "strings_at (?us @ q @ 0 # ys) is = text_words d'"
    using IH [of ?us ?i] Cons by auto
  have "scan_args (xs @ w @ 0 # ys) (int (length xs)) args = scan_args (?us @ d' @ 0 # ys) (int (length ?us)) (args @ [?i])"
    using scan_args_step [OF t(1-3) _ len, of b xs n "d' @ 0 # ys"] Cons b by (simp add: w ac_simps)
  then show ?thesis
    using q Cons string_at_word [OF t(3), of "xs @ replicate n 0x20" "q @ 0 # ys"]
    by (intro exI [of _ "replicate n 0x20 @ t @ 0 # q"] exI [of _ "?i # is"]) (simp add: strings_at_def w)
qed

lemma scan_args_words:
  "0 \<notin> set w \<Longrightarrow> length args + length (text_words w) \<le> 1024 \<Longrightarrow>
     \<exists>q is. length q = length w \<and> scan_args (xs @ w @ 0 # ys) (int (length xs)) args = Some (xs @ q @ 0 # ys, args @ is) \<and>
       strings_at (xs @ q @ 0 # ys) is = text_words w"
proof (induction w arbitrary: xs args rule: text_words.induct)
  case (1 w)
  obtain n where n: "w = replicate n 0x20 @ dropWhile (\<lambda>c. c = 0x20) w" by (rule exE [OF blanks_split [of w "0x20"]])
  show ?case
  proof (cases "dropWhile (\<lambda>c. c = 0x20) w")
    case Nil
    have w: "w = replicate n 0x20" using n unfolding Nil by (simp only: append_Nil2)
    show ?thesis using scan_args_stop [of 0 xs n ys args] Nil w
      by (intro exI [of _ w] exI [of _ "[]"]) (simp add: strings_at_def text_words_cases(1))
  next
    case (Cons c cs)
    have c: "c \<noteq> 0x20" "0 \<notin> set (c # cs)"
      using Cons 1(2) hd_dropWhile [of "\<lambda>c. c = 0x20" w] set_dropWhileD [of _ "\<lambda>c. c = 0x20" w] by auto
    have w: "w = replicate n 0x20 @ c # cs" using n unfolding Cons .
    show ?thesis
    proof (cases "c = 0x0A")
      case True
      then show ?thesis using scan_args_stop [of c xs n "cs @ 0 # ys" args] Cons
        by (intro exI [of _ "replicate n 0x20 @ 0 # cs"] exI [of _ "[]"]) (simp add: strings_at_def text_words_cases(2) w)
    next
      case False
      define t d where "t = takeWhile in_word (c # cs)" and "d = dropWhile in_word (c # cs)"
      have td: "c # cs = t @ d" by (simp add: t_def d_def)
      have tw: "text_words w = t # text_words (drop 1 d)" unfolding t_def d_def by (rule text_words_cases(3) [OF Cons False])
      have t: "t \<noteq> []" "list_all in_word t" "0 \<notin> set t" "0 \<notin> set d"
        using c False by (auto simp: t_def d_def list_all_iff in_word_def dest: set_takeWhileD set_dropWhileD)
      have len: "length args < 1024" "length (args @ [i]) + length (text_words (drop 1 d)) \<le> 1024" for i using 1(3) tw by simp_all
      have IH: "\<exists>q is. length q = length (drop 1 d) \<and> scan_args (us @ drop 1 d @ 0 # ys) (int (length us)) (args @ [i]) =
          Some (us @ q @ 0 # ys, (args @ [i]) @ is) \<and> strings_at (us @ q @ 0 # ys) is = text_words (drop 1 d)" for us i
      proof (rule 1(1) [OF Cons False, folded d_def])
        show "0 \<notin> set (drop 1 d)" using t(4) in_set_dropD by metis
        show "length (args @ [i]) + length (text_words (drop 1 d)) \<le> 1024" by (rule len(2))
      qed
      have "d = [] \<or> \<not> in_word (hd d)" using hd_dropWhile [of in_word "c # cs"] unfolding d_def by blast
      then show ?thesis unfolding tw using td by (intro scan_args_next [OF _ t _ len(1) IH]) (simp_all add: w)
    qed
  qed
qed

lemma text_words_length: "length (text_words w) \<le> length w"
proof (induction w rule: text_words.induct)
  case (1 w)
  show ?case
  proof (cases "dropWhile (\<lambda>c. c = 0x20) w")
    case (Cons c cs)
    have "length (c # cs) \<le> length w" unfolding Cons [symmetric] by (rule length_dropWhile_le)
    moreover have "length (drop 1 (dropWhile in_word (c # cs))) \<le> length cs" using length_dropWhile_le [of in_word "c # cs"] by (simp add: diff_le_mono)
    moreover have "c = 0x0A \<Longrightarrow> text_words w = []" using Cons by (intro text_words_cases(2)) simp
    moreover have "length (text_words w) = Suc (length (text_words (drop 1 (dropWhile in_word (c # cs)))))" if "c \<noteq> 0x0A"
      unfolding text_words_cases(3) [OF Cons that] by simp
    ultimately show ?thesis using 1 [OF Cons] by (cases "c = 0x0A") (simp, fastforce)
  qed (simp add: text_words_cases(1))
qed

text \<open>Neither the buffer of 1026 bytes nor the array of 1024 pointers is left.\<close>

lemma scan_command_words:
  assumes "0 \<notin> set w" "length w \<le> 1023" "length buf = 1026"
  shows "\<exists>buf' is. scan_command buf (w @ 0 # r) = Some (buf', is) \<and> strings_at buf' is = command_words w \<and>
    cstr buf' = hd (command_words w)"
proof -
  define ys where "ys = drop (3 + length w) buf"
  define t d where "t = takeWhile in_word w" and "d = dropWhile in_word w"
  let ?d = "[0x2E, 0x2F] :: byte list"
  have w: "w = t @ d" by (simp add: t_def d_def)
  have t: "list_all in_word t" "0 \<notin> set t" "0 \<notin> set (?d @ t)" using assms(1) by (auto simp: t_def list_all_iff dest: set_takeWhileD)
  have b: "assign buf 0 0x2E = Some (buf[0 := 0x2E])" "assign (buf[0 := 0x2E]) 1 0x2F = Some (buf[0 := 0x2E, 1 := 0x2F])"
    using assms(3) by (simp_all add: assign_def)
  have "buf[0 := 0x2E, 1 := 0x2F] = ?d @ take (Suc (length w)) (drop 2 buf) @ ys"
    using assms(2,3) by (intro nth_equalityI) (auto simp: ys_def nth_append nth_Cons' nth_list_update intro!: arg_cong [of _ _ "(!) buf"])
  then have copy: "strcpy_into (buf[0 := 0x2E, 1 := 0x2F]) 2 (w @ 0 # r) = Some (?d @ w @ 0 # ys)"
    using strcpy_into_string [OF assms(1), of "take (Suc (length w)) (drop 2 buf)" ?d ys r] assms(2,3) by simp
  show ?thesis
  proof (cases d)
    case Nil
    have "scan_word (?d @ w @ 0 # ys) 2 = Some (int (2 + length t))" "element (?d @ w @ 0 # ys) (int (2 + length t)) = Some 0"
      using scan_word_at [OF t(1,2), of 0 ?d ys] at_words(1) [of ?d t 0 ys] Nil w by simp_all
    then have "scan_command buf (w @ 0 # r) = Some (?d @ w @ 0 # ys, [0])"
      using b copy by (simp add: scan_command_def del: of_nat_add)
    moreover have "command_words w = [?d @ t]" unfolding command_words_def t_def [symmetric] d_def [symmetric] Nil by (simp add: text_words_cases(1))
    moreover have "cstr (?d @ w @ 0 # ys) = ?d @ t" using cstr_append [OF t(3), of ys] Nil w by simp
    ultimately show ?thesis by (simp add: strings_at_def)
  next
    case (Cons c d')
    have d0: "0 \<notin> set d" using assms(1) by (auto simp: d_def dest: set_dropWhileD)
    have c: "\<not> in_word c" "c \<noteq> 0" "0 \<notin> set d'" using hd_dropWhile [of in_word w, folded d_def] Cons d0 by auto
    let ?us = "?d @ t @ [0]" and ?i = "int (2 + length t)"
    have buf: "?d @ w @ 0 # ys = ?d @ t @ c # d' @ 0 # ys" using Cons w by simp
    have "scan_word (?d @ w @ 0 # ys) 2 = Some ?i" "element (?d @ w @ 0 # ys) ?i = Some c"
        "assign (?d @ w @ 0 # ys) ?i 0 = Some (?us @ d' @ 0 # ys)"
      unfolding buf using scan_word_at [OF t(1,2), of c ?d "d' @ 0 # ys"] at_words(1) [of ?d t c "d' @ 0 # ys"]
        at_words(2) [of ?d t c "d' @ 0 # ys" 0] c(1) by simp_all
    moreover have len: "length (text_words d') \<le> 1022" using text_words_length [of d'] assms(2) w Cons by simp
    then obtain q "is" where q: "scan_args (?us @ d' @ 0 # ys) (int (length ?us)) [0] = Some (?us @ q @ 0 # ys, [0] @ is)"
        "strings_at (?us @ q @ 0 # ys) is = text_words d'"
      using scan_args_words [OF c(3), of "[0]" ?us ys] by auto
    moreover have "int (length ?us) = ?i + 1" by simp
    moreover have "length is = length (text_words d')" using q(2) by (metis length_map strings_at_def)
    ultimately have "scan_command buf (w @ 0 # r) = Some (?us @ q @ 0 # ys, 0 # is)"
      using b copy c(2) len by (simp add: scan_command_def del: of_nat_add length_append)
    moreover have "cstr (?us @ q @ 0 # ys) = ?d @ t" using cstr_append [OF t(3), of "q @ 0 # ys"] by simp
    moreover have "command_words w = (?d @ t) # text_words d'" using Cons by (simp add: command_words_def t_def d_def)
    ultimately show ?thesis using q(2) by (simp add: strings_at_def)
  qed
qed

lemma emu_execute_command:
  assumes "0 \<notin> set w" "length w \<le> 1023" "length buf = 1026" "lx_fork lx (linux_state e) = (True, s)"
  shows "emu_execute lx buf (w @ 0 # r) e =
    (case lx_execv lx (hd (command_words w)) (command_words w) s of
       None \<Rightarrow> Some (-1, e\<lparr>linux_state := s\<rparr>)
     | Some (st, t) \<Rightarrow> Some (exit_value st, e\<lparr>linux_state := t\<rparr>))"
proof -
  obtain buf' "is" where "scan_command buf (w @ 0 # r) = Some (buf', is)" "strings_at buf' is = command_words w" "cstr buf' = hd (command_words w)"
    using scan_command_words [OF assms(1-3), of r] by blast
  moreover have "exit_value 9 = -1" by (simp add: exit_value_def)
  ultimately show ?thesis using assms(1,2,4) by (simp add: emu_execute_def strings_at_def split: option.split)
qed

section \<open>Arguments\<close>

lemma join_words_Cons: "join_words (w # ws) = (if ws = [] then w else w @ 0x20 # join_words ws)"
  by (cases ws) simp_all

lemma strcpy_into_room:
  assumes "0 \<in> set b" "length (cstr b) < length ys"
  shows "strcpy_into (xs @ ys) (int (length xs)) b = Some (xs @ cstr b @ 0 # drop (Suc (length (cstr b))) ys)"
proof -
  obtain r where "b = cstr b @ 0 # r" using cstr_split [OF assms(1)] by blast
  then show ?thesis
    using strcpy_into_string [OF cstr_nonzero, of "take (Suc (length (cstr b))) ys" b xs "drop (Suc (length (cstr b))) ys" r] assms(2) by simp
qed

lemma getargs_step:
  assumes "0 \<in> set b" "length (cstr b) \<le> n" "length (cstr b) < length ys"
  defines "a \<equiv> cstr b" and "zs \<equiv> drop (Suc (length (cstr b))) ys"
  shows "emu_getargs_loop (b # bs) (xs @ ys) (int (length xs)) (int n) =
    (if bs = [] then emu_getargs_loop [] ((xs @ a) @ 0 # zs) (int (length (xs @ a))) (int (n - length a))
     else if n = length a then Some (-1, (xs @ a) @ 0 # zs)
     else emu_getargs_loop bs ((xs @ a @ [0x20]) @ zs) (int (length (xs @ a @ [0x20]))) (int (n - length a - 1)))"
proof -
  have "ece391_strlen b = Some (length a)" using assms(1) by (simp add: ece391_strlen_cstr a_def)
  moreover have "strcpy_into (xs @ ys) (int (length xs)) b = Some ((xs @ a) @ 0 # zs)"
    using strcpy_into_room [OF assms(1,3)] by (simp add: a_def zs_def)
  moreover have "length a \<le> n" using assms(2) by (simp add: a_def)
  ultimately show ?thesis
    using assign_at [of "xs @ a" 0 zs "0x20"] by (auto simp: of_nat_diff Let_def algebra_simps)
qed

lemma getargs_fits:
  "list_all (\<lambda>b. 0 \<in> set b) bs \<Longrightarrow> length (join_words (map cstr bs)) < n \<Longrightarrow> n \<le> length ys \<Longrightarrow>
     emu_getargs_loop bs (xs @ ys) (int (length xs)) (int n) =
       Some (0, xs @ join_words (map cstr bs) @ 0 # drop (Suc (length (join_words (map cstr bs)))) ys)"
proof (induction bs arbitrary: xs ys n)
  case Nil
  then show ?case by (cases ys) (simp_all add: assign_at)
next
  case (Cons b bs)
  define a zs where "a = cstr b" and "zs = drop (Suc (length a)) ys"
  have b: "0 \<in> set b" "list_all (\<lambda>b. 0 \<in> set b) bs" using Cons.prems(1) by simp_all
  have j: "join_words (map cstr (b # bs)) = (if bs = [] then a else a @ 0x20 # join_words (map cstr bs))"
    by (simp add: join_words_Cons a_def)
  have len: "length a < n" "length a < length ys" using Cons.prems(2,3) unfolding j by (auto split: if_splits)
  note step = getargs_step [OF b(1), of n ys bs xs, folded a_def, folded zs_def, OF less_imp_le [OF len(1)] len(2)]
  show ?case
  proof (cases "bs = []")
    case True
    then show ?thesis using step j len assign_at [of "xs @ a" 0 zs 0] by (simp add: zs_def)
  next
    case False
    have "emu_getargs_loop bs ((xs @ a @ [0x20]) @ zs) (int (length (xs @ a @ [0x20]))) (int (n - length a - 1)) =
        Some (0, (xs @ a @ [0x20]) @ join_words (map cstr bs) @ 0 # drop (Suc (length (join_words (map cstr bs)))) zs)"
      using Cons.prems(2,3) False unfolding j by (intro Cons.IH b(2)) (simp_all add: zs_def)
    then show ?thesis using step j False len by (simp add: zs_def add.commute)
  qed
qed

text \<open>Without room for the terminator the call is refused, if the buffer has one more byte than \<open>nbytes\<close> says.\<close>

lemma getargs_refused:
  "list_all (\<lambda>b. 0 \<in> set b) bs \<Longrightarrow> n \<le> length (join_words (map cstr bs)) \<Longrightarrow> n < length ys \<Longrightarrow>
     \<exists>buf. emu_getargs_loop bs (xs @ ys) (int (length xs)) (int n) = Some (-1, buf)"
proof (induction bs arbitrary: xs ys n)
  case (Cons b bs)
  define a zs where "a = cstr b" and "zs = drop (Suc (length a)) ys"
  have b: "0 \<in> set b" "list_all (\<lambda>b. 0 \<in> set b) bs" using Cons.prems(1) by simp_all
  have j: "join_words (map cstr (b # bs)) = (if bs = [] then a else a @ 0x20 # join_words (map cstr bs))"
    by (simp add: join_words_Cons a_def)
  have sl: "ece391_strlen b = Some (length a)" using b(1) by (simp add: ece391_strlen_cstr a_def)
  show ?case
  proof (cases "n < length a")
    case True
    then show ?thesis using sl by simp
  next
    case False
    have len: "length a \<le> n" "length a < length ys" using False Cons.prems(3) by simp_all
    note step = getargs_step [OF b(1), of n ys bs xs, folded a_def, folded zs_def, OF len]
    show ?thesis
    proof (cases "n = length a \<or> bs = []")
      case True
      then show ?thesis using step Cons.prems(2) False unfolding j by (auto split: if_splits)
    next
      case more: False
      have "\<exists>buf. emu_getargs_loop bs ((xs @ a @ [0x20]) @ zs) (int (length (xs @ a @ [0x20]))) (int (n - length a - 1)) = Some (-1, buf)"
        using Cons.prems(2,3) more False unfolding j by (intro Cons.IH b(2)) (auto simp: zs_def)
      then show ?thesis using step more by simp
    qed
  qed
qed simp

text \<open>An argument as long as the buffer makes \<open>ece391_strcpy\<close> store its terminator behind the buffer.\<close>

lemma strcpy_into_overflow: "0 \<notin> set a \<Longrightarrow> length a = length ys \<Longrightarrow> strcpy_into (xs @ ys) (int (length xs)) (a @ 0 # r) = None"
proof (induction a arbitrary: xs ys)
  case Nil
  then show ?case by (simp add: assign_def)
next
  case (Cons b a)
  obtain y ys' where y: "ys = y # ys'" "length a = length ys'" using Cons.prems(2) by (cases ys) auto
  have "strcpy_into ((xs @ [b]) @ ys') (int (length (xs @ [b]))) (a @ 0 # r) = None" using Cons.prems(1) y(2) by (intro Cons.IH) auto
  then show ?case using Cons.prems(1) y(1) by (auto simp: assign_at ac_simps)
qed

lemma getargs_overflow:
  assumes "0 \<notin> set a" "start_argv e = [p, a @ [0]]" "length buf = length a"
  shows "emu_getargs buf (int (length buf)) e = None"
  using strcpy_into_overflow [OF assms(1), of buf "[]" "[]"] assms ece391_strlen_at [OF assms(1), of "[]"] by (simp add: emu_getargs_def)

text \<open>Words that are joined by single spaces are found again.\<close>

lemma text_words_join: "list_all (\<lambda>w. w \<noteq> [] \<and> list_all in_word w) ws \<Longrightarrow> text_words (join_words ws) = ws"
proof (induction ws)
  case (Cons w ws)
  obtain c cs where w: "w = c # cs" "in_word c" "list_all in_word w" using Cons.prems by (cases w) auto
  define v where "v = (if ws = [] then [] else 0x20 # join_words ws)"
  have j: "join_words (w # ws) = c # cs @ v" by (simp add: join_words_Cons v_def w(1))
  have d: "dropWhile (\<lambda>c. c = 0x20) (c # cs @ v) = c # cs @ v" "c \<noteq> 0x0A" using w(2) by (auto simp: in_word_def)
  have "takeWhile in_word (w @ v) = w" "dropWhile in_word (w @ v) = v"
    using w(3) by (auto simp: v_def list_all_iff takeWhile_append dropWhile_append in_word_def)
  then have "text_words (join_words (w # ws)) = w # text_words (drop 1 v)"
    unfolding j text_words_cases(3) [OF d] using w(1) by simp
  moreover have "text_words (drop 1 v) = ws" using Cons by (simp add: v_def text_words_cases(1))
  ultimately show ?case by simp
qed (simp add: text_words_cases(1))

section \<open>Directories\<close>

lemma name_pad_zeros:
  "length xs \<le> n \<Longrightarrow> n \<le> 32 \<Longrightarrow> n = min k 32 \<Longrightarrow> n \<le> length xs + length ys \<Longrightarrow>
     name_pad (xs @ ys) (int (length xs)) (int k) = Some (int n, xs @ replicate (n - length xs) 0 @ drop (n - length xs) ys)"
proof (induction "n - length xs" arbitrary: xs ys)
  case 0
  then show ?case by (subst name_pad.simps) auto
next
  case (Suc d)
  obtain y zs where ys: "ys = y # zs" using Suc by (cases ys) auto
  have lt: "length xs < n" using Suc.hyps(2) by linarith
  have "name_pad ((xs @ [0]) @ zs) (int (length (xs @ [0]))) (int k) =
      Some (int n, (xs @ [0]) @ replicate (n - length (xs @ [0])) 0 @ drop (n - length (xs @ [0])) zs)"
  proof (rule Suc.hyps(1))
    show "d = n - length (xs @ [0])" "length (xs @ [0]) \<le> n" using Suc.hyps(2) lt by simp_all
    show "n \<le> length (xs @ [0]) + length zs" using Suc.prems(4) ys by simp
  qed (rule Suc.prems)+
  moreover have m: "n - length xs = Suc (n - Suc (length xs))" using Suc.hyps(2) by simp
  ultimately show ?case using Suc.prems ys lt by (subst name_pad.simps) (simp add: assign_at m add.commute)
qed

text \<open>The name is cut to 32 bytes or to the buffer, and filled up with zeros.\<close>

lemma name_copy_padded:
  "0 \<notin> set nm \<Longrightarrow> length xs < n \<Longrightarrow> n = min k 32 \<Longrightarrow> n \<le> length xs + length ys \<Longrightarrow>
     name_copy (nm @ 0 # r) (xs @ ys) (int (length xs)) (int k) =
       Some (int n, xs @ take (n - length xs) (nm @ replicate 32 0) @ drop (n - length xs) ys)"
proof (induction nm arbitrary: xs ys)
  case Nil
  then show ?case using name_pad_zeros [of xs n k ys] by (simp add: take_replicate)
next
  case (Cons c nm)
  obtain y zs where ys: "ys = y # zs" using Cons.prems by (cases ys) auto
  have m: "n - length xs = Suc (n - Suc (length xs))" using Cons.prems(2) by simp
  have a: "assign (xs @ ys) (int (length xs)) c = Some ((xs @ [c]) @ zs)" by (simp add: ys assign_at)
  show ?case
  proof (cases "Suc (length xs) = n")
    case True
    then have "int (length xs) + 1 = int k \<or> int (length xs) + 1 = 32 \<and> int (length xs) + 1 \<noteq> int k" using Cons.prems(3) by auto
    then show ?thesis using True Cons.prems(1,3) a ys m by auto
  next
    case False
    have "name_copy (nm @ 0 # r) ((xs @ [c]) @ zs) (int (length (xs @ [c]))) (int k) =
        Some (int n, (xs @ [c]) @ take (n - length (xs @ [c])) (nm @ replicate 32 0) @ drop (n - length (xs @ [c])) zs)"
      using Cons.prems False ys by (intro Cons.IH) auto
    moreover have "int (length xs) + 1 \<noteq> int k" "32 \<noteq> int (length xs) + 1" using False Cons.prems(2,3) by linarith+
    ultimately show ?thesis using Cons.prems(1) a ys m by (simp add: add.commute)
  qed
qed

section \<open>Properties\<close>

text \<open>C14. \<open>ece391_execute\<close> under Linux: a command of more than 1023 bytes is refused. Otherwise
  the program of the first word is started in the current directory, with the words of the command as its arguments,
  and the call returns its exit code, -1 when it cannot be started, and 256 when a signal ended it; the parser stays
  within its two arrays, whatever the command is.\<close>

theorem emu_execute_runs:
  assumes "0 \<notin> set w" "length buf = 1026" "lx_fork lx (linux_state e) = (True, s)"
  shows "emu_execute lx buf (w @ 0 # r) e =
    (if length w > 1023 then Some (-1, e)
     else case lx_execv lx ([0x2E, 0x2F] @ takeWhile in_word w) (command_words w) s of
       None \<Rightarrow> Some (-1, e\<lparr>linux_state := s\<rparr>)
     | Some (st, t) \<Rightarrow>
         Some (if st AND 0x7F = 0 then uint (drop_bit 8 st AND 0xFF) else if st AND 0x7F = 9 then -1 else 256, e\<lparr>linux_state := t\<rparr>))"
proof (cases "length w > 1023")
  case True
  then show ?thesis using assms(1) by (simp add: emu_execute_def)
next
  case False
  then show ?thesis using emu_execute_command [OF assms(1) _ assms(2,3), of r]
    by (auto simp: command_words_def exit_value_def split: option.split)
qed

text \<open>A system in which a program ends with the number of its arguments.\<close>

definition counting_linux :: "unit linux" where
  "counting_linux = \<lparr>lx_read = (\<lambda>_ buf _ s. (0, buf, s)), lx_write = (\<lambda>_ _ n s. (w32 n, s)), lx_close = (\<lambda>_ s. (0, s)),
     lx_open = (\<lambda>_ s. (3, s)), lx_fork = (\<lambda>s. (True, s)), lx_execv = (\<lambda>_ argv s. Some (push_bit 8 (of_nat (length argv)), s)),
     lx_opendir = (\<lambda>_ s. (Some 0, s)), lx_readdir = (\<lambda>_ s. (None, s)), lx_closedir = (\<lambda>_ s. s), lx_open_device = (\<lambda>_ s. (4, s)),
     lx_mmap = (\<lambda>_ s. (Some 0, s))\<rparr>"

definition counting_emu :: "byte list list \<Rightarrow> unit emu" where
  "counting_emu argv = \<lparr>dir_fd = -1, dir = None, mem_fd = -1, start_argv = map (\<lambda>a. a @ [0]) argv, linux_state = ()\<rparr>"

lemma counting_system:
  "lx_fork counting_linux s = (True, s)" "lx_execv counting_linux path argv s = Some (push_bit 8 (of_nat (length argv)), s)"
  "(counting_emu argv)\<lparr>linux_state := s\<rparr> = counting_emu argv"
  by (simp_all add: counting_linux_def counting_emu_def)

theorem emu_execute_runs_witness:
  "emu_execute counting_linux (replicate 1026 0) (ascii ''ls a'' @ [0]) (counting_emu []) = Some (2, counting_emu [])"
proof -
  let ?w = "[0x6C, 0x73, 0x20, 0x61] :: byte list"
  have w: "ascii ''ls a'' = ?w" by (simp add: ascii_def)
  have "text_words [0x61] = [[0x61]]"
    using text_words_join [of "[[0x61]]"] by (simp add: in_word_def)
  then have "command_words ?w = [[0x2E, 0x2F, 0x6C, 0x73], [0x61]]" by (simp add: command_words_def in_word_def)
  then show ?thesis
    unfolding w using emu_execute_runs [of ?w "replicate 1026 0" counting_linux "counting_emu []" "()" "[]"]
    by (simp add: counting_system)
qed

text \<open>C15. The arguments of a program under Linux: when \<open>ece391_execute\<close> starts a program with the
  words of a command line as its arguments, \<open>ece391_getargs\<close> in that program yields the words again,
  joined by single spaces and with a terminator, as they stand in a command line in which single spaces separate the
  words.\<close>

theorem emu_arguments:
  assumes "list_all (\<lambda>v. v \<noteq> [] \<and> list_all in_word v \<and> 0 \<notin> set v) (nm # ws)" "ws \<noteq> []" "length (join_words (nm # ws)) \<le> 1023"
    and "length cbuf = 1026" "lx_fork lx (linux_state e) = (True, s)" "length buf = 1024"
  shows "\<exists>argv. emu_execute lx cbuf (join_words (nm # ws) @ [0]) e =
      (case lx_execv lx ([0x2E, 0x2F] @ nm) argv s of None \<Rightarrow> Some (-1, e\<lparr>linux_state := s\<rparr>)
       | Some (st, t) \<Rightarrow> Some (exit_value st, e\<lparr>linux_state := t\<rparr>)) \<and>
    (\<forall>e'. start_argv e' = map (\<lambda>a. a @ [0]) argv \<longrightarrow>
      (\<exists>r. emu_getargs buf 1024 e' = Some (0, join_words ws @ 0 # r, e') \<and> length (join_words ws @ 0 # r) = 1024))"
proof -
  let ?w = "join_words (nm # ws)"
  have w: "?w = nm @ 0x20 # join_words ws" using assms(2) by (simp add: join_words_Cons)
  have z: "0 \<notin> set (join_words vs)" if "list_all (\<lambda>v. 0 \<notin> set v) vs" for vs
    using that by (induction vs) (auto simp: join_words_Cons)
  have "takeWhile in_word ?w = nm" "dropWhile in_word ?w = 0x20 # join_words ws"
    unfolding w using assms(1) by (auto simp: list_all_iff takeWhile_append dropWhile_append in_word_def)
  then have words: "command_words ?w = ([0x2E, 0x2F] @ nm) # ws"
    unfolding command_words_def using text_words_join [of ws] assms(1) by (simp add: list_all_iff)
  have "list_all (\<lambda>v. 0 \<notin> set v) (nm # ws)" using assms(1) by (auto simp: list_all_iff)
  note run = emu_execute_command [OF z [OF this] assms(3-5), of "[]", unfolded words list.sel]
  have "emu_getargs buf 1024 e' = Some (0, join_words ws @ 0 # drop (Suc (length (join_words ws))) buf, e')"
    if "start_argv e' = map (\<lambda>a. a @ [0]) (([0x2E, 0x2F] @ nm) # ws)" for e'
  proof -
    have cs: "map cstr (map (\<lambda>a. a @ [0]) ws) = ws" using assms(1) by (auto simp: list_all_iff intro!: map_idI)
    have "emu_getargs_loop (map (\<lambda>a. a @ [0]) ws) buf 0 1024 = Some (0, join_words ws @ 0 # drop (Suc (length (join_words ws))) buf)"
      using getargs_fits [of "map (\<lambda>a. a @ [0]) ws" 1024 buf "[]", unfolded cs] assms(3,6) unfolding w by (simp add: list_all_iff)
    then show ?thesis using that by (simp add: emu_getargs_def)
  qed
  moreover have "length (join_words ws) < 1024" using assms(3) unfolding w by simp
  ultimately show ?thesis
    using run assms(6) by (intro exI [of _ "([0x2E, 0x2F] @ nm) # ws"] conjI allI impI exI [of _ "drop (Suc (length (join_words ws))) buf"]) simp_all
qed

theorem emu_arguments_witness:
  "\<exists>argv. emu_execute counting_linux (replicate 1026 0) (ascii ''grep a bc'' @ [0]) (counting_emu []) =
      Some (exit_value (push_bit 8 (of_nat (length argv))), counting_emu []) \<and>
     (\<exists>r. emu_getargs (replicate 1024 0) 1024 (counting_emu argv) = Some (0, ascii ''a bc'' @ 0 # r, counting_emu argv))"
proof -
  have w: "join_words [ascii ''grep'', ascii ''a'', ascii ''bc''] = ascii ''grep a bc''" "join_words [ascii ''a'', ascii ''bc''] = ascii ''a bc''"
    by (simp_all add: ascii_def)
  have len: "length (ascii ''grep a bc'') \<le> 1023" by (simp add: ascii_def)
  have "list_all (\<lambda>v. v \<noteq> [] \<and> list_all in_word v \<and> 0 \<notin> set v) [ascii ''grep'', ascii ''a'', ascii ''bc'']" by (simp add: ascii_def in_word_def)
  note run = emu_arguments [OF this list.distinct(2), unfolded w, OF len length_replicate counting_system(1) length_replicate,
      unfolded counting_system option.case case_prod_conv, where e = "counting_emu []"]
  obtain argv where argv: "emu_execute counting_linux (replicate 1026 0) (ascii ''grep a bc'' @ [0]) (counting_emu []) =
      Some (exit_value (push_bit 8 (of_nat (length argv))), counting_emu [])"
      "\<forall>e' :: unit emu. start_argv e' = map (\<lambda>a. a @ [0]) argv \<longrightarrow> (\<exists>r. emu_getargs (replicate 1024 0) 1024 e' = Some (0, ascii ''a bc'' @ 0 # r, e') \<and>
        length (ascii ''a bc'' @ 0 # r) = 1024)"
    by (rule exE [OF run [of 0 0, unfolded counting_system(3)]]) (elim conjE, rule that)
  moreover have "start_argv (counting_emu argv) = map (\<lambda>a. a @ [0]) argv" by (simp add: counting_emu_def)
  ultimately show ?thesis by blast
qed

end
