(* ===== verification/Ports.thy ===== *)
theory Ports
  imports Machine
begin

text \<open>
  The wider port accesses and the saving of the flags of \<^verbatim>\<open>src/student-distrib/lib.h\<close>. An access of two or four bytes goes
  to as many consecutive ports, with the lowest byte at the lowest port. Of the register EFLAGS the state has the
  interrupt flag, its bit 9; the other bits are the argument \<open>other\<close>.
\<close>

section \<open>Definitions\<close>

primrec in_bytes :: "device \<Rightarrow> nat \<Rightarrow> u16 \<Rightarrow> 'a machine_scheme \<Rightarrow> u32 \<times> 'a machine_scheme" where
  "in_bytes dev 0 port s = (0, s)"
| "in_bytes dev (Suc n) port s =
     (let (b, s) = inb dev port s;
          (v, s) = in_bytes dev n (port + 1) s
      in (ucast b OR push_bit 8 v, s))"

definition inw :: "device \<Rightarrow> u16 \<Rightarrow> 'a machine_scheme \<Rightarrow> u32 \<times> 'a machine_scheme" where
  "inw dev port s = in_bytes dev 2 port s"

definition inl :: "device \<Rightarrow> u16 \<Rightarrow> 'a machine_scheme \<Rightarrow> u32 \<times> 'a machine_scheme" where
  "inl dev port s = in_bytes dev 4 port s"

primrec out_bytes :: "nat \<Rightarrow> u32 \<Rightarrow> u16 \<Rightarrow> 'a machine_scheme \<Rightarrow> 'a machine_scheme" where
  "out_bytes 0 data port s = s"
| "out_bytes (Suc n) data port s = out_bytes n (drop_bit 8 data) (port + 1) (outb (ucast data) port s)"

definition outw :: "u32 \<Rightarrow> u16 \<Rightarrow> 'a machine_scheme \<Rightarrow> 'a machine_scheme" where
  "outw data port s = out_bytes 2 data port s"

definition outl :: "u32 \<Rightarrow> u16 \<Rightarrow> 'a machine_scheme \<Rightarrow> 'a machine_scheme" where
  "outl data port s = out_bytes 4 data port s"

definition cli_and_save :: "u32 \<Rightarrow> 'a machine_scheme \<Rightarrow> u32 \<times> 'a machine_scheme" where
  "cli_and_save other s = (if iflag s then set_bit 9 other else unset_bit 9 other, cli s)"

definition restore_flags :: "u32 \<Rightarrow> 'a machine_scheme \<Rightarrow> 'a machine_scheme" where
  "restore_flags flags s = s\<lparr>iflag := bit flags 9\<rparr>"

section \<open>Properties\<close>

text \<open>A device that gives back, at each port, the byte that was last written to it.\<close>

definition latches :: device where
  "latches log port = (case last_out port log of None \<Rightarrow> 0 | Some b \<Rightarrow> b)"

lemma out_bytes_log:
  "io_log (out_bytes n data port s) = io_log s @ map (\<lambda>i. Out (port + of_nat i) (ucast (drop_bit (8 * i) data))) [0..<n]"
proof (induction n arbitrary: data port s)
  case (Suc n)
  have "map (\<lambda>i. Out (port + of_nat i) (ucast (drop_bit (8 * i) data))) [0..<Suc n] =
      Out port (ucast data) # map (\<lambda>i. Out (port + 1 + of_nat i) (ucast (drop_bit (8 * i) (drop_bit 8 data)))) [0..<n]"
    by (subst upt_conv_Cons) (simp_all add: map_Suc_upt [symmetric] ac_simps drop_bit_drop_bit del: upt_Suc)
  then show ?case using Suc.IH [of "drop_bit 8 data" "port + 1" "outb (ucast data) port s"] by (simp add: ac_simps)
qed simp

text \<open>Reading what the latches hold; a read does not change them.\<close>

lemma latches_In [simp]: "latches (es @ [In q b]) = latches es"
  by (simp add: latches_def fun_eq_iff)

lemma in_bytes_latches:
  "(\<And>i. i < n \<Longrightarrow> latches (io_log s) (port + of_nat i) = ucast (drop_bit (8 * i) (v :: u32))) \<Longrightarrow> n \<le> 4 \<Longrightarrow>
     fst (in_bytes latches n port s) = take_bit (8 * n) v"
proof (induction n arbitrary: port s v)
  case (Suc n)
  let ?s = "snd (inb latches port s)"
  have l: "latches (io_log ?s) = latches (io_log s)" by (simp add: inb_def Let_def)
  have "fst (in_bytes latches n (port + 1) ?s) = take_bit (8 * n) (drop_bit 8 v)"
    using Suc.prems(1) [of "Suc _"] Suc.prems(2) by (intro Suc.IH) (simp_all add: l ac_simps drop_bit_drop_bit)
  moreover have "latches (io_log s) port = ucast v" using Suc.prems(1) [of 0] by simp
  then have "fst (inb latches port s) = ucast v" by (simp add: inb_def Let_def)
  moreover have "ucast (ucast v :: byte) OR push_bit 8 (take_bit (8 * n) (drop_bit 8 v)) = take_bit (8 * Suc n) v"
    by (rule bit_word_eqI) (auto simp: bit_simps)
  ultimately show ?case by (simp add: split_beta)
qed simp

lemma last_out_ports:
  assumes "k < n" "n \<le> 65536"
  shows "last_out (port + of_nat k) (es @ map (\<lambda>i. Out (port + of_nat i) (f i)) [0..<n]) = Some (f k)"
  using assms
proof (induction n)
  case (Suc n)
  have "(of_nat n :: u16) = of_nat k \<longleftrightarrow> n = k"
    using Suc.prems by (simp add: word_of_nat_eq_iff take_bit_nat_eq_self)
  then show ?case
    using Suc last_out_Out [of "port + of_nat k" "es @ map (\<lambda>i. Out (port + of_nat i) (f i)) [0..<n]" "port + of_nat n" "f n"]
    by (cases "k = n") simp_all
qed simp

lemma out_in_bytes:
  assumes "n \<le> 4"
  shows "fst (in_bytes latches n port (out_bytes n v port s)) = take_bit (8 * n) v"
proof (rule in_bytes_latches [OF _ assms])
  fix i
  assume "i < n"
  then show "latches (io_log (out_bytes n v port s)) (port + of_nat i) = ucast (drop_bit (8 * i) v)"
    using last_out_ports [of i n port "io_log s" "\<lambda>i. ucast (drop_bit (8 * i) v)"] assms by (simp add: latches_def out_bytes_log)
qed

text \<open>What is written with \<open>outw\<close> and \<open>outl\<close> is what \<open>inw\<close> and \<open>inl\<close> read from a device that keeps the bytes.\<close>

theorem port_roundtrip:
  "fst (inw latches port (outw v port s)) = v AND 0xFFFF \<and> fst (inl latches port (outl v port s)) = v"
proof
  show "fst (inw latches port (outw v port s)) = v AND 0xFFFF"
    using out_in_bytes [of 2 port v s] by (simp add: inw_def outw_def take_bit_eq_mask mask_numeral)
  have "take_bit 32 v = v" by (rule take_bit_word_eq_self) simp
  then show "fst (inl latches port (outl v port s)) = v" using out_in_bytes [of 4 port v s] by (simp add: inl_def outl_def)
qed

text \<open>A critical section gives back the interrupt flag as it was, whatever happens inside.\<close>

theorem critical_section:
  "\<not> iflag (snd (cli_and_save other s)) \<and> iflag (restore_flags (fst (cli_and_save other s)) t) = iflag s"
  by (simp add: cli_and_save_def restore_flags_def bit_simps)

end
