(* ===== verification/Tss.thy ===== *)
theory Tss
  imports Boot
begin

text \<open>
  The task state segment of \<^verbatim>\<open>src/student-distrib/x86_desc.h\<close>. The processor takes the stack of the kernel from it when a
  program is interrupted, at fixed offsets in memory; the kernel writes the fields of the C structure. \<open>tss_bytes\<close> is
  the packed structure in memory. Of its fields the kernel's state has those that the code uses; \<open>tss_of\<close> is the
  structure for a state, in which the others are zero, as \<^verbatim>\<open>src/student-distrib/x86_desc.S\<close> leaves them.
\<close>

section \<open>Definitions\<close>

record tss_t =
  prev_task_link :: u16
  prev_task_link_pad :: u16
  t_esp0 :: u32
  t_ss0 :: u16
  t_ss0_pad :: u16
  t_esp1 :: u32
  t_ss1 :: u16
  t_ss1_pad :: u16
  t_esp2 :: u32
  t_ss2 :: u16
  t_ss2_pad :: u16
  t_cr3 :: u32
  t_eip :: u32
  t_eflags :: u32
  t_eax :: u32
  t_ecx :: u32
  t_edx :: u32
  t_ebx :: u32
  t_esp :: u32
  t_ebp :: u32
  t_esi :: u32
  t_edi :: u32
  t_es :: u16
  t_es_pad :: u16
  t_cs :: u16
  t_cs_pad :: u16
  t_ss :: u16
  t_ss_pad :: u16
  t_ds :: u16
  t_ds_pad :: u16
  t_fs :: u16
  t_fs_pad :: u16
  t_gs :: u16
  t_gs_pad :: u16
  ldt_segment_selector :: u16
  ldt_pad :: u16
  debug_trap :: "1 word"
  io_pad :: "15 word"
  io_base_addr :: u16

definition tss_bytes :: "tss_t \<Rightarrow> byte list" where
  "tss_bytes t =
     le16_bytes (prev_task_link t) @ le16_bytes (prev_task_link_pad t) @ le32_bytes (t_esp0 t) @ le16_bytes (t_ss0 t) @ le16_bytes (t_ss0_pad t) @
     le32_bytes (t_esp1 t) @ le16_bytes (t_ss1 t) @ le16_bytes (t_ss1_pad t) @ le32_bytes (t_esp2 t) @ le16_bytes (t_ss2 t) @ le16_bytes (t_ss2_pad t) @
     le32_bytes (t_cr3 t) @ le32_bytes (t_eip t) @ le32_bytes (t_eflags t) @ le32_bytes (t_eax t) @ le32_bytes (t_ecx t) @ le32_bytes (t_edx t) @ le32_bytes (t_ebx t) @
     le32_bytes (t_esp t) @ le32_bytes (t_ebp t) @ le32_bytes (t_esi t) @ le32_bytes (t_edi t) @ le16_bytes (t_es t) @ le16_bytes (t_es_pad t) @ le16_bytes (t_cs t) @ le16_bytes (t_cs_pad t) @
     le16_bytes (t_ss t) @ le16_bytes (t_ss_pad t) @ le16_bytes (t_ds t) @ le16_bytes (t_ds_pad t) @ le16_bytes (t_fs t) @ le16_bytes (t_fs_pad t) @ le16_bytes (t_gs t) @ le16_bytes (t_gs_pad t) @
     le16_bytes (ldt_segment_selector t) @ le16_bytes (ldt_pad t) @ le16_bytes (ucast (debug_trap t) OR push_bit 1 (ucast (io_pad t))) @ le16_bytes (io_base_addr t)"

definition tss_of :: "'a boot_state_scheme \<Rightarrow> tss_t" where
  "tss_of s = \<lparr>prev_task_link = 0, prev_task_link_pad = 0, t_esp0 = tss_esp0 s, t_ss0 = ucast (tss_ss0 s), t_ss0_pad = 0,
     t_esp1 = 0, t_ss1 = 0, t_ss1_pad = 0, t_esp2 = 0, t_ss2 = 0, t_ss2_pad = 0, t_cr3 = 0, t_eip = 0, t_eflags = 0,
     t_eax = 0, t_ecx = 0, t_edx = 0, t_ebx = 0, t_esp = 0, t_ebp = 0, t_esi = 0, t_edi = 0,
     t_es = 0, t_es_pad = 0, t_cs = 0, t_cs_pad = 0, t_ss = 0, t_ss_pad = 0, t_ds = 0, t_ds_pad = 0, t_fs = 0, t_fs_pad = 0,
     t_gs = 0, t_gs_pad = 0, ldt_segment_selector = tss_ldt s, ldt_pad = 0, debug_trap = 0, io_pad = 0, io_base_addr = 0\<rparr>"

text \<open>What the processor reads of it: the stack for privilege level 0 and the selector of the LDT.\<close>

definition load_le16 :: "byte list \<Rightarrow> nat \<Rightarrow> u16" where
  "load_le16 bs i = ucast (bs ! i) OR push_bit 8 (ucast (bs ! (i + 1)))"

definition level0_stack :: "byte list \<Rightarrow> u16 \<times> u32" where
  "level0_stack bs = (load_le16 bs 8, load_le32 (list_view bs) 4)"

section \<open>Properties\<close>

lemma le16_read: "take 2 (drop i bs) = le16_bytes v \<Longrightarrow> load_le16 bs i = v"
proof -
  assume t: "take 2 (drop i bs) = le16_bytes v"
  have len: "i + 1 < length bs" using arg_cong [OF t, of length] by simp
  then have "take 2 (drop i bs) = [bs ! i, bs ! (i + 1)]" by (intro nth_equalityI) (auto simp: nth_Cons' less_2_cases_iff)
  then have "bs ! i = ucast v" "bs ! (i + 1) = ucast (drop_bit 8 v)" using t by (simp_all add: le16_bytes_def)
  then show ?thesis by (intro bit_word_eqI) (auto simp: load_le16_def bit_simps)
qed

lemma le32_join:
  "ucast (ucast v :: byte) OR push_bit 8 (ucast (ucast (drop_bit 8 v) :: byte)) OR push_bit 16 (ucast (ucast (drop_bit 16 v) :: byte)) OR
     push_bit 24 (ucast (ucast (drop_bit 24 v) :: byte)) = (v :: u32)" (is "?w = v")
proof (rule bit_word_eqI)
  fix n
  assume "n < LENGTH(32)"
  then consider "n < 8" | "8 \<le> n" "n < 16" | "16 \<le> n" "n < 24" | "24 \<le> n" "n < 32" by fastforce
  then show "bit ?w n = bit v n" by cases (auto simp: bit_simps)
qed

lemma le32_read: "take 4 (drop i bs) = le32_bytes v \<Longrightarrow> load_le32 (list_view bs) i = v"
proof -
  assume t: "take 4 (drop i bs) = le32_bytes v"
  have len: "i + 3 < length bs" using arg_cong [OF t, of length] by simp
  then have "take 4 (drop i bs) = [bs ! i, bs ! (i + 1), bs ! (i + 2), bs ! (i + 3)]"
    by (intro nth_equalityI) (auto simp: nth_Cons' numeral_eq_Suc less_Suc_eq)
  then have "bs ! i = ucast v" "bs ! (i + 1) = ucast (drop_bit 8 v)" "bs ! (i + 2) = ucast (drop_bit 16 v)" "bs ! (i + 3) = ucast (drop_bit 24 v)"
    using t by (simp_all add: le32_bytes_def)
  then show ?thesis using len le32_join [of v] by (simp add: load_le32_def list_view_def)
qed

lemma tss_selectors:
  shows "load_le16 (tss_bytes t) 0 = prev_task_link t"
    "load_le16 (tss_bytes t) 8 = t_ss0 t"
    "load_le16 (tss_bytes t) 16 = t_ss1 t"
    "load_le16 (tss_bytes t) 24 = t_ss2 t"
    "load_le16 (tss_bytes t) 72 = t_es t"
    "load_le16 (tss_bytes t) 76 = t_cs t"
    "load_le16 (tss_bytes t) 80 = t_ss t"
    "load_le16 (tss_bytes t) 84 = t_ds t"
    "load_le16 (tss_bytes t) 88 = t_fs t"
    "load_le16 (tss_bytes t) 92 = t_gs t"
    "load_le16 (tss_bytes t) 96 = ldt_segment_selector t"
    "load_le16 (tss_bytes t) 102 = io_base_addr t"
  by (rule le16_read, simp add: tss_bytes_def)+

lemma tss_registers:
  shows "load_le32 (list_view (tss_bytes t)) 4 = t_esp0 t"
    "load_le32 (list_view (tss_bytes t)) 12 = t_esp1 t"
    "load_le32 (list_view (tss_bytes t)) 20 = t_esp2 t"
    "load_le32 (list_view (tss_bytes t)) 28 = t_cr3 t"
    "load_le32 (list_view (tss_bytes t)) 32 = t_eip t"
    "load_le32 (list_view (tss_bytes t)) 36 = t_eflags t"
    "load_le32 (list_view (tss_bytes t)) 40 = t_eax t"
    "load_le32 (list_view (tss_bytes t)) 44 = t_ecx t"
    "load_le32 (list_view (tss_bytes t)) 48 = t_edx t"
    "load_le32 (list_view (tss_bytes t)) 52 = t_ebx t"
    "load_le32 (list_view (tss_bytes t)) 56 = t_esp t"
    "load_le32 (list_view (tss_bytes t)) 60 = t_ebp t"
    "load_le32 (list_view (tss_bytes t)) 64 = t_esi t"
    "load_le32 (list_view (tss_bytes t)) 68 = t_edi t"
  by (rule le32_read, simp add: tss_bytes_def)+

lemma tss_debug: "bit (load_le16 (tss_bytes t) 100) 0 \<longleftrightarrow> debug_trap t = 1"
proof -
  have "load_le16 (tss_bytes t) 100 = ucast (debug_trap t) OR push_bit 1 (ucast (io_pad t))"
    by (rule le16_read) (simp add: tss_bytes_def)
  moreover have "debug_trap t = 0 \<or> debug_trap t = 1"
  proof -
    have "unat (debug_trap t) < 2" using unsigned_less [of "debug_trap t", where 'a = nat] by simp
    then have "unat (debug_trap t) = 0 \<or> unat (debug_trap t) = 1" by linarith
    then show ?thesis by (simp add: word_unat_eq_iff)
  qed
  ultimately show ?thesis by (auto simp: bit_or_iff bit_push_bit_iff simp del: push_bit_of_1 push_bit_Suc push_bit_numeral One_nat_def)
qed

text \<open>C16. The structure has the size of the segment, and each of its fields lies where the processor has it in a task state
  segment: the link and the selectors at their offsets from 0 to 96, the stack pointers and the registers at theirs from 4 to 68,
  the trap bit in the word at 100 and the base of the map of the ports at 102.\<close>

theorem tss_layout:
  "length (tss_bytes t) = unat TSS_SIZE \<and>
   map (load_le16 (tss_bytes t)) [0, 8, 16, 24, 72, 76, 80, 84, 88, 92, 96, 102] =
     [prev_task_link t, t_ss0 t, t_ss1 t, t_ss2 t, t_es t, t_cs t, t_ss t, t_ds t, t_fs t, t_gs t,
      ldt_segment_selector t, io_base_addr t] \<and>
   map (load_le32 (list_view (tss_bytes t))) [4, 12, 20, 28, 32, 36, 40, 44, 48, 52, 56, 60, 64, 68] =
     [t_esp0 t, t_esp1 t, t_esp2 t, t_cr3 t, t_eip t, t_eflags t, t_eax t, t_ecx t, t_edx t, t_ebx t,
      t_esp t, t_ebp t, t_esi t, t_edi t] \<and>
   (bit (load_le16 (tss_bytes t) 100) 0 \<longleftrightarrow> debug_trap t = 1)"
proof -
  have "length (tss_bytes t) = unat TSS_SIZE" by (simp add: tss_bytes_def TSS_SIZE_def)
  then show ?thesis using tss_debug by (simp only: list.map tss_selectors tss_registers simp_thms)
qed

text \<open>After \<open>entry_tss\<close> the processor finds the first kernel stack, and after the start of a program the stack of its process.\<close>

lemma tss_stacks:
  "level0_stack (tss_bytes (tss_of (entry_tss ta tn d s))) = (ucast KERNEL_DS, 0x800000) \<and>
   load_le16 (tss_bytes (tss_of (entry_tss ta tn d s))) 96 = KERNEL_LDT \<and>
   (start_program as nd ep k s = Some (Enter ep' sp, t) \<longrightarrow>
      level0_stack (tss_bytes (tss_of t)) = (ucast KERNEL_DS, MB_8 - of_nat k * KB_8 - 4))"
  by (auto simp: level0_stack_def tss_selectors tss_registers tss_of_def entry_defs start_program_def Let_def split: option.splits)

end
