(* ===== verification/Startup.thy ===== *)
theory Startup
  imports Tss
begin

text \<open>
  The assembly at both ends of the boot: the entry point of \<^verbatim>\<open>src/student-distrib/boot.S\<close>, which the boot loader calls, and the
  tables of \<^verbatim>\<open>src/student-distrib/x86_desc.S\<close>. The addresses of the tables and of the instruction behind the call of \<open>entry\<close>
  are parameters.
\<close>

section \<open>The tables\<close>

text \<open>The header by which the boot loader recognises the kernel.\<close>

definition MULTIBOOT_HEADER_FLAGS :: u32 where "MULTIBOOT_HEADER_FLAGS = 0x00000003"
definition MULTIBOOT_HEADER_MAGIC :: u32 where "MULTIBOOT_HEADER_MAGIC = 0x1BADB002"

definition multiboot_header :: "u32 list" where
  "multiboot_header = [MULTIBOOT_HEADER_MAGIC, MULTIBOOT_HEADER_FLAGS, - (MULTIBOOT_HEADER_MAGIC + MULTIBOOT_HEADER_FLAGS)]"

text \<open>The words of the global descriptor table; the last two are at \<^verbatim>\<open>tss_desc_ptr\<close> and \<^verbatim>\<open>ldt_desc_ptr\<close>, where the kernel
  stores its descriptors.\<close>

definition gdt_quads :: "64 word list" where
  "gdt_quads = [0, 0, 0x00CF9A000000FFFF, 0x00CF92000000FFFF, 0x00CFFA000000FFFF, 0x00CFF2000000FFFF, 0, 0]"

definition quad :: "64 word \<Rightarrow> u32 \<times> u32" where
  "quad q = (ucast q, ucast (drop_bit 32 q))"

definition gdt :: "'a boot_state_scheme \<Rightarrow> (u32 \<times> u32) list" where
  "gdt s = map quad (take 6 gdt_quads) @ [seg_val (tss_desc_ptr s), seg_val (ldt_desc_ptr s)]"

text \<open>The sizes that the assembler computes, and the operands of \<^verbatim>\<open>lgdt\<close> and \<^verbatim>\<open>lidt\<close>: a limit and an address.\<close>

definition tss_size :: u32 where "tss_size = 104 - 1"
definition ldt_size :: u32 where "ldt_size = 4 * 8 - 1"

definition gdt_desc :: "u32 \<Rightarrow> u16 \<times> u32" where
  "gdt_desc gdt_addr = (of_nat (8 * length gdt_quads - 1), gdt_addr)"

definition idt_desc_ptr :: "u32 \<Rightarrow> u16 \<times> u32" where
  "idt_desc_ptr idt_addr = (of_nat (8 * NUM_VEC - 1), idt_addr)"

section \<open>The entry point\<close>

record start_state = boot_state +
  gdtr :: "u16 \<times> u32"
  idtr :: "u16 \<times> u32"
  cs :: u16
  ss :: u16
  ds :: u16
  es :: u16
  seg_fs :: u16
  seg_gs :: u16

definition lgdt :: "u16 \<times> u32 \<Rightarrow> 'a start_state_scheme \<Rightarrow> 'a start_state_scheme" where
  "lgdt desc s = s\<lparr>gdtr := desc\<rparr>"

definition lidt :: "u16 \<times> u32 \<Rightarrow> 'a start_state_scheme \<Rightarrow> 'a start_state_scheme" where
  "lidt desc s = s\<lparr>idtr := desc\<rparr>"

definition pushl :: "u32 \<Rightarrow> 'a start_state_scheme \<Rightarrow> 'a start_state_scheme" where
  "pushl v s = s\<lparr>esp := esp s - 4, ram := store_le32 (ram s) (esp s - 4) v\<rparr>"

definition start_code :: "u32 \<Rightarrow> u32 \<Rightarrow> u32 \<Rightarrow> u32 \<Rightarrow> u32 \<Rightarrow> 'a start_state_scheme \<Rightarrow> 'a start_state_scheme" where
  "start_code gdt_addr idt_addr halt eax ebx s =
     (let s = cli s;
          s = lgdt (gdt_desc gdt_addr) s;
          s = lidt (idt_desc_ptr idt_addr) s;
          s = s\<lparr>cs := KERNEL_CS\<rparr>;
          s = s\<lparr>esp := 0x800000\<rparr>;
          cx = ucast KERNEL_DS;
          s = s\<lparr>ss := cx, ds := cx, es := cx, seg_fs := cx, seg_gs := cx\<rparr>;
          s = pushl ebx s;
          s = pushl eax s
      in pushl halt s)"

text \<open>\<open>entry\<close> finds its arguments above the return address. Should it return, the processor halts in a loop: \<open>Returned\<close>.\<close>

definition start ::
  "device \<Rightarrow> (handler \<Rightarrow> u32) \<Rightarrow> u32 \<Rightarrow> u32 \<Rightarrow> u32 \<Rightarrow> u32 \<Rightarrow> u32 \<Rightarrow> seg_desc \<Rightarrow> seg_desc \<Rightarrow> mem \<Rightarrow> (nat \<Rightarrow> irq list) \<Rightarrow> cptr \<Rightarrow> u32 \<Rightarrow> u32 \<Rightarrow>
     'a start_state_scheme \<Rightarrow> 'a start_state_scheme boot_outcome option" where
  "start dev addr gdt_addr idt_addr ldt_addr tss_addr halt the_ldt_desc the_tss_desc junk evs shell eax ebx s =
     (let s = start_code gdt_addr idt_addr halt eax ebx s;
          arg = (\<lambda>i. load_le32 (view (ram s) (esp s)) (4 * i))
      in entry dev addr (ldt_addr, ldt_size) (tss_addr, tss_size) the_ldt_desc the_tss_desc junk evs shell (arg 1) (arg 2) s)"

section \<open>The arguments\<close>

lemma start_code_stack:
  "esp (start_code g i h eax ebx s) = 0x7FFFF4"
  "ram (start_code g i h eax ebx s) = store_le32 (store_le32 (store_le32 (ram s) 0x7FFFFC ebx) 0x7FFFF8 eax) 0x7FFFF4 h"
  by (simp_all add: start_code_def Let_def pushl_def lgdt_def lidt_def cli_def)

lemma start_code_args:
  "load_le32 (view (ram (start_code g i h eax ebx s)) 0x7FFFF4) 4 = eax"
  "load_le32 (view (ram (start_code g i h eax ebx s)) 0x7FFFF4) 8 = ebx"
  by (simp_all add: start_code_stack(2) store_le32_def load_le32_def view_def le32_join)

text \<open>The state in which \<open>entry\<close> is called: interrupts off, and all segment registers loaded.\<close>

lemma start_code_registers:
  "\<not> iflag (start_code ga ia h eax ebx s)" "gdtr (start_code ga ia h eax ebx s) = (63, ga)" "idtr (start_code ga ia h eax ebx s) = (2047, ia)"
  "cs (start_code ga ia h eax ebx s) = KERNEL_CS" "ss (start_code ga ia h eax ebx s) = 0x18" "ds (start_code ga ia h eax ebx s) = 0x18"
  "es (start_code ga ia h eax ebx s) = 0x18" "seg_fs (start_code ga ia h eax ebx s) = 0x18" "seg_gs (start_code ga ia h eax ebx s) = 0x18"
  by (simp_all add: start_code_def Let_def pushl_def lgdt_def lidt_def cli_def gdt_desc_def gdt_quads_def idt_desc_ptr_def NUM_VEC_def KERNEL_DS_def)

lemma multiboot_header_sum: "sum_list multiboot_header = 0"
  by (simp add: multiboot_header_def)

text \<open>
  The structure that \<^verbatim>\<open>x86_desc.h\<close> declares for these operands begins with its padding, but the labels stand behind it: read
  through the structure, the limit is in the padding, and the size is the low half of the address.
\<close>

record x86_desc =
  padding :: u16
  desc_size :: u16
  desc_addr :: u32

definition x86_desc_at :: "byte list \<Rightarrow> x86_desc" where
  "x86_desc_at bs = \<lparr>padding = load_le16 bs 0, desc_size = load_le16 bs 2, desc_addr = load_le32 (list_view bs) 4\<rparr>"

definition operand_bytes :: "u16 \<times> u32 \<Rightarrow> byte list" where
  "operand_bytes d = le16_bytes (fst d) @ le32_bytes (snd d)"

lemma x86_desc_shifted:
  "padding (x86_desc_at (operand_bytes d @ rest)) = fst d" "desc_size (x86_desc_at (operand_bytes d @ rest)) = ucast (snd d)"
proof -
  show "padding (x86_desc_at (operand_bytes d @ rest)) = fst d"
    using le16_read [of 0 "operand_bytes d @ rest" "fst d"] by (simp add: x86_desc_at_def operand_bytes_def le16_bytes_def)
  have "le16_bytes (ucast (snd d)) = take 2 (le32_bytes (snd d))"
    by (auto simp: le16_bytes_def le32_bytes_def intro!: bit_word_eqI simp: bit_simps)
  then show "desc_size (x86_desc_at (operand_bytes d @ rest)) = ucast (snd d)"
    using le16_read [of 2 "operand_bytes d @ rest" "ucast (snd d)"] by (simp add: x86_desc_at_def operand_bytes_def)
qed

section \<open>The segments\<close>

definition seg_dpl :: "u32 \<times> u32 \<Rightarrow> u32" where "seg_dpl v = drop_bit 13 (snd v) AND 3"
definition seg_pages :: "u32 \<times> u32 \<Rightarrow> bool" where "seg_pages v = bit (snd v) 23"

text \<open>The descriptor that a selector names in the table.\<close>

definition selected :: "u16 \<Rightarrow> 'a boot_state_scheme \<Rightarrow> u32 \<times> u32" where
  "selected sel s = gdt s ! (unat sel div 8)"

text \<open>A present segment over all of the memory, of a type and a privilege.\<close>

definition flat :: "u32 \<times> u32 \<Rightarrow> u32 \<Rightarrow> u32 \<Rightarrow> bool" where
  "flat v ty level \<longleftrightarrow> seg_base v = 0 \<and> seg_limit v = 0xFFFFF \<and> seg_pages v \<and> seg_present v \<and> seg_type v = ty \<and> seg_dpl v = level"

lemma gdt_segments:
  "flat (selected KERNEL_CS s) 0x1A 0" "flat (selected (ucast KERNEL_DS) s) 0x12 0"
  "flat (selected USER_CS s) 0x1A 3" "flat (selected USER_DS s) 0x12 3"
  by (simp_all add: flat_def selected_def gdt_def gdt_quads_def quad_def KERNEL_CS_def KERNEL_DS_def USER_CS_def USER_DS_def
      seg_base_def seg_limit_def seg_pages_def seg_present_def seg_type_def seg_dpl_def)

lemma system_segment:
  assumes "sd_sys d = 0" "sd_present d = 1" "lim < 0x100000"
  shows "seg_base (seg_val (SET_LDT_PARAMS a lim d)) = a \<and> seg_limit (seg_val (SET_LDT_PARAMS a lim d)) = lim \<and>
    seg_type (seg_val (SET_LDT_PARAMS a lim d)) = ucast (sd_type d) \<and> seg_present (seg_val (SET_LDT_PARAMS a lim d))"
proof -
  have "take_bit 20 lim = lim" using assms(3) by (simp add: word_unat_eq_iff unsigned_take_bit_eq take_bit_nat_eq_self word_less_nat_alt)
  moreover have "sd_sys (SET_LDT_PARAMS a lim d) = 0" "sd_present (SET_LDT_PARAMS a lim d) = 1" "sd_type (SET_LDT_PARAMS a lim d) = sd_type d"
    using assms by (simp_all add: SET_LDT_PARAMS_def)
  ultimately show ?thesis by (simp add: seg_base_set seg_limit_set seg_type_set seg_present_set)
qed

lemma set_params_type: "(SET_LDT_PARAMS a lim d)\<lparr>sd_type := ty\<rparr> = SET_LDT_PARAMS a lim (d\<lparr>sd_type := ty\<rparr>)"
  by (simp add: SET_LDT_PARAMS_def)

lemma gdt_system:
  fixes s t :: "'a boot_state_scheme"
  assumes "same_descriptors (entry_tss ta tss_size td (entry_ldt la ldt_size ld s)) t"
  shows "tr t = KERNEL_TSS \<and> seg_base (selected KERNEL_TSS t) = ta \<and> seg_limit (selected KERNEL_TSS t) = 103 \<and>
      seg_type (selected KERNEL_TSS t) = 0xB \<and> seg_present (selected KERNEL_TSS t)"
    and "ldtr t = KERNEL_LDT \<and> seg_base (selected KERNEL_LDT t) = la \<and> seg_limit (selected KERNEL_LDT t) = 31 \<and>
      seg_type (selected KERNEL_LDT t) = 2 \<and> seg_present (selected KERNEL_LDT t)"
    and "boot_state.more t = boot_state.more s"
proof -
  have g: "selected KERNEL_TSS t = seg_val (tss_desc_ptr t)" "selected KERNEL_LDT t = seg_val (ldt_desc_ptr t)"
    by (simp_all add: selected_def gdt_def gdt_quads_def KERNEL_TSS_def KERNEL_LDT_def)
  obtain d where "tss_desc_ptr t = SET_LDT_PARAMS ta 103 d" "sd_sys d = 0" "sd_present d = 1" "sd_type d = 0xB"
    using assms by (simp add: same_descriptors_def entry_defs Let_def set_params_same set_params_type tss_size_def) (simp add: SET_LDT_PARAMS_def)
  then show "tr t = KERNEL_TSS \<and> seg_base (selected KERNEL_TSS t) = ta \<and> seg_limit (selected KERNEL_TSS t) = 103 \<and>
      seg_type (selected KERNEL_TSS t) = 0xB \<and> seg_present (selected KERNEL_TSS t)"
    using system_segment [of d 103 ta] assms by (simp add: g same_descriptors_def entry_defs Let_def)
  obtain d where "ldt_desc_ptr t = SET_LDT_PARAMS la 31 d" "sd_sys d = 0" "sd_present d = 1" "sd_type d = 2"
    using assms by (simp add: same_descriptors_def entry_defs Let_def ldt_size_def)
  then show "ldtr t = KERNEL_LDT \<and> seg_base (selected KERNEL_LDT t) = la \<and> seg_limit (selected KERNEL_LDT t) = 31 \<and>
      seg_type (selected KERNEL_LDT t) = 2 \<and> seg_present (selected KERNEL_LDT t)"
    using system_segment [of d 31 la] assms by (simp add: g same_descriptors_def entry_defs Let_def)
  show "boot_state.more t = boot_state.more s" using assms by (simp add: same_descriptors_def entry_defs Let_def)
qed

section \<open>Properties\<close>

text \<open>C19. The boot, from the first instruction on: the entry point passes its registers as the arguments of
  \<open>entry\<close>, in a stack below 8 MiB. Suppose that the report to the screen has ended without an error and
  with the cursor at most at row 203 (the last whole row that the page table maps), that no process is marked as
  active, that the module which the boot loader passed is an image in the kernel's page of 4 to 8 MiB with an
  executable shell, and that the only interrupts between \<open>rtc_init\<close> and the shell are ticks of the clock,
  any number of them after each call (no key is pressed during the boot). Then the shell is started. One process runs
  then, with its page and its kernel stack; exactly the interrupt lines of the keyboard, the cascade and the clock are
  let through; the interrupt table is the one of \<open>idt_init\<close>; the selectors of the kernel and of programs
  name flat segments of privilege 0 and 3; and the task register and the register of the local table hold selectors of
  present descriptors for the task state segment and for the local table.\<close>

theorem start_boots:
  fixes s r :: "'a start_state_scheme"
  assumes "entry_report junk eax ebx (start_code ga ia h eax ebx s) = Some (True, r)" "masks_readable dev" "\<And>i. set (evs i) \<subseteq> {Rtc_irq}"
    and "cursor_ok 203 r" "pcbs_ok 0 (curr_pcb r)" "paging_ok r"
    and "shell_image (ram r) (mod_start r (mbi_mods_addr r ebx))"
  shows "\<exists>e t. start dev addr ga ia la ta h ld td junk evs (list_view (ascii ''shell'' @ 0 # bs)) eax ebx s =
      Some (Started e (MB_132 - 4) t) \<and> stack_ok 1 t \<and> irqs_enabled t = {1, 2, 8} \<and> idt t = idt_init addr (idt r) \<and>
      flat (selected KERNEL_CS t) 0x1A 0 \<and> flat (selected (ucast KERNEL_DS) t) 0x12 0 \<and>
      flat (selected USER_CS t) 0x1A 3 \<and> flat (selected USER_DS t) 0x12 3 \<and>
      tr t = KERNEL_TSS \<and> seg_base (selected KERNEL_TSS t) = ta \<and> seg_limit (selected KERNEL_TSS t) = 103 \<and>
      seg_type (selected KERNEL_TSS t) = 0xB \<and> seg_present (selected KERNEL_TSS t) \<and>
      ldtr t = KERNEL_LDT \<and> seg_base (selected KERNEL_LDT t) = la \<and> seg_limit (selected KERNEL_LDT t) = 31 \<and>
      seg_type (selected KERNEL_LDT t) = 2 \<and> seg_present (selected KERNEL_LDT t)"
proof -
  let ?sh = "list_view (ascii ''shell'' @ 0 # bs)"
  obtain e t where t: "entry dev addr (la, ldt_size) (ta, tss_size) ld td junk evs ?sh eax ebx (start_code ga ia h eax ebx s) =
      Some (Started e (MB_132 - 4) t)" "stack_ok 1 t" "irqs_enabled t = {1, 2, 8}" "idt t = idt_init addr (idt r)"
      "same_descriptors (entry_tss ta tss_size td (entry_ldt la ldt_size ld r)) t"
    using entry_starts_shell [OF assms(1,2) _ assms(4-7), of evs addr "(la, ldt_size)" "(ta, tss_size)" ld td bs] assms(3) by auto
  have "start dev addr ga ia la ta h ld td junk evs ?sh eax ebx s = Some (Started e (MB_132 - 4) t)"
    using t(1) start_code_args [of ga ia h eax ebx s] by (simp add: start_def Let_def start_code_stack(1))
  then show ?thesis using t(2-4) gdt_segments [of t] gdt_system(1,2) [OF t(5)] by blast
qed

text \<open>The state in which a boot loader that sets no flag leaves the machine.\<close>

definition loaded_kernel :: start_state where
  "loaded_kernel = boot_state.extend boot_kernel
     \<lparr>gdtr = (0, 0), idtr = (0, 0), cs = 0, ss = 0, ds = 0, es = 0, seg_fs = 0, seg_gs = 0\<rparr>"

lemma loaded_kernel_start:
  fixes ga ia h eax ebx :: u32
  defines "s \<equiv> start_code ga ia h eax ebx loaded_kernel"
  shows "screen_x s = 0" "screen_y s = 0" "curr_pcb s = replicate 6 blank_pcb" "paging_ok s"
    and "a < 0x700000 \<Longrightarrow> ram s a = ram boot_kernel a"
proof -
  show "a < 0x700000 \<Longrightarrow> ram s a = ram boot_kernel a"
    by (auto simp: s_def start_code_stack(2) store_le32_def loaded_kernel_def boot_state.defs)
  show "screen_x s = 0" "screen_y s = 0" "curr_pcb s = replicate 6 blank_pcb" "paging_ok s"
    using boot_kernel_fields boot_kernel_paging
    by (simp_all add: s_def start_code_def Let_def pushl_def lgdt_def lidt_def cli_def loaded_kernel_def boot_state.defs paging_ok_def)
qed

theorem start_boots_witness:
  "\<exists>e (t :: start_state). start pic_device (\<lambda>_. 0x400000) 0 0 0x402000 0x401000 0x400050 zero_seg zero_seg (\<lambda>_. 0) (\<lambda>_. [Rtc_irq])
      (list_view (ascii ''shell'' @ 0 # [])) 0x2BADB002 0x10000 loaded_kernel = Some (Started e 0x083FFFFC t) \<and>
      stack_ok 1 t \<and> seg_base (selected KERNEL_TSS t) = 0x401000"
proof -
  let ?r0 = "start_code 0 0 0x400050 MULTIBOOT_BOOTLOADER_MAGIC 0x10000 loaded_kernel"
  note low = outside_window and s = loaded_kernel_start [where ga = 0 and ia = 0 and h = "0x400050" and eax = MULTIBOOT_BOOTLOADER_MAGIC and ebx = "0x10000"]
  have "mbi_flags ?r0 0x10000 = 0" by (simp add: mbi_flags_def mb_field_def load_le32_def view_def s(5) boot_kernel_low)
  moreover have "\<not> video_window (0x10000 + of_nat i)" if "i < 4" for i :: nat
  proof (rule low, rule disjI1)
    show "0x10000 + word_of_nat i < (0xB8000 :: u32)" using that by (simp add: word_less_nat_alt unat_of_nat unat_word_ariths)
  qed
  moreover have "cursor_ok 24 ?r0" by (simp add: cursor_ok_def s)
  ultimately obtain r where r: "entry_report (\<lambda>_. 0) MULTIBOOT_BOOTLOADER_MAGIC 0x10000 ?r0 = Some (True, r)" "cursor_ok 203 r"
      "console_state.more r = console_state.more ?r0" "\<forall>a. \<not> video_window a \<longrightarrow> ram r a = ram ?r0 a"
    using entry_report_no_flags [of ?r0 "0x10000" "\<lambda>_. 0"] by blast
  have k: "same_kernel ?r0 r" "curr_pcb r = curr_pcb ?r0" using same_kernel_beyond [OF console_more_keyboard [OF r(3)]] by simp_all
  have p: "pcbs_ok 0 (curr_pcb r)" unfolding k(2) s(3) by (simp add: pcbs_ok_def pcb_ok_def fds_ok_def blank_pcb_def blank_fd_def)
  have pg: "paging_ok r" using s(4) k(1) by (simp add: paging_ok_def same_kernel_def)
  have m1: "mbi_mods_addr r 0x10000 = 0x20000"
    by (simp add: mbi_mods_addr_def mb_field_def load_le32_def view_def r(4) low s(5) boot_kernel_fields exe_image_beyond)
  have m2: "mod_start r 0x20000 = 0x600000"
    by (simp add: mod_start_def mb_field_def load_le32_def view_def r(4) low s(5) boot_kernel_fields exe_image_beyond)
  have img: "shell_image (ram r) 0x600000" using r(4) s(5) by (intro boot_kernel_image) simp
  show ?thesis
    using start_boots [OF r(1) pic_device_readable _ r(2) p pg, where evs = "\<lambda>_. [Rtc_irq]" and bs = "[]"
        and addr = "\<lambda>_. 0x400000" and la = "0x402000" and ta = "0x401000" and ld = zero_seg and td = zero_seg] m1 m2 img
    by (auto simp: MULTIBOOT_BOOTLOADER_MAGIC_def MB_132_def)
qed

end
