(* ===== verification/Tests.thy ===== *)
theory Tests
  imports Boot Tss UserInput UserErrors
begin

text \<open>
  The tests of \<^verbatim>\<open>src/student-distrib/tests.c\<close>, which call the functions of the kernel directly, and what they give on the
  model of the kernel: which of them pass, which one cannot, and which never end.
\<close>

section \<open>The tests\<close>

text \<open>
  What a test depends on beside the kernel: the contents of the stack below it, the addresses of the string literals,
  the handler at an address of code, and what lies on the stack when an exception is raised. A test returns, or it
  stops in the loop of an exception handler.
\<close>

record test_env =
  stack_junk :: mem
  literal :: "string \<Rightarrow> u32"
  code_at :: "u32 \<Rightarrow> handler"
  pushed_regs :: "u32 list"
  pushed_flags :: u32
  pushed_stack :: "u32 list"

datatype 's tested = Returns int 's | Stops 's

definition PASS :: int where "PASS = 1"
definition FAIL :: int where "FAIL = 0"

definition TEST_HEADER :: "test_env \<Rightarrow> string \<Rightarrow> nat \<Rightarrow> 'a console_state_scheme \<Rightarrow> 'a console_state_scheme option" where
  "TEST_HEADER env fn line s =
     say (stack_junk env) (''[TEST %s] Running %s at %s:%d'' @ nl)
       [literal env fn, literal env fn, literal env ''tests.c'', of_nat line] s"

definition TEST_OUTPUT :: "test_env \<Rightarrow> string \<Rightarrow> int \<Rightarrow> 'a console_state_scheme \<Rightarrow> 'a console_state_scheme option" where
  "TEST_OUTPUT env nm result s =
     say (stack_junk env) (''[TEST %s] Result = %s'' @ nl)
       [literal env nm, literal env (if result \<noteq> 0 then ''PASS'' else ''FAIL'')] s"

text \<open>An exception goes through the gate of its vector; \<open>assertion_failure\<close> is the instruction \<^verbatim>\<open>int $15\<close> at privilege 0.\<close>

definition raise_vector :: "test_env \<Rightarrow> u32 \<Rightarrow> nat \<Rightarrow> 'a boot_state_scheme \<Rightarrow> 'a boot_state_scheme tested option" where
  "raise_vector env cr2 v s =
     map_option (\<lambda>x. case x of Stuck t \<Rightarrow> Stops t)
       (exception_handler (stack_junk env) cr2 (pushed_regs env) (pushed_flags env) (pushed_stack env)
          (code_at env (gate_offset (idt_val (idt s ! v)))) s)"

definition assertion_failure :: "test_env \<Rightarrow> 'a boot_state_scheme \<Rightarrow> 'a boot_state_scheme tested option" where
  "assertion_failure env s =
     (case int_n (idt s) 0 15 of To a \<Rightarrow> raise_vector env 0 15 s | Fault v \<Rightarrow> raise_vector env 0 v s)"

text \<open>What follows an assertion, if it should return.\<close>

definition after_failure ::
  "'a boot_state_scheme tested option \<Rightarrow> ('a boot_state_scheme \<Rightarrow> 'a boot_state_scheme tested option) \<Rightarrow> 'a boot_state_scheme tested option" where
  "after_failure x f = (case x of Some (Returns r s) \<Rightarrow> f s | _ \<Rightarrow> x)"

primrec idt_test_loop :: "test_env \<Rightarrow> nat list \<Rightarrow> int \<Rightarrow> 'a boot_state_scheme \<Rightarrow> 'a boot_state_scheme tested option" where
  "idt_test_loop env [] result s = Some (Returns result s)"
| "idt_test_loop env (i # is) result s =
     (if offset_15_00 (idt s ! i) = 0 \<and> offset_31_16 (idt s ! i) = 0
      then after_failure (assertion_failure env s) (idt_test_loop env is FAIL)
      else idt_test_loop env is result s)"

definition idt_test :: "test_env \<Rightarrow> 'a boot_state_scheme \<Rightarrow> 'a boot_state_scheme tested option" where
  "idt_test env s = do { s \<leftarrow> TEST_HEADER env ''idt_test'' 38 s; idt_test_loop env [0..<10] PASS s }"

definition idt_test_div_by_zero :: "test_env \<Rightarrow> 'a boot_state_scheme \<Rightarrow> 'a boot_state_scheme tested option" where
  "idt_test_div_by_zero env s = do { s \<leftarrow> TEST_HEADER env ''idt_test_div_by_zero'' 64 s; Some (Returns PASS s) }"

definition page_fault :: "test_env \<Rightarrow> 'a boot_state_scheme \<Rightarrow> 'a boot_state_scheme tested option" where
  "page_fault env s =
     do { s \<leftarrow> TEST_HEADER env ''page_fault'' 84 s;
          s \<leftarrow> say (stack_junk env) (''size of unions: %d, %d'' @ nl) [4, 4] s;
          case page_walk s False False 0 of None \<Rightarrow> raise_vector env 0 14 s | Some _ \<Rightarrow> Some (Returns PASS s) }"

definition buffer_test_overflow :: "test_env \<Rightarrow> 'a boot_state_scheme \<Rightarrow> 'a boot_state_scheme tested option" where
  "buffer_test_overflow env s =
     do { s \<leftarrow> TEST_HEADER env ''buffer_test_overflow'' 98 s;
          let s = snd (terminal_open None s);
              (out, s) = terminal_write (Some (list_view (ascii
                ''This is a long string that should cause overflow in this test yada yada yada we are in ece 391 adn this is mp three cehckpoint two yada yada yada.''))) 146 s;
              s = snd (terminal_close 0 s)
          in Some (Returns (if out \<noteq> -1 then FAIL else PASS) s) }"

definition buffer_test_underflow :: "test_env \<Rightarrow> 'a boot_state_scheme \<Rightarrow> 'a boot_state_scheme tested option" where
  "buffer_test_underflow env s =
     do { s \<leftarrow> TEST_HEADER env ''buffer_test_underflow'' 115 s;
          let s = snd (terminal_open None s);
              (out, s) = terminal_write (Some (list_view (ascii (''hopefully this is fourty chars long   '' @ nl)))) 40 s;
              s = snd (terminal_close 0 s)
          in Some (Returns (if out \<noteq> -1 then PASS else FAIL) s) }"

text \<open>One round of \<open>terminal_read_test\<close>, with the array before and after it, and the loop, which has no exit.\<close>

definition terminal_read_round ::
  "device \<Rightarrow> byte list \<times> irq list \<times> 'a keyboard_state_scheme \<Rightarrow> (byte list \<times> irq list \<times> 'a keyboard_state_scheme) option" where
  "terminal_read_round dev = (\<lambda>(buf, evs, s).
     case terminal_read dev evs (Some (list_view buf)) 128 s of
       None \<Rightarrow> None
     | Some (n, bs, rest, s) \<Rightarrow>
         let buf = bs @ drop (length bs) buf
         in Some (buf, rest, snd (terminal_write (Some (list_view buf)) n s)))"

partial_function (option) terminal_read_loop ::
  "device \<Rightarrow> byte list \<times> irq list \<times> 'a keyboard_state_scheme \<Rightarrow> 'a keyboard_state_scheme option" where
  "terminal_read_loop dev x = do { x \<leftarrow> terminal_read_round dev x; terminal_read_loop dev x }"

definition terminal_read_test ::
  "test_env \<Rightarrow> device \<Rightarrow> byte list \<Rightarrow> irq list \<Rightarrow> 'a boot_state_scheme \<Rightarrow> 'a boot_state_scheme tested option" where
  "terminal_read_test env dev buf evs s =
     do { s \<leftarrow> TEST_HEADER env ''terminal_read_test'' 131 s;
          s \<leftarrow> terminal_read_loop dev (buf, evs, snd (terminal_open None s));
          Some (Returns PASS (snd (terminal_close 0 s))) }"

definition rtc_freq_invalid_test :: "test_env \<Rightarrow> int \<Rightarrow> 'a boot_state_scheme \<Rightarrow> 'a boot_state_scheme tested option" where
  "rtc_freq_invalid_test env freq s =
     do { s \<leftarrow> TEST_HEADER env ''rtc_freq_invalid_test'' 143 s;
          let (out, s) = rtc_write (Some (list_view (le32_bytes (w32 freq)))) 4 s
          in if out \<noteq> -1 then after_failure (assertion_failure env s) (\<lambda>s. Some (Returns FAIL s)) else Some (Returns PASS s) }"

text \<open>The body that the three tests of files share: they look the name up, open the file and read descriptor 0. The first
  lookup only fills a directory entry that is not used.\<close>

definition read_file_body :: "string \<Rightarrow> int \<Rightarrow> 'a boot_state_scheme \<Rightarrow> 'a boot_state_scheme tested option" where
  "read_file_body fn n s =
     do { (_, s) \<leftarrow> file_open (list_view (ascii fn)) s;
          (c, bs, s) \<leftarrow> file_read 0 n s;
          let s = clear s;
              s = fold (\<lambda>i. putc_term (bs ! i)) [0..<nat c] s;
              s = putc_term 0x0A s
          in Some (Returns PASS s) }"

definition read_file_by_name_test :: "test_env \<Rightarrow> 'a boot_state_scheme \<Rightarrow> 'a boot_state_scheme tested option" where
  "read_file_by_name_test env s =
     do { s \<leftarrow> TEST_HEADER env ''read_file_by_name_test'' 159 s; read_file_body ''frame0.txt'' 284 s }"

definition read_file_by_name_test2 :: "test_env \<Rightarrow> 'a boot_state_scheme \<Rightarrow> 'a boot_state_scheme tested option" where
  "read_file_by_name_test2 env s =
     do { s \<leftarrow> TEST_HEADER env ''read_file_by_name_test2'' 181 s; read_file_body ''verylargetextwithverylongname.tx'' 5310 s }"

definition read_file_by_name_test_executable :: "test_env \<Rightarrow> 'a boot_state_scheme \<Rightarrow> 'a boot_state_scheme tested option" where
  "read_file_by_name_test_executable env s =
     do { s \<leftarrow> TEST_HEADER env ''read_file_by_name_test_executable'' 203 s; read_file_body ''ls'' 5349 s }"

definition check_bad_input :: "'a boot_state_scheme \<Rightarrow> 'a boot_state_scheme tested option" where
  "check_bad_input s =
     (let fn = list_view (ascii ''troll'') in
      if fst (read_dentry_by_name (fs s) fn) = 0 then Some (Returns FAIL s)
      else if fst (read_dentry_by_index (fs s) 65) = 0 then Some (Returns FAIL s)
      else if fst (read_data (fs s) 65 2 1) = 0 then Some (Returns FAIL s)
      else do { (r, s) \<leftarrow> file_open fn s; Some (Returns (if r = 0 then FAIL else PASS) s) })"

partial_function (option) change_rtc_freq_loop :: "device \<Rightarrow> cptr \<Rightarrow> irq list \<Rightarrow> 'a boot_state_scheme \<Rightarrow> 'a boot_state_scheme option" where
  "change_rtc_freq_loop dev p evs s =
     do { (_, evs, s) \<leftarrow> rtc_read (isr dev) evs (Some p) s;
          change_rtc_freq_loop dev p evs (putc_term 0x31 s) }"

text \<open>C leaves a shift by a negative number or by more than 31 open.\<close>

definition change_rtc_freq_test :: "test_env \<Rightarrow> device \<Rightarrow> int \<Rightarrow> irq list \<Rightarrow> 'a boot_state_scheme \<Rightarrow> 'a boot_state_scheme tested option" where
  "change_rtc_freq_test env dev rate evs s =
     do { s \<leftarrow> TEST_HEADER env ''change_rtc_freq_test'' 253 s;
          let s = clear s;
              p = list_view (le32_bytes (drop_bit (nat (rate - 1)) 32768));
              s = snd (rtc_open None s);
              (out, s) = rtc_write (Some p) 4 s
          in if rate < 1 \<or> 32 < rate then None else if out \<noteq> -1 then map_option (Returns PASS) (change_rtc_freq_loop dev p evs s) else Some (Returns PASS s) }"

partial_function (option) list_all_files_loop :: "int \<Rightarrow> byte list \<Rightarrow> 'a process_state_scheme \<Rightarrow> 'a process_state_scheme option" where
  "list_all_files_loop n ls_buffer s =
     (if n = -1 then Some s
      else let s = fold (\<lambda>i. putc_term (ls_buffer ! i)) [0..<nat n] s;
               s = putc_term 0x0A s
           in do { (n, bs, s) \<leftarrow> dir_read 0 32 s; list_all_files_loop n (bs @ drop (length bs) ls_buffer) s })"

definition list_all_files_test :: "byte list \<Rightarrow> 'a process_state_scheme \<Rightarrow> 'a process_state_scheme tested option" where
  "list_all_files_test ls_buffer s =
     do { (n, bs, s) \<leftarrow> dir_read 0 32 (clear s);
          s \<leftarrow> list_all_files_loop n (bs @ drop (length bs) ls_buffer) s;
          Some (Returns PASS s) }"

definition KB_4 :: u32 where "KB_4 = 0x1000"

text \<open>\<open>blah\<close> is the literal, with the bytes that follow it in memory.\<close>

definition check_bad_input_2 :: "cptr \<Rightarrow> cptr \<Rightarrow> 'a process_state_scheme \<Rightarrow> 'a process_state_scheme tested option" where
  "check_bad_input_2 shell blah s =
     (case sys_execute shell blah s of
        Some (Ret valid, s) \<Rightarrow>
          if valid \<noteq> -1 then Some (Returns FAIL s)
          else do { (r, s) \<leftarrow> sys_vidmap (MB_128 - KB_4) s;
                    if r \<noteq> -1 then Some (Returns FAIL s)
                    else do { (r, s) \<leftarrow> sys_vidmap (MB_132 + KB_4) s;
                              if r \<noteq> -1 then Some (Returns FAIL s)
                              else do { (r, s) \<leftarrow> sys_vidmap (MB_128 + KB_4) s;
                                        Some (Returns (if r = -1 then FAIL else PASS) s) } } }
      | _ \<Rightarrow> None)"

definition launch_tests :: "test_env \<Rightarrow> device \<Rightarrow> byte list \<Rightarrow> irq list \<Rightarrow> 'a boot_state_scheme \<Rightarrow> 'a boot_state_scheme option" where
  "launch_tests env dev buf evs s =
     (case terminal_read_test env dev buf evs s of
        Some (Returns r s) \<Rightarrow> TEST_OUTPUT env ''terminal test'' r s
      | _ \<Rightarrow> None)"

section \<open>Formats with strings\<close>

text \<open>A string in memory, outside of the addresses that printing may change.\<close>

definition text_at :: "mem \<Rightarrow> u32 \<Rightarrow> byte list \<Rightarrow> bool" where
  "text_at m a w \<longleftrightarrow> 0 \<notin> set w \<and> (\<forall>i \<le> length w. \<not> video_window (a + of_nat i) \<and> m (a + of_nat i) = (w @ [0]) ! i)"

lemma text_at_string:
  assumes "text_at m a w" "\<And>x. \<not> video_window x \<Longrightarrow> m' x = m x"
  shows "is_cstring (view m' a) (length w)" "view_take (view m' a) (length w) = w"
proof -
  have "view m' a i = (w @ [0]) ! i" if "i \<le> length w" for i using assms that by (simp add: text_at_def view_def)
  then have v: "view m' a i = w ! i" "view m' a (length w) = 0" if "i < length w" for i using that by (simp_all add: nth_append)
  have e: "view m' a (length w) = 0" using assms by (simp add: text_at_def view_def)
  show "view_take (view m' a) (length w) = w" using v(1) by (intro nth_equalityI) simp_all
  show "is_cstring (view m' a) (length w)" using v(1) e assms(1) nth_mem by (fastforce simp: is_cstring_def text_at_def)
qed

lemma printf_loop_string:
  assumes "0 \<notin> set cs" "0x25 \<notin> set cs" "text_at m (stk k) w" "\<And>x. \<not> video_window x \<Longrightarrow> ram (fold putc cs s) x = m x"
  shows "printf_loop junk (list_view (pre @ cs @ 0x25 # 0x73 # ds)) stk (length pre) k s =
    printf_loop junk (list_view ((pre @ cs @ [0x25, 0x73]) @ ds)) stk (length (pre @ cs @ [0x25, 0x73])) (Suc k) (fold putc (cs @ w) s)"
  using assms
proof (induction cs arbitrary: pre s)
  case Nil
  have "puts (view (ram s) (stk k)) s = Some (length w, fold putc w s)"
    using puts_fold [OF text_at_string(1) [OF assms(3)], of "ram s" s] text_at_string(2) [OF assms(3), of "ram s"] Nil.prems(4) by simp
  moreover have "list_view (pre @ 0x25 # 0x73 # ds) (Suc (length pre)) = 0x73" by (simp add: list_view_def nth_append)
  ultimately have "printf_conv junk (list_view (pre @ 0x25 # 0x73 # ds)) stk False (Suc (length pre)) k s = Some (Suc (length pre), Suc k, fold putc w s)"
    by (subst printf_conv.simps) simp
  then show ?case by (subst printf_loop.simps) (simp add: list_view_at)
next
  case (Cons c cs)
  then have "printf_loop junk (list_view ((pre @ [c]) @ cs @ 0x25 # 0x73 # ds)) stk (length (pre @ [c])) k (putc c s) =
      printf_loop junk (list_view (((pre @ [c]) @ cs @ [0x25, 0x73]) @ ds)) stk (length ((pre @ [c]) @ cs @ [0x25, 0x73])) (Suc k)
        (fold putc (cs @ w) (putc c s))"
    by (intro Cons.IH) simp_all
  then show ?case using Cons.prems(1,2) by (subst printf_loop.simps) (simp add: list_view_at)
qed

text \<open>The header of a test: it prints its text, and the kernel behind the console is as before.\<close>

lemma header_prints:
  assumes "cursor_ok 24 s" "text_at (ram s) (literal env fn) (ascii fn)" "text_at (ram s) (literal env ''tests.c'') (ascii ''tests.c'')"
    and "length fn \<le> 60"
  shows "\<exists>t. TEST_HEADER env fn line s = Some t \<and> console_state.more t = console_state.more s \<and> io_log t = io_log s \<and>
    (\<forall>a. \<not> video_window a \<longrightarrow> ram t a = ram s a) \<and> cursor_ok 300 t"
proof -
  let ?w = "ascii fn" and ?f = "ascii ''tests.c''" and ?x = "[0x3A, 0x25, 0x64, 0x0A] :: byte list"
  define p1 p2 p3 where p: "p1 = ascii ''[TEST ''" "p2 = ascii ''] Running ''" "p3 = ascii '' at ''"
  let ?stk = "\<lambda>i. if i < length [literal env fn, literal env fn, literal env ''tests.c'', of_nat line]
    then [literal env fn, literal env fn, literal env ''tests.c'', of_nat line] ! i else 0"
  have pl: "0 \<notin> set p1" "0x25 \<notin> set p1" "0 \<notin> set p2" "0x25 \<notin> set p2" "0 \<notin> set p3" "0x25 \<notin> set p3"
      "length p1 = 6" "length p2 = 10" "length p3 = 4" "length ?f = 7"
    by (simp_all add: p ascii_def)
  have mem: "ram (fold putc cs s) x = ram s x" if "length cs \<le> 900" "\<not> video_window x" for cs x
    using fold_putc_window [OF assms(1), of cs] that by simp
  define out where "out = p1 @ ?w @ p2 @ ?w @ p3 @ ?f @ 0x3A # dec_text (of_nat line) @ [0x0A]"
  have fmt: "ascii (''[TEST %s] Running %s at %s:%d'' @ nl) = p1 @ 0x25 # 0x73 # p2 @ 0x25 # 0x73 # p3 @ 0x25 # 0x73 # ?x"
    by (simp add: p ascii_def nl_def)
  have 1: "printf_loop j (list_view (pre @ p1 @ 0x25 # 0x73 # ds)) ?stk (length pre) 0 s =
      printf_loop j (list_view ((pre @ p1 @ [0x25, 0x73]) @ ds)) ?stk (length (pre @ p1 @ [0x25, 0x73])) (Suc 0) (fold putc (p1 @ ?w) s)" for j pre ds
    using assms(2) pl mem by (intro printf_loop_string [where m = "ram s"]) simp_all
  have 2: "printf_loop j (list_view (pre @ p2 @ 0x25 # 0x73 # ds)) ?stk (length pre) (Suc 0) (fold putc (p1 @ ?w) s) =
      printf_loop j (list_view ((pre @ p2 @ [0x25, 0x73]) @ ds)) ?stk (length (pre @ p2 @ [0x25, 0x73])) (Suc (Suc 0))
        (fold putc (p2 @ ?w) (fold putc (p1 @ ?w) s))" for j pre ds
    using assms(2,4) pl mem [of "p1 @ ?w @ p2"] by (intro printf_loop_string [where m = "ram s"]) simp_all
  have 3: "printf_loop j (list_view (pre @ p3 @ 0x25 # 0x73 # ds)) ?stk (length pre) (Suc (Suc 0)) (fold putc (p2 @ ?w) (fold putc (p1 @ ?w) s)) =
      printf_loop j (list_view ((pre @ p3 @ [0x25, 0x73]) @ ds)) ?stk (length (pre @ p3 @ [0x25, 0x73])) (Suc (Suc (Suc 0)))
        (fold putc (p3 @ ?f) (fold putc (p2 @ ?w) (fold putc (p1 @ ?w) s)))" for j pre ds
    using assms(3,4) pl mem [of "p1 @ ?w @ p2 @ ?w @ p3"] by (intro printf_loop_string [where m = "ram s"]) simp_all
  have 4: "printf_loop j (list_view (pre @ ?x)) ?stk (length pre) (Suc (Suc (Suc 0))) u =
      Some (length pre + 4, fold putc (0x3A # dec_text (of_nat line) @ [0x0A]) u)" for j pre u
    using printf_loop_text(1) [of ?stk 3 ?x "0x3A # dec_text (of_nat line) @ [0x0A]" j pre u] by (simp add: numeral_3_eq_3)
  have "TEST_HEADER env fn line s = Some (fold putc out s)"
    using 1 [of "stack_junk env" "[]" "p2 @ 0x25 # 0x73 # p3 @ 0x25 # 0x73 # ?x"]
      2 [of "stack_junk env" "[] @ p1 @ [0x25, 0x73]" "p3 @ 0x25 # 0x73 # ?x"]
      3 [of "stack_junk env" "([] @ p1 @ [0x25, 0x73]) @ p2 @ [0x25, 0x73]" ?x]
      4 [of "stack_junk env" "(([] @ p1 @ [0x25, 0x73]) @ p2 @ [0x25, 0x73]) @ p3 @ [0x25, 0x73]"
        "fold putc (p3 @ ?f) (fold putc (p2 @ ?w) (fold putc (p1 @ ?w) s))"]
    unfolding TEST_HEADER_def say_def printf_def fmt by (simp add: out_def)
  moreover have "length out \<le> 200" using pl assms(4) length_dec_text [of "of_nat line"] by (simp add: out_def)
  then have "cursor_ok (24 + length out) (fold putc out s) \<and> console_state.more (fold putc out s) = console_state.more s \<and>
      io_log (fold putc out s) = io_log s \<and> (\<forall>a. \<not> video_window a \<longrightarrow> ram (fold putc out s) a = ram s a)" "24 + length out \<le> 300"
    using fold_putc_window [OF assms(1), of out] by simp_all
  ultimately show ?thesis by (auto simp: cursor_ok_def)
qed

section \<open>Tests that return\<close>

lemma console_more_idt: "console_state.more t = console_state.more s \<Longrightarrow> idt t = idt (s :: 'a boot_state_scheme)"
  by (cases s; cases t) simp

lemma console_more_walk: "console_state.more t = console_state.more s \<Longrightarrow> page_walk t = page_walk (s :: 'a boot_state_scheme)"
  by (cases s; cases t) (simp add: page_walk_def pde_walk_def fun_eq_iff)

lemma fold_putc_more: "console_state.more (fold putc cs s) = console_state.more s"
  by (induction cs arbitrary: s) (simp_all add: putc_def Let_def)

lemma idt_offsets: "gate_offset (idt_val d) \<noteq> 0 \<Longrightarrow> offset_15_00 d \<noteq> 0 \<or> offset_31_16 d \<noteq> 0"
proof (rule ccontr)
  assume g: "gate_offset (idt_val d) \<noteq> 0" "\<not> (offset_15_00 d \<noteq> 0 \<or> offset_31_16 d \<noteq> 0)"
  have "gate_offset (idt_val d) = 0"
    by (rule bit_word_eqI) (use g(2) in \<open>auto simp: gate_offset_def bit_or_iff bit_masked idt_val_bits\<close>)
  then show False using g(1) by simp
qed

lemma idt_test_loop_passes:
  "(\<And>i. i \<in> set is \<Longrightarrow> gate_offset (idt_val (idt s ! i)) \<noteq> 0) \<Longrightarrow> idt_test_loop env is result s = Some (Returns result s)"
proof (induction "is")
  case (Cons i "is")
  have "\<not> (offset_15_00 (idt s ! i) = 0 \<and> offset_31_16 (idt s ! i) = 0)" using idt_offsets [of "idt s ! i"] Cons.prems [of i] by simp
  then show ?case using Cons by (simp only: idt_test_loop.simps(2) if_False list.set insert_iff simp_thms)
qed simp

lemma idt_test_passes:
  assumes "cursor_ok 24 s" "text_at (ram s) (literal env ''idt_test'') (ascii ''idt_test'')"
    and "text_at (ram s) (literal env ''tests.c'') (ascii ''tests.c'')" "idt s = idt_init addr tb" "length tb = 256" "\<forall>h. addr h \<noteq> 0"
  shows "\<exists>t. idt_test env s = Some (Returns PASS t) \<and> console_state.more t = console_state.more s"
proof -
  obtain t where t: "TEST_HEADER env ''idt_test'' 38 s = Some t" "console_state.more t = console_state.more s"
    using header_prints [OF assms(1-3), of 38] by auto
  have "gate_offset (idt_val (idt t ! i)) \<noteq> 0" if "i < 10" for i
    using that assms(4-6) console_more_idt [OF t(2)] by (simp add: idt_init_nth idt_gate_words)
  then have "idt_test_loop env [0..<10] PASS t = Some (Returns PASS t)" by (intro idt_test_loop_passes) (simp del: upt_rec_numeral)
  then show ?thesis using t by (simp add: idt_test_def del: upt_rec_numeral)
qed

lemma rtc_freq_invalid_passes:
  assumes "cursor_ok 24 s" "text_at (ram s) (literal env ''rtc_freq_invalid_test'') (ascii ''rtc_freq_invalid_test'')"
    and "text_at (ram s) (literal env ''tests.c'') (ascii ''tests.c'')" "w32 freq \<notin> (\<lambda>k. 2 ^ k) ` {1..10}"
  shows "\<exists>t. rtc_freq_invalid_test env freq s = Some (Returns PASS t) \<and> console_state.more t = console_state.more s"
proof -
  obtain t where t: "TEST_HEADER env ''rtc_freq_invalid_test'' 143 s = Some t" "console_state.more t = console_state.more s"
    using header_prints [OF assms(1-3), of 143] by auto
  have "load_le32 (list_view (le32_bytes (w32 freq))) 0 = w32 freq"
    by (rule le32_read) (simp add: le32_bytes_def)
  then have "rtc_write (Some (list_view (le32_bytes (w32 freq)))) 4 t = (-1, t)"
    using assms(4) legal_freq [of "w32 freq"] by (simp add: rtc_write_def Let_def)
  then show ?thesis using t by (simp add: rtc_freq_invalid_test_def)
qed

text \<open>The terminal accepts any count, so that the test that expects it to refuse 146 characters cannot pass.\<close>

lemma buffer_tests:
  assumes "cursor_ok 24 s" "text_at (ram s) (literal env ''tests.c'') (ascii ''tests.c'')"
  shows "text_at (ram s) (literal env ''buffer_test_overflow'') (ascii ''buffer_test_overflow'') \<Longrightarrow>
      \<exists>t. buffer_test_overflow env s = Some (Returns FAIL t)"
    and "text_at (ram s) (literal env ''buffer_test_underflow'') (ascii ''buffer_test_underflow'') \<Longrightarrow>
      \<exists>t. buffer_test_underflow env s = Some (Returns PASS t)"
  using header_prints [OF assms(1) _ assms(2), of "''buffer_test_overflow''" 98] header_prints [OF assms(1) _ assms(2), of "''buffer_test_underflow''" 115]
  by (auto simp: buffer_test_overflow_def buffer_test_underflow_def terminal_write_def Let_def)

lemma check_bad_input_passes:
  assumes "read_dentry_by_name (fs s) (list_view (ascii ''troll'')) = (-1, None)" "boot_nent (fs s) < 65" "boot_nnod (fs s) \<le> 65"
  shows "check_bad_input s = Some (Returns PASS s)"
  using assms by (simp add: check_bad_input_def Let_def read_dentry_by_index_def read_data_def file_open_def PASS_def FAIL_def)

section \<open>The listing of the directory\<close>

text \<open>The current process lists the image from entry \<open>i\<close> on through its descriptor 0, and printing leaves the image alone.\<close>

definition lists :: "nat \<Rightarrow> cptr \<Rightarrow> nat \<Rightarrow> 'a process_state_scheme \<Rightarrow> bool" where
  "lists k img i s \<longleftrightarrow> get_pcb s = Some k \<and> k < length (curr_pcb s) \<and> file_desc_tb (curr_pcb s ! k) \<noteq> [] \<and>
     file_position (file_desc_tb (curr_pcb s ! k) ! 0) = of_nat i \<and> same_image img (fs s) \<and> on_screen s \<and>
     (\<forall>j < image_size img. boot s + of_nat j \<notin> screen_bytes)"

lemma lists_console:
  assumes "lists k img i s" "console_state.more t = console_state.more s" "on_screen t" "\<And>a. a \<notin> screen_bytes \<Longrightarrow> ram t a = ram s a"
  shows "lists k img i t"
proof -
  have "boot t = boot s \<and> curr_pcb t = curr_pcb s \<and> esp t = esp s" using assms(2) by (cases s; cases t) simp
  then show ?thesis using assms(1,3,4) by (auto simp: lists_def get_pcb_def same_image_def fs_def view_def)
qed

lemma lists_put: "lists k img i s \<Longrightarrow> 0x09 \<notin> set cs \<Longrightarrow> lists k img i (fold putc_term cs s)"
proof (rule lists_console)
  assume "lists k img i s" "0x09 \<notin> set cs"
  then show "on_screen (fold putc_term cs s)" "\<And>a. a \<notin> screen_bytes \<Longrightarrow> ram (fold putc_term cs s) a = ram s a"
    using fold_putc_term [of s cs] by (simp_all add: lists_def)
  show "console_state.more (fold putc_term cs s) = console_state.more s" by (induction cs arbitrary: s) simp_all
qed

lemma lists_clear: "lists k img i s \<Longrightarrow> lists k img i (clear s)"
  by (rule lists_console) (simp_all add: clear_mem, simp_all add: clear_def lists_def on_screen_def)

lemma dir_read_lists:
  assumes "lists k img i s" "image_wf img" "i \<le> unat (boot_nent img)"
  shows "\<exists>t. dir_read 0 32 s = Some (int (length (entry_name (boot_dirs img i))), take 32 (entry_name (boot_dirs img i) @ [0]), t) \<and>
    lists k img (Suc i) t \<and> abs_term t = abs_term s"
proof -
  let ?d = "boot_dirs img i"
  have n: "unat (boot_nent img) \<le> 62" using assms(2) by (simp add: image_wf_def)
  then have u: "unat (of_nat i :: u32) = i" using assms(3) by (simp add: unat_of_nat)
  then have r: "read_dentry_by_index (fs s) (of_nat i) = (0, Some ?d)"
    using read_dentry_by_index_same [of img "fs s" "of_nat i"] assms by (simp add: lists_def word_le_nat_alt)
  then have "dir_read 0 32 s = Some (int (length (entry_name ?d)), take 32 (entry_name ?d @ [0]),
      set_pcb k (set_fd 0 (\<lambda>f. f\<lparr>file_position := file_position f + 1\<rparr>)) s)"
    using assms(1) r by (simp add: lists_def dir_read_def pcb_of_def dir_copy_32)
  then show ?thesis using assms(1)
    by (simp add: lists_def set_pcb_def set_fd_def get_pcb_def fs_def abs_term_def on_screen_def char_at_def add.commute)
qed

lemma dir_read_lists_end:
  assumes "lists k img (Suc (unat (boot_nent img))) s" "image_wf img"
  shows "dir_read 0 32 s = Some (-1, [], s)"
proof -
  have "unat (boot_nent img) \<le> 62" using assms(2) by (simp add: image_wf_def)
  then have "unat (of_nat (Suc (unat (boot_nent img))) :: u32) = Suc (unat (boot_nent img))" by (simp add: unat_of_nat del: of_nat_Suc)
  then have "boot_nent img < of_nat (Suc (unat (boot_nent img)))" by (simp only: word_less_nat_alt)
  then have "read_dentry_by_index (fs s) (of_nat (Suc (unat (boot_nent img)))) = (-1, None)"
    using boot_same(1) [of img "fs s"] assms by (simp only: read_dentry_by_index_def lists_def if_True)
  then show ?thesis using assms(1) by (simp add: lists_def dir_read_def pcb_of_def del: of_nat_Suc)
qed

lemma fold_take: "n \<le> length xs \<Longrightarrow> fold (\<lambda>i. f (xs ! i)) [0..<n] s = fold f (take n xs) s"
  by (induction n) (simp_all add: take_Suc_conv_app_nth)

text \<open>The lines of the listing: a line for every entry, and an empty one for the entry behind the last.\<close>

definition listing :: "cptr \<Rightarrow> nat \<Rightarrow> byte list" where
  "listing img i = concat (map (\<lambda>j. entry_name (boot_dirs img j) @ [0x0A]) [i..<Suc (unat (boot_nent img))])"

lemma list_all_files_runs:
  assumes "lists k img i s" "image_wf img" "i \<le> Suc (unat (boot_nent img))" "0x09 \<notin> set (listing img i)"
  shows "\<exists>t. do { (n, bs, s) \<leftarrow> dir_read 0 32 s; list_all_files_loop n (bs @ drop (length bs) buf) s } = Some t \<and>
    abs_term t = fold aterm_put (listing img i) (abs_term s)"
  using assms
proof (induction "Suc (unat (boot_nent img)) - i" arbitrary: i s buf)
  case 0
  then have "i = Suc (unat (boot_nent img))" by simp
  then show ?case using dir_read_lists_end [of k img s] 0 by (simp add: listing_def list_all_files_loop.simps)
next
  case (Suc d)
  let ?nm = "entry_name (boot_dirs img i)"
  have i: "i \<le> unat (boot_nent img)" using Suc.hyps(2) by simp
  then have l: "listing img i = (?nm @ [0x0A]) @ listing img (Suc i)" by (simp add: listing_def upt_conv_Cons del: upt_Suc)
  obtain t where t: "dir_read 0 32 s = Some (int (length ?nm), take 32 (?nm @ [0]), t)" "lists k img (Suc i) t" "abs_term t = abs_term s"
    using dir_read_lists [OF Suc.prems(1,2) i] by auto
  let ?b = "take 32 (?nm @ [0]) @ drop (length (take 32 (?nm @ [0]))) buf" and ?u = "putc_term 0x0A (fold putc_term ?nm t)"
  have f: "fold (\<lambda>i. putc_term (?b ! i)) [0..<nat (int (length ?nm))] t = fold putc_term ?nm t"
    using fold_take [of "length ?nm" ?b putc_term t] length_entry_name [of img i] by simp
  have u: "?u = fold putc_term (?nm @ [0x0A]) t" by simp
  have tab: "0x09 \<notin> set (?nm @ [0x0A])" "0x09 \<notin> set (listing img (Suc i))" using Suc.prems(4) l by auto
  have ul: "lists k img (Suc i) ?u" unfolding u by (rule lists_put [OF t(2) tab(1)])
  have ua: "abs_term ?u = fold aterm_put (?nm @ [0x0A]) (abs_term s)"
    using fold_putc_term [of t "?nm @ [0x0A]"] tab(1) t(2,3) unfolding u by (simp add: lists_def)
  have "\<exists>v. do { (n, bs, s) \<leftarrow> dir_read 0 32 ?u; list_all_files_loop n (bs @ drop (length bs) ?b) s } = Some v \<and>
      abs_term v = fold aterm_put (listing img (Suc i)) (abs_term ?u)"
    using Suc.hyps(2) i by (intro Suc.hyps(1) ul Suc.prems(2) tab(2)) simp_all
  moreover have "list_all_files_loop (int (length ?nm)) ?b t =
      do { (n, bs, s) \<leftarrow> dir_read 0 32 ?u; list_all_files_loop n (bs @ drop (length bs) ?b) s }"
    using f by (subst list_all_files_loop.simps) (simp add: Let_def)
  ultimately show ?case using t(1) l ua by simp
qed

text \<open>C31. The test that lists the files ends: it prints the name of every entry of the directory on a line of its own, and an
  empty line for the entry behind the last, which the lookup by index accepts. The file system must have a well-formed image
  (theory \<open>Image\<close>; names of 1 to 32 bytes, known types, existing inodes and blocks, an unnamed entry behind the last, as
  the image of the sources has them) in the kernel's page, with no tab in a name; the cursor must be on the screen, and the
  test runs on the stack of a process whose first descriptor is at position 0.\<close>

theorem list_all_files_test_ends:
  assumes "get_pcb s = Some k" "k < length (curr_pcb s)" "file_desc_tb (curr_pcb s ! k) \<noteq> []"
    and "file_position (file_desc_tb (curr_pcb s ! k) ! 0) = 0" "on_screen s" "image_wf img" "same_image img (fs s)"
    and "image_home img (boot s)" "0x09 \<notin> set (listing img 0)"
  shows "\<exists>t. list_all_files_test buf s = Some (Returns PASS t) \<and>
    abs_term t = fold aterm_put (concat (map (\<lambda>j. entry_name (boot_dirs img j) @ [0x0A]) [0..<unat (boot_nent img)]) @ [0x0A])
      (abs_term (clear s))"
proof -
  have "lists k img 0 s" using assms image_home_apart(1) [where k = 0] by (simp add: lists_def)
  then obtain t where "do { (n, bs, s) \<leftarrow> dir_read 0 32 (clear s); list_all_files_loop n (bs @ drop (length bs) buf) s } = Some t"
      "abs_term t = fold aterm_put (listing img 0) (abs_term (clear s))"
    using list_all_files_runs [OF lists_clear, of k img 0 s buf] assms(6,9) by auto
  moreover have "listing img 0 = concat (map (\<lambda>j. entry_name (boot_dirs img j) @ [0x0A]) [0..<unat (boot_nent img)]) @ [0x0A]"
    using assms(6) by (simp add: listing_def image_wf_def)
  ultimately show ?thesis by (auto simp: list_all_files_test_def split: bind_splits)
qed

theorem list_all_files_test_ends_witness:
  "\<exists>t. list_all_files_test [] (user_kernel dir_image []) = Some (Returns PASS t) \<and>
    abs_term t = fold aterm_put [0x2E, 0x0A, 0x0A] (abs_term (clear (user_kernel dir_image [])))"
proof -
  let ?s = "user_kernel dir_image []"
  have r: "runs 0 64 0x8100000 dir_image [] ([], ?s)" by (intro user_kernel_runs dir_image_wf) (simp_all add: dir_image_small)
  have n: "entry_name (boot_dirs dir_image 0) = [0x2E]" "entry_name (boot_dirs dir_image 1) = []" unfolding entry_name_def dir_image_fields by simp_all
  have esp: "esp ?s = 0x7FFF00"
    by (simp add: user_kernel_def set_pcb_def running_kernel_def map_program_def Let_def page_init_def pageEnable_def spawnDir_def flushTLB_def chgDir_def)
  have pcb: "file_position (file_desc_tb (curr_pcb ?s ! 0) ! 0) = 0"
    by (simp add: user_kernel_def set_pcb_def running_kernel_def new_pcb_def MAX_PROCESSES_def Let_def set_fd_def blank_pcb_def blank_fd_def)
  have "pcbs_ok 1 (curr_pcb ?s)" using r by (simp add: runs_def stack_ok_def)
  then have "length (curr_pcb ?s) = 6" "pcb_ok 0 1 (curr_pcb ?s ! 0)" by (simp_all add: pcbs_ok_def)
  then have "0 < length (curr_pcb ?s)" "length (file_desc_tb (curr_pcb ?s ! 0)) = 8" by (simp_all add: pcb_ok_def fds_ok_def)
  then have "0 < length (curr_pcb ?s)" "file_desc_tb (curr_pcb ?s ! 0) \<noteq> []" by auto
  moreover have "get_pcb ?s = Some 0" by (simp add: get_pcb_def esp fs_8KB_def Let_def)
  moreover have "on_screen ?s" "same_image dir_image (fs ?s)" "image_home dir_image (boot ?s)"
    using r by (simp_all add: runs_def)
  moreover have "0x09 \<notin> set (listing dir_image 0)" using n by (simp add: listing_def dir_image_fields)
  ultimately have "\<exists>t. list_all_files_test [] ?s = Some (Returns PASS t) \<and>
      abs_term t = fold aterm_put (concat (map (\<lambda>j. entry_name (boot_dirs dir_image j) @ [0x0A]) [0..<unat (boot_nent dir_image)]) @ [0x0A])
        (abs_term (clear ?s))"
    using pcb dir_image_wf by (intro list_all_files_test_ends)
  then show ?thesis by (simp add: dir_image_fields n)
qed

section \<open>Refused calls\<close>

lemma blah_literal:
  fixes bs :: "byte list"
  defines "blah \<equiv> list_view (ascii ''blah'' @ 0 # bs)"
  assumes "28 \<le> length bs"
  shows "cstr_take (list_view (command_name blah)) 32 = ascii ''blah''" "\<exists>as. command_args blah = Some as"
proof -
  have w: "ascii ''blah'' = [0x62, 0x6C, 0x61, 0x68]" by (simp add: ascii_def)
  have "first_word (ascii ''blah'') = ascii ''blah''" by (simp add: w first_word_def)
  moreover have "cstr_take (list_view (command_name blah)) 32 = first_word (ascii ''blah'')"
    unfolding blah_def by (rule command_name_word [of _ bs]) (use assms(2) in \<open>simp_all add: w list_view_def\<close>)
  ultimately show "cstr_take (list_view (command_name blah)) 32 = ascii ''blah''" by simp
  show "\<exists>as. command_args blah = Some as"
    using skip_spaces_list [of "ascii ''blah'' @ 0 # bs" "cmd_scan blah 0"] by (auto simp: command_args_def Let_def blah_def)
qed

text \<open>C40. \<open>check_bad_input_2\<close> passes on every kernel that runs a process and has no file
  \<open>blah\<close>: the program is refused without an effect, so are the addresses below and above the program
  page, and the one inside it gets the address of the video memory.\<close>

theorem check_bad_input_2_passes:
  assumes "stack_ok (Suc k) s" "snd (read_dentry_by_name (fs s) (list_view (ascii ''blah''))) = None" "28 \<le> length bs"
  shows "check_bad_input_2 shell (list_view (ascii ''blah'' @ 0 # bs)) s =
    Some (Returns PASS (s\<lparr>ram := written (ram s) (program_frame k + 0x1000) (le32_bytes 0x84B8000)\<rparr>))"
proof -
  let ?b = "list_view (ascii ''blah'' @ 0 # bs)"
  have s: "pcbs_ok (Suc k) (curr_pcb s)" "Suc k \<le> 6" "kernel_space s" "pageDir s ! 32 = program_entry (program_frame k)"
    using assms(1) by (simp_all add: stack_ok_def mapped_top_def program_frame_def mult.commute)
  obtain as where "command_args ?b = Some as" using blah_literal(2) [OF assms(3)] by blast
  moreover have "ascii ''blah'' \<noteq> []" "take 4 (ascii ''blah'') \<noteq> ascii ''quit''" by (simp_all add: ascii_def)
  ultimately have "sys_execute shell ?b s = Some (Ret (-1), s)"
    using execute_named [OF blah_literal(1) [OF assms(3)] _ _ _ s(1,2)] assms(2) by (simp add: sys_execute_def)
  moreover have "sys_vidmap (MB_128 - KB_4) s = Some (-1, s)" "sys_vidmap (MB_132 + KB_4) s = Some (-1, s)"
    by (simp_all add: sys_vidmap_def MB_128_def MB_132_def KB_4_def)
  moreover have "vstore (le32_bytes 0x84B8000) (MB_128 + of_nat 4096) s =
      Some (s\<lparr>ram := written (ram s) (program_frame k + of_nat 4096) (le32_bytes 0x84B8000)\<rparr>)"
    using s(2) by (intro vstore_program [OF s(3,4)]) (simp_all add: le32_bytes_def)
  then have "sys_vidmap (MB_128 + KB_4) s = Some (0, s\<lparr>ram := written (ram s) (program_frame k + 0x1000) (le32_bytes 0x84B8000)\<rparr>)"
    by (simp add: sys_vidmap_def MB_128_def MB_132_def MB_4_def KB_4_def)
  ultimately show ?thesis by (simp add: check_bad_input_2_def)
qed

theorem check_bad_input_2_passes_witness:
  "\<exists>t. check_bad_input_2 (list_view []) (list_view (ascii ''blah'' @ 0 # replicate 28 0)) (user_kernel dir_image []) = Some (Returns PASS t)"
proof -
  let ?s = "user_kernel dir_image []"
  have "runs 0 64 0x8100000 dir_image [] ([], ?s)" by (intro user_kernel_runs dir_image_wf) (simp_all add: dir_image_small)
  then have s: "stack_ok (Suc 0) ?s" "same_image dir_image (fs ?s)" by (simp_all add: runs_def)
  have "image_node dir_image (ascii ''blah'') = None" by (simp add: dir_image_other ascii_def)
  then have "snd (read_dentry_by_name (fs ?s) (list_view (ascii ''blah''))) = None"
    by (simp add: image_node_def read_dentry_by_name_same [OF s(2) dir_image_wf])
  then show ?thesis using check_bad_input_2_passes [OF s(1), of "replicate 28 0" "list_view []"] by simp
qed

section \<open>Tests that do not return\<close>

text \<open>Reading lines never ends: the loop has no exit, whatever is typed, and nothing that follows it runs.\<close>

definition keys_left :: "byte list \<times> irq list \<times> 'a keyboard_state_scheme \<Rightarrow> nat" where
  "keys_left = (\<lambda>(buf, evs, s). 2 * length evs + (if enterpress s \<noteq> 0 then 1 else 0))"

lemma terminal_write_enter: "enterpress (snd (terminal_write p n s)) = enterpress s"
proof -
  have "enterpress (fold (\<lambda>i. putc_term (f i)) xs s) = enterpress s" for f :: "nat \<Rightarrow> byte" and xs and s :: "'a keyboard_state_scheme"
    by (induction xs arbitrary: s) simp_all
  then show ?thesis by (simp add: terminal_write_def Let_def sti_def cli_def split: option.split)
qed

lemma spin_uses: "spin f h evs s = Some (rest, t) \<Longrightarrow> \<not> f s \<Longrightarrow> length rest < length evs"
  by (cases evs) (auto split: if_splits dest!: spin_done)

lemma terminal_read_round_uses: "terminal_read_round dev x = Some y \<Longrightarrow> keys_left y < keys_left x"
proof -
  obtain buf evs s where x: "x = (buf, evs, s)" by (cases x)
  assume "terminal_read_round dev x = Some y"
  then obtain rest u where u: "spin (\<lambda>s. enterpress s \<noteq> 0) (isr dev) evs (sti s) = Some (rest, u)" "fst (snd y) = rest" "enterpress (snd (snd y)) = 0"
    by (auto simp: x terminal_read_round_def terminal_read_def terminal_write_enter Let_def cli_def split: option.splits)
  obtain used where used: "evs = used @ rest" using spin_done [OF u(1)] by auto
  moreover have "used \<noteq> []" if "enterpress s = 0"
  proof
    assume "used = []"
    then have "length evs \<le> length rest" using used by simp
    then show False using spin_uses [OF u(1)] that by (simp add: sti_def)
  qed
  ultimately show ?thesis using u(2,3) by (cases y) (auto simp: keys_left_def x)
qed

lemma terminal_read_loop_never: "terminal_read_loop dev x = None"
proof (induction x rule: measure_induct_rule [of keys_left])
  case (less x)
  then show ?case using terminal_read_round_uses [of dev x]
    by (subst terminal_read_loop.simps) (simp split: bind_splits)
qed

lemma launch_tests_never: "launch_tests env dev buf evs s = None"
  by (simp add: launch_tests_def terminal_read_test_def terminal_read_loop_never split: bind_splits option.split)

text \<open>The vector that assertions use has no present gate: what they raise is exception 11.\<close>

lemma assertion_raises:
  "idt s = idt_init addr tb \<Longrightarrow> length tb = 256 \<Longrightarrow> assertion_failure env s = raise_vector env 0 11 s"
  by (simp add: assertion_failure_def int_n_def Let_def idt_init_nth idt_gate_words)

section \<open>The page fault\<close>

text \<open>C36. Reading address 0 in the kernel, which \<open>page_fault\<close> does, is a page fault and stops the
  system: with the paging of \<open>page_init\<close> the first page is not mapped, the fault goes through gate 14 of
  the table of \<open>idt_init\<close> to its handler, which prints the error code 0 of a read of a missing page and
  the address 0, and never returns, so that the test gives no result.\<close>

theorem page_fault_stops:
  assumes "cursor_ok 24 s" "text_at (ram s) (literal env ''page_fault'') (ascii ''page_fault'')"
    and "text_at (ram s) (literal env ''tests.c'') (ascii ''tests.c'')" "kernel_space s"
    and "idt s = idt_init addr tb" "length tb = 256" "code_at env (addr (exceptions ! 14)) = exceptions ! 14"
    and "length (pushed_regs env) = 8" "pushed_stack env = 0 # stk"
  shows "\<exists>t. page_fault env s =
      Some (Stops (fold putc (ascii ''Page Fault exception code is 0 attempting to access 0'' @ [0x0A]) t)) \<and>
    console_state.more t = console_state.more s"
proof -
  obtain t where t: "TEST_HEADER env ''page_fault'' 84 s = Some t" "console_state.more t = console_state.more s"
    using header_prints [OF assms(1-3), of 84] by auto
  let ?f = "ascii ''size of unions: ''"
  have "fmt_text (\<lambda>i. if i < length [4, 4 :: u32] then [4, 4] ! i else 0) 0 (ascii (''size of unions: %d, %d'' @ nl)) =
      Some (?f @ dec_text 4 @ [0x2C, 0x20] @ dec_text 4 @ [0x0A])"
  proof -
    have "ascii (''size of unions: %d, %d'' @ nl) = ?f @ [0x25, 0x64, 0x2C, 0x20, 0x25, 0x64, 0x0A]" by (simp add: ascii_def nl_def)
    moreover have "0 \<notin> set ?f" "0x25 \<notin> set ?f" by (simp_all add: ascii_def)
    ultimately show ?thesis by (simp only:) (simp add: fmt_text_append)
  qed
  note size = say_text [OF this, of "stack_junk env" t]
  define u where "u = fold putc (?f @ dec_text 4 @ [0x2C, 0x20] @ dec_text 4 @ [0x0A]) t"
  have u: "console_state.more u = console_state.more s" unfolding u_def fold_putc_more by (rule t(2))
  have e: "page_walk u = page_walk s" "idt u = idt s" using console_more_walk [OF u] console_more_idt [OF u] by simp_all
  have "page_walk s False False 0 = None"
    using kernel_space_walk [OF assms(4), of 0 False False] boot_space_ranges [of False 0] by simp
  moreover have "code_at env (gate_offset (idt_val (idt u ! 14))) = exceptions ! 14"
    using assms(5-7) e(2) by (simp add: idt_init_nth idt_gate_words)
  moreover have "ascii ''Page Fault exception code is 0 attempting to access 0'' @ [0x0A] =
      ascii ''Page Fault exception code is '' @ dec_text 0 @ ascii '' attempting to access '' @ num_text 16 0 @ [0x0A]"
    by (simp add: ascii_def dec_text_def num_text_def number_digits_def digit_char_def)
  ultimately have "page_fault env s = Some (Stops (fold putc (ascii ''Page Fault exception code is 0 attempting to access 0'' @ [0x0A]) u))"
    using page_fault_report [OF assms(8), of "stack_junk env" 0 "pushed_flags env" 0 stk u] assms(9) t(1) size e(1)
    by (simp only: page_fault_def u_def [symmetric] raise_vector_def Option.bind.simps option.case option.map stuck.case)
  then show ?thesis using u by blast
qed

text \<open>A kernel after \<open>page_init\<close> and \<open>idt_init\<close>, with the two strings in its memory.\<close>

definition test_strings :: "byte list" where
  "test_strings = [0x70, 0x61, 0x67, 0x65, 0x5F, 0x66, 0x61, 0x75, 0x6C, 0x74, 0, 0x74, 0x65, 0x73, 0x74, 0x73, 0x2E, 0x63, 0]"

definition test_kernel :: boot_state where
  "test_kernel = (page_init boot_kernel)\<lparr>ram := (\<lambda>a. list_view test_strings (unat (a - 0x500000))),
     idt := idt_init (\<lambda>h. 0x400100) (replicate 256 blank_gate)\<rparr>"

definition test_setting :: test_env where
  "test_setting = \<lparr>stack_junk = (\<lambda>a. 0), literal = (\<lambda>w. if w = ''tests.c'' then 0x50000B else 0x500000), code_at = (\<lambda>a. exceptions ! 14),
     pushed_regs = replicate 8 0, pushed_flags = 2, pushed_stack = [0]\<rparr>"

lemma test_kernel_strings:
  assumes "0 \<notin> set w" "off + length w < length test_strings" "take (Suc (length w)) (drop off test_strings) = w @ [0]"
  shows "text_at (ram test_kernel) (0x500000 + of_nat off) w"
  unfolding text_at_def
proof (intro conjI allI impI)
  fix i
  assume i: "i \<le> length w"
  have l: "length test_strings = 19" by (simp add: test_strings_def)
  have "(w @ [0]) ! i = take (Suc (length w)) (drop off test_strings) ! i" using assms(3) by simp
  also have "\<dots> = test_strings ! (off + i)" using assms(2) i by (simp add: l)
  finally show "ram test_kernel (0x500000 + word_of_nat off + word_of_nat i) = (w @ [0]) ! i"
    using assms(2) i by (simp add: test_kernel_def list_view_def unat_of_nat flip: of_nat_add) (simp add: l)
  have "unat (0x500000 + word_of_nat off + word_of_nat i - VIDEO) = 4489216 + off + i"
    using assms(2) i l by (simp add: VIDEO_def unat_word_ariths unat_of_nat)
  then show "\<not> video_window (0x500000 + word_of_nat off + word_of_nat i)" by (simp add: video_window_def in_range_def)
qed (use assms(1) in simp)

theorem page_fault_stops_witness:
  "\<exists>t. page_fault test_setting test_kernel = Some (Stops t)"
proof -
  have "text_at (ram test_kernel) (literal test_setting ''page_fault'') (ascii ''page_fault'')"
    using test_kernel_strings [of "ascii ''page_fault''" 0] by (simp add: test_setting_def test_strings_def ascii_def)
  moreover have "text_at (ram test_kernel) (literal test_setting ''tests.c'') (ascii ''tests.c'')"
    using test_kernel_strings [of "ascii ''tests.c''" 11] by (simp add: test_setting_def test_strings_def ascii_def)
  moreover have "cursor_ok 24 test_kernel" by (simp add: cursor_ok_def test_kernel_def page_init_rest boot_kernel_fields)
  moreover have "kernel_space test_kernel"
    using kernel_space_page_init [OF boot_kernel_paging] kernel_space_cong(1) [of test_kernel "page_init boot_kernel"] by (simp add: test_kernel_def)
  ultimately show ?thesis
    using page_fault_stops [of test_kernel test_setting "\<lambda>h. 0x400100" "replicate 256 blank_gate" "[]"]
    by (auto simp: test_kernel_def test_setting_def)
qed

end
