(* ===== verification/Spec2Isabelle.thy ===== *)
theory Spec2Isabelle
  imports LibMem LibStr Console Printf Pic Rtc Keyboard Interrupts Terminal Paging Filesystem Process Syscall Execute
    Nested Kernel Descriptors Idt Pit Boot Image UserLib UserProgs UserSpec UserKernel Syserr UserErrors Echo LineSpec UserInput Session
    Blink Fish BlinkBytes FishKernel Sigtest Emulate Ports Tss Startup Tests
begin

text \<open>
  LumettaOS is a small 32-bit x86 kernel in C with some assembly (\<^verbatim>\<open>src/student-distrib\<close>), and programs that
  run on it (\<^verbatim>\<open>src/syscalls\<close>, \<^verbatim>\<open>src/fish\<close>). This development models both and proves what makes them
  correct, from single routines up to the behaviour of programs whose system calls the kernel serves.

  \<^bold>\<open>The program.\<close> The boot loader passes a read-only file system image to \<open>entry\<close>, which sets up the
  descriptor tables, the interrupt controllers, the clock, the keyboard and paging and executes the
  shell. A program runs in one 4 MiB page at 128 MiB and enters the kernel through interrupt 0x80.
  \<open>sys_execute\<close> loads a file into the frame of a free process and starts it; \<open>sys_halt\<close> returns to the
  process that started it, so that the at most six processes form a stack. A process has a control block
  at the bottom of its 8 KiB kernel stack, with eight file descriptors that select the operations of
  the terminal, the clock, the directory or a file. Reading the terminal or the clock waits for
  interrupts. The console is the text mode video memory.

  \<^bold>\<open>The model.\<close> The state is a record that grows along the import chain: \<open>machine\<close> (log of port accesses,
  interrupt flag, memory), \<open>console_state\<close>, \<open>pic_state\<close>, \<open>rtc_state\<close>, \<open>keyboard_state\<close>, \<open>paging_state\<close>,
  \<open>process_state\<close>; each operation is polymorphic in what lies beyond its own fields. Memory is a function
  from 32-bit addresses to bytes; C integers are words, or \<open>int\<close> where the code is signed and stays
  small. A device is a function from the log and a port to the byte that a read yields. Errors are
  the return values of the code; \<open>None\<close> is a fault, a jump to unknown code or a loop that does not end.

  The control blocks, the page directory and the page table are fields of the record and not bytes of the memory, although
  they lie in the kernel's own page of 4 to 8 MiB. The code does not check the pointers that programs pass, so that a call
  of \<open>sys_read\<close> or \<open>sys_getargs\<close> can overwrite them there. The model does not follow such calls: an access through a pointer
  of a program that reaches the kernel's page is \<open>None\<close> (\<open>vwalk\<close>, \<open>vstore\<close>, \<open>vreads\<close> of theory \<open>Syscall\<close>), and the claims on
  processes say that they leave it out. Any other access of the kernel through such a pointer goes through \<open>page_walk\<close>; it
  is a fault when a byte is not mapped, for reads as for stores. \<open>page_walk\<close> yields nothing while a translation may be stale,
  that is between \<open>chgDir\<close> and \<open>flushTLB\<close>.

  \<^item> \<open>Prelude\<close>: words, pointers as views of memory, ranges of bytes. \<open>Machine\<close>, \<open>Ports\<close>: \<^verbatim>\<open>lib.h\<close>, waiting for interrupts.
  \<^item> \<open>LibMem\<close>, \<open>LibStr\<close>, \<open>Console\<close>, \<open>Printf\<close>: \<^verbatim>\<open>lib.c\<close>. The assembly loops of \<open>memset\<close>, \<open>memcpy\<close> and \<open>memmove\<close> are equal to
    one-line references; \<open>itoa\<close> can be read back; \<open>puts_term\<close> implements an abstract scrolling grid.
  \<^item> \<open>Pic\<close>, \<open>Rtc\<close>, \<open>Keyboard\<close>, \<open>Interrupts\<close>, \<open>Pit\<close>, \<open>Terminal\<close>: the drivers \<^verbatim>\<open>i8259.c\<close>, \<^verbatim>\<open>rtc.c\<close>, \<^verbatim>\<open>keyboard.c\<close>, \<^verbatim>\<open>pit.c\<close>,
    \<^verbatim>\<open>terminal.c\<close> and the dispatch of interrupts. Which lines are open, the pace of the virtual clock, the
    bounds of the line buffer, and that a typed line is what a read returns.
  \<^item> \<open>Paging\<close>: \<^verbatim>\<open>paging.c\<close> with the translation of the processor; what a program can reach and what the kernel can.
  \<^item> \<open>Descriptors\<close>, \<open>Idt\<close>, \<open>Boot\<close>, \<open>Tss\<close>, \<open>Startup\<close>: \<^verbatim>\<open>x86_desc.h\<close>, \<^verbatim>\<open>idt.c\<close>, \<^verbatim>\<open>kernel.c\<close>, \<^verbatim>\<open>boot.S\<close>, \<^verbatim>\<open>x86_desc.S\<close>. The gates that
    programs may use, the report of faults, that booting from the first instruction of the kernel ends in the first program,
    with which segments, and where the processor finds each field of the task state segment. Interrupts arrive during the
    boot from \<open>rtc_init\<close> on, after each call of \<open>entry\<close>; messages after \<open>page_init\<close> go to cells that are mapped.
  \<^item> \<open>Filesystem\<close>, \<open>Process\<close>, \<open>Image\<close>: \<^verbatim>\<open>filesystem.c\<close>. Lookup, slices of files across scattered blocks, reading to
    the end, and what an image must satisfy: at most 62 entries, with names of 1 to 32 bytes, of known types, with existing
    inodes and blocks, and an unnamed entry behind the last; the image of the sources, \<^verbatim>\<open>filesys_img\<close>, is of this kind.
  \<^item> \<open>Syscall\<close>, \<open>Execute\<close>, \<open>Nested\<close>, \<open>Kernel\<close>: \<^verbatim>\<open>syscall.c\<close> and \<^verbatim>\<open>handler_wrapper.S\<close>. \<open>kernel_step\<close> is the kernel as a state
    machine; its invariant \<open>stack_ok\<close> is the stack of processes. Loading, arguments, the return of \<open>sys_halt\<close>.
  \<^item> \<open>UserLib\<close>, \<open>UserProgs\<close>, \<open>Syserr\<close>: the programs over a record \<open>usys\<close> of system calls. \<open>UserSpec\<close> and \<open>Syserr\<close> state
    what they rely on as locales; \<open>UserKernel\<close> and \<open>UserErrors\<close> interpret these on the kernel, so that \<open>cat\<close>, \<open>ls\<close>
    and \<open>syserr\<close> are shown to do their work on it.
  \<^item> \<open>Echo\<close>, \<open>LineSpec\<close>, \<open>UserInput\<close>: what the user sees while a line is typed, programs that read lines, and the sessions
    of \<open>hello\<close> on the kernel, with the interrupts of the keyboard arriving while it waits.
  \<^item> \<open>Session\<close>: calls of \<open>ece391_execute\<close> that run another program, from \<^verbatim>\<open>_start\<close> of \<^verbatim>\<open>ece391syscall.S\<close> to its halt, and the session of
    a shell in which the user types commands and runs programs.
  \<^item> \<open>Blink\<close>, \<open>Fish\<close>, \<open>BlinkBytes\<close>, \<open>FishKernel\<close>: \<^verbatim>\<open>blink.S\<close> and \<^verbatim>\<open>fish.c\<close>. The linked list of blinking characters implements a
    list of their states; on the kernel's mapping of the video memory the characters blink on the screen.
  \<^item> \<open>Sigtest\<close>: \<^verbatim>\<open>ece391sigtest.c\<close>, which cannot get beyond its store through NULL on a kernel without signals.
  \<^item> \<open>Emulate\<close>: \<^verbatim>\<open>ece391emulate.c\<close>, the calls under Linux, over a record of what Linux does. The parser of commands
    stays within its arrays, and a program gets back the words of its command line.
  \<^item> \<open>Tests\<close>: \<^verbatim>\<open>tests.c\<close>, the tests that call the functions of the kernel. Which pass on the model, which one cannot, that
    the listing of the files ends and the read of a missing page stops the kernel, and that the launcher never returns.

  \<^bold>\<open>Interfaces.\<close> Locales state what a component promises to its clients: \<open>byte_copy\<close> (copy routines),
  \<open>irq_controller\<close>, \<open>rtc_interrupts\<close> and \<open>key_interrupts\<close> (what the drivers need of the dispatcher), \<open>byte_file\<close>,
  \<open>op_table\<close> (operations behind a descriptor), \<open>output_calls\<close>, \<open>file_calls\<close>, \<open>line_calls\<close>, \<open>error_calls\<close> (system calls as
  programs see them), \<open>keeping_calls\<close> (calls that keep a property of the state), \<open>screen_memory\<close> (stores to
  the mapped video memory). Each is interpreted on the definitions of the model.

  \<^bold>\<open>Bounds and fuel.\<close> A waiting loop takes the list of the interrupts that arrive; theorems that it returns say which
  interrupts suffice. Loops that the code leaves unbounded are option-valued and shown to end. \<open>read_file\<close>
  takes as many rounds as the file has bytes and one more, which is enough because each read but the last
  yields at least one byte. A system call uses at most 8188 bytes of its 8 KiB stack (\<open>depth\<close>), so that the stack
  pointer stays with its control block. The buffers of programs are at most one page long. \<open>nsys\<close> counts the levels of
  programs that may be entered above the caller; the session of a shell needs one, and the kernel admits five.

  \<^bold>\<open>Not modelled.\<close> \<^verbatim>\<open>scheduling.c\<close> is empty and the macros of \<^verbatim>\<open>debug.h\<close> are not used. The copies of the user library in
  \<^verbatim>\<open>src/fish\<close> are those of \<^verbatim>\<open>src/syscalls\<close>. Addresses that the linker assigns are parameters.
  Linux below \<^verbatim>\<open>ece391emulate.c\<close> is a parameter. The instructions of a running program are not executed: a
  program is its C function, or, in \<open>kernel_step\<close>, any sequence of system calls and stores to its own page.
\<close>

end
